(* ===== verification/Prelude.thy ===== *)
theory Prelude
  imports Complex_Main "HOL-Library.Word" "HOL-Library.Sublist"
begin

text \<open>
  The vocabulary every component shares: byte strings, JSON values as
  \<open>json.loads\<close> returns them, Python's truth test, substring search and
  ASCII lower-casing, and the generic list lemmas the component proofs use.

  Strings are HOL strings; one character stands for one code point below 256.
  Text outside that range occurs in the source only in log lines, in messages
  and as the ellipsis of the two \<open>short hash\<close> helpers.
\<close>

named_theorems res_simps \<open>evaluation of results\<close>

type_synonym byte = "8 word"
type_synonym bytes = "8 word list"
type_synonym pubkey = "bytes"

section \<open>JSON values\<close>

text \<open>
  The values of decoded JSON bodies and of database documents. \<open>JDate\<close> is a
  \<open>datetime\<close> in microseconds since the epoch; it occurs in documents only.
\<close>

datatype json =
    JNull
  | JBool bool
  | JInt int
  | JFloat rat
  | JStr string
  | JList "json list"
  | JObj "(string \<times> json) list"
  | JDate int

text \<open>Python's \<open>bool(v)\<close> on a decoded JSON value.\<close>

fun truthy :: "json \<Rightarrow> bool" where
  "truthy JNull = False"
| "truthy (JBool b) = b"
| "truthy (JInt i) = (i \<noteq> 0)"
| "truthy (JFloat r) = (r \<noteq> 0)"
| "truthy (JStr s) = (s \<noteq> '''')"
| "truthy (JList xs) = (xs \<noteq> [])"
| "truthy (JObj kvs) = (kvs \<noteq> [])"
| "truthy (JDate t) = True"

text \<open>Python's \<open>a or b\<close>.\<close>

definition py_or :: "json \<Rightarrow> json \<Rightarrow> json" where
  "py_or a b = (if truthy a then a else b)"

text \<open>\<open>d.get(k)\<close> and \<open>k in d\<close> on a decoded object.\<close>

definition jget :: "(string \<times> json) list \<Rightarrow> string \<Rightarrow> json" where
  "jget d k = (case map_of d k of None \<Rightarrow> JNull | Some v \<Rightarrow> v)"

definition has_key :: "(string \<times> json) list \<Rightarrow> string \<Rightarrow> bool" where
  "has_key d k = (map_of d k \<noteq> None)"

fun json_type_name :: "json \<Rightarrow> string" where
  "json_type_name JNull = ''NoneType''"
| "json_type_name (JBool _) = ''bool''"
| "json_type_name (JInt _) = ''int''"
| "json_type_name (JFloat _) = ''float''"
| "json_type_name (JStr _) = ''str''"
| "json_type_name (JList _) = ''list''"
| "json_type_name (JObj _) = ''dict''"
| "json_type_name (JDate _) = ''datetime''"

text \<open>\<open>isinstance(v, int)\<close>: in Python a bool is an int.\<close>

fun json_int :: "json \<Rightarrow> int option" where
  "json_int (JInt i) = Some i"
| "json_int (JBool b) = Some (if b then 1 else 0)"
| "json_int _ = None"

section \<open>Strings\<close>

text \<open>\<open>str.lower\<close> on ASCII letters.\<close>

definition lower_char :: "char \<Rightarrow> char" where
  "lower_char c =
     (if 65 \<le> (of_char c :: nat) \<and> (of_char c :: nat) \<le> 90
      then char_of ((of_char c :: nat) + 32) else c)"

definition lower :: "string \<Rightarrow> string" where
  "lower s = map lower_char s"

text \<open>\<open>str.upper\<close> on ASCII letters.\<close>

definition upper_char :: "char \<Rightarrow> char" where
  "upper_char c =
     (let k = (of_char c :: nat) in if 97 \<le> k \<and> k \<le> 122 then char_of (k - 32) else c)"

definition upper :: "string \<Rightarrow> string" where
  "upper s = map upper_char s"

text \<open>\<open>needle in haystack\<close>.\<close>

fun str_in :: "string \<Rightarrow> string \<Rightarrow> bool" where
  "str_in m [] = (m = [])"
| "str_in m (c # s) = (prefix m (c # s) \<or> str_in m s)"

definition startswith :: "string \<Rightarrow> string \<Rightarrow> bool" where
  "startswith s p = prefix p s"

definition removeprefix :: "string \<Rightarrow> string \<Rightarrow> string" where
  "removeprefix s p = (if prefix p s then drop (length p) s else s)"

lemma str_in_prefix: "str_in m (m @ q)"
  by (cases "m @ q") (simp, metis prefix_def str_in.simps(2))

lemma str_in_append: "str_in m s \<Longrightarrow> str_in m (p @ s)"
  by (induction p) auto

lemma str_in_iff: "str_in m s \<longleftrightarrow> (\<exists>p q. s = p @ m @ q)"
proof
  show "str_in m s \<Longrightarrow> \<exists>p q. s = p @ m @ q"
  proof (induction s)
    case Nil
    then show ?case by simp
  next
    case (Cons c s)
    show ?case
    proof (cases "prefix m (c # s)")
      case True
      then show ?thesis by (metis append_Nil prefix_def)
    next
      case False
      with Cons show ?thesis by (metis append_Cons str_in.simps(2))
    qed
  qed
qed (auto intro: str_in_append str_in_prefix)

lemma lower_length [simp]: "length (lower s) = length s"
  by (simp add: lower_def)

lemma removeprefix_append [simp]: "removeprefix (p @ s) p = s"
  by (simp add: removeprefix_def)

section \<open>Lists\<close>

lemma take_drop_append [simp]:
  "length xs = n \<Longrightarrow> take n (xs @ ys) = xs"
  "length xs = n \<Longrightarrow> drop n (xs @ ys) = ys"
  by simp_all

lemma find_None_iff_all: "List.find P xs = None \<longleftrightarrow> (\<forall>x \<in> set xs. \<not> P x)"
  by (auto simp: find_None_iff)

lemma find_SomeD: "List.find P xs = Some x \<Longrightarrow> x \<in> set xs \<and> P x"
  by (auto simp: find_Some_iff)

end
