(* ===== verification/PyBytes.thy ===== *)
theory PyBytes
  imports Prelude
begin

text \<open>
  The byte-string operations of Python's standard library that the source
  uses: \<open>int.to_bytes\<close>, \<open>int.from_bytes\<close>, \<open>bytes.hex\<close>, \<open>binascii.unhexlify\<close>,
  \<open>bytes.rjust\<close> and negative slices; the prefix codecs built on them, as a
  locale with its interpretations; and their round trips.
\<close>

named_theorems byte_simps \<open>lengths and round trips of byte encodings\<close>

section \<open>Integers as bytes\<close>

text \<open>\<open>le_bytes n v\<close> is \<open>v mod 2 ^ (8 * n)\<close> as \<open>n\<close> little-endian bytes.\<close>

fun le_bytes :: "nat \<Rightarrow> nat \<Rightarrow> bytes" where
  "le_bytes 0 v = []"
| "le_bytes (Suc n) v = of_nat v # le_bytes n (v div 256)"

text \<open>\<open>int.from_bytes(bs, "little")\<close> and \<open>int.from_bytes(bs, "big")\<close>.\<close>

fun le_nat :: "bytes \<Rightarrow> nat" where
  "le_nat [] = 0"
| "le_nat (b # bs) = unat b + 256 * le_nat bs"

definition be_nat :: "bytes \<Rightarrow> nat" where
  "be_nat bs = le_nat (rev bs)"

text \<open>
  \<open>v.to_bytes(n, "little")\<close> and \<open>v.to_bytes(n, "big")\<close>: \<open>OverflowError\<close>, here
  \<open>None\<close>, for a negative value or one that does not fit.
\<close>

definition to_bytes_le :: "nat \<Rightarrow> int \<Rightarrow> bytes option" where
  "to_bytes_le n v = (if 0 \<le> v \<and> v < 2 ^ (8 * n) then Some (le_bytes n (nat v)) else None)"

definition to_bytes_be :: "nat \<Rightarrow> int \<Rightarrow> bytes option" where
  "to_bytes_be n v = map_option rev (to_bytes_le n v)"

lemma byte_bound: "unat (b :: byte) < 256"
  using unsigned_less [of b] by simp

lemma length_le_bytes [simp, byte_simps]: "length (le_bytes n v) = n"
  by (induction n arbitrary: v) auto

lemma unat_of_nat_byte: "unat (of_nat v :: byte) = v mod 256"
  by (simp add: unat_of_nat)

lemma le_nat_le_bytes: "le_nat (le_bytes n v) = v mod 256 ^ n"
proof (induction n arbitrary: v)
  case (Suc n)
  have "v mod 256 + 256 * (v div 256 mod 256 ^ n) = v mod (256 * 256 ^ n)"
    by (simp add: mod_mult2_eq)
  with Suc show ?case by (simp add: unat_of_nat_byte)
qed simp

lemma pow_256: "(256::nat) ^ n = 2 ^ (8 * n)"
  by (simp add: power_mult)

lemma le_nat_le_bytes_id [byte_simps]: "v < 2 ^ (8 * n) \<Longrightarrow> le_nat (le_bytes n v) = v"
  by (simp add: le_nat_le_bytes pow_256)

lemma le_nat_bound: "le_nat bs < 256 ^ length bs"
proof (induction bs)
  case (Cons b bs)
  have "unat b < 256" by (rule byte_bound)
  with Cons show ?case by simp
qed simp

lemma le_bytes_le_nat [byte_simps]: "le_bytes (length bs) (le_nat bs) = bs"
proof (induction bs)
  case (Cons b bs)
  have "unat b < 256" by (rule byte_bound)
  then have "(unat b + 256 * le_nat bs) div 256 = le_nat bs" by simp
  moreover have "(of_nat (unat b + 256 * le_nat bs) :: byte) = b"
  proof -
    have "(of_nat (256 * le_nat bs) :: byte) = of_nat 256 * of_nat (le_nat bs)"
      by (rule of_nat_mult)
    also have "(of_nat 256 :: byte) = 0" by simp
    finally show ?thesis by simp
  qed
  ultimately show ?case using Cons by simp
qed simp

lemma le_nat_append: "le_nat (xs @ ys) = le_nat xs + 256 ^ length xs * le_nat ys"
  by (induction xs) (auto simp: algebra_simps)

lemma le_nat_replicate_0 [simp]: "le_nat (replicate n 0) = 0"
  by (induction n) auto

lemma be_nat_bound: "be_nat bs < 256 ^ length bs"
  using le_nat_bound [of "rev bs"] by (simp add: be_nat_def)

lemma be_nat_zeros [simp]: "be_nat (replicate n 0 @ bs) = be_nat bs"
  by (simp add: be_nat_def le_nat_append)

lemma to_bytes_le_Some [byte_simps]:
  "0 \<le> v \<Longrightarrow> v < 2 ^ (8 * n) \<Longrightarrow> to_bytes_le n v = Some (le_bytes n (nat v))"
  by (simp add: to_bytes_le_def)

lemma to_bytes_le_None_iff: "to_bytes_le n v = None \<longleftrightarrow> v < 0 \<or> 2 ^ (8 * n) \<le> v"
  by (auto simp: to_bytes_le_def)

lemma to_bytes_be_length: "to_bytes_be n v = Some bs \<Longrightarrow> length bs = n"
  by (auto simp: to_bytes_be_def to_bytes_le_def split: if_splits)

lemma nat_less_pow: "0 \<le> v \<Longrightarrow> v < 2 ^ k \<Longrightarrow> nat v < 2 ^ k"
  by (simp add: nat_less_iff)

lemma to_bytes_le_roundtrip:
  "to_bytes_le n v = Some bs \<Longrightarrow> int (le_nat bs) = v \<and> length bs = n"
  by (auto simp: to_bytes_le_def le_nat_le_bytes_id nat_less_pow split: if_splits)

lemma to_bytes_be_roundtrip:
  "to_bytes_be n v = Some bs \<Longrightarrow> int (be_nat bs) = v \<and> length bs = n"
  by (auto simp: to_bytes_be_def be_nat_def dest: to_bytes_le_roundtrip)

section \<open>Hexadecimal text\<close>

text \<open>The digits \<open>bytes.hex\<close> emits and the ones \<open>unhexlify\<close> accepts.\<close>

definition hex_digit :: "nat \<Rightarrow> char" where
  "hex_digit n = char_of (if n < 10 then 48 + n else 87 + n)"

definition hex_value :: "char \<Rightarrow> nat option" where
  "hex_value c =
     (let k = (of_char c :: nat) in
      if 48 \<le> k \<and> k \<le> 57 then Some (k - 48)
      else if 97 \<le> k \<and> k \<le> 102 then Some (k - 87)
      else if 65 \<le> k \<and> k \<le> 70 then Some (k - 55)
      else None)"

fun to_hex :: "bytes \<Rightarrow> string" where
  "to_hex [] = []"
| "to_hex (b # bs) = hex_digit (unat b div 16) # hex_digit (unat b mod 16) # to_hex bs"

text \<open>\<open>binascii.unhexlify\<close>: \<open>None\<close> is \<open>binascii.Error\<close> (odd length, or a non-digit).\<close>

fun unhexlify :: "string \<Rightarrow> bytes option" where
  "unhexlify [] = Some []"
| "unhexlify [_] = None"
| "unhexlify (c # d # s) =
     (case (hex_value c, hex_value d, unhexlify s) of
        (Some h, Some l, Some bs) \<Rightarrow> Some (of_nat (16 * h + l) # bs)
      | _ \<Rightarrow> None)"

lemma hex_value_digit [simp]: "n < 16 \<Longrightarrow> hex_value (hex_digit n) = Some n"
  by (auto simp: hex_value_def hex_digit_def Let_def)

lemma hex_value_bound: "hex_value c = Some n \<Longrightarrow> n < 16"
  by (auto simp: hex_value_def Let_def split: if_splits)

lemma unhexlify_to_hex [simp, byte_simps]: "unhexlify (to_hex bs) = Some bs"
proof (induction bs)
  case (Cons b bs)
  have "unat b < 256" by (rule byte_bound)
  then have "unat b div 16 < 16" "unat b mod 16 < 16" by auto
  moreover have "16 * (unat b div 16) + unat b mod 16 = unat b" by simp
  ultimately show ?case using Cons by simp
qed simp

lemma length_to_hex [simp, byte_simps]: "length (to_hex bs) = 2 * length bs"
  by (induction bs) auto

lemma length_unhexlify: "unhexlify s = Some bs \<Longrightarrow> length s = 2 * length bs"
  by (induction s arbitrary: bs rule: unhexlify.induct) (auto split: option.splits)

lemma to_hex_append: "to_hex (xs @ ys) = to_hex xs @ to_hex ys"
  by (induction xs) auto

lemma to_hex_inj [simp]: "to_hex xs = to_hex ys \<longleftrightarrow> xs = ys"
  by (metis option.inject unhexlify_to_hex)

lemma to_hex_digits: "c \<in> set (to_hex bs) \<Longrightarrow> \<exists>n < 16. c = hex_digit n"
proof (induction bs)
  case (Cons b bs)
  have "unat b < 256" by (rule byte_bound)
  then have b: "unat b div 16 < 16" "unat b mod 16 < 16" by auto
  from Cons.prems consider "c = hex_digit (unat b div 16)" | "c = hex_digit (unat b mod 16)"
    | "c \<in> set (to_hex bs)" by auto
  then show ?case using b Cons.IH by cases blast+
qed simp

text \<open>Upper-case digits decode to the same byte.\<close>

lemma hex_value_lower: "hex_value (lower_char c) = hex_value c"
  by (auto simp: hex_value_def lower_char_def Let_def)

lemma unhexlify_lower: "unhexlify (lower s) = unhexlify s"
  by (induction s rule: unhexlify.induct) (auto simp: lower_def hex_value_lower)

text \<open>\<open>s.encode("utf-8")\<close> for characters that are code points below 256.\<close>

definition utf8_char :: "char \<Rightarrow> bytes" where
  "utf8_char c =
     (let k = (of_char c :: nat) in
      if k < 128 then [of_nat k] else [of_nat (192 + k div 64), of_nat (128 + k mod 64)])"

definition utf8 :: "string \<Rightarrow> bytes" where
  "utf8 s = concat (map utf8_char s)"

section \<open>Padding to 32 bytes\<close>

text \<open>\<open>bs.rjust(n, b"\x00")\<close> and \<open>bs[-n:]\<close>.\<close>

definition rjust0 :: "nat \<Rightarrow> bytes \<Rightarrow> bytes" where
  "rjust0 n bs = replicate (n - length bs) 0 @ bs"

definition last_n :: "nat \<Rightarrow> 'a list \<Rightarrow> 'a list" where
  "last_n n xs = (if n = 0 then xs else drop (length xs - n) xs)"

text \<open>\<open>bs.rjust(32, b"\x00")[-32:]\<close>, the idiom of four components.\<close>

definition pad32 :: "bytes \<Rightarrow> bytes" where
  "pad32 bs = last_n 32 (rjust0 32 bs)"

lemma length_pad32 [simp, byte_simps]: "length (pad32 bs) = 32"
  by (simp add: pad32_def last_n_def rjust0_def)

lemma pad32_id [simp, byte_simps]: "length bs = 32 \<Longrightarrow> pad32 bs = bs"
  by (simp add: pad32_def last_n_def rjust0_def)

lemma pad32_short: "length bs \<le> 32 \<Longrightarrow> pad32 bs = replicate (32 - length bs) 0 @ bs"
  by (simp add: pad32_def last_n_def rjust0_def)

lemma pad32_long: "32 \<le> length bs \<Longrightarrow> pad32 bs = drop (length bs - 32) bs"
  by (simp add: pad32_def last_n_def rjust0_def)

lemma pad32_value: "length bs \<le> 32 \<Longrightarrow> be_nat (pad32 bs) = be_nat bs"
  by (simp add: pad32_short)

lemma pad32_leading_zero: "length bs < 32 \<Longrightarrow> pad32 (0 # bs) = pad32 bs"
proof -
  assume "length bs < 32"
  then have "32 - length bs = Suc (32 - length (0 # bs))" by simp
  then have "replicate (32 - length bs) (0::byte) = replicate (32 - length (0 # bs)) 0 @ [0]"
    by (simp only: replicate_Suc replicate_append_same)
  with \<open>length bs < 32\<close> show ?thesis by (simp add: pad32_short)
qed

lemma pad32_prepend: "length bs = 32 \<Longrightarrow> pad32 (xs @ bs) = bs"
  by (simp add: pad32_long)

section \<open>Prefix codecs\<close>

text \<open>
  The wire formats of the source are concatenations. A codec encodes a value and
  decodes it from the front of a longer byte string, returning what is left.
\<close>

locale codec =
  fixes enc :: "'a \<Rightarrow> bytes"
    and dec :: "bytes \<Rightarrow> ('a \<times> bytes) option"
    and dom_ok :: "'a \<Rightarrow> bool"
  assumes dec_enc: "dom_ok x \<Longrightarrow> dec (enc x @ r) = Some (x, r)"
begin

lemma enc_inj: "dom_ok x \<Longrightarrow> dom_ok y \<Longrightarrow> enc x @ r = enc y @ s \<Longrightarrow> x = y \<and> r = s"
  by (metis dec_enc option.inject prod.inject)

lemma dec_enc_whole: "dom_ok x \<Longrightarrow> dec (enc x) = Some (x, [])"
  using dec_enc [of x "[]"] by simp

end

text \<open>Fixed-width little-endian unsigned integers, fixed-width arrays, Borsh's \<open>Vec<u8>\<close>.\<close>

definition dec_le :: "nat \<Rightarrow> bytes \<Rightarrow> (nat \<times> bytes) option" where
  "dec_le n bs = (if n \<le> length bs then Some (le_nat (take n bs), drop n bs) else None)"

definition dec_array :: "nat \<Rightarrow> bytes \<Rightarrow> (bytes \<times> bytes) option" where
  "dec_array n bs = (if n \<le> length bs then Some (take n bs, drop n bs) else None)"

definition enc_vec :: "bytes \<Rightarrow> bytes" where
  "enc_vec p = le_bytes 4 (length p) @ p"

definition dec_vec :: "bytes \<Rightarrow> (bytes \<times> bytes) option" where
  "dec_vec bs = (case dec_le 4 bs of None \<Rightarrow> None | Some (n, r) \<Rightarrow> dec_array n r)"

interpretation u32: codec "le_bytes 4" "dec_le 4" "\<lambda>v. v < 2 ^ 32"
  by unfold_locales (simp add: dec_le_def le_nat_le_bytes_id)

interpretation u64: codec "le_bytes 8" "dec_le 8" "\<lambda>v. v < 2 ^ 64"
  by unfold_locales (simp add: dec_le_def le_nat_le_bytes_id)

interpretation arr32: codec "\<lambda>a. a" "dec_array 32" "\<lambda>a. length a = 32"
  by unfold_locales (simp add: dec_array_def)

interpretation arr8: codec "\<lambda>a. a" "dec_array 8" "\<lambda>a. length a = 8"
  by unfold_locales (simp add: dec_array_def)

interpretation vec: codec enc_vec dec_vec "\<lambda>p. length p < 2 ^ 32"
  by unfold_locales (simp add: enc_vec_def dec_vec_def u32.dec_enc dec_array_def)

text \<open>Two codecs in sequence are a codec of pairs.\<close>

definition enc_pair :: "('a \<Rightarrow> bytes) \<Rightarrow> ('b \<Rightarrow> bytes) \<Rightarrow> 'a \<times> 'b \<Rightarrow> bytes" where
  "enc_pair e f p = e (fst p) @ f (snd p)"

definition dec_pair ::
  "(bytes \<Rightarrow> ('a \<times> bytes) option) \<Rightarrow> (bytes \<Rightarrow> ('b \<times> bytes) option)
     \<Rightarrow> bytes \<Rightarrow> (('a \<times> 'b) \<times> bytes) option" where
  "dec_pair d g bs =
     (case d bs of None \<Rightarrow> None
      | Some (a, r) \<Rightarrow> (case g r of None \<Rightarrow> None | Some (b, s) \<Rightarrow> Some ((a, b), s)))"

locale codec_pair = a: codec enc1 dec1 ok1 + b: codec enc2 dec2 ok2
  for enc1 :: "'a \<Rightarrow> bytes" and dec1 ok1
    and enc2 :: "'b \<Rightarrow> bytes" and dec2 ok2

sublocale codec_pair \<subseteq> codec "enc_pair enc1 enc2" "dec_pair dec1 dec2" "\<lambda>p. ok1 (fst p) \<and> ok2 (snd p)"
  by unfold_locales (auto simp: enc_pair_def dec_pair_def a.dec_enc b.dec_enc)

end
