(* ===== verification/Errors.thy ===== *)
theory Errors
  imports Prelude
begin

text \<open>
  \<open>backend/app/exceptions.py\<close>: the domain errors with their HTTP status and
  machine code, and the JSON body \<open>_bagsvault_handler\<close> answers with. The other
  exceptions the source raises, or lets escape from the libraries it calls, are
  constructors of the same type, so that every raise of the program is a value.
\<close>

section \<open>The exception classes\<close>

datatype err_class =
    BagsVaultError
  | ServiceUnavailableError
  | UpstreamError
  | ValidationError
  | AuthError
  | ConflictError
  | NotFoundError

fun status_code :: "err_class \<Rightarrow> nat" where
  "status_code BagsVaultError = 500"
| "status_code ServiceUnavailableError = 503"
| "status_code UpstreamError = 502"
| "status_code ValidationError = 400"
| "status_code AuthError = 401"
| "status_code ConflictError = 409"
| "status_code NotFoundError = 404"

fun err_code :: "err_class \<Rightarrow> string" where
  "err_code BagsVaultError = ''internal_error''"
| "err_code ServiceUnavailableError = ''service_unavailable''"
| "err_code UpstreamError = ''upstream_error''"
| "err_code ValidationError = ''validation_error''"
| "err_code AuthError = ''auth_error''"
| "err_code ConflictError = ''conflict''"
| "err_code NotFoundError = ''not_found''"

text \<open>
  \<open>Domain c m d\<close> is an instance of a domain error with message \<open>m\<close> and details
  \<open>d\<close>. \<open>Other t m\<close> is any other Python exception, with its type name and text.
\<close>

datatype exn =
    Domain err_class string "(string \<times> json) list"
  | Other string string

text \<open>
  \<open>str(exc)\<close>: \<open>BagsVaultError.__init__\<close> passes only the message to
  \<open>Exception.__init__\<close>, so the details are not part of the text.
\<close>

fun exn_str :: "exn \<Rightarrow> string" where
  "exn_str (Domain c m d) = m"
| "exn_str (Other t m) = m"

definition is_domain :: "exn \<Rightarrow> bool" where
  "is_domain e = (case e of Domain _ _ _ \<Rightarrow> True | Other _ _ \<Rightarrow> False)"

definition is_upstream :: "exn \<Rightarrow> bool" where
  "is_upstream e = (case e of Domain UpstreamError _ _ \<Rightarrow> True | _ \<Rightarrow> False)"

definition overflow_error :: exn where
  "overflow_error = Other ''OverflowError'' ''int too big to convert''"

section \<open>The exception handler\<close>

text \<open>
  \<open>_bagsvault_handler\<close>: status and JSON body of the response. It is registered
  for \<open>BagsVaultError\<close> only; any other exception is left to Starlette, which
  answers 500.
\<close>

fun bagsvault_handler :: "exn \<Rightarrow> (nat \<times> json) option" where
  "bagsvault_handler (Domain c m d) =
     Some (status_code c,
       JObj [(''error'', JObj [(''code'', JStr (err_code c)), (''message'', JStr m),
         (''details'', JObj d)])])"
| "bagsvault_handler (Other _ _) = None"

lemma is_domain_simps [simp]:
  "is_domain (Domain c m d)" "\<not> is_domain (Other t s)"
  by (simp_all add: is_domain_def)

lemma is_upstream_simps [simp]:
  "is_upstream (Domain c m d) = (c = UpstreamError)" "\<not> is_upstream (Other t s)"
  by (cases c; simp add: is_upstream_def)+

lemma status_code_range: "400 \<le> status_code c \<and> status_code c < 600"
  by (cases c) auto

lemma err_code_inj: "err_code c = err_code d \<Longrightarrow> c = d"
  by (cases c; cases d) auto

end
