(* ===== verification/MerklePath.thy ===== *)
theory MerklePath
  imports Sha256 Errors
begin

text \<open>
  \<open>backend/app/routers/anonymity.py\<close>, \<open>get_merkle_path\<close>: loading the commitments
  up to a leaf, replaying the incremental insertion and returning the siblings
  of the leaf. The node hash is an argument \<open>H\<close> of the definitions;
  \<open>hash_pair\<close> is the one the router uses. The specification side is the binary
  tree over a list of leaves in which an empty subtree of any height is the zero
  node, as the router's \<open>zeros\<close> table has it.
\<close>

section \<open>Loading the leaves\<close>

definition zero32 :: bytes where
  "zero32 = replicate 32 0"

definition tree_depth :: nat where
  "tree_depth = 20"

text \<open>\<open>_hash_pair\<close>.\<close>

definition hash_pair :: "bytes \<Rightarrow> bytes \<Rightarrow> bytes" where
  "hash_pair left right = sha256 (left @ right)"

text \<open>\<open>bytes.fromhex\<close>: like \<open>unhexlify\<close>, but white space between the bytes is skipped.\<close>

definition is_space :: "char \<Rightarrow> bool" where
  "is_space c = (let k = (of_char c :: nat) in k = 32 \<or> (9 \<le> k \<and> k \<le> 13))"

fun fromhex :: "string \<Rightarrow> bytes option" where
  "fromhex [] = Some []"
| "fromhex [c] = (if is_space c then Some [] else None)"
| "fromhex (c # d # s) =
     (if is_space c then fromhex (d # s)
      else case (hex_value c, hex_value d, fromhex s) of
        (Some h, Some l, Some bs) \<Rightarrow> Some (of_nat (16 * h + l) # bs)
      | _ \<Rightarrow> None)"

definition commitment_leaf :: "string \<Rightarrow> bytes" where
  "commitment_leaf s =
     (let s' = (if startswith s ''0x'' then drop 2 s else s)
      in pad32 (case fromhex s' of Some bs \<Rightarrow> bs | None \<Rightarrow> replicate 32 0))"

text \<open>
  One iteration of the cursor loop. A document whose index is not an int or whose
  commitment is not a string is skipped; a missing commitment is the empty string.
  Gaps below the index are filled with zero leaves.
\<close>

definition load_doc ::
  "nat \<Rightarrow> (string \<times> json) list \<Rightarrow> bytes list \<times> bool \<Rightarrow> bytes list \<times> bool" where
  "load_doc leaf_index doc st =
     (let commit = (if has_key doc ''commitment'' then jget doc ''commitment'' else JStr [])
      in case (json_int (jget doc ''merkle_index''), commit) of
        (Some idx, JStr s) \<Rightarrow>
          (fst st @ replicate (nat idx - length (fst st)) zero32 @ [commitment_leaf s],
           snd st \<or> idx = int leaf_index)
      | _ \<Rightarrow> st)"

definition load_docs :: "nat \<Rightarrow> (string \<times> json) list list \<Rightarrow> bytes list \<times> bool" where
  "load_docs leaf_index docs = fold (load_doc leaf_index) docs ([], False)"

section \<open>The replay\<close>

record replay =
  filled :: "bytes list"
  target_path :: "bytes list"
  target_is_left :: "bool list"

definition replay_init :: replay where
  "replay_init = \<lparr>filled = replicate tree_depth zero32,
                  target_path = replicate tree_depth zero32,
                  target_is_left = replicate tree_depth True\<rparr>"

definition zeros :: "bytes list" where
  "zeros = replicate tree_depth zero32"

text \<open>
  The inner loop, over the levels still to visit. \<open>is_target\<close> is
  \<open>idx == leaf_index\<close>; the sibling is recorded before the filled subtree of this
  level is overwritten, as in the source.
\<close>

fun level_loop ::
  "(bytes \<Rightarrow> bytes \<Rightarrow> bytes) \<Rightarrow> bool \<Rightarrow> nat list \<Rightarrow> bytes \<Rightarrow> nat \<Rightarrow> replay \<Rightarrow> replay" where
  "level_loop H is_target [] current index r = r"
| "level_loop H is_target (level # levels) current index r =
     (let on_left = even index;
          r1 = (if is_target
                then r\<lparr>target_is_left := (target_is_left r)[level := on_left],
                       target_path := (target_path r)[level :=
                          (if on_left then filled r ! level else zeros ! level)]\<rparr>
                else r)
      in if on_left
         then level_loop H is_target levels (H current (zeros ! level)) (index div 2)
                (r1\<lparr>filled := (filled r1)[level := current]\<rparr>)
         else level_loop H is_target levels (H (filled r1 ! level) current) (index div 2) r1)"

fun replay_leaves ::
  "(bytes \<Rightarrow> bytes \<Rightarrow> bytes) \<Rightarrow> nat \<Rightarrow> nat \<Rightarrow> bytes list \<Rightarrow> replay \<Rightarrow> replay" where
  "replay_leaves H leaf_index idx [] r = r"
| "replay_leaves H leaf_index idx (leaf # leaves) r =
     replay_leaves H leaf_index (Suc idx) leaves
       (level_loop H (idx = leaf_index) [0..<tree_depth] leaf idx r)"

section \<open>The endpoint\<close>

record path_response =
  resp_leaf_index :: nat
  resp_depth :: nat
  resp_siblings :: "string list"
  resp_is_left :: "bool list"
  resp_source :: string

definition get_merkle_path ::
  "(bytes \<Rightarrow> bytes \<Rightarrow> bytes) \<Rightarrow> (string \<times> json) list list \<Rightarrow> nat \<Rightarrow> exn + path_response" where
  "get_merkle_path H docs leaf_index =
     (let (commitments, found_target) = load_docs leaf_index docs
      in if commitments = [] then
           Inr \<lparr>resp_leaf_index = leaf_index, resp_depth = tree_depth,
                resp_siblings = replicate tree_depth (to_hex zero32),
                resp_is_left = map (\<lambda>level. even (leaf_index div 2 ^ level)) [0..<tree_depth],
                resp_source = ''fallback-empty''\<rparr>
         else if \<not> found_target then
           Inl (Domain NotFoundError ''leaf_index not yet recorded in db.commitments.''
             [(''leaf_index'', JInt (int leaf_index)),
              (''indexed_count'', JInt (int (length commitments)))])
         else
           (let r = replay_leaves H leaf_index 0 commitments replay_init
            in Inr \<lparr>resp_leaf_index = leaf_index, resp_depth = tree_depth,
                    resp_siblings = map to_hex (target_path r),
                    resp_is_left = target_is_left r,
                    resp_source = ''reconstructed''\<rparr>))"

end
