(* ===== verification/MerkleTree.thy ===== *)
theory MerkleTree
  imports MerklePath
begin

text \<open>
  Correctness of the replay of MerklePath: the specification tree, the invariant
  of the \<open>filled\<close> table, the siblings it yields and the root they fold to.
\<close>

section \<open>The tree over a list of leaves\<close>

text \<open>
  \<open>node H ls l k\<close> is the node number \<open>k\<close> of level \<open>l\<close> over the leaves \<open>ls\<close>; a
  subtree without a leaf is the zero node.
\<close>

fun node :: "(bytes \<Rightarrow> bytes \<Rightarrow> bytes) \<Rightarrow> bytes list \<Rightarrow> nat \<Rightarrow> nat \<Rightarrow> bytes" where
  "node H ls 0 k = (if k < length ls then ls ! k else zero32)"
| "node H ls (Suc l) k =
     (if k * 2 ^ Suc l < length ls then H (node H ls l (2 * k)) (node H ls l (2 * k + 1))
      else zero32)"

definition tree_root :: "(bytes \<Rightarrow> bytes \<Rightarrow> bytes) \<Rightarrow> bytes list \<Rightarrow> bytes" where
  "tree_root H ls = node H ls tree_depth 0"

text \<open>The walk from a leaf to the root: the circuit's \<open>merkle_root_from_path\<close> on bytes.\<close>

fun fold_path :: "(bytes \<Rightarrow> bytes \<Rightarrow> bytes) \<Rightarrow> bytes \<Rightarrow> (bytes \<times> bool) list \<Rightarrow> bytes" where
  "fold_path H cur [] = cur"
| "fold_path H cur ((s, left) # ps) = fold_path H (if left then H cur s else H s cur) ps"

lemma node_empty: "length ls \<le> k * 2 ^ l \<Longrightarrow> node H ls l k = zero32"
  by (cases l) auto

text \<open>A subtree whose leaves are all there does not change when leaves are appended.\<close>

lemma node_append: "(k + 1) * 2 ^ l \<le> length ls \<Longrightarrow> node H (ls @ xs) l k = node H ls l k"
proof (induction l arbitrary: k)
  case 0
  then show ?case by (simp add: nth_append)
next
  case (Suc l)
  have "2 * k + 1 + 1 = 2 * (k + 1)" by simp
  then have r: "(2 * k + 1 + 1) * 2 ^ l \<le> length ls"
    using Suc.prems by (simp add: algebra_simps)
  then have l: "(2 * k + 1) * 2 ^ l \<le> length ls"
    by (rule order_trans [rotated]) simp
  have "(2::nat) ^ Suc l > 0" by simp
  then have "k * 2 ^ Suc l < (k + 1) * 2 ^ Suc l" by simp
  then have k: "k * 2 ^ Suc l < length ls" by (rule less_le_trans) (rule Suc.prems)
  with Suc.IH [OF l] Suc.IH [OF r] show ?case by simp
qed

lemma node_mid: "2 * k * 2 ^ l < length ls \<Longrightarrow>
  node H ls (Suc l) k = H (node H ls l (2 * k)) (node H ls l (2 * k + 1))"
  by (simp add: mult.commute mult.left_commute)

section \<open>The invariant of the filled table\<close>

text \<open>
  After \<open>n\<close> leaves the entry of level \<open>l\<close> is the last left node of that level:
  its number is the index of the last leaf at that level, rounded down to even.
\<close>

definition last_left :: "nat \<Rightarrow> nat \<Rightarrow> nat" where
  "last_left n l = 2 * ((n - 1) div 2 ^ l div 2)"

definition filled_ok :: "(bytes \<Rightarrow> bytes \<Rightarrow> bytes) \<Rightarrow> bytes list \<Rightarrow> nat \<Rightarrow> replay \<Rightarrow> bool" where
  "filled_ok H ls l r \<longleftrightarrow> filled r ! l = node H ls l (last_left (length ls) l)"

definition replay_shape :: "replay \<Rightarrow> bool" where
  "replay_shape r \<longleftrightarrow> length (filled r) = tree_depth \<and> length (target_path r) = tree_depth
     \<and> length (target_is_left r) = tree_depth"

definition replay_inv :: "(bytes \<Rightarrow> bytes \<Rightarrow> bytes) \<Rightarrow> bytes list \<Rightarrow> replay \<Rightarrow> bool" where
  "replay_inv H ls r \<longleftrightarrow> replay_shape r \<and> (ls \<noteq> [] \<longrightarrow> (\<forall>l < tree_depth. filled_ok H ls l r))"

lemma zeros_nth: "l < tree_depth \<Longrightarrow> zeros ! l = zero32"
  by (simp add: zeros_def)

lemma replay_init_inv: "replay_inv H [] replay_init"
  by (simp add: replay_inv_def replay_shape_def replay_init_def)

text \<open>The stored left sibling of an odd node is the node before it in the extended tree.\<close>

lemma odd_last_left:
  assumes "odd (n div 2 ^ l)"
  shows "last_left n l = n div 2 ^ l - 1"
proof -
  let ?m = "n div 2 ^ l"
  have "n \<noteq> 0" using assms by (cases "n = 0") auto
  have m1: "?m - 1 \<le> (n - 1) div 2 ^ l"
  proof -
    have "(?m - 1) * 2 ^ l + 2 ^ l \<le> n"
    proof -
      have "?m \<ge> 1" using assms by (cases ?m) auto
      then have "(?m - 1) * 2 ^ l + 2 ^ l = ?m * 2 ^ l"
        by (metis add.commute le_add_diff_inverse2 mult_Suc plus_1_eq_Suc)
      also have "\<dots> \<le> n" by simp
      finally show ?thesis .
    qed
    then have "(?m - 1) * 2 ^ l \<le> n - 1"
      using zero_less_power [of "2::nat" l] by linarith
    then show ?thesis by (simp add: less_eq_div_iff_mult_less_eq)
  qed
  have m2: "(n - 1) div 2 ^ l \<le> ?m" by (rule div_le_mono) simp
  obtain q where q: "?m = 2 * q + 1" using assms by (rule oddE)
  then have "(n - 1) div 2 ^ l = 2 * q \<or> (n - 1) div 2 ^ l = 2 * q + 1"
    using m1 m2 by linarith
  then show ?thesis using q by (auto simp: last_left_def)
qed

lemma filled_odd:
  assumes "filled_ok H ls l r" and "odd (length ls div 2 ^ l)"
  shows "filled r ! l = node H (ls @ xs) l (length ls div 2 ^ l - 1)"
proof -
  let ?m = "length ls div 2 ^ l"
  have "?m \<ge> 1" using assms(2) by (cases ?m) auto
  then have "(?m - 1 + 1) * 2 ^ l \<le> length ls" by simp
  then have "node H (ls @ xs) l (?m - 1) = node H ls l (?m - 1)" by (rule node_append)
  with assms show ?thesis by (simp add: filled_ok_def odd_last_left)
qed

section \<open>One leaf\<close>

definition sibling :: "(bytes \<Rightarrow> bytes \<Rightarrow> bytes) \<Rightarrow> bytes list \<Rightarrow> nat \<Rightarrow> nat \<Rightarrow> bytes" where
  "sibling H ls n l =
     (let m = n div 2 ^ l in if even m then node H ls l (m + 1) else node H ls l (m - 1))"

lemma even_sibling: "even (length ls div 2 ^ l) \<Longrightarrow> sibling H (ls @ [x]) (length ls) l = zero32"
proof -
  have "length ls < (length ls div 2 ^ l + 1) * 2 ^ l"
    by (simp add: dividend_less_div_times)
  then have "length (ls @ [x]) \<le> (length ls div 2 ^ l + 1) * 2 ^ l" by simp
  then have "node H (ls @ [x]) l (length ls div 2 ^ l + 1) = zero32" by (rule node_empty)
  moreover assume "even (length ls div 2 ^ l)"
  ultimately show ?thesis by (simp add: sibling_def Let_def)
qed

lemma last_left_Suc: "last_left (Suc n) l = 2 * (n div 2 ^ l div 2)"
  by (simp add: last_left_def)

lemma parent_node:
  fixes n l :: nat
  assumes "n < length ls"
  defines "m \<equiv> n div 2 ^ l"
  shows "node H ls (Suc l) (n div 2 ^ Suc l)
     = H (node H ls l (2 * (m div 2))) (node H ls l (2 * (m div 2) + 1))"
proof -
  have "2 * (m div 2) * 2 ^ l \<le> m * 2 ^ l" by simp
  also have "\<dots> \<le> n" by (simp add: m_def)
  finally have "2 * (m div 2) * 2 ^ l < length ls" using assms(1) by simp
  moreover have "n div 2 ^ Suc l = m div 2"
    by (simp only: m_def power_Suc2 div_mult2_eq)
  ultimately show ?thesis by (simp only: node_mid)
qed

text \<open>
  The state of the inner loop before level \<open>l\<close>, for the leaf after \<open>ls\<close>.
\<close>

definition level_inv ::
  "(bytes \<Rightarrow> bytes \<Rightarrow> bytes) \<Rightarrow> bytes list \<Rightarrow> bytes \<Rightarrow> nat \<Rightarrow> bytes \<Rightarrow> replay \<Rightarrow> bool" where
  "level_inv H ls leaf l cur r \<longleftrightarrow>
     replay_shape r
     \<and> cur = node H (ls @ [leaf]) l (length ls div 2 ^ l)
     \<and> (\<forall>j < l. filled_ok H (ls @ [leaf]) j r)
     \<and> (ls \<noteq> [] \<longrightarrow> (\<forall>j < tree_depth. l \<le> j \<longrightarrow> filled_ok H ls j r))"

definition rec_target :: "bool \<Rightarrow> nat \<Rightarrow> nat \<Rightarrow> replay \<Rightarrow> replay" where
  "rec_target t l m r = (if t then r\<lparr>target_is_left := (target_is_left r)[l := even m],
     target_path := (target_path r)[l := (if even m then filled r ! l else zeros ! l)]\<rparr> else r)"

definition fill_step :: "nat \<Rightarrow> nat \<Rightarrow> bytes \<Rightarrow> replay \<Rightarrow> replay" where
  "fill_step l m cur r = (if even m then r\<lparr>filled := (filled r)[l := cur]\<rparr> else r)"

lemma level_loop_step:
  "level_loop H t (l # levels) cur m r =
     level_loop H t levels (if even m then H cur (zeros ! l) else H (filled r ! l) cur) (m div 2)
       (fill_step l m cur (rec_target t l m r))"
  by (simp add: Let_def rec_target_def fill_step_def)

lemma step_fields [simp]:
  "filled (rec_target t l m r) = filled r"
  "target_path (fill_step l m cur r) = target_path r"
  "target_is_left (fill_step l m cur r) = target_is_left r"
  "replay_shape (fill_step l m cur r) = replay_shape r"
  "replay_shape (rec_target t l m r) = replay_shape r"
  by (auto simp: rec_target_def fill_step_def replay_shape_def)

lemma filled_ok_rec [simp]: "filled_ok H ls j (rec_target t l m r) = filled_ok H ls j r"
  by (simp add: filled_ok_def)

lemma filled_ok_fill_other: "j \<noteq> l \<Longrightarrow> filled_ok H ls j (fill_step l m cur r) = filled_ok H ls j r"
  by (simp add: filled_ok_def fill_step_def)

lemma filled_step_here:
  assumes inv: "level_inv H ls leaf l cur r" and l: "l < tree_depth"
  shows "filled_ok H (ls @ [leaf]) l (fill_step l (length ls div 2 ^ l) cur r)"
proof (cases "even (length ls div 2 ^ l)")
  case True
  with inv l show ?thesis
    by (auto simp: filled_ok_def fill_step_def level_inv_def replay_shape_def last_left_Suc)
next
  case False
  then have "ls \<noteq> []" by auto
  with inv l have "filled_ok H ls l r" by (auto simp: level_inv_def)
  from filled_odd [OF this False, of "[leaf]"] False show ?thesis
    by (simp add: filled_ok_def fill_step_def last_left_Suc)
qed

lemma next_current:
  assumes inv: "level_inv H ls leaf l cur r" and l: "l < tree_depth"
  defines "m \<equiv> length ls div 2 ^ l"
  shows "(if even m then H cur (zeros ! l) else H (filled r ! l) cur)
     = node H (ls @ [leaf]) (Suc l) (length ls div 2 ^ Suc l)"
proof -
  have p: "node H (ls @ [leaf]) (Suc l) (length ls div 2 ^ Suc l)
     = H (node H (ls @ [leaf]) l (2 * (m div 2))) (node H (ls @ [leaf]) l (2 * (m div 2) + 1))"
    unfolding m_def by (rule parent_node) simp
  show ?thesis
  proof (cases "even m")
    case True
    have "sibling H (ls @ [leaf]) (length ls) l = zero32"
      using True unfolding m_def by (rule even_sibling)
    with True inv l p show ?thesis
      by (simp add: level_inv_def zeros_nth sibling_def Let_def m_def)
  next
    case False
    then have "ls \<noteq> []" by (auto simp: m_def)
    with inv l have "filled_ok H ls l r" by (auto simp: level_inv_def)
    from filled_odd [OF this, of "[leaf]"] False inv p show ?thesis
      by (simp add: level_inv_def m_def odd_two_times_div_two_nat)
  qed
qed

lemma level_inv_step:
  assumes inv: "level_inv H ls leaf l cur r" and l: "l < tree_depth"
  defines "m \<equiv> length ls div 2 ^ l"
  shows "level_inv H ls leaf (Suc l) (if even m then H cur (zeros ! l) else H (filled r ! l) cur)
           (fill_step l m cur (rec_target t l m r))"
proof -
  have "level_inv H ls leaf l cur (rec_target t l m r)"
    using inv by (simp add: level_inv_def)
  note here = filled_step_here [OF this l, folded m_def]
  show ?thesis
    unfolding level_inv_def
  proof (intro conjI allI impI)
    fix j assume "j < Suc l"
    then show "filled_ok H (ls @ [leaf]) j (fill_step l m cur (rec_target t l m r))"
      using here inv by (cases "j = l") (auto simp: filled_ok_fill_other level_inv_def)
  next
    fix j assume "ls \<noteq> []" "j < tree_depth" "Suc l \<le> j"
    then show "filled_ok H ls j (fill_step l m cur (rec_target t l m r))"
      using inv by (simp add: filled_ok_fill_other level_inv_def)
  qed (use inv next_current [OF inv l] in \<open>simp_all add: level_inv_def m_def\<close>)
qed

lemma level_loop_inv:
  assumes "level_inv H ls leaf l cur r" and "l \<le> tree_depth"
  shows "replay_shape (level_loop H t [l..<tree_depth] cur (length ls div 2 ^ l) r)
     \<and> (\<forall>j < tree_depth. filled_ok H (ls @ [leaf]) j
           (level_loop H t [l..<tree_depth] cur (length ls div 2 ^ l) r))"
  using assms
proof (induction "tree_depth - l" arbitrary: l cur r)
  case 0
  then show ?case by (simp add: level_inv_def)
next
  case (Suc k)
  then have l: "l < tree_depth" by simp
  let ?m = "length ls div 2 ^ l"
  have "k = tree_depth - Suc l" and "Suc l \<le> tree_depth" using Suc l by simp_all
  note IH = Suc.hyps(1) [OF this(1) level_inv_step [OF Suc.prems(1) l] this(2)]
  have m: "?m div 2 = length ls div 2 ^ Suc l"
    by (simp only: power_Suc2 div_mult2_eq)
  show ?case
    unfolding upt_conv_Cons [OF l] level_loop_step m by (rule IH)
qed

text \<open>What the loop writes into the target: the code's choice of sibling.\<close>

definition recorded :: "replay \<Rightarrow> nat \<Rightarrow> nat \<Rightarrow> bytes" where
  "recorded r n l = (if even (n div 2 ^ l) then filled r ! l else zero32)"

lemma level_loop_target:
  assumes "replay_shape r" and "l \<le> tree_depth"
  shows "(\<forall>j < tree_depth. target_is_left (level_loop H t [l..<tree_depth] cur (n div 2 ^ l) r) ! j
            = (if t \<and> l \<le> j then even (n div 2 ^ j) else target_is_left r ! j))
     \<and> (\<forall>j < tree_depth. target_path (level_loop H t [l..<tree_depth] cur (n div 2 ^ l) r) ! j
            = (if t \<and> l \<le> j then recorded r n j else target_path r ! j))"
  using assms
proof (induction "tree_depth - l" arbitrary: l cur r)
  case 0
  then show ?case by simp
next
  case (Suc k)
  then have l: "l < tree_depth" by simp
  let ?m = "n div 2 ^ l"
  let ?r = "fill_step l ?m cur (rec_target t l ?m r)"
  have k: "k = tree_depth - Suc l" "replay_shape ?r" "Suc l \<le> tree_depth" using Suc l by simp_all
  note IH = Suc.hyps(1) [OF this]
  have m: "?m div 2 = n div 2 ^ Suc l"
    by (simp only: power_Suc2 div_mult2_eq)
  have other: "filled ?r ! j = filled r ! j" if "Suc l \<le> j" for j
    using that by (simp add: fill_step_def)
  have left: "target_is_left ?r ! j = (if t \<and> j = l then even ?m else target_is_left r ! j)"
    and path: "target_path ?r ! j = (if t \<and> j = l then recorded r n l else target_path r ! j)"
    if "j < tree_depth" for j
    using that Suc.prems(1) l
    by (auto simp: rec_target_def replay_shape_def recorded_def zeros_nth nth_list_update)
  show ?case
    unfolding upt_conv_Cons [OF l] level_loop_step m
    using IH other left path
    by (auto simp: recorded_def not_less_eq_eq le_Suc_eq)
qed

section \<open>All leaves\<close>

lemma replay_leaf_inv:
  assumes "replay_inv H ls r"
  shows "replay_inv H (ls @ [leaf]) (level_loop H t [0..<tree_depth] leaf (length ls) r)"
proof -
  have "level_inv H ls leaf 0 leaf r"
    using assms by (simp add: level_inv_def replay_inv_def)
  from level_loop_inv [OF this, of t] show ?thesis by (simp add: replay_inv_def)
qed

lemma replay_leaves_inv:
  "replay_inv H ls r \<Longrightarrow> replay_inv H (ls @ xs) (replay_leaves H i (length ls) xs r)"
proof (induction xs arbitrary: ls r)
  case (Cons x xs)
  from Cons.IH [OF replay_leaf_inv [OF Cons.prems, of x]] show ?case by simp
qed simp

lemma replay_leaves_append:
  "replay_leaves H i n (xs @ ys) r = replay_leaves H i (n + length xs) ys (replay_leaves H i n xs r)"
  by (induction xs arbitrary: n r) simp_all

text \<open>Leaves other than the target do not touch the target fields.\<close>

lemma replay_other:
  assumes "replay_shape r" and "\<forall>k. n \<le> k \<and> k < n + length xs \<longrightarrow> k \<noteq> i"
  shows "replay_shape (replay_leaves H i n xs r)
     \<and> target_path (replay_leaves H i n xs r) = target_path r
     \<and> target_is_left (replay_leaves H i n xs r) = target_is_left r"
  using assms
proof (induction xs arbitrary: n r)
  case (Cons x xs)
  let ?r = "level_loop H False [0..<tree_depth] x n r"
  have shape: "length (filled (level_loop H t ls c m r)) = length (filled r)
     \<and> length (target_path (level_loop H t ls c m r)) = length (target_path r)
     \<and> length (target_is_left (level_loop H t ls c m r)) = length (target_is_left r)" for t ls c m r
    by (induction ls arbitrary: c m r) (simp_all add: Let_def)
  then have sh: "replay_shape ?r" using Cons.prems(1) by (simp add: replay_shape_def)
  have "target_path ?r = target_path r" "target_is_left ?r = target_is_left r"
    using level_loop_target [OF Cons.prems(1), of 0 H False x n] sh Cons.prems(1)
    by (auto intro!: nth_equalityI simp: replay_shape_def)
  moreover have "n \<noteq> i" using Cons.prems(2) by simp
  ultimately show ?case using Cons.IH [OF sh, of "Suc n"] Cons.prems(2) by simp
qed simp

section \<open>The loaded leaves\<close>

lemma load_doc_found:
  "(snd st \<longrightarrow> i < length (fst st)) \<Longrightarrow>
   snd (load_doc i d st) \<longrightarrow> i < length (fst (load_doc i d st))"
  by (cases "length (fst st) \<le> i")
    (auto simp: load_doc_def Let_def split: option.splits json.splits)

lemma load_docs_found:
  assumes "load_docs i docs = (ls, True)"
  shows "i < length ls"
proof -
  have "(snd st \<longrightarrow> i < length (fst st)) \<Longrightarrow>
     snd (fold (load_doc i) docs st) \<longrightarrow> i < length (fst (fold (load_doc i) docs st))" for st
    by (induction docs arbitrary: st) (simp_all add: load_doc_found)
  from this [of "([], False)"] assms show ?thesis by (simp add: load_docs_def)
qed

text \<open>A document as the projection of the query returns it.\<close>

definition path_doc :: "nat \<times> string \<Rightarrow> (string \<times> json) list" where
  "path_doc d = [(''merkle_index'', JInt (int (fst d))), (''commitment'', JStr (snd d))]"

lemma load_path_doc [simp]:
  "load_doc i (path_doc (k, s)) (ls, b)
     = (ls @ replicate (k - length ls) zero32 @ [commitment_leaf s], b \<or> k = i)"
  by (simp add: load_doc_def path_doc_def jget_def has_key_def)

definition leaf_at :: "(nat \<times> string) list \<Rightarrow> nat \<Rightarrow> bytes" where
  "leaf_at ds k = (case map_of ds k of None \<Rightarrow> zero32 | Some s \<Rightarrow> commitment_leaf s)"

lemma leaf_at_snoc:
  "k \<notin> fst ` set ds \<Longrightarrow>
   leaf_at (ds @ [(k, s)]) j = (if j = k then commitment_leaf s else leaf_at ds j)"
  by (cases "map_of ds j") (auto simp: leaf_at_def map_add_def map_of_eq_None_iff [symmetric])

lemma leaf_at_absent: "k \<notin> fst ` set ds \<Longrightarrow> leaf_at ds k = zero32"
  by (simp add: leaf_at_def map_of_eq_None_iff [symmetric])

lemma sorted_le_last: "sorted_wrt (<) xs \<Longrightarrow> j \<in> set xs \<Longrightarrow> j \<le> (last xs :: nat)"
  by (induction xs) (auto simp: less_imp_le)

lemma upt_Suc_split: "n \<le> k \<Longrightarrow> [0..<Suc k] = [0..<n] @ [n..<k] @ [k]"
  using upt_add_eq_append [of 0 n "k - n"] by simp

lemma map_upt_const: "(\<And>j. n \<le> j \<Longrightarrow> j < k \<Longrightarrow> f j = c) \<Longrightarrow> map f [n..<k] = replicate (k - n) c"
  by (rule nth_equalityI) auto

text \<open>
  Strictly increasing indices (the query sorts, the index is unique): every
  commitment lands at its own index and the gaps are zero leaves.
\<close>

definition load_length :: "(nat \<times> string) list \<Rightarrow> nat" where
  "load_length ds = (if ds = [] then 0 else Suc (fst (last ds)))"

lemma leaf_at_beyond:
  assumes "sorted_wrt (<) (map fst ds)" and "load_length ds \<le> j"
  shows "leaf_at ds j = zero32"
proof (cases "j \<in> fst ` set ds")
  case True
  then have "j \<le> last (map fst ds)" using sorted_le_last [OF assms(1), of j] by simp
  moreover have "ds \<noteq> []" using True by auto
  ultimately show ?thesis using assms(2) by (simp add: load_length_def last_map)
qed (rule leaf_at_absent)

lemma map_leaf_at_snoc:
  assumes srt: "sorted_wrt (<) (map fst ds)" and lt: "\<forall>j \<in> fst ` set ds. j < k"
  shows "map (leaf_at (ds @ [(k, s)])) [0..<Suc k]
     = map (leaf_at ds) [0..<load_length ds]
       @ replicate (k - load_length ds) zero32 @ [commitment_leaf s]"
proof -
  have n: "load_length ds \<le> k" using lt by (auto simp: load_length_def Suc_le_eq)
  have notin: "k \<notin> fst ` set ds" using lt by blast
  note at = leaf_at_snoc [OF notin, of s]
  have "map (leaf_at (ds @ [(k, s)])) [0..<load_length ds] = map (leaf_at ds) [0..<load_length ds]"
    using n by (simp add: at)
  moreover have "map (leaf_at (ds @ [(k, s)])) [load_length ds..<k] = replicate (k - load_length ds) zero32"
    by (rule map_upt_const) (simp add: at leaf_at_beyond [OF srt])
  ultimately show ?thesis by (simp only: upt_Suc_split [OF n] map_append list.map at) simp
qed

lemma load_docs_sorted:
  "sorted_wrt (<) (map fst ds) \<Longrightarrow>
   load_docs i (map path_doc ds) = (map (leaf_at ds) [0..<load_length ds], i \<in> fst ` set ds)"
proof (induction ds rule: rev_induct)
  case Nil
  then show ?case by (simp add: load_docs_def load_length_def)
next
  case (snoc d ds)
  obtain k s where d: "d = (k, s)" by (cases d)
  have lt: "\<forall>j \<in> fst ` set ds. j < k" and srt: "sorted_wrt (<) (map fst ds)"
    using snoc.prems by (auto simp: sorted_wrt_append d)
  have "load_length (ds @ [d]) = Suc k" by (simp add: load_length_def d)
  moreover have "load_docs i (map path_doc (ds @ [d]))
     = load_doc i (path_doc (k, s)) (load_docs i (map path_doc ds))"
    by (simp add: load_docs_def d)
  ultimately show ?case
    using map_leaf_at_snoc [OF srt lt, of s] by (auto simp: snoc.IH [OF srt] d simp del: upt_Suc)
qed

section \<open>The endpoint\<close>

definition path_sibling :: "(bytes \<Rightarrow> bytes \<Rightarrow> bytes) \<Rightarrow> bytes list \<Rightarrow> nat \<Rightarrow> nat \<Rightarrow> bytes" where
  "path_sibling H ls i l =
     (if even (i div 2 ^ l) \<and> 0 < i then node H (take i ls) l (last_left i l) else zero32)"

lemma replay_target:
  assumes "i < length ls"
  shows "target_path (replay_leaves H i 0 ls replay_init) = map (path_sibling H ls i) [0..<tree_depth]
     \<and> target_is_left (replay_leaves H i 0 ls replay_init)
         = map (\<lambda>l. even (i div 2 ^ l)) [0..<tree_depth]"
proof -
  let ?r0 = "replay_leaves H i 0 (take i ls) replay_init"
  let ?r1 = "level_loop H True [0..<tree_depth] (ls ! i) i ?r0"
  have len: "length (take i ls) = i" using assms by simp
  have split: "ls = take i ls @ ls ! i # drop (Suc i) ls" using assms by (rule id_take_nth_drop)
  have run: "replay_leaves H i 0 ls replay_init = replay_leaves H i (Suc i) (drop (Suc i) ls) ?r1"
    by (subst split) (simp add: replay_leaves_append len del: length_take)
  have inv0: "replay_inv H (take i ls) ?r0"
    using replay_leaves_inv [OF replay_init_inv, of H "take i ls" i] by simp
  have inv1: "replay_inv H (take i ls @ [ls ! i]) ?r1"
    using replay_leaf_inv [OF inv0, of "ls ! i" True] by (simp add: len del: length_take)
  have sh: "replay_shape ?r0" "replay_shape ?r1" using inv0 inv1 by (simp_all add: replay_inv_def)
  have zero: "filled replay_init ! j = zero32" if "j < tree_depth" for j
    using that by (simp add: replay_init_def)
  have rec: "recorded ?r0 i j = path_sibling H ls i j" if j: "j < tree_depth" for j
    using inv0 len zero [OF j] j assms
    by (cases "i = 0") (auto simp: recorded_def path_sibling_def replay_inv_def filled_ok_def)
  show ?thesis
    using replay_other [OF sh(2), of "Suc i" "drop (Suc i) ls" i H]
      level_loop_target [OF sh(1), of 0 H True "ls ! i" i] sh(2) rec
    by (auto simp: run replay_shape_def intro!: nth_equalityI)
qed

lemma get_merkle_path_found:
  assumes "load_docs i docs = (ls, True)"
  shows "get_merkle_path H docs i = Inr \<lparr>resp_leaf_index = i, resp_depth = tree_depth,
     resp_siblings = map (\<lambda>l. to_hex (path_sibling H ls i l)) [0..<tree_depth],
     resp_is_left = map (\<lambda>l. even (i div 2 ^ l)) [0..<tree_depth],
     resp_source = ''reconstructed''\<rparr>"
proof -
  have "i < length ls" using assms by (rule load_docs_found)
  moreover from this have "ls \<noteq> []" by auto
  ultimately show ?thesis
    using assms by (simp add: get_merkle_path_def replay_target)
qed

section \<open>The inclusion path of the tree\<close>

definition true_path :: "(bytes \<Rightarrow> bytes \<Rightarrow> bytes) \<Rightarrow> bytes list \<Rightarrow> nat \<Rightarrow> nat list \<Rightarrow> (bytes \<times> bool) list" where
  "true_path H ls i levels = map (\<lambda>l. (sibling H ls i l, even (i div 2 ^ l))) levels"

lemma fold_step_node:
  assumes "i < length ls"
  shows "(if even (i div 2 ^ l) then H (node H ls l (i div 2 ^ l)) (sibling H ls i l)
          else H (sibling H ls i l) (node H ls l (i div 2 ^ l)))
     = node H ls (Suc l) (i div 2 ^ Suc l)"
  unfolding parent_node [OF assms]
  by (auto simp: sibling_def Let_def odd_two_times_div_two_nat simp del: node.simps elim!: oddE)

lemma fold_true_path:
  assumes "i < length ls" and "l \<le> d"
  shows "fold_path H (node H ls l (i div 2 ^ l)) (true_path H ls i [l..<d]) = node H ls d (i div 2 ^ d)"
  using assms(2)
proof (induction "d - l" arbitrary: l)
  case 0
  then show ?case by (simp add: true_path_def)
next
  case (Suc k)
  then have l: "l < d" and "k = d - Suc l" "Suc l \<le> d" by simp_all
  note IH = Suc.hyps(1) [OF this(2,3)]
  have "true_path H ls i [l..<d] = (sibling H ls i l, even (i div 2 ^ l)) # true_path H ls i [Suc l..<d]"
    by (simp add: true_path_def upt_conv_Cons [OF l])
  with IH show ?case by (simp only: fold_path.simps fold_step_node [OF assms(1)])
qed

text \<open>
  Two walks with the same sides that end in the same root are the same walk, or somewhere on the way
  they hash two different pairs to one value. No property of the hash is assumed: \<open>walks_collide\<close>
  looks only at the pairs that the two walks hash, level by level.
\<close>

definition ordered_pair :: "bool \<Rightarrow> bytes \<Rightarrow> bytes \<Rightarrow> bytes \<times> bytes" where
  "ordered_pair is_left_node cur s = (if is_left_node then (cur, s) else (s, cur))"

fun walks_collide ::
  "(bytes \<Rightarrow> bytes \<Rightarrow> bytes) \<Rightarrow> bytes \<Rightarrow> (bytes \<times> bool) list \<Rightarrow> bytes \<Rightarrow> (bytes \<times> bool) list \<Rightarrow> bool" where
  "walks_collide H c ((s, left) # ps) d ((t, left') # qs) =
     (let x = ordered_pair left c s; y = ordered_pair left' d t
      in x \<noteq> y \<and> case_prod H x = case_prod H y \<or> walks_collide H (case_prod H x) ps (case_prod H y) qs)"
| "walks_collide H c ps d qs = False"

lemma fold_path_pair: "fold_path H c ((s, left) # ps) = fold_path H (case_prod H (ordered_pair left c s)) ps"
  by (simp add: ordered_pair_def)

lemma fold_path_collision:
  "map snd ps = map snd qs \<Longrightarrow> fold_path H c ps = fold_path H d qs \<Longrightarrow> c = d \<and> ps = qs \<or> walks_collide H c ps d qs"
proof (induction ps arbitrary: c d qs)
  case Nil
  then show ?case by simp
next
  case (Cons p ps)
  obtain q qs' where qs: "qs = q # qs'" using Cons.prems(1) by (cases qs) simp_all
  obtain s left where p: "p = (s, left)" by (cases p)
  obtain t where q: "q = (t, left)" using Cons.prems(1) by (cases q) (simp add: qs p)
  let ?x = "ordered_pair left c s" and ?y = "ordered_pair left d t"
  have "fold_path H (case_prod H ?x) ps = fold_path H (case_prod H ?y) qs'"
    using Cons.prems(2) by (simp only: qs p q fold_path_pair)
  moreover have "map snd ps = map snd qs'" using Cons.prems(1) by (simp add: qs)
  ultimately have "case_prod H ?x = case_prod H ?y \<and> ps = qs' \<or> walks_collide H (case_prod H ?x) ps (case_prod H ?y) qs'"
    using Cons.IH by blast
  moreover have "c = d \<and> s = t" if "?x = ?y" using that by (simp add: ordered_pair_def split: if_splits)
  ultimately show ?case by (auto simp: qs p q Let_def)
qed

text \<open>A small hash with 32-byte values for the examples; it works on the last byte.\<close>

definition byte32 :: "byte \<Rightarrow> bytes" where
  "byte32 x = replicate 31 0 @ [x]"

definition mix_hash :: "bytes \<Rightarrow> bytes \<Rightarrow> bytes" where
  "mix_hash a b = byte32 (last (0 # a) + 2 * last (0 # b) + 1)"

lemma byte32_simps [simp]:
  "mix_hash (byte32 x) (byte32 y) = byte32 (x + 2 * y + 1)" "byte32 x = byte32 y \<longleftrightarrow> x = y" "length (byte32 x) = 32"
  "length (mix_hash a b) = 32"
  by (simp_all add: mix_hash_def byte32_def)

lemma zero_byte32: "zero32 = byte32 0"
  by (simp add: zero32_def byte32_def numeral_eq_Suc)

lemma node_one_leaf: "node mix_hash [byte32 x] l k = byte32 (if k = 0 then x + of_nat l else 0)"
proof (induction l arbitrary: k)
  case (Suc l)
  then show ?case by (simp add: zero_byte32 add.commute)
qed (simp add: zero_byte32)

section \<open>Properties\<close>

text \<open>The inclusion path of any leaf of a pool of at most \<open>2 ^ 20\<close> leaves, with
  the sibling of every level as the specification tree has it, folds from the leaf
  to the root: what the endpoint is meant to return.\<close>

theorem true_path_folds_to_root:
  assumes "i < length ls" and "length ls \<le> 2 ^ tree_depth"
  shows "fold_path H (ls ! i) (true_path H ls i [0..<tree_depth]) = tree_root H ls"
proof -
  have "i div 2 ^ tree_depth = 0" using assms by simp
  with fold_true_path [OF assms(1), of 0 tree_depth H] assms(1) show ?thesis
    by (simp add: tree_root_def)
qed

theorem true_path_folds_to_root_witness:
  "fold_path (\<lambda>a b. a @ b) ([[1], [2], [3]] ! 2)
     (true_path (\<lambda>a b. a @ b) [[1], [2], [3]] 2 [0..<tree_depth])
   = tree_root (\<lambda>a b. a @ b) [[1], [2], [3]]"
  by (rule true_path_folds_to_root) (simp_all add: tree_depth_def)

text \<open>C17. The replay keeps the \<open>filled\<close> table exact: after any number of leaves
  its entry at every level is the last left node of that level of the tree over all
  leaves. (This is the tree of the endpoint, whose empty subtrees are the zero node; the cache of the
  on-chain program is that of another tree, see ChainTree.)\<close>

theorem replay_filled_exact:
  assumes "ls \<noteq> []" and "l < tree_depth"
  shows "filled (replay_leaves H i 0 ls replay_init) ! l = node H ls l (last_left (length ls) l)"
  using replay_leaves_inv [OF replay_init_inv, of H ls i] assms
  by (simp add: replay_inv_def filled_ok_def)

theorem replay_filled_exact_witness:
  "filled (replay_leaves hash_pair 1 0 [[1], [2]] replay_init) ! 3
     = node hash_pair [[1], [2]] 3 (last_left (length [[1::byte], [2]]) 3)"
  by (rule replay_filled_exact) (simp_all add: tree_depth_def)

text \<open>Loading: with the strictly increasing indices that the sorted query over
  the unique index returns, every commitment is the leaf at its own index, every gap
  is a zero leaf, and the target is found exactly when its index is among them.\<close>

theorem load_docs_positions:
  assumes "sorted_wrt (<) (map fst ds)"
  shows "load_docs i (map path_doc ds)
     = (map (leaf_at ds) [0..<load_length ds], i \<in> fst ` set ds)"
  using assms by (rule load_docs_sorted)

theorem load_docs_positions_witness:
  "load_docs 2 (map path_doc [(0, ''0xAB''), (2, ''cd'')])
     = (map (leaf_at [(0, ''0xAB''), (2, ''cd'')]) [0..<load_length [(0, ''0xAB''), (2, ''cd'')]],
        2 \<in> fst ` set [(0::nat, ''0xAB''), (2, ''cd'')])"
  by (rule load_docs_positions) simp

text \<open>For the first deposit the endpoint is right: the path it returns for leaf 0
  folds from the commitment to the root of the one-leaf tree.\<close>

theorem first_leaf_path_sound:
  "\<exists>r sibs. get_merkle_path H [path_doc (0, s)] 0 = Inr r
     \<and> resp_siblings r = map to_hex sibs \<and> length sibs = tree_depth
     \<and> fold_path H (commitment_leaf s) (zip sibs (resp_is_left r)) = tree_root H [commitment_leaf s]"
proof -
  let ?ls = "[commitment_leaf s]"
  have "load_docs 0 [path_doc (0, s)] = (?ls, True)" by (simp add: load_docs_def)
  note resp = get_merkle_path_found [OF this, of H]
  have "path_sibling H ?ls 0 l = sibling H ?ls 0 l" for l
    using even_sibling [of "[]" l H "commitment_leaf s"] by (simp add: path_sibling_def)
  then have "zip (map (path_sibling H ?ls 0) [0..<tree_depth]) (map (\<lambda>l. even ((0::nat) div 2 ^ l)) [0..<tree_depth])
     = true_path H ?ls 0 [0..<tree_depth]"
    by (auto simp: true_path_def intro!: nth_equalityI)
  moreover have "fold_path H (?ls ! 0) (true_path H ?ls 0 [0..<tree_depth]) = tree_root H ?ls"
    using fold_true_path [of 0 ?ls 0 tree_depth H] by (simp add: tree_root_def)
  ultimately have "fold_path H (commitment_leaf s)
      (zip (map (path_sibling H ?ls 0) [0..<tree_depth]) (map (\<lambda>l. even ((0::nat) div 2 ^ l)) [0..<tree_depth]))
    = tree_root H ?ls" by simp
  then show ?thesis
    by (intro exI [of _ "map (path_sibling H ?ls 0) [0..<tree_depth]"] exI conjI) (rule resp, simp_all add: comp_def)
qed

text \<open>The sibling the endpoint must return below the last leaf, and the one it does return,
  at a level where the node is a right child.\<close>

lemma right_level_siblings:
  assumes "odd (i div 2 ^ b)"
  shows "path_sibling H ls i b = zero32" and "sibling H ls i b = node H ls b (i div 2 ^ b - 1)"
  using assms by (simp_all add: path_sibling_def sibling_def Let_def)

lemma load_last:
  assumes "sorted_wrt (<) (map fst ds)" and "\<forall>k \<in> fst ` set ds. k \<le> i" and "i \<in> fst ` set ds"
  shows "load_length ds = Suc i"
proof -
  have "ds \<noteq> []" using assms(3) by auto
  then have "fst (last ds) \<in> fst ` set ds" by simp
  then have "fst (last ds) \<le> i" using assms(2) by blast
  moreover have "i \<le> last (map fst ds)" using sorted_le_last [OF assms(1), of i] assms(3) by simp
  ultimately show ?thesis using \<open>ds \<noteq> []\<close> by (simp add: load_length_def last_map)
qed

text \<open>At every level where the node is a right child the endpoint answers the
  all-zero sibling, whatever the commitments are: the source records
  \<open>filled[level] if on_left else zeros[level]\<close>, the two branches the comment above
  the loop describes exchanged.\<close>

theorem right_sibling_always_zero:
  assumes "sorted_wrt (<) (map fst ds)" and "i \<in> fst ` set ds"
    and "b < tree_depth" and "odd (i div 2 ^ b)"
  shows "\<exists>r. get_merkle_path H (map path_doc ds) i = Inr r
     \<and> \<not> resp_is_left r ! b \<and> resp_siblings r ! b = to_hex zero32"
proof -
  have "load_docs i (map path_doc ds) = (map (leaf_at ds) [0..<load_length ds], True)"
    using load_docs_sorted [OF assms(1), of i] assms(2) by simp
  from get_merkle_path_found [OF this, of H] show ?thesis
    using assms(3,4) by (simp add: right_level_siblings)
qed

theorem right_sibling_always_zero_witness:
  "\<exists>r. get_merkle_path hash_pair (map path_doc [(0, ''01''), (1, ''02'')]) 1 = Inr r
     \<and> \<not> resp_is_left r ! 0 \<and> resp_siblings r ! 0 = to_hex zero32"
  by (rule right_sibling_always_zero) (simp_all add: tree_depth_def)

text \<open>C15. So the path of any leaf that is a right child at some level does not lead to
  the root. Whatever the node hash: if the real left sibling there is not the zero node, the fold of
  the returned path differs from the root of the tree over all the leaves that were loaded, or else
  the returned path and the real one hash two different pairs to one value on the way, a
  collision between the particular nodes of these two walks.\<close>

theorem right_child_path_unsound:
  assumes srt: "sorted_wrt (<) (map fst ds)" and mem: "i \<in> fst ` set ds"
    and upto: "\<forall>k \<in> fst ` set ds. k \<le> i" and i: "i < 2 ^ tree_depth"
    and b: "b < tree_depth" "odd (i div 2 ^ b)"
    and left: "node H (map (leaf_at ds) [0..<Suc i]) b (i div 2 ^ b - 1) \<noteq> zero32"
  shows "\<exists>r sibs. get_merkle_path H (map path_doc ds) i = Inr r
     \<and> resp_siblings r = map to_hex sibs
     \<and> (fold_path H (leaf_at ds i) (zip sibs (resp_is_left r)) \<noteq> tree_root H (map (leaf_at ds) [0..<Suc i])
        \<or> walks_collide H (leaf_at ds i) (zip sibs (resp_is_left r))
            (leaf_at ds i) (true_path H (map (leaf_at ds) [0..<Suc i]) i [0..<tree_depth]))"
proof -
  let ?ls = "map (leaf_at ds) [0..<Suc i]"
  let ?sibs = "map (path_sibling H ?ls i) [0..<tree_depth]"
  let ?lefts = "map (\<lambda>l. even (i div 2 ^ l)) [0..<tree_depth]"
  let ?true = "true_path H ?ls i [0..<tree_depth]"
  have "load_docs i (map path_doc ds) = (?ls, True)"
    using load_docs_sorted [OF srt, of i] load_last [OF srt upto mem] mem by simp
  note resp = get_merkle_path_found [OF this, of H]
  have leaf: "?ls ! i = leaf_at ds i" by (simp del: upt_Suc)
  have root: "tree_root H ?ls = fold_path H (leaf_at ds i) ?true"
    using fold_true_path [of i ?ls 0 tree_depth H] i leaf by (simp add: tree_root_def del: upt_Suc)
  have "map snd (zip ?sibs ?lefts) = map snd ?true" by (simp add: true_path_def comp_def)
  moreover have "zip ?sibs ?lefts \<noteq> ?true"
  proof
    assume "zip ?sibs ?lefts = ?true"
    then have "fst (zip ?sibs ?lefts ! b) = fst (?true ! b)" by (simp only:)
    then have "path_sibling H ?ls i b = sibling H ?ls i b"
      using b(1) by (simp add: true_path_def del: upt_Suc)
    then show False using left by (simp only: right_level_siblings [OF b(2)])
  qed
  ultimately have "fold_path H (leaf_at ds i) (zip ?sibs ?lefts) \<noteq> tree_root H ?ls
      \<or> walks_collide H (leaf_at ds i) (zip ?sibs ?lefts) (leaf_at ds i) ?true"
    unfolding root using fold_path_collision by blast
  then show ?thesis
    by (intro exI [of _ ?sibs] exI conjI) (rule resp, simp_all add: comp_def del: upt_Suc)
qed

lemma leaf_bytes: "commitment_leaf ''01'' = byte32 1" "commitment_leaf ''02'' = byte32 2"
  by (simp_all add: byte32_def commitment_leaf_def startswith_def is_space_def hex_value_def pad32_def last_n_def
      rjust0_def zero32_def numeral_eq_Suc)

text \<open>A hash over which both walks can be evaluated: they do not collide.\<close>

lemma mix_walks:
  "zip (map (path_sibling mix_hash [byte32 1, byte32 2] 1) [0..<20]) (map (\<lambda>l. even ((1::nat) div 2 ^ l)) [0..<20]) =
     (byte32 0, False) # map (\<lambda>l. (byte32 (of_nat (Suc l)), True)) [1..<20]"
  "true_path mix_hash [byte32 1, byte32 2] 1 [0..<20] = (byte32 1, False) # replicate 19 (byte32 0, True)"
proof -
  have d: "(1::nat) div 2 ^ l = 0" if "1 \<le> l" for l
    using that by (intro div_less one_less_power) simp_all
  have up: "[0..<20] = 0 # [1..<20]" by (simp add: upt_rec)
  have 0: "path_sibling mix_hash [byte32 1, byte32 2] 1 0 = byte32 0" "sibling mix_hash [byte32 1, byte32 2] 1 0 = byte32 1"
    by (simp_all add: path_sibling_def sibling_def zero_byte32)
  have p: "path_sibling mix_hash [byte32 1, byte32 2] 1 l = byte32 (of_nat (Suc l))"
    and s: "sibling mix_hash [byte32 1, byte32 2] 1 l = byte32 0" if "1 \<le> l" for l
  proof -
    show "path_sibling mix_hash [byte32 1, byte32 2] 1 l = byte32 (of_nat (Suc l))"
      using d [OF that] by (simp add: path_sibling_def last_left_def node_one_leaf)
    have "length [byte32 1, byte32 2] \<le> 1 * 2 ^ l" using power_increasing [OF that, of "2::nat"] by simp
    then show "sibling mix_hash [byte32 1, byte32 2] 1 l = byte32 0"
      using d [OF that] node_empty [of "[byte32 1, byte32 2]" 1 l] by (simp add: sibling_def zero_byte32)
  qed
  show "zip (map (path_sibling mix_hash [byte32 1, byte32 2] 1) [0..<20]) (map (\<lambda>l. even ((1::nat) div 2 ^ l)) [0..<20]) =
     (byte32 0, False) # map (\<lambda>l. (byte32 (of_nat (Suc l)), True)) [1..<20]"
    unfolding up using 0 p d by (simp add: zip_map_map zip_same_conv_map)
  have "map (\<lambda>l. (sibling mix_hash [byte32 1, byte32 2] 1 l, even ((1::nat) div 2 ^ l))) [1..<20] =
      map (\<lambda>l. (byte32 0, True)) [1..<20]"
    using s d by (intro map_cong) auto
  then show "true_path mix_hash [byte32 1, byte32 2] 1 [0..<20] = (byte32 1, False) # replicate 19 (byte32 0, True)"
    unfolding true_path_def up using 0 by (simp add: map_replicate_const)
qed

lemma mix_walks_apart:
  "\<not> walks_collide mix_hash (byte32 2) ((byte32 0, False) # map (\<lambda>l. (byte32 (of_nat (Suc l)), True)) [1..<20])
     (byte32 2) ((byte32 1, False) # replicate 19 (byte32 0, True))"
proof -
  have "map (\<lambda>l. (byte32 (of_nat (Suc l)), True)) [1..<20] = map (\<lambda>w. (byte32 w, True)) [2, 3, 4, 5, 6, 7, 8, 9, 10, 11, 12, 13, 14, 15, 16, 17, 18, 19, 20]"
    by (simp add: upt_rec)
  moreover have "replicate 19 (byte32 0, True) = map (\<lambda>w. (byte32 w, True)) [0, 0, 0, 0, 0, 0, 0, 0, 0, 0, 0, 0, 0, 0, 0, 0, 0, 0, 0]"
    by (simp add: numeral_eq_Suc)
  ultimately show ?thesis by (simp add: ordered_pair_def)
qed

theorem right_child_path_unsound_witness:
  "(\<exists>r sibs. get_merkle_path hash_pair (map path_doc [(0, ''01''), (1, ''02'')]) 1 = Inr r \<and> resp_siblings r = map to_hex sibs
      \<and> (fold_path hash_pair (byte32 2) (zip sibs (resp_is_left r)) \<noteq> tree_root hash_pair [byte32 1, byte32 2]
         \<or> walks_collide hash_pair (byte32 2) (zip sibs (resp_is_left r))
             (byte32 2) (true_path hash_pair [byte32 1, byte32 2] 1 [0..<tree_depth])))
   \<and> (\<exists>r sibs. get_merkle_path mix_hash (map path_doc [(0, ''01''), (1, ''02'')]) 1 = Inr r \<and> resp_siblings r = map to_hex sibs
      \<and> fold_path mix_hash (byte32 2) (zip sibs (resp_is_left r)) \<noteq> tree_root mix_hash [byte32 1, byte32 2])"
proof -
  let ?ds = "[(0::nat, ''01''), (1, ''02'')]"
  have ls: "map (leaf_at ?ds) [0..<Suc 1] = [byte32 1, byte32 2]" "leaf_at ?ds 1 = byte32 2"
    by (simp_all add: leaf_at_def leaf_bytes)
  have ds: "sorted_wrt (<) (map fst ?ds)" "1 \<in> fst ` set ?ds" "\<forall>k \<in> fst ` set ?ds. k \<le> 1" "(1::nat) < 2 ^ tree_depth"
      "0 < tree_depth" "odd ((1::nat) div 2 ^ 0)" by (simp_all add: tree_depth_def)
  have left: "node H (map (leaf_at ?ds) [0..<Suc 1]) 0 (1 div 2 ^ 0 - 1) \<noteq> zero32" for H
    unfolding ls by (simp add: zero_byte32)
  note use = right_child_path_unsound [OF ds left, unfolded ls]
  obtain r sibs where r: "get_merkle_path mix_hash (map path_doc ?ds) 1 = Inr r" "resp_siblings r = map to_hex sibs"
    "fold_path mix_hash (byte32 2) (zip sibs (resp_is_left r)) \<noteq> tree_root mix_hash [byte32 1, byte32 2]
      \<or> walks_collide mix_hash (byte32 2) (zip sibs (resp_is_left r))
          (byte32 2) (true_path mix_hash [byte32 1, byte32 2] 1 [0..<tree_depth])"
    using use [of mix_hash] by blast
  have "load_docs 1 (map path_doc ?ds) = ([byte32 1, byte32 2], True)"
    using load_docs_sorted [OF ds(1), of 1] load_last [OF ds(1,3,2)] ls(1) by simp
  from get_merkle_path_found [OF this, of mix_hash] r(1,2)
  have "map to_hex sibs = map to_hex (map (path_sibling mix_hash [byte32 1, byte32 2] 1) [0..<20])"
    "resp_is_left r = map (\<lambda>l. even ((1::nat) div 2 ^ l)) [0..<20]"
    by (auto simp: comp_def tree_depth_def)
  moreover have "inj to_hex" by (simp add: inj_def)
  ultimately have "sibs = map (path_sibling mix_hash [byte32 1, byte32 2] 1) [0..<20]"
    "resp_is_left r = map (\<lambda>l. even ((1::nat) div 2 ^ l)) [0..<20]" by (simp_all only: inj_map_eq_map)
  then have "\<not> walks_collide mix_hash (byte32 2) (zip sibs (resp_is_left r))
          (byte32 2) (true_path mix_hash [byte32 1, byte32 2] 1 [0..<tree_depth])"
    using mix_walks_apart by (simp only: mix_walks tree_depth_def) simp
  with r use [of hash_pair] show ?thesis by blast
qed


text \<open>Errors: an index beyond the recorded commitments is \<open>NotFoundError\<close> with the
  number of leaves loaded; with no commitment at all the answer is the all-zero
  fallback path, whose direction bits are those of the index.\<close>

theorem merkle_path_missing_leaf:
  assumes "sorted_wrt (<) (map fst ds)" and "i \<notin> fst ` set ds"
  shows "get_merkle_path H (map path_doc ds) i =
    (if ds = [] then
       Inr \<lparr>resp_leaf_index = i, resp_depth = 20, resp_siblings = replicate 20 (to_hex zero32),
            resp_is_left = map (\<lambda>l. even (i div 2 ^ l)) [0..<20], resp_source = ''fallback-empty''\<rparr>
     else Inl (Domain NotFoundError ''leaf_index not yet recorded in db.commitments.''
       [(''leaf_index'', JInt (int i)), (''indexed_count'', JInt (int (Suc (fst (last ds)))))]))"
  using load_docs_sorted [OF assms(1), of i] assms(2)
  by (auto simp: get_merkle_path_def load_length_def tree_depth_def simp del: upt_Suc)

theorem merkle_path_missing_leaf_witness:
  "get_merkle_path hash_pair (map path_doc [(0, ''01'')]) 5
   = Inl (Domain NotFoundError ''leaf_index not yet recorded in db.commitments.''
       [(''leaf_index'', JInt 5), (''indexed_count'', JInt 1)])"
  using merkle_path_missing_leaf [of "[(0, ''01'')]" 5 hash_pair] by simp

end
