(* ===== verification/Effects.thy ===== *)
theory Effects
  imports Errors
begin

text \<open>
  The service methods are coroutines over things outside the repository: the
  database, the RPC node, the clock, the file system. A coroutine is a function
  of a world \<open>'w\<close>, which stands for all of them, and returns an exception or a
  value and the world it leaves. The calls themselves are parameters of the
  definitions that use them; this theory has the sequencing.
\<close>

type_synonym dict = "(string \<times> json) list"
type_synonym 'a res = "exn + 'a"
type_synonym ('a, 'w) io = "'w \<Rightarrow> 'a res \<times> 'w"

named_theorems io_simps \<open>evaluation of effects\<close>

definition ret :: "'a \<Rightarrow> ('a, 'w) io" where
  "ret x w = (Inr x, w)"

definition throw :: "exn \<Rightarrow> ('a, 'w) io" where
  "throw e w = (Inl e, w)"

text \<open>\<open>andthen m k\<close> is \<open>x = await m; k(x)\<close>.\<close>

definition andthen :: "('a, 'w) io \<Rightarrow> ('a \<Rightarrow> ('b, 'w) io) \<Rightarrow> ('b, 'w) io" where
  "andthen m k w = (case m w of (Inl e, w') \<Rightarrow> (Inl e, w') | (Inr x, w') \<Rightarrow> k x w')"

text \<open>A computation with no effect that may raise.\<close>

definition pure :: "'a res \<Rightarrow> ('a, 'w) io" where
  "pure r w = (r, w)"

text \<open>\<open>try: m / except Exception as exc: h(exc)\<close>; \<open>h\<close> may raise again.\<close>

definition catching :: "('a, 'w) io \<Rightarrow> (exn \<Rightarrow> ('a, 'w) io) \<Rightarrow> ('a, 'w) io" where
  "catching m h w = (case m w of (Inl e, w') \<Rightarrow> h e w' | (Inr x, w') \<Rightarrow> (Inr x, w'))"

text \<open>
  \<open>except BagsVaultError: raise / except Exception as exc: raise f(exc)\<close>, the
  wrapper most clients use: a domain error passes, any other is translated.
\<close>

definition wrap_foreign :: "(string \<Rightarrow> exn) \<Rightarrow> ('a, 'w) io \<Rightarrow> ('a, 'w) io" where
  "wrap_foreign f m = catching m (\<lambda>e. throw (if is_domain e then e else f (exn_str e)))"

definition wrap_foreign_res :: "(string \<Rightarrow> exn) \<Rightarrow> 'a res \<Rightarrow> 'a res" where
  "wrap_foreign_res f r =
     (case r of Inl e \<Rightarrow> Inl (if is_domain e then e else f (exn_str e)) | Inr x \<Rightarrow> Inr x)"

text \<open>Sequencing of computations without effects.\<close>

definition rbind :: "'a res \<Rightarrow> ('a \<Rightarrow> 'b res) \<Rightarrow> 'b res" where
  "rbind r k = (case r of Inl e \<Rightarrow> Inl e | Inr x \<Rightarrow> k x)"

lemma ret_simps [simp, io_simps]: "ret x w = (Inr x, w)" "throw e w = (Inl e, w)" "pure r w = (r, w)"
  by (simp_all add: ret_def throw_def pure_def)

lemma rbind_simps [simp, res_simps]:
  "rbind (Inl e) k = Inl e" "rbind (Inr x) k = k x"
  by (simp_all add: rbind_def)

lemma rbind_Inr_iff [res_simps]: "rbind r k = Inr y \<longleftrightarrow> (\<exists>x. r = Inr x \<and> k x = Inr y)"
  by (cases r) auto

lemma rbind_Inl_iff [res_simps]:
  "rbind r k = Inl e \<longleftrightarrow> r = Inl e \<or> (\<exists>x. r = Inr x \<and> k x = Inl e)"
  by (cases r) auto

lemma andthen_Inl: "m w = (Inl e, w') \<Longrightarrow> andthen m k w = (Inl e, w')"
  by (simp add: andthen_def)

lemma andthen_Inr: "m w = (Inr x, w') \<Longrightarrow> andthen m k w = k x w'"
  by (simp add: andthen_def)

lemma andthen_ret [simp, io_simps]:
  "andthen (ret x) k = k x" "andthen (throw e) k = throw e"
  by (rule ext, simp add: andthen_def)+

lemma andthen_pure [simp, io_simps]:
  "andthen (pure (Inr x)) k = k x" "andthen (pure (Inl e)) k = throw e"
  by (rule ext, simp add: andthen_def)+

lemma andthen_assoc: "andthen (andthen m k) h = andthen m (\<lambda>x. andthen (k x) h)"
  by (rule ext) (auto simp: andthen_def split: prod.splits sum.splits)

lemma andthen_InrE:
  assumes "andthen m k w = (Inr y, w'')"
  obtains x w' where "m w = (Inr x, w')" "k x w' = (Inr y, w'')"
  using assms by (auto simp: andthen_def split: prod.splits sum.splits)

lemma andthen_InlE:
  assumes "andthen m k w = (Inl e, w'')"
  obtains "m w = (Inl e, w'')" | x w' where "m w = (Inr x, w')" "k x w' = (Inl e, w'')"
  using assms by (auto simp: andthen_def split: prod.splits sum.splits)

lemma catching_InrE:
  assumes "catching m h w = (Inr y, w'')"
  obtains "m w = (Inr y, w'')" | e w' where "m w = (Inl e, w')" "h e w' = (Inr y, w'')"
  using assms by (auto simp: catching_def split: prod.splits sum.splits)

lemma wrap_foreign_Inr [simp]: "wrap_foreign f m w = (Inr y, w') \<longleftrightarrow> m w = (Inr y, w')"
  by (auto simp: wrap_foreign_def catching_def split: prod.splits sum.splits)

text \<open>What a wrapped call raises is a domain error whenever the translation is one.\<close>

lemma wrap_foreign_domain:
  assumes "wrap_foreign f m w = (Inl e, w')" and "\<And>s. is_domain (f s)"
  shows "is_domain e"
  using assms by (auto simp: wrap_foreign_def catching_def split: prod.splits sum.splits if_splits)

text \<open>
  The database, node and clock stay outside, but the program's own objects are
  explicit: \<open>on_fst\<close> and \<open>on_snd\<close> run a computation on one part of a world that
  pairs an object with the rest.
\<close>

definition on_fst :: "('a, 's) io \<Rightarrow> ('a, 's \<times> 'w) io" where
  "on_fst m p = (case m (fst p) of (r, s) \<Rightarrow> (r, (s, snd p)))"

definition on_snd :: "('a, 'w) io \<Rightarrow> ('a, 's \<times> 'w) io" where
  "on_snd m p = (case m (snd p) of (r, w) \<Rightarrow> (r, (fst p, w)))"

lemma on_snd_result: "on_snd m (s, w) = (r, s', w') \<longleftrightarrow> m w = (r, w') \<and> s' = s"
  by (auto simp: on_snd_def split: prod.splits)

lemma on_fst_result: "on_fst m (s, w) = (r, s', w') \<longleftrightarrow> m s = (r, s') \<and> w' = w"
  by (auto simp: on_fst_def split: prod.splits)


section \<open>Invariants of computations\<close>

text \<open>\<open>keeps I m\<close>: \<open>m\<close> leaves a world that satisfies \<open>I\<close> in one that does, returning or raising.\<close>

definition keeps :: "('w \<Rightarrow> bool) \<Rightarrow> ('a, 'w) io \<Rightarrow> bool" where
  "keeps I m \<longleftrightarrow> (\<forall>w r w'. I w \<longrightarrow> m w = (r, w') \<longrightarrow> I w')"

named_theorems keeps_rules \<open>invariance of composed computations\<close>

lemma keepsI: "(\<And>w r w'. I w \<Longrightarrow> m w = (r, w') \<Longrightarrow> I w') \<Longrightarrow> keeps I m"
  by (simp add: keeps_def)

lemma keepsD: "keeps I m \<Longrightarrow> I w \<Longrightarrow> m w = (r, w') \<Longrightarrow> I w'"
  by (simp add: keeps_def)

lemma keeps_ret [keeps_rules]: "keeps I (ret x)" "keeps I (throw e)" "keeps I (pure r)"
  by (simp_all add: keeps_def)

lemma keeps_andthen [keeps_rules]: "keeps I m \<Longrightarrow> (\<And>x. keeps I (k x)) \<Longrightarrow> keeps I (andthen m k)"
  by (rule keepsI) (auto simp: andthen_def dest: keepsD split: prod.splits sum.splits)

lemma keeps_catching [keeps_rules]: "keeps I m \<Longrightarrow> (\<And>e. keeps I (h e)) \<Longrightarrow> keeps I (catching m h)"
  by (rule keepsI) (auto simp: catching_def dest: keepsD split: prod.splits sum.splits)

lemma keeps_wrap [keeps_rules]: "keeps I m \<Longrightarrow> keeps I (wrap_foreign f m)"
  unfolding wrap_foreign_def by (intro keeps_rules) (simp_all add: keeps_def)

lemma keeps_on_snd [keeps_rules]: "keeps I m \<Longrightarrow> keeps (\<lambda>p. I (snd p)) (on_snd m)"
  by (auto simp: keeps_def on_snd_def split: prod.splits)

lemma keeps_if [keeps_rules]: "keeps I m \<Longrightarrow> keeps I n \<Longrightarrow> keeps I (if b then m else n)"
  by simp

lemma keeps_option [keeps_rules]:
  "keeps I m \<Longrightarrow> (\<And>x. keeps I (k x)) \<Longrightarrow> keeps I (case x of None \<Rightarrow> m | Some y \<Rightarrow> k y)"
  by (cases x) auto

lemma keeps_prod [keeps_rules]: "(\<And>a b. keeps I (k a b)) \<Longrightarrow> keeps I (case p of (a, b) \<Rightarrow> k a b)"
  by (cases p) auto

lemma keeps_list [keeps_rules]:
  "keeps I m \<Longrightarrow> (\<And>x xs. keeps I (k x xs)) \<Longrightarrow> keeps I (case l of [] \<Rightarrow> m | x # xs \<Rightarrow> k x xs)"
  by (cases l) auto

lemma keeps_sum [keeps_rules]:
  "(\<And>a. keeps I (f a)) \<Longrightarrow> (\<And>b. keeps I (g b)) \<Longrightarrow> keeps I (case s of Inl a \<Rightarrow> f a | Inr b \<Rightarrow> g b)"
  by (cases s) auto

end
