(* ===== verification/Config.thy ===== *)
theory Config
  imports Errors
begin

text \<open>
  \<open>backend/app/config.py\<close>: the settings record, its defaults and its derived
  values, and the parts of \<open>str\<close> they use. Reading the environment is
  pydantic-settings and is not modelled: a model takes a \<open>settings\<close> value.
\<close>

section \<open>String methods\<close>

definition py_space :: "char \<Rightarrow> bool" where
  "py_space c = (let k = (of_char c :: nat) in
     k = 32 \<or> (9 \<le> k \<and> k \<le> 13) \<or> (28 \<le> k \<and> k \<le> 31) \<or> k = 133 \<or> k = 160)"

definition lstrip :: "string \<Rightarrow> string" where
  "lstrip s = dropWhile py_space s"

definition strip :: "string \<Rightarrow> string" where
  "strip s = rev (dropWhile py_space (rev (lstrip s)))"

text \<open>\<open>s.split(c)\<close> on a one-character separator.\<close>

fun split_on :: "char \<Rightarrow> string \<Rightarrow> string list" where
  "split_on c [] = [[]]"
| "split_on c (x # xs) =
     (if x = c then [] # split_on c xs
      else (case split_on c xs of [] \<Rightarrow> [[x]] | w # ws \<Rightarrow> (x # w) # ws))"

lemma split_on_nonempty: "split_on c s \<noteq> []"
  by (cases s) (auto split: list.splits)

lemma split_on_chars: "w \<in> set (split_on c s) \<Longrightarrow> c \<notin> set w"
  by (induction s arbitrary: w) (auto split: if_splits list.splits)

lemma dropWhile_space: "dropWhile py_space s = [] \<or> \<not> py_space (hd (dropWhile py_space s))"
  by (cases "dropWhile py_space s = []") (simp_all add: hd_dropWhile del: dropWhile_eq_Nil_conv)

lemma strip_ends:
  "strip s = [] \<or> (\<not> py_space (hd (strip s)) \<and> \<not> py_space (last (strip s)))"
proof -
  let ?t = "lstrip s"
  have t: "?t = [] \<or> \<not> py_space (hd ?t)"
    unfolding lstrip_def by (rule dropWhile_space)
  have r: "strip s = [] \<or> \<not> py_space (last (strip s))"
    using dropWhile_space [of "rev ?t"] by (auto simp: strip_def last_rev)
  have e: "?t = strip s @ rev (takeWhile py_space (rev ?t))"
    unfolding strip_def
    by (metis rev_append rev_rev_ident takeWhile_dropWhile_id)
  then have "strip s = [] \<or> (?t \<noteq> [] \<and> hd (strip s) = hd ?t)"
    by (metis append_is_Nil_conv hd_append2)
  with t r show ?thesis by auto
qed

lemma strip_no_space: "(\<And>c. c \<in> set s \<Longrightarrow> \<not> py_space c) \<Longrightarrow> strip s = s"
proof -
  assume s: "\<And>c. c \<in> set s \<Longrightarrow> \<not> py_space c"
  then have "s = [] \<or> \<not> py_space (hd s)" "s = [] \<or> \<not> py_space (hd (rev s))"
    by (auto simp: hd_rev)
  then have "dropWhile py_space s = s" "dropWhile py_space (rev s) = rev s"
    by (auto simp: dropWhile_eq_self_iff)
  then show ?thesis by (simp add: strip_def lstrip_def)
qed

section \<open>Settings\<close>

record settings =
  mongo_url :: string
  db_name :: string
  cors_origins :: string
  log_level :: string
  solana_rpc_url :: string
  solana_cluster :: string
  solana_commitment :: string
  solana_relayer_keypair :: string
  solana_treasury_keypair :: string
  solana_token_authority_keypair :: string
  bagsvault_program_id :: string
  bagsvault_verifier_id :: string
  vault_token_mint :: string
  bagsvault_fee_share_program_id :: string
  bags_api_base_url :: string
  bags_api_key :: string
  range_api_base_url :: string
  range_api_key :: string
  rate_limit_per_minute :: int
  auth_message_max_age_seconds :: int
  relayer_fee_bps :: int
  relayer_region :: string
  relayer_name :: string
  relayer_max_compute_units :: int
  indexer_interval_seconds :: int
  indexer_enabled :: bool
  bagsvault_idl_path :: string
  solana_ws_url :: string
  tx_simulation_required :: bool
  tx_priority_fee_microlamports :: int
  tx_retry_max_attempts :: int
  tx_retry_initial_backoff_ms :: int
  tx_confirm_timeout_seconds :: int
  zk_circuit_dir :: string
  zk_nargo_bin :: string
  zk_bb_bin :: string
  zk_proof_stub_mode :: bool

definition default_settings :: settings where
  "default_settings = \<lparr>
     mongo_url = ''mongodb://localhost:27017'',
     db_name = ''bagsvault'',
     cors_origins = ''*'',
     log_level = ''INFO'',
     solana_rpc_url = ''https://api.devnet.solana.com'',
     solana_cluster = ''devnet'',
     solana_commitment = ''confirmed'',
     solana_relayer_keypair = ''keys/relayer.json'',
     solana_treasury_keypair = ''keys/treasury.json'',
     solana_token_authority_keypair = ''keys/token_authority.json'',
     bagsvault_program_id = [],
     bagsvault_verifier_id = [],
     vault_token_mint = [],
     bagsvault_fee_share_program_id = ''FEE2tBhCKAt7shrod19QttSVREUYPiyMzoku1mL1gqVK'',
     bags_api_base_url = ''https://api.bags.fm'',
     bags_api_key = [],
     range_api_base_url = ''https://api.range.org'',
     range_api_key = [],
     rate_limit_per_minute = 120,
     auth_message_max_age_seconds = 300,
     relayer_fee_bps = 15,
     relayer_region = ''US-East'',
     relayer_name = ''BagsVault-Default'',
     relayer_max_compute_units = 400000,
     indexer_interval_seconds = 15,
     indexer_enabled = True,
     bagsvault_idl_path = ''../idl/bagsvault.json'',
     solana_ws_url = [],
     tx_simulation_required = True,
     tx_priority_fee_microlamports = 1000,
     tx_retry_max_attempts = 3,
     tx_retry_initial_backoff_ms = 500,
     tx_confirm_timeout_seconds = 60,
     zk_circuit_dir = ''../circuits/bagsvault_withdraw'',
     zk_nargo_bin = ''nargo'',
     zk_bb_bin = ''bb'',
     zk_proof_stub_mode = False\<rparr>"

text \<open>\<open>Settings.derived_ws_url\<close> and \<open>Settings.cors_origins_list\<close>.\<close>

definition derived_ws_url :: "settings \<Rightarrow> string" where
  "derived_ws_url cfg =
     (if solana_ws_url cfg \<noteq> [] then solana_ws_url cfg
      else let rpc = solana_rpc_url cfg
      in if startswith rpc ''https://'' then ''wss://'' @ drop (length ''https://'') rpc
         else if startswith rpc ''http://'' then ''ws://'' @ drop (length ''http://'') rpc
         else rpc)"

definition cors_origins_list :: "settings \<Rightarrow> string list" where
  "cors_origins_list cfg =
     map strip (filter (\<lambda>origin. strip origin \<noteq> []) (split_on (CHR '','') (cors_origins cfg)))"

text \<open>Every origin handed to the CORS middleware is trimmed, not empty and has no comma.\<close>

lemma strip_subset: "set (strip s) \<subseteq> set s"
  unfolding strip_def lstrip_def
  by (metis set_dropWhileD set_rev subsetI)

lemma cors_origins_clean:
  "origin \<in> set (cors_origins_list cfg) \<Longrightarrow>
   origin \<noteq> [] \<and> CHR '','' \<notin> set origin \<and> \<not> py_space (hd origin) \<and> \<not> py_space (last origin)"
  unfolding cors_origins_list_def
  using split_on_chars strip_subset strip_ends by fastforce

end
