(* ===== verification/Instructions.thy ===== *)
theory Instructions
  imports PyBytes Sha256 Effects Config
begin

text \<open>
  The Anchor instruction builders of
  \<open>backend/app/services/withdrawal_service.py\<close> and the helpers that decode a
  relay request into their arguments. \<open>solders\<close> is outside the repository: its
  functions are the fields of a record, passed to every definition that calls
  them.
\<close>

section \<open>The solders interface\<close>

record account_meta =
  pubkey :: pubkey
  is_signer :: bool
  is_writable :: bool

record instruction =
  ix_program_id :: pubkey
  accounts :: "account_meta list"
  data :: bytes

text \<open>
  A function that may raise returns the exception; \<open>Pubkey.from_string\<close>,
  \<open>Hash.from_string\<close> and \<open>Keypair.from_bytes\<close> return only its text, which is
  all their callers look at.
\<close>

record solders =
  pubkey_from_string :: "string \<Rightarrow> string + pubkey"
  pubkey_str :: "pubkey \<Rightarrow> string"
  find_program_address :: "bytes list \<Rightarrow> pubkey \<Rightarrow> pubkey \<times> nat"
  system_program_id :: pubkey
  hash_from_string :: "string \<Rightarrow> string + bytes"
  keypair_from_bytes :: "bytes \<Rightarrow> string + bytes"
  keypair_pubkey :: "bytes \<Rightarrow> pubkey"
  try_compile :: "pubkey \<Rightarrow> instruction list \<Rightarrow> bytes \<Rightarrow> exn + bytes"
  num_required_signatures :: "bytes \<Rightarrow> nat"
  sign_message :: "bytes \<Rightarrow> bytes list \<Rightarrow> exn + bytes"
  tx_from_bytes :: "bytes \<Rightarrow> exn + bytes"
  tx_populate :: "bytes \<Rightarrow> nat \<Rightarrow> bytes"
  null_sign :: "bytes \<Rightarrow> pubkey \<Rightarrow> exn + bytes"
  set_compute_unit_limit :: "int \<Rightarrow> exn + instruction"
  set_compute_unit_price :: "int \<Rightarrow> exn + instruction"

section \<open>Constants\<close>

definition SOL_TOKEN_SENTINEL :: string where "SOL_TOKEN_SENTINEL = ''SOL''"
definition WITHDRAW_SIGHASH :: bytes where
  "WITHDRAW_SIGHASH = take 8 (sha256 (ascii ''global:withdraw''))"
definition WITHDRAW_SOL_SIGHASH :: bytes where
  "WITHDRAW_SOL_SIGHASH = take 8 (sha256 (ascii ''global:withdraw_sol''))"
definition WITHDRAW_SPL_SIGHASH :: bytes where
  "WITHDRAW_SPL_SIGHASH = take 8 (sha256 (ascii ''global:withdraw_spl''))"
definition MERKLE_TREE_SEED :: bytes where "MERKLE_TREE_SEED = ascii ''merkle_tree''"
definition VAULT_SEED :: bytes where "VAULT_SEED = ascii ''vault''"
definition NULLIFIER_SEED :: bytes where "NULLIFIER_SEED = ascii ''nullifier''"

text \<open>
  A module-level \<open>Pubkey.from_string(...)\<close> on a literal: were it to raise, the
  module would not import, so the value is read as the parsed key.
\<close>

definition const_pubkey :: "solders \<Rightarrow> string \<Rightarrow> pubkey" where
  "const_pubkey sol s = (case pubkey_from_string sol s of Inr p \<Rightarrow> p | Inl _ \<Rightarrow> [])"

definition SPL_TOKEN_PROGRAM_ID :: "solders \<Rightarrow> pubkey" where
  "SPL_TOKEN_PROGRAM_ID sol = const_pubkey sol ''TokenkegQfeZyiNwAJbNbGKPFXCWuBvf9Ss623VQ5DA''"

definition ASSOCIATED_TOKEN_PROGRAM_ID :: "solders \<Rightarrow> pubkey" where
  "ASSOCIATED_TOKEN_PROGRAM_ID sol = const_pubkey sol ''ATokenGPvbdGVxr1b2hvZbsiqW5xWH25efTNsLJA8knL''"

section \<open>Decoding a request\<close>

text \<open>
  \<open>binascii.unhexlify\<close> on a string, with the text of its exception:
  non-ASCII input is a \<open>ValueError\<close>, then an odd length, then a non-digit.
\<close>

definition py_unhexlify :: "string \<Rightarrow> string + bytes" where
  "py_unhexlify s =
     (if \<exists>c \<in> set s. 128 \<le> (of_char c :: nat)
      then Inl ''string argument should contain only ASCII characters''
      else if odd (length s) then Inl ''Odd-length string''
      else case unhexlify s of
             None \<Rightarrow> Inl ''Non-hexadecimal digit found''
           | Some bs \<Rightarrow> Inr bs)"

definition strip_0x :: "string \<Rightarrow> string" where
  "strip_0x value = (if startswith (lower value) ''0x'' then drop 2 value else value)"

definition hex_to_bytes :: "string \<Rightarrow> string \<Rightarrow> bytes res" where
  "hex_to_bytes value label =
     (case py_unhexlify (strip_0x value) of
        Inr bs \<Rightarrow> Inr bs
      | Inl err \<Rightarrow> Inl (Domain ValidationError (''Invalid hex value for '' @ label @ ''.'')
          [(''field'', JStr label), (''error'', JStr err)]))"

definition decode_recipient :: "solders \<Rightarrow> string \<Rightarrow> pubkey res" where
  "decode_recipient sol recipient =
     (case pubkey_from_string sol recipient of
        Inr p \<Rightarrow> Inr p
      | Inl err \<Rightarrow> Inl (Domain ValidationError ''recipient is not a valid base58 Solana pubkey.''
          [(''recipient'', JStr recipient), (''error'', JStr err)]))"

text \<open>
  The configured mint is parsed outside the \<open>try\<close>: a malformed setting raises
  the bare \<open>ValueError\<close>. The dash of the message is an em dash in the source.
\<close>

definition resolve_token_mint :: "solders \<Rightarrow> settings \<Rightarrow> string \<Rightarrow> pubkey res" where
  "resolve_token_mint sol cfg token =
     (if token = SOL_TOKEN_SENTINEL \<or> token = [] then Inr (system_program_id sol)
      else if vault_token_mint cfg \<noteq> [] \<and> (token = ''VAULT'' \<or> token = vault_token_mint cfg)
      then (case pubkey_from_string sol (vault_token_mint cfg) of
              Inr p \<Rightarrow> Inr p | Inl err \<Rightarrow> Inl (Other ''ValueError'' err))
      else case pubkey_from_string sol token of
             Inr p \<Rightarrow> Inr p
           | Inl err \<Rightarrow> Inl (Domain ValidationError
               ''Unknown token tag for withdrawal - supply 'SOL', 'VAULT', or a base58 mint.''
               [(''token'', JStr token), (''error'', JStr err)]))"

text \<open>\<open>_coerce_blockhash\<close>, the same in four modules.\<close>

definition coerce_blockhash :: "json \<Rightarrow> string res" where
  "coerce_blockhash raw =
     (let bad = Inl (Domain UpstreamError ''Solana RPC returned an unexpected blockhash payload.''
                  [(''type'', JStr (json_type_name raw))])
      in case raw of
           JStr s \<Rightarrow> Inr s
         | JObj d \<Rightarrow> (case jget d ''blockhash'' of JStr s \<Rightarrow> Inr s | _ \<Rightarrow> bad)
         | _ \<Rightarrow> bad)"

section \<open>Program addresses\<close>

definition derive_ata :: "solders \<Rightarrow> pubkey \<Rightarrow> pubkey \<Rightarrow> pubkey" where
  "derive_ata sol owner mint =
     fst (find_program_address sol [owner, SPL_TOKEN_PROGRAM_ID sol, mint]
            (ASSOCIATED_TOKEN_PROGRAM_ID sol))"

definition derive_pdas :: "solders \<Rightarrow> pubkey \<Rightarrow> pubkey \<Rightarrow> bytes \<Rightarrow> pubkey \<times> pubkey \<times> pubkey" where
  "derive_pdas sol program_id token_mint nullifier_bytes32 =
     (fst (find_program_address sol [VAULT_SEED, token_mint] program_id),
      fst (find_program_address sol [MERKLE_TREE_SEED, token_mint] program_id),
      fst (find_program_address sol [NULLIFIER_SEED, nullifier_bytes32] program_id))"

section \<open>The withdraw instructions\<close>

text \<open>\<open>int.to_bytes(n, "little")\<close> with its exception.\<close>

definition int_to_bytes_le :: "nat \<Rightarrow> int \<Rightarrow> bytes res" where
  "int_to_bytes_le n v =
     (case to_bytes_le n v of
        Some bs \<Rightarrow> Inr bs
      | None \<Rightarrow> Inl (if v < 0 then Other ''OverflowError'' ''can't convert negative int to unsigned''
                    else overflow_error))"

record withdraw_args =
  wa_program_id :: pubkey
  wa_token_mint :: pubkey
  wa_recipient :: pubkey
  wa_relayer :: pubkey
  wa_proof_bytes :: bytes
  wa_root_bytes :: bytes
  wa_nullifier_bytes :: bytes
  wa_amount :: int

definition signer_meta :: "pubkey \<Rightarrow> account_meta" where
  "signer_meta p = \<lparr>pubkey = p, is_signer = True, is_writable = True\<rparr>"
definition writable_meta :: "pubkey \<Rightarrow> account_meta" where
  "writable_meta p = \<lparr>pubkey = p, is_signer = False, is_writable = True\<rparr>"
definition readonly_meta :: "pubkey \<Rightarrow> account_meta" where
  "readonly_meta p = \<lparr>pubkey = p, is_signer = False, is_writable = False\<rparr>"

definition build_withdraw_ix :: "solders \<Rightarrow> withdraw_args \<Rightarrow> instruction res" where
  "build_withdraw_ix sol a =
     (let root32 = last_n 32 (rjust0 32 (wa_root_bytes a));
          nullifier32 = last_n 32 (rjust0 32 (wa_nullifier_bytes a));
          (vault_pda, tree_state_pda, nullifier_pda) =
            derive_pdas sol (wa_program_id a) (wa_token_mint a) nullifier32
      in rbind (int_to_bytes_le 4 (int (length (wa_proof_bytes a)))) (\<lambda>proof_len.
         rbind (int_to_bytes_le 8 (wa_amount a)) (\<lambda>amount_le.
         Inr \<lparr>ix_program_id = wa_program_id a,
              accounts =
                [signer_meta (wa_relayer a), writable_meta vault_pda,
                 writable_meta tree_state_pda, writable_meta nullifier_pda,
                 writable_meta (wa_recipient a), readonly_meta (system_program_id sol)],
              data = WITHDRAW_SIGHASH @ proof_len @ wa_proof_bytes a @ root32 @ nullifier32
                       @ wa_recipient a @ amount_le\<rparr>)))"

definition build_withdraw_spl_ix :: "solders \<Rightarrow> withdraw_args \<Rightarrow> instruction res" where
  "build_withdraw_spl_ix sol a =
     (let root32 = last_n 32 (rjust0 32 (wa_root_bytes a));
          nullifier32 = last_n 32 (rjust0 32 (wa_nullifier_bytes a));
          (vault_pda, tree_state_pda, nullifier_pda) =
            derive_pdas sol (wa_program_id a) (wa_token_mint a) nullifier32;
          vault_ata = derive_ata sol vault_pda (wa_token_mint a);
          recipient_ata = derive_ata sol (wa_recipient a) (wa_token_mint a)
      in rbind (int_to_bytes_le 4 (int (length (wa_proof_bytes a)))) (\<lambda>proof_len.
         rbind (int_to_bytes_le 8 (wa_amount a)) (\<lambda>amount_le.
         Inr \<lparr>ix_program_id = wa_program_id a,
              accounts =
                [signer_meta (wa_relayer a), writable_meta vault_pda, writable_meta vault_ata,
                 writable_meta tree_state_pda, writable_meta nullifier_pda,
                 readonly_meta (wa_recipient a), writable_meta recipient_ata,
                 readonly_meta (SPL_TOKEN_PROGRAM_ID sol), readonly_meta (system_program_id sol)],
              data = WITHDRAW_SPL_SIGHASH @ proof_len @ wa_proof_bytes a @ root32 @ nullifier32
                       @ wa_recipient a @ amount_le\<rparr>)))"

definition build_withdraw_ix_for_pool :: "solders \<Rightarrow> withdraw_args \<Rightarrow> instruction res" where
  "build_withdraw_ix_for_pool sol a =
     (if wa_token_mint a = system_program_id sol then build_withdraw_ix sol a
      else build_withdraw_spl_ix sol a)"


section \<open>Helper lemmas\<close>

lemma length_sighash [simp, byte_simps]:
  "length WITHDRAW_SIGHASH = 8" "length WITHDRAW_SOL_SIGHASH = 8" "length WITHDRAW_SPL_SIGHASH = 8"
  by (simp_all add: WITHDRAW_SIGHASH_def WITHDRAW_SOL_SIGHASH_def WITHDRAW_SPL_SIGHASH_def)

lemma int_to_bytes_le_Inr:
  "int_to_bytes_le n v = Inr bs \<longleftrightarrow> 0 \<le> v \<and> v < 2 ^ (8 * n) \<and> bs = le_bytes n (nat v)"
  by (auto simp: int_to_bytes_le_def to_bytes_le_def)

lemma int_to_bytes_le_ok [simp]:
  "0 \<le> v \<Longrightarrow> v < 2 ^ (8 * n) \<Longrightarrow> int_to_bytes_le n v = Inr (le_bytes n (nat v))"
  by (simp add: int_to_bytes_le_Inr)

lemma int_to_bytes_le_overflow:
  "0 \<le> v \<Longrightarrow> int_to_bytes_le n v = (if v < 2 ^ (8 * n) then Inr (le_bytes n (nat v)) else Inl overflow_error)"
  by (auto simp: int_to_bytes_le_def to_bytes_le_def)

lemma pad32_fold: "last_n 32 (rjust0 32 bs) = pad32 bs"
  by (simp add: pad32_def)

lemma hex_digit_ascii: "n < 16 \<Longrightarrow> (of_char (hex_digit n) :: nat) < 128"
  by (auto simp: hex_digit_def)

lemma py_unhexlify_to_hex [simp]: "py_unhexlify (to_hex bs) = Inr bs"
proof -
  have "\<forall>c \<in> set (to_hex bs). (of_char c :: nat) < 128"
    using to_hex_digits hex_digit_ascii by blast
  then show ?thesis by (auto simp: py_unhexlify_def not_le [symmetric])
qed

text \<open>Both spellings of the prefix are removed.\<close>

lemma lower_0x: "lower_char (CHR ''0'') = CHR ''0''" "lower_char (CHR ''x'') = CHR ''x''"
  "lower_char (CHR ''X'') = CHR ''x''"
  by code_simp+

lemma strip_0x_prefix [simp]:
  "strip_0x (CHR ''0'' # CHR ''x'' # s) = s" "strip_0x (CHR ''0'' # CHR ''X'' # s) = s"
  by (simp_all add: strip_0x_def startswith_def lower_def lower_0x)

lemma lower_hex_digit_not_x: "n < 16 \<Longrightarrow> lower_char (hex_digit n) \<noteq> CHR ''x''"
proof
  assume n: "n < 16" and x: "lower_char (hex_digit n) = CHR ''x''"
  have "lower_char (hex_digit n) = hex_digit n"
    using n by (auto simp: lower_char_def hex_digit_def)
  with x have "(of_char (hex_digit n) :: nat) = of_char (CHR ''x'')" by simp
  with n show False by (simp add: hex_digit_def split: if_splits)
qed

text \<open>The text \<open>bytes.hex\<close> prints never has the prefix, so it decodes with or without one.\<close>

lemma strip_0x_to_hex [simp]: "strip_0x (to_hex bs) = to_hex bs"
proof (cases bs)
  case (Cons b cs)
  have "unat b mod 16 < 16" by simp
  from lower_hex_digit_not_x [OF this] show ?thesis
    by (simp add: Cons strip_0x_def startswith_def lower_def)
qed (simp add: strip_0x_def startswith_def lower_def)

lemma hex_to_bytes_to_hex [simp]:
  "hex_to_bytes (to_hex bs) label = Inr bs"
  "hex_to_bytes (CHR ''0'' # CHR ''x'' # to_hex bs) label = Inr bs"
  "hex_to_bytes (CHR ''0'' # CHR ''X'' # to_hex bs) label = Inr bs"
  by (simp_all add: hex_to_bytes_def)

lemma hex_to_bytes_Inr: "hex_to_bytes v label = Inr bs \<longleftrightarrow> py_unhexlify (strip_0x v) = Inr bs"
  by (auto simp: hex_to_bytes_def split: sum.splits)

lemma hex_to_bytes_validation:
  "hex_to_bytes v label = Inl e \<Longrightarrow>
   \<exists>d. e = Domain ValidationError (''Invalid hex value for '' @ label @ ''.'') d"
  by (auto simp: hex_to_bytes_def split: sum.splits)

section \<open>The wire format of the instruction data\<close>

text \<open>
  The Borsh layout the program's handler declares for its arguments: a
  \<open>Vec<u8>\<close>, three 32-byte arrays and a \<open>u64\<close>, as a codec of nested pairs.
\<close>

definition dec_withdraw_args :: "bytes \<Rightarrow> ((bytes \<times> bytes \<times> bytes \<times> bytes \<times> nat) \<times> bytes) option" where
  "dec_withdraw_args =
     dec_pair dec_vec (dec_pair (dec_array 32) (dec_pair (dec_array 32)
       (dec_pair (dec_array 32) (dec_le 8))))"

interpretation recip_amount: codec_pair "\<lambda>a. a" "dec_array 32" "\<lambda>a. length a = 32"
    "le_bytes 8" "dec_le 8" "\<lambda>v. v < 2 ^ 64"
  by unfold_locales

interpretation null_recip_amount: codec_pair "\<lambda>a. a" "dec_array 32" "\<lambda>a. length a = 32"
    "enc_pair (\<lambda>a. a) (le_bytes 8)" "dec_pair (dec_array 32) (dec_le 8)"
    "\<lambda>p. length (fst p) = 32 \<and> snd p < 2 ^ 64"
  by unfold_locales

interpretation root_null_recip_amount: codec_pair "\<lambda>a. a" "dec_array 32" "\<lambda>a. length a = 32"
    "enc_pair (\<lambda>a. a) (enc_pair (\<lambda>a. a) (le_bytes 8))"
    "dec_pair (dec_array 32) (dec_pair (dec_array 32) (dec_le 8))"
    "\<lambda>p. length (fst p) = 32 \<and> length (fst (snd p)) = 32 \<and> snd (snd p) < 2 ^ 64"
  by unfold_locales

interpretation withdraw_body: codec_pair enc_vec dec_vec "\<lambda>p. length p < 2 ^ 32"
    "enc_pair (\<lambda>a. a) (enc_pair (\<lambda>a. a) (enc_pair (\<lambda>a. a) (le_bytes 8)))"
    "dec_pair (dec_array 32) (dec_pair (dec_array 32) (dec_pair (dec_array 32) (dec_le 8)))"
    "\<lambda>p. length (fst p) = 32 \<and> length (fst (snd p)) = 32 \<and> length (fst (snd (snd p))) = 32
          \<and> snd (snd (snd p)) < 2 ^ 64"
  by unfold_locales

lemma dec_withdraw_args_enc:
  assumes "length pf < 2 ^ 32" "length rt = 32" "length nul = 32" "length recip = 32" "v < 2 ^ 64"
  shows "dec_withdraw_args (le_bytes 4 (length pf) @ pf @ rt @ nul @ recip @ le_bytes 8 v)
           = Some ((pf, rt, nul, recip, v), [])"
  using withdraw_body.dec_enc_whole [of "(pf, rt, nul, recip, v)"] assms
  by (simp add: dec_withdraw_args_def enc_pair_def enc_vec_def)

text \<open>The two builders as one record, for the lemmas below.\<close>

definition withdraw_data :: "bytes \<Rightarrow> withdraw_args \<Rightarrow> bytes" where
  "withdraw_data sighash a =
     sighash @ le_bytes 4 (length (wa_proof_bytes a)) @ wa_proof_bytes a @ pad32 (wa_root_bytes a)
       @ pad32 (wa_nullifier_bytes a) @ wa_recipient a @ le_bytes 8 (nat (wa_amount a))"

definition withdraw_fits :: "withdraw_args \<Rightarrow> bool" where
  "withdraw_fits a \<longleftrightarrow> length (wa_proof_bytes a) < 2 ^ 32 \<and> 0 \<le> wa_amount a \<and> wa_amount a < 2 ^ 64"

lemma proof_len_bytes:
  "int_to_bytes_le 4 (int (length p)) = (if length p < 2 ^ 32 then Inr (le_bytes 4 (length p)) else Inl overflow_error)"
  by (simp add: int_to_bytes_le_overflow)

lemma build_for_pool_Inr:
  "build_withdraw_ix_for_pool sol a = Inr ix \<Longrightarrow>
   withdraw_fits a \<and> ix_program_id ix = wa_program_id a \<and>
   data ix = withdraw_data
     (if wa_token_mint a = system_program_id sol then WITHDRAW_SIGHASH else WITHDRAW_SPL_SIGHASH) a"
  by (auto simp: build_withdraw_ix_for_pool_def build_withdraw_ix_def build_withdraw_spl_ix_def
      Let_def pad32_fold res_simps proof_len_bytes int_to_bytes_le_Inr withdraw_data_def
      withdraw_fits_def split: if_splits prod.splits)

lemma build_for_pool_total:
  "0 \<le> wa_amount a \<Longrightarrow>
   (\<exists>ix. build_withdraw_ix_for_pool sol a = Inr ix) = withdraw_fits a"
  by (auto simp: build_withdraw_ix_for_pool_def build_withdraw_ix_def build_withdraw_spl_ix_def
      Let_def proof_len_bytes int_to_bytes_le_overflow withdraw_fits_def split: prod.splits)

section \<open>Properties\<close>

text \<open>C27. Round trip of the withdraw instruction. Whatever proof, root, nullifier,
  recipient and amount the builder is given, when it returns an instruction the
  program's Borsh decoder reads back exactly the proof, the root and the nullifier as
  32-byte words, the recipient and the amount from the data after the 8-byte
  sighash, with nothing left over, and the sighash is the SOL or the SPL one
  according to the pool's mint.\<close>

theorem withdraw_data_roundtrip:
  assumes "build_withdraw_ix_for_pool sol a = Inr ix" and "length (wa_recipient a) = 32"
  shows "dec_withdraw_args (drop 8 (data ix)) =
           Some ((wa_proof_bytes a, pad32 (wa_root_bytes a), pad32 (wa_nullifier_bytes a),
                  wa_recipient a, nat (wa_amount a)), [])
         \<and> take 8 (data ix) =
             (if wa_token_mint a = system_program_id sol then WITHDRAW_SIGHASH
              else WITHDRAW_SPL_SIGHASH)
         \<and> length (data ix) = 116 + length (wa_proof_bytes a)"
proof -
  note d = build_for_pool_Inr [OF assms(1)]
  then have fits: "length (wa_proof_bytes a) < 2 ^ 32" "nat (wa_amount a) < 2 ^ 64"
    by (auto simp: withdraw_fits_def)
  from fits assms(2) have "dec_withdraw_args (drop 8 (data ix)) =
      Some ((wa_proof_bytes a, pad32 (wa_root_bytes a), pad32 (wa_nullifier_bytes a),
             wa_recipient a, nat (wa_amount a)), [])"
    using d dec_withdraw_args_enc [of "wa_proof_bytes a" "pad32 (wa_root_bytes a)"
        "pad32 (wa_nullifier_bytes a)" "wa_recipient a" "nat (wa_amount a)"]
    by (simp add: withdraw_data_def)
  with d assms(2) show ?thesis by (simp add: withdraw_data_def)
qed

definition demo_solders :: solders where
  "demo_solders = \<lparr>pubkey_from_string = (\<lambda>s. if length s = 32 then Inr (ascii s) else Inl ''String is the wrong size''),
     pubkey_str = map (\<lambda>b. char_of (unat b)),
     find_program_address = (\<lambda>seeds pid. (pad32 (concat seeds @ pid), 255)),
     system_program_id = replicate 32 0,
     hash_from_string = (\<lambda>s. Inr (ascii s)),
     keypair_from_bytes = (\<lambda>bs. if length bs = 64 then Inr bs else Inl ''wrong length''),
     keypair_pubkey = (\<lambda>bs. drop 32 bs),
     try_compile = (\<lambda>payer ixs h. Inr (payer @ concat (map data ixs) @ h)),
     num_required_signatures = (\<lambda>m. 1),
     sign_message = (\<lambda>m kps. if kps \<noteq> [] \<and> drop 32 (hd kps) = take 32 m then Inr (concat kps @ m)
                            else Inl (Other ''SignerError'' ''keypair-pubkey mismatch'')),
     tx_from_bytes = (\<lambda>bs. Inr (drop 64 bs)),
     tx_populate = (\<lambda>m n. replicate (64 * n) 0 @ m),
     null_sign = (\<lambda>m p. Inr (replicate 64 0 @ m)),
     set_compute_unit_limit = (\<lambda>n. Inr \<lparr>ix_program_id = replicate 32 3, accounts = [], data = 2 # le_bytes 4 (nat n)\<rparr>),
     set_compute_unit_price = (\<lambda>n. Inr \<lparr>ix_program_id = replicate 32 3, accounts = [], data = 3 # le_bytes 8 (nat n)\<rparr>)\<rparr>"

definition demo_args :: withdraw_args where
  "demo_args = \<lparr>wa_program_id = replicate 32 9, wa_token_mint = replicate 32 0,
     wa_recipient = replicate 32 7, wa_relayer = replicate 32 5, wa_proof_bytes = [1, 2, 3],
     wa_root_bytes = [4, 5], wa_nullifier_bytes = [6], wa_amount = 1000\<rparr>"

theorem withdraw_data_roundtrip_witness:
  "\<exists>ix. build_withdraw_ix_for_pool demo_solders demo_args = Inr ix \<and>
     dec_withdraw_args (drop 8 (data ix)) =
       Some (([1, 2, 3], pad32 [4, 5], pad32 [6], replicate 32 7, 1000), [])"
proof -
  have "withdraw_fits demo_args" by (simp add: withdraw_fits_def demo_args_def)
  then obtain ix where ix: "build_withdraw_ix_for_pool demo_solders demo_args = Inr ix"
    using build_for_pool_total [of demo_args demo_solders] by (auto simp: demo_args_def)
  then show ?thesis
    using withdraw_data_roundtrip [OF ix] by (simp add: demo_args_def)
qed

text \<open>The one way the builder fails. A relay request passes model validation with
  any amount from 0 up, but the builder raises \<open>OverflowError\<close> exactly when the
  amount needs more than 64 bits or the proof is 4 GiB or longer; this error is not a domain
  error, so the handler of domain errors does not shape it.\<close>

theorem withdraw_build_error:
  assumes "0 \<le> wa_amount a"
  shows "(build_withdraw_ix_for_pool sol a = Inl e \<longleftrightarrow>
           e = overflow_error \<and> (2 ^ 64 \<le> wa_amount a \<or> 2 ^ 32 \<le> length (wa_proof_bytes a)))
         \<and> bagsvault_handler overflow_error = None"
  using assms
  by (auto simp: build_withdraw_ix_for_pool_def build_withdraw_ix_def build_withdraw_spl_ix_def
      Let_def proof_len_bytes int_to_bytes_le_overflow overflow_error_def not_less split: prod.splits)

theorem withdraw_build_error_witness:
  "build_withdraw_ix_for_pool demo_solders (demo_args\<lparr>wa_amount := 2 ^ 64\<rparr>) = Inl overflow_error"
  using withdraw_build_error [of "demo_args\<lparr>wa_amount := 2 ^ 64\<rparr>" demo_solders overflow_error]
  by simp

text \<open>Accounts of the withdraw instruction. The relayer is the first account and
  the only signer; the vault, the tree state and the nullifier account are the addresses
  derived from the mint and the padded nullifier, all writable; the recipient is writable
  in the native layout (6 accounts) and read-only in the token layout (9 accounts), where the
  associated token accounts of vault and recipient are writable instead.\<close>

theorem withdraw_accounts:
  assumes "build_withdraw_ix_for_pool sol a = Inr ix"
  shows "map pubkey (filter is_signer (accounts ix)) = [wa_relayer a]
         \<and> pubkey (hd (accounts ix)) = wa_relayer a
         \<and> (let (vault, tree, nul) = derive_pdas sol (wa_program_id a) (wa_token_mint a)
                                       (pad32 (wa_nullifier_bytes a))
            in map pubkey (filter (\<lambda>m. is_writable m \<and> \<not> is_signer m) (accounts ix)) =
                 (if wa_token_mint a = system_program_id sol
                  then [vault, tree, nul, wa_recipient a]
                  else [vault, derive_ata sol vault (wa_token_mint a), tree, nul,
                        derive_ata sol (wa_recipient a) (wa_token_mint a)]))
         \<and> length (accounts ix) = (if wa_token_mint a = system_program_id sol then 6 else 9)"
  using assms
  by (auto simp: build_withdraw_ix_for_pool_def build_withdraw_ix_def build_withdraw_spl_ix_def
      Let_def pad32_fold res_simps signer_meta_def writable_meta_def readonly_meta_def
      split: if_splits prod.splits)

theorem withdraw_accounts_witness:
  "\<exists>ix. build_withdraw_ix_for_pool demo_solders (demo_args\<lparr>wa_token_mint := replicate 32 1\<rparr>) = Inr ix
     \<and> length (accounts ix) = 9"
proof -
  let ?a = "demo_args\<lparr>wa_token_mint := replicate 32 1\<rparr>"
  have "withdraw_fits ?a" by (simp add: withdraw_fits_def demo_args_def)
  then obtain ix where ix: "build_withdraw_ix_for_pool demo_solders ?a = Inr ix"
    using build_for_pool_total [of ?a demo_solders] by (auto simp: demo_args_def)
  have "replicate 32 (1::byte) \<noteq> replicate 32 0" by simp
  with ix show ?thesis using withdraw_accounts [OF ix] by (simp add: demo_solders_def)
qed

end
