(* ===== verification/SolanaRpc.thy ===== *)
theory SolanaRpc
  imports Instructions
begin

text \<open>
  \<open>backend/app/clients/solana_rpc.py\<close>: the JSON-RPC client. The HTTP transport
  (\<open>httpx.AsyncClient\<close>) is a parameter. The client object is a record; its
  methods run on the pair of the object and the rest of the world.
\<close>

section \<open>Text of values\<close>

text \<open>
  \<open>str(v)\<close>: the decimal text of integers, and \<open>fmt\<close> for the values whose text
  is a \<open>repr\<close> (floats and containers).
\<close>

fun nat_str :: "nat \<Rightarrow> string" where
  "nat_str n = (if n < 10 then [char_of (48 + n)] else nat_str (n div 10) @ [char_of (48 + n mod 10)])"

declare nat_str.simps [simp del]

definition int_str :: "int \<Rightarrow> string" where
  "int_str i = (if i < 0 then ''-'' @ nat_str (nat (- i)) else nat_str (nat i))"

fun py_str :: "(json \<Rightarrow> string) \<Rightarrow> json \<Rightarrow> string" where
  "py_str fmt JNull = ''None''"
| "py_str fmt (JBool b) = (if b then ''True'' else ''False'')"
| "py_str fmt (JInt i) = int_str i"
| "py_str fmt (JStr s) = s"
| "py_str fmt v = fmt v"

section \<open>The client object and its transport\<close>

record rpc_client =
  rpc_url :: string
  rpc_commitment :: string
  rpc_timeout :: "rat list"
  http_open :: bool
  request_id :: nat

definition rstrip_slash :: "string \<Rightarrow> string" where
  "rstrip_slash s = rev (dropWhile (\<lambda>c. c = CHR ''/'') (rev s))"

definition DEFAULT_TIMEOUT :: "rat list" where
  "DEFAULT_TIMEOUT = [5, 15, 10, 10]"

definition new_rpc_client ::
  "settings \<Rightarrow> string option \<Rightarrow> string option \<Rightarrow> rat list option \<Rightarrow> rpc_client" where
  "new_rpc_client cfg url commitment timeout =
     \<lparr>rpc_url = rstrip_slash (case url of Some u \<Rightarrow> if u \<noteq> [] then u else solana_rpc_url cfg
                                      | None \<Rightarrow> solana_rpc_url cfg),
      rpc_commitment = (case commitment of Some c \<Rightarrow> if c \<noteq> [] then c else solana_commitment cfg
                                      | None \<Rightarrow> solana_commitment cfg),
      rpc_timeout = (case timeout of Some t \<Rightarrow> t | None \<Rightarrow> DEFAULT_TIMEOUT),
      http_open = False, request_id = 0\<rparr>"

record http_response =
  http_status :: int
  http_text :: string
  http_json :: "json option"

text \<open>
  \<open>client.post("", json=body)\<close> against the base URL: a response, or an
  exception. \<open>http_errors\<close> are the names of \<open>httpx.HTTPError\<close> and its subclasses.
\<close>

type_synonym 'w transport = "string \<Rightarrow> json \<Rightarrow> (http_response, 'w) io"

definition http_errors :: "string list" where
  "http_errors = [''HTTPError'', ''RequestError'', ''TransportError'', ''TimeoutException'',
     ''ConnectTimeout'', ''ReadTimeout'', ''WriteTimeout'', ''PoolTimeout'', ''NetworkError'',
     ''ConnectError'', ''ReadError'', ''WriteError'', ''CloseError'', ''ProtocolError'',
     ''LocalProtocolError'', ''RemoteProtocolError'', ''ProxyError'', ''UnsupportedProtocol'',
     ''DecodingError'', ''TooManyRedirects'', ''HTTPStatusError'']"

definition upstream :: "string \<Rightarrow> (string \<times> json) list \<Rightarrow> exn" where
  "upstream m d = Domain UpstreamError m d"

definition aclose :: "(unit, rpc_client \<times> 'w) io" where
  "aclose p = (Inr (), (fst p)\<lparr>http_open := False\<rparr>, snd p)"

section \<open>One call\<close>

text \<open>What \<open>_call\<close> makes of a response.\<close>

definition read_envelope :: "string \<Rightarrow> http_response \<Rightarrow> json res" where
  "read_envelope method response =
     (if 400 \<le> http_status response
      then Inl (upstream (''Solana RPC returned HTTP '' @ int_str (http_status response) @ ''.'')
        [(''upstream'', JStr ''solana_rpc''), (''method'', JStr method),
         (''status_code'', JInt (http_status response)),
         (''body'', JStr (take 1000 (http_text response)))])
      else case http_json response of
        None \<Rightarrow> Inl (upstream ''Solana RPC returned a non-JSON body.''
          [(''upstream'', JStr ''solana_rpc''), (''method'', JStr method),
           (''body'', JStr (take 500 (http_text response)))])
      | Some (JObj envelope) \<Rightarrow>
          if jget envelope ''error'' \<noteq> JNull
          then Inl (upstream ''Solana RPC returned an error envelope.''
            [(''upstream'', JStr ''solana_rpc''), (''method'', JStr method),
             (''rpc_error'', jget envelope ''error'')])
          else Inr (jget envelope ''result'')
      | Some j \<Rightarrow> Inl (upstream ''Solana RPC returned an unexpected JSON shape.''
          [(''upstream'', JStr ''solana_rpc''), (''method'', JStr method),
           (''type'', JStr (json_type_name j))]))"

text \<open>\<open>_get_client\<close>, \<open>_next_id\<close> and \<open>_call\<close>.\<close>

definition call :: "'w transport \<Rightarrow> string \<Rightarrow> json list \<Rightarrow> (json, rpc_client \<times> 'w) io" where
  "call post method params p =
     (let c = (fst p)\<lparr>http_open := True, request_id := request_id (fst p) + 1\<rparr>;
          body = JObj [(''jsonrpc'', JStr ''2.0''), (''id'', JInt (int (request_id c))),
                       (''method'', JStr method), (''params'', JList params)]
      in case post (rpc_url c) body (snd p) of
           (Inl (Other t m), w) \<Rightarrow>
             (if t \<in> set http_errors
              then Inl (upstream ''Failed to reach Solana RPC.''
                [(''upstream'', JStr ''solana_rpc''), (''method'', JStr method), (''error'', JStr m)])
              else Inl (Other t m), c, w)
         | (Inl e, w) \<Rightarrow> (Inl e, c, w)
         | (Inr response, w) \<Rightarrow> (read_envelope method response, c, w))"

text \<open>A method is \<open>call\<close> with parameters built from the client, and a check of the result.\<close>

definition rpc_method ::
  "'w transport \<Rightarrow> string \<Rightarrow> (rpc_client \<Rightarrow> json list) \<Rightarrow> (json \<Rightarrow> 'a res) \<Rightarrow> ('a, rpc_client \<times> 'w) io" where
  "rpc_method post method params check p =
     andthen (call post method (params (fst p))) (\<lambda>result. pure (check result)) p"

section \<open>Read methods\<close>

definition get_health :: "(json \<Rightarrow> string) \<Rightarrow> 'w transport \<Rightarrow> (string, rpc_client \<times> 'w) io" where
  "get_health fmt post =
     rpc_method post ''getHealth'' (\<lambda>c. [])
       (\<lambda>result. Inr (if result \<noteq> JNull then py_str fmt result else []))"

definition check_slot :: "json \<Rightarrow> int res" where
  "check_slot result =
     (case json_int result of
        Some i \<Rightarrow> Inr i
      | None \<Rightarrow> Inl (upstream ''Solana RPC getSlot returned non-integer result.''
          [(''upstream'', JStr ''solana_rpc''), (''result'', result)]))"

definition get_slot :: "'w transport \<Rightarrow> string option \<Rightarrow> (int, rpc_client \<times> 'w) io" where
  "get_slot post commitment =
     rpc_method post ''getSlot''
       (\<lambda>c. [JObj [(''commitment'', JStr (case commitment of
                 Some k \<Rightarrow> if k \<noteq> [] then k else rpc_commitment c | None \<Rightarrow> rpc_commitment c))]])
       check_slot"

definition check_transaction :: "json \<Rightarrow> dict option res" where
  "check_transaction result =
     (case result of
        JNull \<Rightarrow> Inr None
      | JObj d \<Rightarrow> Inr (Some d)
      | _ \<Rightarrow> Inl (upstream ''Solana RPC getTransaction returned non-dict result.''
          [(''upstream'', JStr ''solana_rpc''), (''result_type'', JStr (json_type_name result))]))"

definition get_transaction ::
  "'w transport \<Rightarrow> string \<Rightarrow> int \<Rightarrow> (dict option, rpc_client \<times> 'w) io" where
  "get_transaction post signature_b58 max_version =
     rpc_method post ''getTransaction''
       (\<lambda>c. [JStr signature_b58,
             JObj [(''encoding'', JStr ''json''), (''commitment'', JStr (rpc_commitment c)),
                   (''maxSupportedTransactionVersion'', JInt max_version)]])
       check_transaction"

definition check_account :: "json \<Rightarrow> dict option res" where
  "check_account result =
     (case result of
        JObj d \<Rightarrow>
          (case jget d ''value'' of
             JNull \<Rightarrow> Inr None
           | JObj v \<Rightarrow> Inr (Some v)
           | v \<Rightarrow> Inl (upstream ''Solana RPC getAccountInfo returned non-dict value.''
               [(''upstream'', JStr ''solana_rpc''), (''value_type'', JStr (json_type_name v))]))
      | _ \<Rightarrow> Inr None)"

definition get_account_info ::
  "'w transport \<Rightarrow> string \<Rightarrow> string \<Rightarrow> (dict option, rpc_client \<times> 'w) io" where
  "get_account_info post pubkey_b58 encoding =
     rpc_method post ''getAccountInfo''
       (\<lambda>c. [JStr pubkey_b58,
             JObj [(''encoding'', JStr encoding), (''commitment'', JStr (rpc_commitment c))]])
       check_account"

text \<open>
  The positional answers: \<open>result.get("value") or []\<close>, where a slot that is not a
  dictionary reads as \<open>None\<close>. A result that is no dictionary is all \<open>None\<close>.
\<close>

definition dict_or_none :: "json \<Rightarrow> dict option" where
  "dict_or_none entry = (case entry of JObj d \<Rightarrow> Some d | _ \<Rightarrow> None)"

definition check_slots :: "string \<Rightarrow> string list \<Rightarrow> json \<Rightarrow> dict option list res" where
  "check_slots method keys result =
     (case result of
        JObj d \<Rightarrow>
          (case py_or (jget d ''value'') (JList []) of
             JList vs \<Rightarrow> Inr (map dict_or_none vs)
           | v \<Rightarrow> Inl (upstream (''Solana RPC '' @ method @ '' returned non-list value.'')
               [(''upstream'', JStr ''solana_rpc''), (''value_type'', JStr (json_type_name v))]))
      | _ \<Rightarrow> Inr (map (\<lambda>_. None) keys))"

definition get_multiple_accounts ::
  "'w transport \<Rightarrow> string list \<Rightarrow> string \<Rightarrow> (dict option list, rpc_client \<times> 'w) io" where
  "get_multiple_accounts post pubkeys_b58 encoding =
     rpc_method post ''getMultipleAccounts''
       (\<lambda>c. [JList (map JStr pubkeys_b58),
             JObj [(''encoding'', JStr encoding), (''commitment'', JStr (rpc_commitment c))]])
       (check_slots ''getMultipleAccounts'' pubkeys_b58)"

definition check_program_accounts :: "json \<Rightarrow> dict list res" where
  "check_program_accounts result =
     (case result of
        JList items \<Rightarrow> Inr (List.map_filter dict_or_none items)
      | _ \<Rightarrow> Inr [])"

definition get_program_accounts ::
  "'w transport \<Rightarrow> string \<Rightarrow> json list \<Rightarrow> string \<Rightarrow> (dict list, rpc_client \<times> 'w) io" where
  "get_program_accounts post program_id_b58 filters encoding =
     rpc_method post ''getProgramAccounts''
       (\<lambda>c. [JStr program_id_b58,
             JObj ([(''encoding'', JStr encoding), (''commitment'', JStr (rpc_commitment c))] @
                   (if filters \<noteq> [] then [(''filters'', JList filters)] else []))])
       check_program_accounts"

definition check_blockhash :: "json \<Rightarrow> json res" where
  "check_blockhash result =
     (case result of
        JObj r \<Rightarrow>
          (case jget r ''value'' of
             JObj value \<Rightarrow>
               (case (jget value ''blockhash'', json_int (jget value ''lastValidBlockHeight'')) of
                  (JStr blockhash, Some _) \<Rightarrow>
                    Inr (JObj [(''blockhash'', JStr blockhash),
                               (''lastValidBlockHeight'', jget value ''lastValidBlockHeight'')])
                | _ \<Rightarrow> Inl (upstream ''Solana RPC getLatestBlockhash returned malformed value.''
                    [(''upstream'', JStr ''solana_rpc''), (''value'', JObj value)]))
           | v \<Rightarrow> Inl (upstream ''Solana RPC getLatestBlockhash returned non-dict value.''
               [(''upstream'', JStr ''solana_rpc''), (''value_type'', JStr (json_type_name v))]))
      | _ \<Rightarrow> Inl (upstream ''Solana RPC getLatestBlockhash returned non-dict result.''
          [(''upstream'', JStr ''solana_rpc''), (''result_type'', JStr (json_type_name result))]))"

definition get_recent_blockhash :: "'w transport \<Rightarrow> (json, rpc_client \<times> 'w) io" where
  "get_recent_blockhash post =
     rpc_method post ''getLatestBlockhash''
       (\<lambda>c. [JObj [(''commitment'', JStr (rpc_commitment c))]]) check_blockhash"

section \<open>Write methods\<close>

definition check_signature :: "json \<Rightarrow> string res" where
  "check_signature result =
     (case result of
        JStr s \<Rightarrow> Inr s
      | _ \<Rightarrow> Inl (upstream ''Solana RPC sendTransaction returned non-string signature.''
          [(''upstream'', JStr ''solana_rpc''), (''result_type'', JStr (json_type_name result))]))"

definition send_transaction :: "'w transport \<Rightarrow> string \<Rightarrow> bool \<Rightarrow> (string, rpc_client \<times> 'w) io" where
  "send_transaction post signed_tx_b64 skip_preflight =
     rpc_method post ''sendTransaction''
       (\<lambda>c. [JStr signed_tx_b64,
             JObj [(''encoding'', JStr ''base64''), (''skipPreflight'', JBool skip_preflight),
                   (''preflightCommitment'', JStr (rpc_commitment c))]])
       check_signature"

definition check_simulation :: "json \<Rightarrow> dict res" where
  "check_simulation result =
     (case result of
        JObj r \<Rightarrow>
          (case jget r ''value'' of
             JObj value \<Rightarrow> Inr value
           | v \<Rightarrow> Inl (upstream ''Solana RPC simulateTransaction returned non-dict value.''
               [(''upstream'', JStr ''solana_rpc''), (''value_type'', JStr (json_type_name v))]))
      | _ \<Rightarrow> Inl (upstream ''Solana RPC simulateTransaction returned non-dict result.''
          [(''upstream'', JStr ''solana_rpc''), (''result_type'', JStr (json_type_name result))]))"

definition simulate_transaction :: "'w transport \<Rightarrow> string \<Rightarrow> bool \<Rightarrow> (dict, rpc_client \<times> 'w) io" where
  "simulate_transaction post signed_tx_b64 replace_recent_blockhash =
     rpc_method post ''simulateTransaction''
       (\<lambda>c. [JStr signed_tx_b64,
             JObj [(''encoding'', JStr ''base64''), (''commitment'', JStr (rpc_commitment c)),
                   (''replaceRecentBlockhash'', JBool replace_recent_blockhash)]])
       check_simulation"

definition get_signature_statuses ::
  "'w transport \<Rightarrow> string list \<Rightarrow> bool \<Rightarrow> (dict option list, rpc_client \<times> 'w) io" where
  "get_signature_statuses post signatures search_history =
     rpc_method post ''getSignatureStatuses''
       (\<lambda>c. [JList (map JStr signatures), JObj [(''searchTransactionHistory'', JBool search_history)]])
       (check_slots ''getSignatureStatuses'' signatures)"

section \<open>The interface the services use\<close>

text \<open>
  The \<open>SolanaRpc\<close> protocols of the services list the methods they need. \<open>rpc\<close> is
  such an object over any world; \<open>rpc_of\<close> is the client above as one.
\<close>

record 'w rpc =
  latest_blockhash :: "(json, 'w) io"
  send_tx :: "string \<Rightarrow> bool \<Rightarrow> (string, 'w) io"
  simulate_tx :: "string \<Rightarrow> bool \<Rightarrow> (dict, 'w) io"
  signature_statuses :: "string list \<Rightarrow> bool \<Rightarrow> (dict option list, 'w) io"
  transaction :: "string \<Rightarrow> (dict option, 'w) io"
  account_info :: "string \<Rightarrow> string \<Rightarrow> (dict option, 'w) io"

definition rpc_of :: "'w transport \<Rightarrow> (rpc_client \<times> 'w) rpc" where
  "rpc_of post = \<lparr>latest_blockhash = get_recent_blockhash post,
     send_tx = send_transaction post,
     simulate_tx = simulate_transaction post,
     signature_statuses = get_signature_statuses post,
     transaction = (\<lambda>s. get_transaction post s 0),
     account_info = get_account_info post\<rparr>"


section \<open>Lemmas about one call\<close>

text \<open>An exception of the transport that \<open>_call\<close> does not translate.\<close>

definition escapes :: "'w transport \<Rightarrow> exn \<Rightarrow> bool" where
  "escapes post e \<longleftrightarrow>
     (\<exists>url body w w'. post url body w = (Inl e, w')) \<and>
     (\<forall>t m. e = Other t m \<longrightarrow> t \<notin> set http_errors)"

lemma upstream_is [simp]: "is_upstream (upstream m d)" "is_domain (upstream m d)"
  by (simp_all add: upstream_def)

lemma read_envelope_Inl: "read_envelope method resp = Inl e \<Longrightarrow> is_upstream e"
  by (auto simp: read_envelope_def split: if_splits option.splits json.splits)

lemma call_state:
  "call post method params (c, w) = (r, c', w') \<Longrightarrow>
   c' = c\<lparr>http_open := True, request_id := Suc (request_id c)\<rparr>"
  by (auto simp: call_def Let_def split: prod.splits sum.splits exn.splits if_splits)

lemma call_Inl:
  "call post method params (c, w) = (Inl e, c', w') \<Longrightarrow> is_upstream e \<or> escapes post e"
  unfolding call_def escapes_def
  by (auto simp: Let_def upstream_def dest: read_envelope_Inl
      split: prod.splits sum.splits exn.splits if_splits)

lemma rpc_method_state:
  "rpc_method post method params check (c, w) = (r, c', w') \<Longrightarrow>
   c' = c\<lparr>http_open := True, request_id := Suc (request_id c)\<rparr>"
  by (auto simp: rpc_method_def andthen_def pure_def dest!: call_state split: prod.splits sum.splits)

lemma rpc_method_Inl:
  assumes "rpc_method post method params check (c, w) = (Inl e, c', w')"
    and "\<And>j e. check j = Inl e \<Longrightarrow> is_upstream e"
  shows "is_upstream e \<or> escapes post e"
  using assms by (auto simp: rpc_method_def pure_def elim!: andthen_InlE dest: call_Inl)

lemma rpc_method_Inr:
  assumes "rpc_method post method params check (c, w) = (Inr x, c', w')"
  shows "\<exists>j. check j = Inr x"
  using assms by (auto simp: rpc_method_def pure_def elim!: andthen_InrE)

lemma check_upstream:
  "check_slot j = Inl e \<Longrightarrow> is_upstream e"
  "check_transaction j = Inl e \<Longrightarrow> is_upstream e"
  "check_account j = Inl e \<Longrightarrow> is_upstream e"
  "check_slots m ks j = Inl e \<Longrightarrow> is_upstream e"
  "check_program_accounts j = Inl e \<Longrightarrow> is_upstream e"
  "check_blockhash j = Inl e \<Longrightarrow> is_upstream e"
  "check_signature j = Inl e \<Longrightarrow> is_upstream e"
  "check_simulation j = Inl e \<Longrightarrow> is_upstream e"
  by (auto simp: check_slot_def check_transaction_def check_account_def check_slots_def
      check_program_accounts_def check_blockhash_def check_signature_def check_simulation_def
      split: option.splits json.splits prod.splits)

lemma check_blockhash_coerce: "check_blockhash j = Inr b \<Longrightarrow> \<exists>s. coerce_blockhash b = Inr s"
  by (auto simp: check_blockhash_def coerce_blockhash_def jget_def
      split: option.splits json.splits prod.splits)

section \<open>The contract of an RPC object\<close>

text \<open>
  What the services rely on: a failure is an \<open>UpstreamError\<close> or something the
  transport let through, and a blockhash answer is one \<open>_coerce_blockhash\<close> accepts.
\<close>

locale rpc_contract =
  fixes r :: "'w rpc" and foreign :: "exn \<Rightarrow> bool"
  assumes blockhash_error: "latest_blockhash r w = (Inl e, w') \<Longrightarrow> is_upstream e \<or> foreign e"
    and blockhash_shape: "latest_blockhash r w = (Inr j, w') \<Longrightarrow> \<exists>s. coerce_blockhash j = Inr s"
    and send_error: "send_tx r tx sk w = (Inl e, w') \<Longrightarrow> is_upstream e \<or> foreign e"
    and simulate_error: "simulate_tx r tx rb w = (Inl e, w') \<Longrightarrow> is_upstream e \<or> foreign e"
    and statuses_error: "signature_statuses r sigs h w = (Inl e, w') \<Longrightarrow> is_upstream e \<or> foreign e"
    and transaction_error: "transaction r s w = (Inl e, w') \<Longrightarrow> is_upstream e \<or> foreign e"
    and account_error: "account_info r k enc w = (Inl e, w') \<Longrightarrow> is_upstream e \<or> foreign e"
begin

text \<open>Fetching a blockhash and coercing it fails only as the fetch does.\<close>

lemma coerced_blockhash_error:
  assumes "andthen (latest_blockhash r) (\<lambda>j. pure (coerce_blockhash j)) w = (Inl e, w')"
  shows "is_upstream e \<or> foreign e"
  using assms blockhash_error blockhash_shape
  by (elim andthen_InlE) (fastforce simp: pure_def)+

end

interpretation client: rpc_contract "rpc_of post" "escapes post" for post
proof (unfold_locales, unfold rpc_of_def rpc.simps)
  fix w w' :: "rpc_client \<times> 'a" and e
  obtain c v where w: "w = (c, v)" by (rule prod.exhaust)
  obtain c' v' where w': "w' = (c', v')" by (rule prod.exhaust)
  show "get_recent_blockhash post w = (Inl e, w') \<Longrightarrow> is_upstream e \<or> escapes post e"
    unfolding w w' get_recent_blockhash_def by (erule rpc_method_Inl) (rule check_upstream)
  show "get_recent_blockhash post w = (Inr j, w') \<Longrightarrow> \<exists>s. coerce_blockhash j = Inr s" for j
    unfolding w w' get_recent_blockhash_def by (auto dest!: rpc_method_Inr intro: check_blockhash_coerce)
  show "send_transaction post tx sk w = (Inl e, w') \<Longrightarrow> is_upstream e \<or> escapes post e" for tx sk
    unfolding w w' send_transaction_def by (erule rpc_method_Inl) (rule check_upstream)
  show "simulate_transaction post tx rb w = (Inl e, w') \<Longrightarrow> is_upstream e \<or> escapes post e" for tx rb
    unfolding w w' simulate_transaction_def by (erule rpc_method_Inl) (rule check_upstream)
  show "get_signature_statuses post sigs h w = (Inl e, w') \<Longrightarrow> is_upstream e \<or> escapes post e" for sigs h
    unfolding w w' get_signature_statuses_def by (erule rpc_method_Inl) (rule check_upstream)
  show "get_transaction post s 0 w = (Inl e, w') \<Longrightarrow> is_upstream e \<or> escapes post e" for s
    unfolding w w' get_transaction_def by (erule rpc_method_Inl) (rule check_upstream)
  show "get_account_info post k enc w = (Inl e, w') \<Longrightarrow> is_upstream e \<or> escapes post e" for k enc
    unfolding w w' get_account_info_def by (erule rpc_method_Inl) (rule check_upstream)
qed

section \<open>Properties\<close>

text \<open>Every call of \<open>m\<close> takes exactly one new request id, keeps the rest of the client's
  configuration, and fails only with an \<open>UpstreamError\<close> or an exception \<open>allowed\<close> admits.\<close>

definition well_behaved :: "(exn \<Rightarrow> bool) \<Rightarrow> ('a, rpc_client \<times> 'w) io \<Rightarrow> bool" where
  "well_behaved allowed m \<longleftrightarrow>
     (\<forall>c w r c' w'. m (c, w) = (r, c', w') \<longrightarrow>
        c' = c\<lparr>http_open := True, request_id := Suc (request_id c)\<rparr> \<and>
        (\<forall>e. r = Inl e \<longrightarrow> is_upstream e \<or> allowed e))"

lemma rpc_method_well_behaved:
  "(\<And>j e. check j = Inl e \<Longrightarrow> is_upstream e) \<Longrightarrow>
   well_behaved (escapes post) (rpc_method post method params check)"
  unfolding well_behaved_def
  by (intro allI impI conjI) (erule rpc_method_state, simp, erule rpc_method_Inl, blast)

lemma well_behaved_get_health: "well_behaved (escapes post) (get_health fmt post)"
  unfolding get_health_def by (rule rpc_method_well_behaved, (erule check_upstream | simp))

lemma well_behaved_get_slot: "well_behaved (escapes post) (get_slot post k)"
  unfolding get_slot_def by (rule rpc_method_well_behaved, (erule check_upstream | simp))

lemma well_behaved_get_transaction: "well_behaved (escapes post) (get_transaction post sig v)"
  unfolding get_transaction_def by (rule rpc_method_well_behaved, (erule check_upstream | simp))

lemma well_behaved_get_account_info: "well_behaved (escapes post) (get_account_info post pk enc)"
  unfolding get_account_info_def by (rule rpc_method_well_behaved, (erule check_upstream | simp))

lemma well_behaved_get_multiple_accounts: "well_behaved (escapes post) (get_multiple_accounts post pks enc)"
  unfolding get_multiple_accounts_def by (rule rpc_method_well_behaved, (erule check_upstream | simp))

lemma well_behaved_get_program_accounts: "well_behaved (escapes post) (get_program_accounts post pid fs enc)"
  unfolding get_program_accounts_def by (rule rpc_method_well_behaved, (erule check_upstream | simp))

lemma well_behaved_get_recent_blockhash: "well_behaved (escapes post) (get_recent_blockhash post)"
  unfolding get_recent_blockhash_def by (rule rpc_method_well_behaved, (erule check_upstream | simp))

lemma well_behaved_send_transaction: "well_behaved (escapes post) (send_transaction post tx b)"
  unfolding send_transaction_def by (rule rpc_method_well_behaved, (erule check_upstream | simp))

lemma well_behaved_simulate_transaction: "well_behaved (escapes post) (simulate_transaction post tx b)"
  unfolding simulate_transaction_def by (rule rpc_method_well_behaved, (erule check_upstream | simp))

lemma well_behaved_get_signature_statuses: "well_behaved (escapes post) (get_signature_statuses post sigs b)"
  unfolding get_signature_statuses_def by (rule rpc_method_well_behaved, (erule check_upstream | simp))

text \<open>Errors of the JSON-RPC client. Whatever bytes the node answers with - an HTTP
  error, a body that is no JSON, a JSON value of the wrong shape, an error envelope, a result of
  the wrong type - each of the ten methods either returns or raises \<open>UpstreamError\<close> (HTTP 502);
  the only other exceptions are ones the HTTP library raised outside its own hierarchy. Each
  call, failed or not, uses up exactly one request id, so no id is sent twice.\<close>

theorem rpc_fails_only_upstream:
  "well_behaved (escapes post) (get_health fmt post)
   \<and> well_behaved (escapes post) (get_slot post k)
   \<and> well_behaved (escapes post) (get_transaction post sig v)
   \<and> well_behaved (escapes post) (get_account_info post pk enc)
   \<and> well_behaved (escapes post) (get_multiple_accounts post pks enc)
   \<and> well_behaved (escapes post) (get_program_accounts post pid fs enc)
   \<and> well_behaved (escapes post) (get_recent_blockhash post)
   \<and> well_behaved (escapes post) (send_transaction post tx b)
   \<and> well_behaved (escapes post) (simulate_transaction post tx b)
   \<and> well_behaved (escapes post) (get_signature_statuses post sigs b)"
  by (intro conjI well_behaved_get_health well_behaved_get_slot well_behaved_get_transaction well_behaved_get_account_info well_behaved_get_multiple_accounts well_behaved_get_program_accounts well_behaved_get_recent_blockhash well_behaved_send_transaction well_behaved_simulate_transaction well_behaved_get_signature_statuses)

definition answers_with :: "'w transport \<Rightarrow> rpc_client \<Rightarrow> 'w \<Rightarrow> json \<Rightarrow> bool" where
  "answers_with post c w result \<longleftrightarrow>
     (\<forall>body. \<exists>resp w'. post (rpc_url c) body w = (Inr resp, w') \<and> http_status resp < 400 \<and>
        http_json resp = Some (JObj [(''result'', result)]))"

lemma call_answer:
  assumes "answers_with post c w result"
  shows "\<exists>c' w'. call post method params (c, w) = (Inr result, c', w')"
proof -
  obtain resp w' where "post (rpc_url c) (JObj [(''jsonrpc'', JStr ''2.0''),
      (''id'', JInt (int (Suc (request_id c)))), (''method'', JStr method), (''params'', JList params)]) w
        = (Inr resp, w')" "http_status resp < 400" "http_json resp = Some (JObj [(''result'', result)])"
    using assms unfolding answers_with_def by blast
  then show ?thesis by (simp add: call_def read_envelope_def jget_def Let_def)
qed

lemma rpc_method_answer:
  assumes "answers_with post c w result"
  shows "\<exists>c' w'. rpc_method post method params check (c, w) = (check result, c', w')"
  using call_answer [OF assms, of "method" "params c"]
  by (auto simp: rpc_method_def andthen_def pure_def)

text \<open>Positional answers. When the node answers \<open>getSignatureStatuses\<close> with a list,
  entry \<open>i\<close> of the result is the dictionary at position \<open>i\<close> of the list, or \<open>None\<close> when
  that entry is anything else; no entry is dropped or moved.\<close>

theorem statuses_are_positional:
  assumes "answers_with post c w (JObj [(''value'', JList vs)])"
  shows "\<exists>slots c' w'. get_signature_statuses post sigs hist (c, w) = (Inr slots, c', w') \<and>
     length slots = length vs \<and>
     (\<forall>i < length vs. slots ! i = (case vs ! i of JObj d \<Rightarrow> Some d | _ \<Rightarrow> None))"
proof -
  obtain c' w' where m: "get_signature_statuses post sigs hist (c, w)
      = (check_slots ''getSignatureStatuses'' sigs (JObj [(''value'', JList vs)]), c', w')"
    unfolding get_signature_statuses_def using rpc_method_answer [OF assms] by blast
  have "check_slots ''getSignatureStatuses'' sigs (JObj [(''value'', JList vs)])
      = Inr (map dict_or_none vs)"
    by (simp add: check_slots_def jget_def py_or_def)
  with m show ?thesis by (simp add: dict_or_none_def)
qed

definition demo_post :: "unit transport" where
  "demo_post url body = ret \<lparr>http_status = 200, http_text = [],
     http_json = Some (JObj [(''result'', JObj [(''value'',
       JList [JNull, JObj [(''slot'', JInt 7)], JInt 3])])])\<rparr>"

theorem statuses_are_positional_witness:
  "\<exists>slots c' w'. get_signature_statuses demo_post [''a'', ''b'', ''c''] False
       (new_rpc_client default_settings None None None, ()) = (Inr slots, c', w')
     \<and> length slots = 3 \<and> slots ! 0 = None \<and> slots ! 1 = Some [(''slot'', JInt 7)]"
proof -
  let ?vs = "[JNull, JObj [(''slot'', JInt 7)], JInt 3]"
  let ?c = "new_rpc_client default_settings None None None"
  have a: "answers_with demo_post ?c () (JObj [(''value'', JList ?vs)])"
    by (simp add: answers_with_def demo_post_def)
  obtain slots c' w' where m: "get_signature_statuses demo_post [''a'', ''b'', ''c''] False (?c, ()) = (Inr slots, c', w')"
    and len: "length slots = length ?vs"
    and nth: "\<forall>i < length ?vs. slots ! i = (case ?vs ! i of JObj d \<Rightarrow> Some d | _ \<Rightarrow> None)"
    using statuses_are_positional [OF a, of "[''a'', ''b'', ''c'']" False] by (elim exE conjE)
  from nth have "slots ! 0 = None" "slots ! 1 = Some [(''slot'', JInt 7)]"
    by (auto dest: spec [of _ 0] spec [of _ 1])
  with m len show ?thesis by (intro exI conjI) simp_all
qed

end
