(* ===== verification/Base64.thy ===== *)
theory Base64
  imports PyBytes
begin

text \<open>
  \<open>base64.b64encode\<close> and the strict inverse, with the round trip. Every
  transaction crosses the JSON-RPC boundary in this form.
\<close>

definition b64_char :: "nat \<Rightarrow> char" where
  "b64_char n = char_of (if n < 26 then 65 + n else if n < 52 then 71 + n
     else if n < 62 then n - 4 else if n = 62 then 43 else 47)"

definition b64_value :: "char \<Rightarrow> nat option" where
  "b64_value c = (let k = (of_char c :: nat) in
     if 65 \<le> k \<and> k \<le> 90 then Some (k - 65)
     else if 97 \<le> k \<and> k \<le> 122 then Some (k - 71)
     else if 48 \<le> k \<and> k \<le> 57 then Some (k + 4)
     else if k = 43 then Some 62 else if k = 47 then Some 63 else None)"

text \<open>The sextets of three octets, and back; a missing octet counts as 0.\<close>

definition sx1 :: "byte \<Rightarrow> nat" where "sx1 a = unat a div 4"
definition sx2 :: "byte \<Rightarrow> byte \<Rightarrow> nat" where "sx2 a b = unat a mod 4 * 16 + unat b div 16"
definition sx3 :: "byte \<Rightarrow> byte \<Rightarrow> nat" where "sx3 b c = unat b mod 16 * 4 + unat c div 64"
definition sx4 :: "byte \<Rightarrow> nat" where "sx4 c = unat c mod 64"

definition oct1 :: "nat \<Rightarrow> nat \<Rightarrow> byte" where "oct1 x y = of_nat (x * 4 + y div 16)"
definition oct2 :: "nat \<Rightarrow> nat \<Rightarrow> byte" where "oct2 y z = of_nat (y mod 16 * 16 + z div 4)"
definition oct3 :: "nat \<Rightarrow> nat \<Rightarrow> byte" where "oct3 z v = of_nat (z mod 4 * 64 + v)"

fun b64encode :: "bytes \<Rightarrow> string" where
  "b64encode [] = []"
| "b64encode [a] = [b64_char (sx1 a), b64_char (sx2 a 0), CHR ''='', CHR ''='']"
| "b64encode [a, b] = [b64_char (sx1 a), b64_char (sx2 a b), b64_char (sx3 b 0), CHR ''='']"
| "b64encode (a # b # c # r) =
     b64_char (sx1 a) # b64_char (sx2 a b) # b64_char (sx3 b c) # b64_char (sx4 c) # b64encode r"

text \<open>Canonical input only: \<open>None\<close> for a bad character or a wrong length.\<close>

fun b64decode :: "string \<Rightarrow> bytes option" where
  "b64decode [] = Some []"
| "b64decode (p # q # r # s # rest) =
     (case (b64_value p, b64_value q) of
        (Some x, Some y) \<Rightarrow>
          (if r = CHR ''='' \<and> s = CHR ''='' \<and> rest = [] then Some [oct1 x y]
           else case b64_value r of None \<Rightarrow> None | Some z \<Rightarrow>
             if s = CHR ''='' \<and> rest = []
             then Some [oct1 x y, oct2 y z]
             else (case (b64_value s, b64decode rest) of
                     (Some v, Some bs) \<Rightarrow>
                       Some (oct1 x y # oct2 y z # oct3 z v # bs)
                   | _ \<Rightarrow> None))
      | _ \<Rightarrow> None)"
| "b64decode _ = None"

lemma b64_value_char [simp]: "n < 64 \<Longrightarrow> b64_value (b64_char n) = Some n"
  by (auto simp: b64_value_def b64_char_def Let_def)

lemma b64_value_pad [simp]: "b64_value (CHR ''='') = None"
  by code_simp

lemma b64_char_pad [simp]: "n < 64 \<Longrightarrow> b64_char n \<noteq> CHR ''=''"
  using b64_value_char [of n] b64_value_pad by force

lemma sextet_bound [simp]: "sx1 a < 64" "sx2 a b < 64" "sx3 b c < 64" "sx4 c < 64"
  using byte_bound [of a] byte_bound [of b] byte_bound [of c]
  by (auto simp: sx1_def sx2_def sx3_def sx4_def)

lemma unat_of_nat_id: "of_nat (unat a) = (a :: byte)"
  by simp

lemma octets_of_sextets [simp]:
  "oct1 (sx1 a) (sx2 a b) = a" "oct2 (sx2 a b) (sx3 b c) = b" "oct3 (sx3 b c) (sx4 c) = c"
proof -
  have bd: "unat b div 16 < 16" "unat c div 64 < 4"
    using byte_bound [of b] byte_bound [of c] by auto
  have "sx1 a * 4 + sx2 a b div 16 = unat a" "sx2 a b mod 16 * 16 + sx3 b c div 4 = unat b"
    "sx3 b c mod 4 * 64 + sx4 c = unat c"
    using bd by (simp_all add: sx1_def sx2_def sx3_def sx4_def)
  then show "oct1 (sx1 a) (sx2 a b) = a" "oct2 (sx2 a b) (sx3 b c) = b" "oct3 (sx3 b c) (sx4 c) = c"
    by (simp_all only: oct1_def oct2_def oct3_def unat_of_nat_id)
qed

theorem b64decode_encode [simp, byte_simps]: "b64decode (b64encode bs) = Some bs"
  by (induction bs rule: b64encode.induct) simp_all

lemma length_b64encode [byte_simps]: "length (b64encode bs) = 4 * ((length bs + 2) div 3)"
proof (induction bs rule: b64encode.induct)
  case (4 a b c r)
  have "(length (a # b # c # r) + 2) div 3 = Suc ((length r + 2) div 3)" by simp
  with 4 show ?case by simp
qed simp_all

lemma b64encode_inj: "b64encode xs = b64encode ys \<Longrightarrow> xs = ys"
  by (metis b64decode_encode option.inject)

text \<open>
  \<open>base64.b64decode(s)\<close> without \<open>validate\<close>: characters outside the alphabet are
  skipped, a complete padding ends the input, and what is left over is
  \<open>binascii.Error\<close>; a character beyond ASCII is \<open>ValueError\<close>. \<open>k\<close> is the position in
  the quantum, \<open>l\<close> the sextet before it, \<open>p\<close> the padding characters seen.
\<close>

fun a2b_base64 :: "nat \<Rightarrow> nat \<Rightarrow> nat \<Rightarrow> string \<Rightarrow> bytes option" where
  "a2b_base64 k l p [] = (if k = 0 then Some [] else None)"
| "a2b_base64 k l p (c # s) =
     (if c = CHR ''=''
      then if 2 \<le> k then (if 4 \<le> k + Suc p then Some [] else a2b_base64 k l (Suc p) s)
           else a2b_base64 k l p s
      else case b64_value c of
             None \<Rightarrow> a2b_base64 k l p s
           | Some v \<Rightarrow>
               if k = 0 then a2b_base64 1 v 0 s
               else if k = 1 then map_option ((#) (oct1 l v)) (a2b_base64 2 v 0 s)
               else if k = 2 then map_option ((#) (oct2 l v)) (a2b_base64 3 v 0 s)
               else map_option ((#) (oct3 l v)) (a2b_base64 0 0 0 s))"

definition py_b64decode :: "string \<Rightarrow> bytes option" where
  "py_b64decode s =
     (if \<exists>c \<in> set s. 128 \<le> (of_char c :: nat) then None else a2b_base64 0 0 0 s)"

lemma a2b_base64_encode: "a2b_base64 0 l p (b64encode bs) = Some bs"
  by (induction bs arbitrary: l p rule: b64encode.induct) simp_all

lemma b64_char_ascii: "n < 64 \<Longrightarrow> (of_char (b64_char n) :: nat) < 128"
  by (auto simp: b64_char_def)

lemma b64encode_ascii: "\<forall>c \<in> set (b64encode bs). (of_char c :: nat) < 128"
  by (induction bs rule: b64encode.induct) (auto simp: b64_char_ascii)

lemma py_b64decode_encode [simp, byte_simps]: "py_b64decode (b64encode bs) = Some bs"
  using b64encode_ascii by (auto simp: py_b64decode_def a2b_base64_encode not_le [symmetric])

end
