(* ===== verification/Signer.thy ===== *)
theory Signer
  imports Instructions "HOL-Library.Multiset"
begin

text \<open>
  \<open>backend/app/clients/solana_signer.py\<close>: the relayer's key pairs, loaded on
  first use and handed out in rotation, and the signing of a compiled message.
  The file system is a parameter; the client object is the record \<open>signer\<close>,
  and a method runs on the pair of the object and the rest of the world.
\<close>

section \<open>The client object\<close>

type_synonym keypair = bytes

record signer =
  configured_path :: "string option"
  configured_paths :: "string list option"
  sg_keypair :: "keypair option"
  sg_keypairs :: "keypair list option"
  rotation_index :: nat

text \<open>\<open>SolanaSignerClient.__init__\<close>: an empty list of paths counts as none.\<close>

definition new_signer :: "string option \<Rightarrow> string list option \<Rightarrow> signer" where
  "new_signer keypair_path keypair_paths =
     \<lparr>configured_path = keypair_path,
      configured_paths =
        (case keypair_paths of None \<Rightarrow> None | Some ps \<Rightarrow> if ps = [] then None else Some ps),
      sg_keypair = None, sg_keypairs = None, rotation_index = 0\<rparr>"

text \<open>
  \<open>path.exists()\<close>, \<open>path.read_text()\<close> and \<open>json.loads\<close>; \<open>config.keypair_path\<close>
  resolves a relative path against the backend's root directory.
\<close>

record 'w files =
  path_exists :: "string \<Rightarrow> (bool, 'w) io"
  read_text :: "string \<Rightarrow> (string, 'w) io"
  json_loads :: "string \<Rightarrow> json res"
  root_dir :: string

text \<open>The classes caught by \<open>except (OSError, json.JSONDecodeError)\<close>.\<close>

definition read_errors :: "string list" where
  "read_errors = [''OSError'', ''FileNotFoundError'', ''PermissionError'', ''IsADirectoryError'',
     ''NotADirectoryError'', ''TimeoutError'', ''JSONDecodeError'']"

definition keypair_path :: "'w files \<Rightarrow> string \<Rightarrow> string" where
  "keypair_path fs p = (if startswith p ''/'' then p else root_dir fs @ ''/'' @ p)"

definition resolve_path :: "'w files \<Rightarrow> settings \<Rightarrow> signer \<Rightarrow> string" where
  "resolve_path fs cfg s =
     (case configured_path s of Some p \<Rightarrow> p | None \<Rightarrow> keypair_path fs (solana_relayer_keypair cfg))"

definition not_configured :: "(string \<times> json) list \<Rightarrow> exn" where
  "not_configured d = Domain ServiceUnavailableError ''Relayer keypair not configured.'' d"

section \<open>Loading\<close>

text \<open>\<open>bytes(secret)\<close> on a list of ints; \<open>None\<close> is its \<open>ValueError\<close>.\<close>

fun ints_of :: "json list \<Rightarrow> int list option" where
  "ints_of [] = Some []"
| "ints_of (x # xs) =
     (case (json_int x, ints_of xs) of (Some i, Some is) \<Rightarrow> Some (i # is) | _ \<Rightarrow> None)"

definition py_bytes :: "int list \<Rightarrow> bytes option" where
  "py_bytes is = (if \<forall>i \<in> set is. 0 \<le> i \<and> i < 256 then Some (map of_int is) else None)"

definition parse_secret :: "solders \<Rightarrow> string \<Rightarrow> json \<Rightarrow> keypair res" where
  "parse_secret sol path secret =
     (let fail = (\<lambda>err. Inl (not_configured [(''path'', JStr path), (''error'', JStr err)]))
      in case secret of
           JList xs \<Rightarrow>
             (case ints_of xs of
                None \<Rightarrow> fail ''expected JSON array of ints''
              | Some is \<Rightarrow>
                  (case py_bytes is of
                     None \<Rightarrow> fail ''bytes must be in range(0, 256)''
                   | Some bs \<Rightarrow>
                       (case keypair_from_bytes sol bs of
                          Inl err \<Rightarrow> fail err
                        | Inr kp \<Rightarrow> Inr kp)))
         | _ \<Rightarrow> fail ''expected JSON array of ints'')"

definition load_keypair_from_path :: "solders \<Rightarrow> 'w files \<Rightarrow> string \<Rightarrow> (keypair, 'w) io" where
  "load_keypair_from_path sol fs path =
     andthen (path_exists fs path) (\<lambda>ex.
       if \<not> ex then throw (not_configured [(''missing_path'', JStr path)])
       else
         andthen
           (catching
             (andthen (read_text fs path) (\<lambda>raw. pure (json_loads fs raw)))
             (\<lambda>exc. case exc of
                Other t m \<Rightarrow>
                  if t \<in> set read_errors
                  then throw (not_configured [(''path'', JStr path), (''error'', JStr m)])
                  else throw exc
              | _ \<Rightarrow> throw exc))
           (\<lambda>secret. pure (parse_secret sol path secret)))"

definition load :: "solders \<Rightarrow> 'w files \<Rightarrow> settings \<Rightarrow> (keypair, signer \<times> 'w) io" where
  "load sol fs cfg p =
     (let s = fst p in
      case sg_keypair s of
        Some kp \<Rightarrow> (Inr kp, p)
      | None \<Rightarrow>
          (case load_keypair_from_path sol fs (resolve_path fs cfg s) (snd p) of
             (Inl e, w) \<Rightarrow> (Inl e, s, w)
           | (Inr kp, w) \<Rightarrow> (Inr kp, s\<lparr>sg_keypair := Some kp\<rparr>, w)))"

fun load_all :: "solders \<Rightarrow> 'w files \<Rightarrow> string list \<Rightarrow> (keypair list, 'w) io" where
  "load_all sol fs [] = ret []"
| "load_all sol fs (path # paths) =
     andthen (load_keypair_from_path sol fs path) (\<lambda>kp.
     andthen (load_all sol fs paths) (\<lambda>kps. ret (kp # kps)))"

definition load_pool :: "solders \<Rightarrow> 'w files \<Rightarrow> (keypair list, signer \<times> 'w) io" where
  "load_pool sol fs p =
     (let s = fst p in
      case sg_keypairs s of
        Some kps \<Rightarrow> (Inr kps, p)
      | None \<Rightarrow>
          (let paths = (case configured_paths s of None \<Rightarrow> [] | Some ps \<Rightarrow> ps) in
           case load_all sol fs paths (snd p) of
             (Inl e, w) \<Rightarrow> (Inl e, s, w)
           | (Inr kps, w) \<Rightarrow> (Inr kps, s\<lparr>sg_keypairs := Some kps\<rparr>, w)))"

definition next_keypair :: "solders \<Rightarrow> 'w files \<Rightarrow> settings \<Rightarrow> (keypair, signer \<times> 'w) io" where
  "next_keypair sol fs cfg p =
     (if configured_paths (fst p) \<noteq> None \<and> configured_paths (fst p) \<noteq> Some []
      then (case load_pool sol fs p of
              (Inl e, q) \<Rightarrow> (Inl e, q)
            | (Inr kps, q) \<Rightarrow>
                if kps = [] then load sol fs cfg q
                else let s = fst q; i = rotation_index s
                  in (Inr (kps ! (i mod length kps)),
                      s\<lparr>rotation_index := (i + 1) mod length kps\<rparr>, snd q))
      else load sol fs cfg p)"

section \<open>Public methods\<close>

definition signer_pubkey :: "solders \<Rightarrow> 'w files \<Rightarrow> settings \<Rightarrow> (string, signer \<times> 'w) io" where
  "signer_pubkey sol fs cfg =
     andthen (next_keypair sol fs cfg) (\<lambda>kp. ret (pubkey_str sol (keypair_pubkey sol kp)))"

definition pubkey_obj :: "solders \<Rightarrow> 'w files \<Rightarrow> settings \<Rightarrow> (pubkey, signer \<times> 'w) io" where
  "pubkey_obj sol fs cfg =
     andthen (next_keypair sol fs cfg) (\<lambda>kp. ret (keypair_pubkey sol kp))"

definition pubkeys :: "solders \<Rightarrow> 'w files \<Rightarrow> settings \<Rightarrow> (string list, signer \<times> 'w) io" where
  "pubkeys sol fs cfg p =
     (let str = (\<lambda>kp. pubkey_str sol (keypair_pubkey sol kp)) in
      if configured_paths (fst p) \<noteq> None \<and> configured_paths (fst p) \<noteq> Some []
      then andthen (load_pool sol fs) (\<lambda>kps. ret (map str kps)) p
      else andthen (load sol fs cfg) (\<lambda>kp. ret [str kp]) p)"

definition sign_transaction ::
  "solders \<Rightarrow> 'w files \<Rightarrow> settings \<Rightarrow> bytes \<Rightarrow> (bytes, signer \<times> 'w) io" where
  "sign_transaction sol fs cfg unsigned_tx =
     andthen (next_keypair sol fs cfg) (\<lambda>kp.
     andthen (pure (tx_from_bytes sol unsigned_tx)) (\<lambda>message.
     pure (sign_message sol message [kp])))"

definition build_and_sign ::
  "solders \<Rightarrow> 'w files \<Rightarrow> settings \<Rightarrow> instruction list \<Rightarrow> string \<Rightarrow> pubkey option
     \<Rightarrow> (bytes, signer \<times> 'w) io" where
  "build_and_sign sol fs cfg instructions recent_blockhash payer =
     andthen (next_keypair sol fs cfg) (\<lambda>kp.
       let payer_pubkey = (case payer of Some p \<Rightarrow> p | None \<Rightarrow> keypair_pubkey sol kp)
       in case hash_from_string sol recent_blockhash of
            Inl err \<Rightarrow> throw (Domain ServiceUnavailableError
              ''Invalid recent blockhash supplied to signer.''
              [(''blockhash'', JStr recent_blockhash), (''error'', JStr err)])
          | Inr blockhash \<Rightarrow>
              andthen (pure (try_compile sol payer_pubkey instructions blockhash)) (\<lambda>message.
              pure (sign_message sol message [kp])))"


section \<open>The invariant of the client object\<close>

text \<open>
  A pool that was loaded has one key pair per configured path and the cursor
  points into it; before the first use the cursor is 0.
\<close>

definition signer_inv :: "signer \<Rightarrow> bool" where
  "signer_inv s \<longleftrightarrow>
     configured_paths s \<noteq> Some [] \<and>
     (case sg_keypairs s of
        None \<Rightarrow> rotation_index s = 0
      | Some kps \<Rightarrow>
          (case configured_paths s of
             None \<Rightarrow> kps = [] \<and> rotation_index s = 0
           | Some paths \<Rightarrow> length kps = length paths \<and> rotation_index s < length kps))"

definition pool_ready :: "signer \<Rightarrow> keypair list \<Rightarrow> bool" where
  "pool_ready s kps \<longleftrightarrow>
     (\<exists>paths. configured_paths s = Some paths \<and> paths \<noteq> [] \<and> length kps = length paths) \<and>
     sg_keypairs s = Some kps \<and> rotation_index s < length kps"

lemma new_signer_inv: "signer_inv (new_signer kp kps)"
  by (simp add: signer_inv_def new_signer_def split: option.splits)

lemma pool_ready_inv: "pool_ready s kps \<Longrightarrow> signer_inv s"
  by (auto simp: pool_ready_def signer_inv_def)

lemma load_all_length: "load_all sol fs paths w = (Inr kps, w') \<Longrightarrow> length kps = length paths"
proof (induction paths arbitrary: w kps w')
  case (Cons path paths)
  then show ?case by (auto elim!: andthen_InrE)
qed simp

lemma load_Inr:
  "load sol fs cfg (s, w) = (Inr kp, s', w') \<Longrightarrow>
   s' = s\<lparr>sg_keypair := Some kp\<rparr> \<and> (sg_keypair s = Some kp \<longrightarrow> w' = w)"
  by (auto simp: load_def Let_def split: option.splits prod.splits sum.splits)

lemma load_Inl: "load sol fs cfg (s, w) = (Inl e, s', w') \<Longrightarrow> s' = s"
  by (auto simp: load_def Let_def split: option.splits prod.splits sum.splits)

lemma load_frame:
  "load sol fs cfg (s, w) = (r, s', w') \<Longrightarrow>
   configured_paths s' = configured_paths s \<and> sg_keypairs s' = sg_keypairs s
     \<and> rotation_index s' = rotation_index s"
  by (cases r) (auto dest: load_Inr load_Inl)

lemma load_pool_Inr:
  "load_pool sol fs (s, w) = (Inr kps, s', w') \<Longrightarrow>
   s' = s\<lparr>sg_keypairs := Some kps\<rparr>
     \<and> (sg_keypairs s = None \<longrightarrow> length kps = (case configured_paths s of None \<Rightarrow> 0 | Some ps \<Rightarrow> length ps))
     \<and> (sg_keypairs s \<noteq> None \<longrightarrow> sg_keypairs s = Some kps \<and> w' = w)"
  by (auto simp: load_pool_def Let_def dest: load_all_length split: option.splits prod.splits sum.splits)

lemma load_pool_Inl: "load_pool sol fs (s, w) = (Inl e, s', w') \<Longrightarrow> s' = s \<and> sg_keypairs s = None"
  by (auto simp: load_pool_def Let_def split: option.splits prod.splits sum.splits)

text \<open>One call on a loaded pool reads no file and moves the cursor by one.\<close>

lemma next_keypair_ready:
  assumes "pool_ready s kps"
  shows "next_keypair sol fs cfg (s, w) =
           (Inr (kps ! rotation_index s),
            s\<lparr>rotation_index := (rotation_index s + 1) mod length kps\<rparr>, w)"
  using assms by (auto simp: next_keypair_def pool_ready_def load_pool_def Let_def)

lemma next_keypair_ready_state:
  "pool_ready s kps \<Longrightarrow> pool_ready (s\<lparr>rotation_index := (rotation_index s + k) mod length kps\<rparr>) kps"
  by (auto simp: pool_ready_def)

text \<open>A first call that succeeds loads the pool.\<close>

lemma next_keypair_first:
  assumes "signer_inv s" "configured_paths s = Some paths"
    and "next_keypair sol fs cfg (s, w) = (Inr kp, s', w')"
  shows "\<exists>kps. pool_ready s' kps \<and> length kps = length paths \<and> kp \<in> set kps"
proof -
  have ne: "paths \<noteq> []" using assms by (auto simp: signer_inv_def)
  obtain r q where lp: "load_pool sol fs (s, w) = (r, q)" by (rule prod.exhaust)
  obtain kps where r: "r = Inr kps" using assms(2,3) ne lp by (cases r) (auto simp: next_keypair_def)
  obtain s1 w1 where q: "q = (s1, w1)" by (rule prod.exhaust)
  from load_pool_Inr [of sol fs s w kps s1 w1] lp r q
  have s1: "s1 = s\<lparr>sg_keypairs := Some kps\<rparr>"
    and len: "sg_keypairs s = None \<longrightarrow> length kps = length paths"
    and old: "sg_keypairs s \<noteq> None \<longrightarrow> sg_keypairs s = Some kps" using assms(2) by auto
  have l: "length kps = length paths" using len old assms(1,2) by (auto simp: signer_inv_def split: option.splits)
  with ne have ne': "kps \<noteq> []" by auto
  from assms(2,3) ne lp r q ne' s1
  have kp: "kp = kps ! (rotation_index s mod length kps)"
    and s': "s' = s1\<lparr>rotation_index := (rotation_index s + 1) mod length kps\<rparr>"
    by (auto simp: next_keypair_def Let_def)
  have "kp \<in> set kps" using ne' by (simp add: kp)
  moreover have "pool_ready s' kps" using assms(2) ne ne' l s1 by (simp add: s' pool_ready_def)
  ultimately show ?thesis using l by blast
qed

lemma next_keypair_inv:
  assumes "signer_inv s" and "next_keypair sol fs cfg (s, w) = (r, s', w')"
  shows "signer_inv s' \<and> configured_paths s' = configured_paths s"
proof (cases "configured_paths s")
  case None
  then have "load sol fs cfg (s, w) = (r, s', w')" using assms by (simp add: next_keypair_def)
  from load_frame [OF this] show ?thesis using assms(1) by (auto simp: signer_inv_def split: option.splits)
next
  case (Some paths)
  show ?thesis
  proof (cases r)
    case (Inr kp)
    from next_keypair_first [OF assms(1) Some assms(2) [unfolded Inr]] pool_ready_inv
    have inv: "signer_inv s'" by blast
    have ne: "paths \<noteq> []" using assms Some by (auto simp: signer_inv_def)
    have "configured_paths s' = configured_paths s"
      using assms(2) Inr ne
      by (auto simp: next_keypair_def Let_def Some split: prod.splits sum.splits if_splits
               dest!: load_pool_Inr load_frame)
    with inv show ?thesis by simp
  next
    case (Inl e)
    have ne: "paths \<noteq> []" using assms Some by (auto simp: signer_inv_def)
    have "s' = s"
      using assms(2) Inl ne Some
      by (auto simp: next_keypair_def Let_def signer_inv_def split: prod.splits sum.splits if_splits
               dest!: load_pool_Inl load_pool_Inr load_Inl)
    with assms show ?thesis by simp
  qed
qed

section \<open>The rest of the world\<close>

definition files_keep :: "('w \<Rightarrow> bool) \<Rightarrow> 'w files \<Rightarrow> bool" where
  "files_keep I fs \<longleftrightarrow> (\<forall>p. keeps I (path_exists fs p)) \<and> (\<forall>p. keeps I (read_text fs p))"

lemma files_keep_load: "files_keep I fs \<Longrightarrow> keeps I (load_keypair_from_path sol fs path)"
  unfolding load_keypair_from_path_def files_keep_def
  by (intro keeps_rules) (auto intro: keeps_rules split: exn.splits)

lemma files_keep_load_all: "files_keep I fs \<Longrightarrow> keeps I (load_all sol fs paths)"
  by (induction paths) (auto intro!: keeps_rules files_keep_load)

lemma keeps_next_keypair: "files_keep I fs \<Longrightarrow> keeps (\<lambda>p. I (snd p)) (next_keypair sol fs cfg)"
proof (rule keepsI)
  fix p r q assume fk: "files_keep I fs" and i: "I (snd p)" and n: "next_keypair sol fs cfg p = (r, q)"
  obtain s w where p: "p = (s, w)" by (rule prod.exhaust)
  obtain s2 w2 where q: "q = (s2, w2)" by (rule prod.exhaust)
  have l: "I w1" if "load sol fs cfg (s', w0) = (r', s1, w1)" "I w0" for s' w0 r' s1 w1
    using that keepsD [OF files_keep_load [OF fk] that(2)]
    by (auto simp: load_def Let_def split: option.splits prod.splits sum.splits)
  have lp: "I w1" if "load_pool sol fs (s, w) = (r', s1, w1)" for r' s1 w1
    using that keepsD [OF files_keep_load_all [OF fk]] i p
    by (auto simp: load_pool_def Let_def split: option.splits prod.splits sum.splits)
  show "I (snd q)"
    using n i p q
    by (auto simp: next_keypair_def Let_def split: prod.splits sum.splits if_splits dest: l lp)
qed

lemma keeps_pubkey_obj: "files_keep I fs \<Longrightarrow> keeps (\<lambda>p. I (snd p)) (pubkey_obj sol fs cfg)"
  unfolding pubkey_obj_def by (intro keeps_rules keeps_next_keypair)

lemma keeps_build_and_sign:
  "files_keep I fs \<Longrightarrow> keeps (\<lambda>p. I (snd p)) (build_and_sign sol fs cfg ixs bh payer)"
  unfolding build_and_sign_def Let_def by (intro keeps_rules keeps_next_keypair)

section \<open>Properties\<close>

text \<open>\<open>draws k\<close>: \<open>k\<close> consecutive calls of a public method that needs a key pair.\<close>

fun draws :: "solders \<Rightarrow> 'w files \<Rightarrow> settings \<Rightarrow> nat \<Rightarrow> (keypair list, signer \<times> 'w) io" where
  "draws sol fs cfg 0 = ret []"
| "draws sol fs cfg (Suc k) =
     andthen (next_keypair sol fs cfg) (\<lambda>kp.
     andthen (draws sol fs cfg k) (\<lambda>kps. ret (kp # kps)))"

lemma draws_ready:
  assumes "pool_ready s kps"
  shows "draws sol fs cfg k (s, w) =
           (Inr (map (\<lambda>j. kps ! ((rotation_index s + j) mod length kps)) [0..<k]),
            s\<lparr>rotation_index := (rotation_index s + k) mod length kps\<rparr>, w)"
  using assms
proof (induction k arbitrary: s)
  case 0
  then show ?case by (auto simp: pool_ready_def)
next
  case (Suc k)
  let ?s = "s\<lparr>rotation_index := (rotation_index s + 1) mod length kps\<rparr>"
  have ready: "pool_ready ?s kps" by (rule next_keypair_ready_state [OF Suc.prems])
  have i: "rotation_index s < length kps" using Suc.prems by (simp add: pool_ready_def)
  have "map (\<lambda>j. kps ! ((rotation_index s + j) mod length kps)) [0..<Suc k]
      = kps ! rotation_index s # map (\<lambda>j. kps ! ((rotation_index s + Suc j) mod length kps)) [0..<k]"
    using i by (simp add: upt_conv_Cons map_Suc_upt [symmetric] comp_def del: upt_Suc)
  moreover have "draws sol fs cfg (Suc k) (s, w) =
      (Inr (kps ! rotation_index s # map (\<lambda>j. kps ! ((rotation_index s + Suc j) mod length kps)) [0..<k]),
       s\<lparr>rotation_index := (rotation_index s + Suc k) mod length kps\<rparr>, w)"
    using Suc.IH [OF ready]
    by (simp add: andthen_def next_keypair_ready [OF Suc.prems] mod_simps)
  ultimately show ?case by (simp only:)
qed

lemma mset_rotate: "mset (rotate n xs) = mset xs"
proof (induction n)
  case (Suc n)
  have "mset (rotate1 ys) = mset ys" for ys :: "'a list" by (cases ys) auto
  with Suc show ?case by simp
qed simp

lemma draws_round:
  assumes "pool_ready s kps"
  shows "draws sol fs cfg (length kps) (s, w) = (Inr (rotate (rotation_index s) kps), s, w)"
proof -
  have "map (\<lambda>j. kps ! ((rotation_index s + j) mod length kps)) [0..<length kps]
      = rotate (rotation_index s) kps"
    by (rule nth_equalityI) (simp_all add: nth_rotate)
  then show ?thesis using draws_ready [OF assms, of sol fs cfg "length kps" w] assms
    by (simp add: pool_ready_def)
qed

definition demo_pool :: "keypair list" where
  "demo_pool = [replicate 32 1 @ replicate 32 5, replicate 32 2 @ replicate 32 6]"

definition demo_signer :: signer where
  "demo_signer = \<lparr>configured_path = None, configured_paths = Some [''a'', ''b''],
     sg_keypair = None, sg_keypairs = Some demo_pool, rotation_index = 0\<rparr>"

definition demo_files :: "unit files" where
  "demo_files = \<lparr>path_exists = (\<lambda>p. ret (p = ''/k'')), read_text = (\<lambda>p. ret ''[]''),
     json_loads = (\<lambda>s. Inr (JList [])), root_dir = ''/srv''\<rparr>"

lemma demo_signer_ready: "pool_ready demo_signer demo_pool"
  by (simp add: pool_ready_def demo_signer_def demo_pool_def)

text \<open>Fair rotation. On a loaded pool of \<open>n\<close> key pairs, any \<open>n\<close> consecutive calls hand
  out every key pair of the pool exactly as often as it is configured, starting at the cursor
  and in pool order, read no file and leave the client as it was.\<close>

theorem rotation_is_fair:
  assumes "pool_ready s kps"
  shows "\<exists>drawn. draws sol fs cfg (length kps) (s, w) = (Inr drawn, s, w)
           \<and> mset drawn = mset kps \<and> drawn = rotate (rotation_index s) kps"
  using draws_round [OF assms] by (simp add: mset_rotate)

theorem rotation_is_fair_witness:
  "\<exists>drawn. draws demo_solders demo_files default_settings 2 (demo_signer, ()) = (Inr drawn, demo_signer, ())
     \<and> mset drawn = mset demo_pool"
proof -
  have "length demo_pool = 2" by (simp add: demo_pool_def)
  then show ?thesis
    using rotation_is_fair [OF demo_signer_ready, of demo_solders demo_files default_settings "()"]
    by (auto simp del: draws.simps)
qed

text \<open>Invariant of the signer. From any state in which the cursor is in range and the
  pool has one key pair per path, every public method - succeeding or failing - leaves such a
  state and never changes the configured paths.\<close>

theorem signer_methods_keep_invariant:
  assumes "signer_inv s"
    and "signer_pubkey sol fs cfg (s, w) = (r1, s1, w1)"
    and "pubkey_obj sol fs cfg (s, w) = (r2, s2, w2)"
    and "sign_transaction sol fs cfg tx (s, w) = (r3, s3, w3)"
    and "build_and_sign sol fs cfg ixs bh payer (s, w) = (r4, s4, w4)"
  shows "\<forall>t \<in> {s1, s2, s3, s4}. signer_inv t \<and> configured_paths t = configured_paths s"
proof -
  obtain r s' w' where n: "next_keypair sol fs cfg (s, w) = (r, s', w')" by (metis prod_cases3)
  note inv = next_keypair_inv [OF assms(1) n]
  have "s1 = s'" "s2 = s'" "s3 = s'" "s4 = s'"
    using assms(2-5) n
    by (auto simp: signer_pubkey_def pubkey_obj_def sign_transaction_def build_and_sign_def
        andthen_def pure_def Let_def split: sum.splits prod.splits option.splits)
  with inv show ?thesis by simp
qed

theorem signer_methods_keep_invariant_witness:
  "signer_inv (fst (snd (signer_pubkey demo_solders demo_files default_settings (new_signer None None, ()))))"
proof -
  let ?p = "(new_signer None None, ())"
  obtain r1 s1 w1 where 1: "signer_pubkey demo_solders demo_files default_settings ?p = (r1, s1, w1)" by (metis prod_cases3)
  obtain r2 s2 w2 where 2: "pubkey_obj demo_solders demo_files default_settings ?p = (r2, s2, w2)" by (metis prod_cases3)
  obtain r3 s3 w3 where 3: "sign_transaction demo_solders demo_files default_settings [] ?p = (r3, s3, w3)" by (metis prod_cases3)
  obtain r4 s4 w4 where 4: "build_and_sign demo_solders demo_files default_settings [] [] None ?p = (r4, s4, w4)" by (metis prod_cases3)
  show ?thesis using signer_methods_keep_invariant [OF new_signer_inv 1 2 3 4] 1 by simp
qed

text \<open>The fee payer and the signer part ways on a pool. The relay pipeline asks
  \<open>pubkey_obj\<close> for the payer and then has \<open>build_and_sign\<close> sign for it. On a pool of two
  or more distinct key pairs the second call has moved to the next key, so the message is
  compiled for one relayer and signed with the key of another.\<close>

theorem pool_signs_with_other_key:
  assumes "pool_ready s kps" and "2 \<le> length kps" and "distinct kps"
    and "hash_from_string sol bh = Inr h"
  shows "\<exists>payer kp s1 s2.
           pubkey_obj sol fs cfg (s, w) = (Inr (keypair_pubkey sol payer), s1, w)
         \<and> build_and_sign sol fs cfg ixs bh (Some (keypair_pubkey sol payer)) (s1, w) =
             (rbind (try_compile sol (keypair_pubkey sol payer) ixs h) (\<lambda>m. sign_message sol m [kp]), s2, w)
         \<and> payer = kps ! rotation_index s \<and> kp \<noteq> payer"
proof -
  let ?n = "length kps" and ?i = "rotation_index s"
  let ?s1 = "s\<lparr>rotation_index := (?i + 1) mod ?n\<rparr>"
  have i: "?i < ?n" using assms(1) by (simp add: pool_ready_def)
  have r1: "pool_ready ?s1 kps" by (rule next_keypair_ready_state [OF assms(1)])
  have "(?i + 1) mod ?n \<noteq> ?i" using i assms(2)
    by (cases "?i + 1 = ?n") auto
  moreover have "(?i + 1) mod ?n < ?n" using i by (intro mod_less_divisor) auto
  ultimately have ne: "kps ! ((?i + 1) mod ?n) \<noteq> kps ! ?i"
    using i assms(3) by (simp add: nth_eq_iff_index_eq)
  have "pubkey_obj sol fs cfg (s, w) = (Inr (keypair_pubkey sol (kps ! ?i)), ?s1, w)"
    by (simp add: pubkey_obj_def andthen_def next_keypair_ready [OF assms(1)])
  moreover have "build_and_sign sol fs cfg ixs bh (Some p) (?s1, w) =
      (rbind (try_compile sol p ixs h) (\<lambda>m. sign_message sol m [kps ! ((?i + 1) mod ?n)]),
       ?s1\<lparr>rotation_index := ((?i + 1) mod ?n + 1) mod ?n\<rparr>, w)" for p
    using next_keypair_ready [OF r1, of sol fs cfg w] assms(4)
    by (simp add: build_and_sign_def andthen_def pure_def rbind_def Let_def split: sum.split)
  ultimately show ?thesis using ne by blast
qed

theorem pool_signs_with_other_key_witness:
  "\<exists>payer kp s1 s2.
     pubkey_obj demo_solders demo_files default_settings (demo_signer, ()) =
       (Inr (keypair_pubkey demo_solders payer), s1, ())
   \<and> build_and_sign demo_solders demo_files default_settings [] ''h''
       (Some (keypair_pubkey demo_solders payer)) (s1, ()) =
         (rbind (try_compile demo_solders (keypair_pubkey demo_solders payer) [] (ascii ''h''))
            (\<lambda>m. sign_message demo_solders m [kp]), s2, ())
   \<and> payer = demo_pool ! rotation_index demo_signer \<and> kp \<noteq> payer"
proof -
  have "distinct demo_pool" by (simp add: demo_pool_def append_eq_append_conv)
  then show ?thesis
    by (intro pool_signs_with_other_key [OF demo_signer_ready]) (simp_all add: demo_pool_def demo_solders_def)
qed

definition files_raise_read_errors :: "'w files \<Rightarrow> bool" where
  "files_raise_read_errors fs \<longleftrightarrow>
     (\<forall>p w e w'. path_exists fs p w \<noteq> (Inl e, w')) \<and>
     (\<forall>p w e w'. read_text fs p w = (Inl e, w') \<longrightarrow> (\<exists>t \<in> set read_errors. \<exists>m. e = Other t m)) \<and>
     (\<forall>raw e. json_loads fs raw = Inl e \<longrightarrow> (\<exists>t \<in> set read_errors. \<exists>m. e = Other t m))"

lemma parse_secret_Inl: "parse_secret sol path j = Inl e \<Longrightarrow> \<exists>d. e = not_configured d"
  by (auto simp: parse_secret_def Let_def split: json.splits option.splits sum.splits)

lemma load_path_Inl:
  assumes "files_raise_read_errors fs"
    and "load_keypair_from_path sol fs path w = (Inl e, w')"
  shows "\<exists>d. e = not_configured d"
  using assms
  by (fastforce simp: load_keypair_from_path_def files_raise_read_errors_def andthen_def catching_def
      pure_def throw_def dest: parse_secret_Inl split: prod.splits sum.splits if_splits exn.splits)

text \<open>A bad key file is a 503. When the file system raises nothing but the classes the
  loader catches, every failure to load the single configured key pair is
  \<open>ServiceUnavailableError("Relayer keypair not configured.")\<close>, whatever the file holds, and the
  client keeps no key pair.\<close>

theorem bad_keyfile_is_503:
  assumes "files_raise_read_errors fs"
    and "configured_paths s = None"
    and "pubkey_obj sol fs cfg (s, w) = (Inl e, s', w')"
  shows "(\<exists>d. e = Domain ServiceUnavailableError ''Relayer keypair not configured.'' d)
         \<and> s' = s \<and> sg_keypair s' = None \<and> map_option fst (bagsvault_handler e) = Some 503"
proof -
  have l: "load sol fs cfg (s, w) = (Inl e, s', w')"
    using assms(2,3) by (auto simp: pubkey_obj_def next_keypair_def elim!: andthen_InlE)
  then have "\<exists>w. load_keypair_from_path sol fs (resolve_path fs cfg s) w = (Inl e, w')" "sg_keypair s = None"
    by (auto simp: load_def Let_def split: option.splits prod.splits sum.splits)
  moreover from this load_path_Inl [OF assms(1)] obtain d where "e = not_configured d" by blast
  ultimately show ?thesis using load_Inl [OF l] by (simp add: not_configured_def)
qed

theorem bad_keyfile_is_503_witness:
  "\<exists>e s'. pubkey_obj demo_solders demo_files default_settings (new_signer (Some ''/k'') None, ()) = (Inl e, s', ())
     \<and> map_option fst (bagsvault_handler e) = Some 503"
proof -
  let ?s = "new_signer (Some ''/k'') None"
  have f: "files_raise_read_errors demo_files"
    by (simp add: files_raise_read_errors_def demo_files_def)
  have c: "configured_paths ?s = None" by (simp add: new_signer_def)
  have "\<exists>e s'. pubkey_obj demo_solders demo_files default_settings (?s, ()) = (Inl e, s', ())"
    by (simp add: pubkey_obj_def next_keypair_def load_def load_keypair_from_path_def new_signer_def
        resolve_path_def demo_files_def demo_solders_def andthen_def catching_def parse_secret_def py_bytes_def)
  then show ?thesis using bad_keyfile_is_503 [OF f c] by blast
qed

end
