(* ===== verification/TxExecutor.thy ===== *)
theory TxExecutor
  imports SolanaRpc Base64 Signer
begin

text \<open>
  \<open>backend/app/clients/tx_executor.py\<close>: simulate, broadcast with retry, confirm.
  The RPC object, the signer, \<open>asyncio.sleep\<close> and \<open>time.monotonic\<close> are parameters
  over a world. The one attribute the executor changes, \<open>_last_attempts_used\<close>, is
  the first half of the pair its methods run on.
\<close>

section \<open>Error classification\<close>

definition RETRYABLE_MARKERS :: "string list" where
  "RETRYABLE_MARKERS = [''blockhashnotfound'', ''block not available'', ''node is behind'', ''429'',
     ''rate limit'', ''too many requests'', ''502'', ''503'', ''504'', ''bad gateway'',
     ''service unavailable'', ''gateway timeout'']"

definition FATAL_MARKERS :: "string list" where
  "FATAL_MARKERS = [''insufficientfundsforrent'', ''insufficient funds'', ''invalidaccountdata'',
     ''accountnotfound'', ''instructionerror'', ''transaction simulation failed'']"

datatype classification = Retryable | Fatal

text \<open>The text an error is classified by: a dictionary's standard entries and its \<open>repr\<close>,
  or \<open>str(exc)\<close>.\<close>

datatype rpc_err = ErrDict dict | ErrExn exn

definition err_entry :: "(json \<Rightarrow> string) \<Rightarrow> dict \<Rightarrow> string \<Rightarrow> string" where
  "err_entry fmt d key = (if jget d key \<noteq> JNull then CHR '' '' # py_str fmt (jget d key) else [])"

fun err_text :: "(json \<Rightarrow> string) \<Rightarrow> rpc_err \<Rightarrow> string" where
  "err_text fmt (ErrDict d) =
     concat (map (err_entry fmt d) [''message'', ''Err'', ''err'']) @ CHR '' '' # fmt (JObj d)"
| "err_text fmt (ErrExn e) = exn_str e"

definition classify_text :: "string \<Rightarrow> classification" where
  "classify_text text =
     (let lowered = lower text in
      if \<exists>m \<in> set FATAL_MARKERS. str_in m lowered then Fatal
      else if \<exists>m \<in> set RETRYABLE_MARKERS. str_in m lowered then Retryable
      else Fatal)"

definition classify_rpc_error :: "(json \<Rightarrow> string) \<Rightarrow> rpc_err \<Rightarrow> classification" where
  "classify_rpc_error fmt err = classify_text (err_text fmt err)"

section \<open>Commitment levels\<close>

definition COMMITMENT_RANK :: "(string \<times> int) list" where
  "COMMITMENT_RANK = [(''processed'', 0), (''confirmed'', 1), (''finalized'', 2)]"

definition rank_or :: "string \<Rightarrow> int \<Rightarrow> int" where
  "rank_or s d = (case map_of COMMITMENT_RANK s of Some k \<Rightarrow> k | None \<Rightarrow> d)"

definition meets_commitment :: "dict option \<Rightarrow> string \<Rightarrow> bool" where
  "meets_commitment status target =
     (case status of
        None \<Rightarrow> False
      | Some d \<Rightarrow>
          (case jget d ''confirmationStatus'' of
             JStr actual \<Rightarrow> rank_or target 1 \<le> rank_or actual (-1)
           | _ \<Rightarrow> False))"

section \<open>The executor\<close>

record 'w executor =
  ex_solders :: solders
  ex_rpc :: "'w rpc"
  ex_sign :: "instruction list \<Rightarrow> string \<Rightarrow> pubkey option \<Rightarrow> (bytes, 'w) io"
  ex_sleep_ms :: "int \<Rightarrow> (unit, 'w) io"
  ex_monotonic :: "(rat, 'w) io"
  ex_settings :: settings

record tx_result =
  tr_signature :: string
  tr_status :: string
  tr_attempts :: nat
  tr_slot :: "int option"
  tr_simulation_logs :: "string list"

definition with_compute_budget :: "'w executor \<Rightarrow> instruction list \<Rightarrow> instruction list res" where
  "with_compute_budget ex instructions =
     (let max_units = relayer_max_compute_units (ex_settings ex);
          priority_fee = tx_priority_fee_microlamports (ex_settings ex) in
      rbind (if 0 < max_units
             then rbind (set_compute_unit_limit (ex_solders ex) max_units) (\<lambda>ix. Inr [ix]) else Inr [])
        (\<lambda>limit_ixs.
      rbind (if 0 < priority_fee
             then rbind (set_compute_unit_price (ex_solders ex) priority_fee) (\<lambda>ix. Inr [ix]) else Inr [])
        (\<lambda>price_ixs. Inr (limit_ixs @ price_ixs @ instructions))))"

definition build_signed_b64 ::
  "'w executor \<Rightarrow> instruction list \<Rightarrow> pubkey \<Rightarrow> string \<Rightarrow> bytes list \<Rightarrow> (string, 'w) io" where
  "build_signed_b64 ex instructions payer recent_blockhash additional_signers =
     andthen
       (catching (ex_sign ex instructions recent_blockhash (Some payer))
         (\<lambda>exc. throw (if is_upstream exc then exc
                       else upstream ''Failed to build and sign transaction.''
                              [(''error'', JStr (exn_str exc))])))
       (\<lambda>relayer_signed_bytes.
         if additional_signers \<noteq> []
         then andthen (pure (tx_from_bytes (ex_solders ex) relayer_signed_bytes)) (\<lambda>message.
              andthen (pure (sign_message (ex_solders ex) message additional_signers)) (\<lambda>full.
              ret (b64encode full)))
         else ret (b64encode relayer_signed_bytes))"

section \<open>Broadcast with retry\<close>

text \<open>Refresh the blockhash and rebuild; an exception leaves the payload of the last attempt.\<close>

definition rebuild ::
  "'w executor \<Rightarrow> instruction list \<Rightarrow> pubkey \<Rightarrow> bytes list \<Rightarrow> (string, 'w) io" where
  "rebuild ex instructions payer additional_signers =
     andthen (latest_blockhash (ex_rpc ex)) (\<lambda>raw.
     andthen (pure (coerce_blockhash raw)) (\<lambda>blockhash.
     build_signed_b64 ex instructions payer blockhash additional_signers))"

text \<open>The \<open>try\<close> around it: payload, last exception and world of the next attempt.\<close>

definition next_payload ::
  "'w executor \<Rightarrow> instruction list \<Rightarrow> pubkey \<Rightarrow> bytes list \<Rightarrow> string \<Rightarrow> exn \<Rightarrow> 'w \<Rightarrow> string \<times> exn \<times> 'w" where
  "next_payload ex ixs payer extra payload exc w1 =
     (case rebuild ex ixs payer extra w1 of
        (Inr p, w2) \<Rightarrow> (p, exc, w2) | (Inl inner, w2) \<Rightarrow> (payload, inner, w2))"

definition exhausted :: "nat \<Rightarrow> exn option \<Rightarrow> exn" where
  "exhausted max_attempts last_exc =
     upstream ''tx broadcast exhausted retries''
       [(''stage'', JStr ''broadcast''), (''attempts'', JInt (int max_attempts)),
        (''last_error'', case last_exc of None \<Rightarrow> JNull | Some e \<Rightarrow> JStr (exn_str e))]"

text \<open>
  \<open>for attempt in range(max_attempts)\<close>. The first argument is the number of
  iterations left, \<open>max_attempts - attempt\<close>.
\<close>

fun broadcast_loop ::
  "nat \<Rightarrow> 'w executor \<Rightarrow> instruction list \<Rightarrow> pubkey \<Rightarrow> bytes list \<Rightarrow> nat \<Rightarrow> int
     \<Rightarrow> nat \<Rightarrow> string \<Rightarrow> exn option \<Rightarrow> (string, nat \<times> 'w) io" where
  "broadcast_loop 0 ex ixs payer extra max_attempts base attempt payload last_exc =
     throw (exhausted max_attempts last_exc)"
| "broadcast_loop (Suc left) ex ixs payer extra max_attempts base attempt payload last_exc =
     (\<lambda>(used, w).
        case send_tx (ex_rpc ex) payload True w of
          (Inr signature, w1) \<Rightarrow> (Inr signature, attempt + 1, w1)
        | (Inl exc, w1) \<Rightarrow>
            if classify_text (exn_str exc) = Fatal then (Inl exc, used, w1)
            else if max_attempts \<le> attempt + 1 then (Inl (exhausted max_attempts (Some exc)), used, w1)
            else
              (case next_payload ex ixs payer extra payload exc w1 of
                 (payload', last', w2) \<Rightarrow>
                   (case ex_sleep_ms ex (base * 2 ^ attempt) w2 of
                      (Inl e, w3) \<Rightarrow> (Inl e, used, w3)
                    | (Inr _, w3) \<Rightarrow>
                        broadcast_loop left ex ixs payer extra max_attempts base (attempt + 1)
                          payload' (Some last') (used, w3))))"

definition max_attempts_of :: "'w executor \<Rightarrow> nat" where
  "max_attempts_of ex = nat (max 1 (tx_retry_max_attempts (ex_settings ex)))"

definition broadcast_with_retry ::
  "'w executor \<Rightarrow> instruction list \<Rightarrow> pubkey \<Rightarrow> string \<Rightarrow> bytes list \<Rightarrow> (string, nat \<times> 'w) io" where
  "broadcast_with_retry ex instructions payer signed_b64 additional_signers =
     (let max_attempts = max_attempts_of ex;
          backoff_base_ms = max 0 (tx_retry_initial_backoff_ms (ex_settings ex))
      in broadcast_loop max_attempts ex instructions payer additional_signers max_attempts
           backoff_base_ms 0 signed_b64 None)"

section \<open>Confirmation polling\<close>

text \<open>\<open>round(x, 2)\<close>, to the nearest hundredth.\<close>

definition round2 :: "rat \<Rightarrow> rat" where
  "round2 x = of_int (round (x * 100)) / 100"

datatype poll = Confirmed "int option" | OnChainError exn | Pending

text \<open>What one answer of \<open>getSignatureStatuses([signature])\<close> says.\<close>

definition poll_of :: "string \<Rightarrow> string \<Rightarrow> dict option list \<Rightarrow> poll" where
  "poll_of signature target statuses =
     (case (if statuses \<noteq> [] then hd statuses else None) of
        None \<Rightarrow> Pending
      | Some status \<Rightarrow>
          if jget status ''err'' \<noteq> JNull
          then OnChainError (upstream ''tx confirmation reported on-chain error''
                 [(''stage'', JStr ''confirm''), (''signature'', JStr signature),
                  (''err'', jget status ''err'')])
          else if meets_commitment (Some status) target
          then Confirmed (json_int (jget status ''slot''))
          else Pending)"

definition confirm_timeout :: "string \<Rightarrow> string \<Rightarrow> rat \<Rightarrow> exn" where
  "confirm_timeout signature target elapsed =
     upstream ''tx confirm timeout''
       [(''stage'', JStr ''confirm''), (''signature'', JStr signature),
        (''elapsed_seconds'', JFloat (round2 elapsed)), (''target_commitment'', JStr target)]"

text \<open>
  \<open>while True\<close>: \<open>None\<close> is a loop that never ends. Each round asks for the status,
  reads the clock twice (for the report, then for the test) and sleeps half a second.
\<close>

partial_function (option) await_loop ::
  "'w executor \<Rightarrow> string \<Rightarrow> string \<Rightarrow> rat \<Rightarrow> rat \<Rightarrow> 'w \<Rightarrow> (int option res \<times> 'w) option" where
  "await_loop ex signature target timeout deadline w =
     (case signature_statuses (ex_rpc ex) [signature] False w of
        (Inl e, w1) \<Rightarrow> Some (Inl e, w1)
      | (Inr statuses, w1) \<Rightarrow>
          (case poll_of signature target statuses of
             OnChainError e \<Rightarrow> Some (Inl e, w1)
           | Confirmed slot \<Rightarrow> Some (Inr slot, w1)
           | Pending \<Rightarrow>
               (case ex_monotonic ex w1 of
                  (Inl e, w2) \<Rightarrow> Some (Inl e, w2)
                | (Inr now1, w2) \<Rightarrow>
                    (case ex_monotonic ex w2 of
                       (Inl e, w3) \<Rightarrow> Some (Inl e, w3)
                     | (Inr now2, w3) \<Rightarrow>
                         if deadline \<le> now2
                         then Some (Inl (confirm_timeout signature target (now1 - (deadline - timeout))), w3)
                         else (case ex_sleep_ms ex 500 w3 of
                                 (Inl e, w4) \<Rightarrow> Some (Inl e, w4)
                               | (Inr _, w4) \<Rightarrow> await_loop ex signature target timeout deadline w4)))))"

definition timeout_of :: "'w executor \<Rightarrow> rat" where
  "timeout_of ex = of_int (max 1 (tx_confirm_timeout_seconds (ex_settings ex)))"

definition await_confirmation :: "'w executor \<Rightarrow> string \<Rightarrow> 'w \<Rightarrow> (int option res \<times> 'w) option" where
  "await_confirmation ex signature w =
     (case ex_monotonic ex w of
        (Inl e, w1) \<Rightarrow> Some (Inl e, w1)
      | (Inr now, w1) \<Rightarrow>
          await_loop ex signature (solana_commitment (ex_settings ex)) (timeout_of ex)
            (now + timeout_of ex) w1)"

section \<open>send\<close>

text \<open>\<open>sim_result.get("err")\<close> and the logs, \<open>[]\<close> unless they are a list.\<close>

definition simulation_logs_of :: "(json \<Rightarrow> string) \<Rightarrow> dict \<Rightarrow> string list" where
  "simulation_logs_of fmt sim =
     (case py_or (jget sim ''logs'') (JList []) of JList xs \<Rightarrow> map (py_str fmt) xs | _ \<Rightarrow> [])"

definition simulate_step :: "(json \<Rightarrow> string) \<Rightarrow> 'w executor \<Rightarrow> string \<Rightarrow> (string list, 'w) io" where
  "simulate_step fmt ex signed_b64 =
     (if tx_simulation_required (ex_settings ex)
      then andthen (simulate_tx (ex_rpc ex) signed_b64 False) (\<lambda>sim.
        let logs = simulation_logs_of fmt sim in
        if jget sim ''err'' \<noteq> JNull
        then throw (upstream ''tx simulation failed''
               [(''stage'', JStr ''simulate''), (''err'', jget sim ''err''),
                (''logs'', JList (map JStr logs))])
        else ret logs)
      else ret [])"

text \<open>The part of \<open>send\<close> before the broadcast: budget, blockhash, signature, simulation.\<close>

definition prepare ::
  "(json \<Rightarrow> string) \<Rightarrow> 'w executor \<Rightarrow> instruction list \<Rightarrow> pubkey \<Rightarrow> string option \<Rightarrow> bytes list
     \<Rightarrow> (instruction list \<times> string \<times> string list, 'w) io" where
  "prepare fmt ex instructions payer recent extra =
     andthen (pure (with_compute_budget ex instructions)) (\<lambda>full.
     andthen (case recent of
                Some b \<Rightarrow> if b \<noteq> [] then ret b
                          else andthen (latest_blockhash (ex_rpc ex)) (\<lambda>raw. pure (coerce_blockhash raw))
              | None \<Rightarrow> andthen (latest_blockhash (ex_rpc ex)) (\<lambda>raw. pure (coerce_blockhash raw)))
       (\<lambda>blockhash.
     andthen (build_signed_b64 ex full payer blockhash extra) (\<lambda>signed_b64.
     andthen (simulate_step fmt ex signed_b64) (\<lambda>logs.
     ret (full, signed_b64, logs)))))"

definition send ::
  "(json \<Rightarrow> string) \<Rightarrow> 'w executor \<Rightarrow> instruction list \<Rightarrow> pubkey \<Rightarrow> string option \<Rightarrow> bytes list
     \<Rightarrow> nat \<times> 'w \<Rightarrow> (tx_result res \<times> nat \<times> 'w) option" where
  "send fmt ex instructions payer recent extra p =
     (case prepare fmt ex instructions payer recent extra (snd p) of
        (Inl e, w1) \<Rightarrow> Some (Inl e, fst p, w1)
      | (Inr (full, signed_b64, logs), w1) \<Rightarrow>
          (case broadcast_with_retry ex full payer signed_b64 extra (fst p, w1) of
             (Inl e, used, w2) \<Rightarrow> Some (Inl e, used, w2)
           | (Inr signature, used, w2) \<Rightarrow>
               (case await_confirmation ex signature w2 of
                  None \<Rightarrow> None
                | Some (Inl e, w3) \<Rightarrow> Some (Inl e, used, w3)
                | Some (Inr slot, w3) \<Rightarrow>
                    Some (Inr \<lparr>tr_signature = signature, tr_status = ''confirmed'',
                               tr_attempts = used, tr_slot = slot, tr_simulation_logs = logs\<rparr>,
                          used, w3))))"


section \<open>Observing the world\<close>

text \<open>
  The world is arbitrary, so statements about what an execution did use
  observers of it: \<open>sent\<close> counts the submissions, \<open>naps\<close> lists the sleeps.
  \<open>observes\<close> says they record just that.
\<close>

definition observes :: "'w executor \<Rightarrow> ('w \<Rightarrow> nat) \<Rightarrow> ('w \<Rightarrow> int list) \<Rightarrow> bool" where
  "observes ex sent naps \<longleftrightarrow>
     (\<forall>tx sk w r w'. send_tx (ex_rpc ex) tx sk w = (r, w') \<longrightarrow> sent w' = Suc (sent w) \<and> naps w' = naps w) \<and>
     (\<forall>w r w'. latest_blockhash (ex_rpc ex) w = (r, w') \<longrightarrow> sent w' = sent w \<and> naps w' = naps w) \<and>
     (\<forall>tx rb w r w'. simulate_tx (ex_rpc ex) tx rb w = (r, w') \<longrightarrow> sent w' = sent w \<and> naps w' = naps w) \<and>
     (\<forall>ixs bh p w r w'. ex_sign ex ixs bh p w = (r, w') \<longrightarrow> sent w' = sent w \<and> naps w' = naps w) \<and>
     (\<forall>ms w r w'. ex_sleep_ms ex ms w = (r, w') \<longrightarrow> sent w' = sent w \<and> naps w' = naps w @ [ms])"

lemma observes_send: "observes ex sent naps \<Longrightarrow> send_tx (ex_rpc ex) tx sk w = (r, w') \<Longrightarrow>
    sent w' = Suc (sent w) \<and> naps w' = naps w"
  unfolding observes_def by (elim conjE) metis

lemma observes_sleep: "observes ex sent naps \<Longrightarrow> ex_sleep_ms ex ms w = (r, w') \<Longrightarrow>
    sent w' = sent w \<and> naps w' = naps w @ [ms]"
  unfolding observes_def by (elim conjE) metis

lemma observes_simulate: "observes ex sent naps \<Longrightarrow> simulate_tx (ex_rpc ex) tx rb w = (r, w') \<Longrightarrow>
    sent w' = sent w \<and> naps w' = naps w"
  unfolding observes_def by (elim conjE) metis

lemma observes_blockhash: "observes ex sent naps \<Longrightarrow> latest_blockhash (ex_rpc ex) w = (r, w') \<Longrightarrow>
    sent w' = sent w \<and> naps w' = naps w"
  unfolding observes_def by (elim conjE) metis

lemma observes_build:
  assumes "observes ex sent naps" "build_signed_b64 ex ixs payer bh extra w = (r, w')"
  shows "sent w' = sent w \<and> naps w' = naps w"
proof -
  obtain r1 w1 where s: "ex_sign ex ixs bh (Some payer) w = (r1, w1)" by (rule prod.exhaust)
  with assms(1) have "sent w1 = sent w \<and> naps w1 = naps w" unfolding observes_def by (elim conjE) metis
  moreover have "w' = w1" using assms(2) s
    by (auto simp: build_signed_b64_def andthen_def catching_def pure_def throw_def
        split: sum.splits prod.splits if_splits)
  ultimately show ?thesis by simp
qed

lemma observes_rebuild:
  assumes "observes ex sent naps" "rebuild ex ixs payer extra w = (r, w')"
  shows "sent w' = sent w \<and> naps w' = naps w"
proof -
  obtain r1 w1 where b: "latest_blockhash (ex_rpc ex) w = (r1, w1)" by (rule prod.exhaust)
  note 1 = observes_blockhash [OF assms(1) b]
  show ?thesis
  proof (cases "\<exists>raw bh. r1 = Inr raw \<and> coerce_blockhash raw = Inr bh")
    case True
    then obtain raw bh where "r1 = Inr raw" "coerce_blockhash raw = Inr bh" by blast
    with assms(2) b have "build_signed_b64 ex ixs payer bh extra w1 = (r, w')"
      by (simp add: rebuild_def andthen_def)
    from observes_build [OF assms(1) this] 1 show ?thesis by simp
  next
    case False
    with assms(2) b have "w' = w1"
      by (auto simp: rebuild_def andthen_def pure_def split: sum.splits)
    with 1 show ?thesis by simp
  qed
qed

lemma observes_next_payload:
  assumes "observes ex sent naps" "next_payload ex ixs payer extra payload exc w = (p, e, w')"
  shows "sent w' = sent w \<and> naps w' = naps w"
  using assms(2) observes_rebuild [OF assms(1)]
  by (auto simp: next_payload_def split: prod.splits sum.splits)

lemmas broadcast_step = broadcast_loop.simps(2)

declare broadcast_loop.simps(2) [simp del]

section \<open>Lemmas about the retry loop\<close>

lemma broadcast_loop_bounds:
  assumes "observes ex sent naps"
  shows "broadcast_loop n ex ixs payer extra ma base attempt payload lst (u, w) = (r, u', w') \<Longrightarrow>
         attempt + n = ma \<Longrightarrow> 0 < n \<Longrightarrow>
         sent w < sent w' \<and> sent w' \<le> sent w + n
         \<and> (\<forall>x. r = Inr x \<longrightarrow> u' + sent w = attempt + sent w') \<and> (\<forall>e. r = Inl e \<longrightarrow> u' = u)"
proof (induction n arbitrary: attempt payload lst w)
  case (Suc n)
  obtain r1 w1 where s: "send_tx (ex_rpc ex) payload True w = (r1, w1)" by (rule prod.exhaust)
  note sent1 = observes_send [OF assms s]
  show ?case
  proof (cases "\<exists>exc. r1 = Inl exc \<and> classify_text (exn_str exc) \<noteq> Fatal \<and> attempt + 1 < ma")
    case False
    then show ?thesis using Suc.prems(1) s sent1
      by (cases r1) (auto simp: broadcast_step split: if_splits)
  next
    case True
    then obtain exc where e: "r1 = Inl exc" "classify_text (exn_str exc) \<noteq> Fatal" "attempt + 1 < ma" by blast
    obtain p l w2 where np: "next_payload ex ixs payer extra payload exc w1 = (p, l, w2)" by (metis prod_cases3)
    note sent2 = observes_next_payload [OF assms np]
    obtain r3 w3 where sl: "ex_sleep_ms ex (base * 2 ^ attempt) w2 = (r3, w3)" by (rule prod.exhaust)
    note sent3 = observes_sleep [OF assms sl]
    show ?thesis
    proof (cases r3)
      case (Inl ee)
      then show ?thesis using Suc.prems(1) s e np sl sent1 sent2 sent3 by (auto simp: broadcast_step)
    next
      case (Inr x)
      then have rec: "broadcast_loop n ex ixs payer extra ma base (attempt + 1) p (Some l) (u, w3) = (r, u', w')"
        using Suc.prems(1) s e np sl by (simp add: broadcast_step)
      have "attempt + 1 + n = ma" "0 < n" using Suc.prems(2) e(3) by auto
      from Suc.IH [OF rec this] sent1 sent2 sent3 show ?thesis by auto
    qed
  qed
qed simp

text \<open>A node that fails transiently while fewer than \<open>k\<close> submissions were made.\<close>

definition fails_until :: "'w executor \<Rightarrow> ('w \<Rightarrow> nat) \<Rightarrow> nat \<Rightarrow> string \<Rightarrow> bool" where
  "fails_until ex sent k signature \<longleftrightarrow>
     (\<forall>tx sk w. sent w < k \<longrightarrow>
        (\<exists>e w'. send_tx (ex_rpc ex) tx sk w = (Inl e, w') \<and> classify_text (exn_str e) = Retryable)) \<and>
     (\<forall>tx sk w. k \<le> sent w \<longrightarrow> (\<exists>w'. send_tx (ex_rpc ex) tx sk w = (Inr signature, w')))"

definition sleeps :: "'w executor \<Rightarrow> bool" where
  "sleeps ex \<longleftrightarrow> (\<forall>ms w. \<exists>w'. ex_sleep_ms ex ms w = (Inr (), w'))"

definition backoffs :: "int \<Rightarrow> nat \<Rightarrow> nat \<Rightarrow> int list" where
  "backoffs base i j = map (\<lambda>a. base * 2 ^ a) [i..<j]"

lemma backoffs_Cons: "i < j \<Longrightarrow> backoffs base i j = base * 2 ^ i # backoffs base (Suc i) j"
  by (simp add: backoffs_def upt_conv_Cons)

lemma retried_iteration:
  assumes "observes ex sent naps" "fails_until ex sent k signature" "sleeps ex" "sent w < k" "attempt + 1 < ma"
  shows "\<exists>p l w3. broadcast_loop (Suc n) ex ixs payer extra ma base attempt payload lst (u, w)
           = broadcast_loop n ex ixs payer extra ma base (attempt + 1) p (Some l) (u, w3)
         \<and> sent w3 = Suc (sent w) \<and> naps w3 = naps w @ [base * 2 ^ attempt]"
proof -
  obtain e w1 where s: "send_tx (ex_rpc ex) payload True w = (Inl e, w1)" and c: "classify_text (exn_str e) = Retryable"
    using assms(2,4) unfolding fails_until_def by blast
  obtain p l w2 where np: "next_payload ex ixs payer extra payload e w1 = (p, l, w2)" by (metis prod_cases3)
  obtain w3 where sl: "ex_sleep_ms ex (base * 2 ^ attempt) w2 = (Inr (), w3)"
    using assms(3) unfolding sleeps_def by blast
  show ?thesis
    using observes_send [OF assms(1) s] observes_next_payload [OF assms(1) np] observes_sleep [OF assms(1) sl]
      s c np sl assms(5)
    by (auto simp: broadcast_step)
qed

lemma broadcast_loop_recovers:
  assumes "observes ex sent naps" "fails_until ex sent k signature" "sleeps ex"
  shows "attempt + n = ma \<Longrightarrow> k - sent w < n \<Longrightarrow>
    \<exists>w'. broadcast_loop n ex ixs payer extra ma base attempt payload lst (u, w)
           = (Inr signature, attempt + (k - sent w) + 1, w')
       \<and> naps w' = naps w @ backoffs base attempt (attempt + (k - sent w))"
proof (induction n arbitrary: attempt payload lst w)
  case (Suc n)
  show ?case
  proof (cases "sent w < k")
    case False
    then obtain w1 where s: "send_tx (ex_rpc ex) payload True w = (Inr signature, w1)"
      using assms(2) unfolding fails_until_def by (metis not_less)
    then show ?thesis using False observes_send [OF assms(1) s] by (simp add: broadcast_step backoffs_def)
  next
    case True
    then have a: "attempt + 1 < ma" using Suc.prems by linarith
    obtain p l w3 where st: "broadcast_loop (Suc n) ex ixs payer extra ma base attempt payload lst (u, w)
           = broadcast_loop n ex ixs payer extra ma base (attempt + 1) p (Some l) (u, w3)"
      and o: "sent w3 = Suc (sent w)" "naps w3 = naps w @ [base * 2 ^ attempt]"
      using retried_iteration [OF assms True a] by blast
    have "attempt + 1 + n = ma" "k - sent w3 < n" using Suc.prems True o by auto
    from Suc.IH [OF this, of p "Some l"] obtain w' where
      "broadcast_loop n ex ixs payer extra ma base (attempt + 1) p (Some l) (u, w3)
         = (Inr signature, attempt + 1 + (k - sent w3) + 1, w')"
      "naps w' = naps w3 @ backoffs base (attempt + 1) (attempt + 1 + (k - sent w3))" by blast
    moreover have "attempt + 1 + (k - sent w3) = attempt + (k - sent w)" using o(1) True by simp
    ultimately show ?thesis using st o True by (auto simp: backoffs_Cons)
  qed
qed simp

lemma broadcast_loop_exhausts:
  assumes "observes ex sent naps" "fails_until ex sent k signature" "sleeps ex"
  shows "attempt + n = ma \<Longrightarrow> 0 < n \<Longrightarrow> sent w + n \<le> k \<Longrightarrow>
    \<exists>e w'. broadcast_loop n ex ixs payer extra ma base attempt payload lst (u, w)
           = (Inl (exhausted ma (Some e)), u, w')
       \<and> sent w' = sent w + n \<and> naps w' = naps w @ backoffs base attempt (ma - 1)"
proof (induction n arbitrary: attempt payload lst w)
  case (Suc n)
  have lt: "sent w < k" using Suc.prems by simp
  show ?case
  proof (cases "n = 0")
    case True
    obtain e w1 where s: "send_tx (ex_rpc ex) payload True w = (Inl e, w1)"
      and c: "classify_text (exn_str e) = Retryable"
      using assms(2) lt unfolding fails_until_def by blast
    show ?thesis using True s c Suc.prems observes_send [OF assms(1) s]
      by (auto simp: broadcast_step backoffs_def)
  next
    case False
    then have a: "attempt + 1 < ma" using Suc.prems by linarith
    obtain p l w3 where st: "broadcast_loop (Suc n) ex ixs payer extra ma base attempt payload lst (u, w)
           = broadcast_loop n ex ixs payer extra ma base (attempt + 1) p (Some l) (u, w3)"
      and o: "sent w3 = Suc (sent w)" "naps w3 = naps w @ [base * 2 ^ attempt]"
      using retried_iteration [OF assms lt a] by blast
    have "attempt + 1 + n = ma" "0 < n" "sent w3 + n \<le> k" using Suc.prems False o by auto
    from Suc.IH [OF this, of p "Some l"] st o a show ?thesis by (auto simp: backoffs_Cons)
  qed
qed simp


section \<open>Lemmas about the polling loop\<close>

text \<open>\<open>time\<close> observes the clock: no call turns it back, a reading shows it, and a sleep
  that returns took at least as long as asked.\<close>

definition clock_runs :: "'w executor \<Rightarrow> ('w \<Rightarrow> rat) \<Rightarrow> bool" where
  "clock_runs ex time \<longleftrightarrow>
     (\<forall>sigs h w r w'. signature_statuses (ex_rpc ex) sigs h w = (r, w') \<longrightarrow> time w \<le> time w') \<and>
     (\<forall>w r w'. ex_monotonic ex w = (r, w') \<longrightarrow> time w \<le> time w' \<and> (\<forall>t. r = Inr t \<longrightarrow> t = time w')) \<and>
     (\<forall>ms w w'. ex_sleep_ms ex ms w = (Inr (), w') \<longrightarrow> time w + of_int ms / 1000 \<le> time w')"

lemma clock_statuses: "clock_runs ex time \<Longrightarrow> signature_statuses (ex_rpc ex) sigs h w = (r, w') \<Longrightarrow> time w \<le> time w'"
  unfolding clock_runs_def by blast

lemma clock_monotonic: "clock_runs ex time \<Longrightarrow> ex_monotonic ex w = (Inr t, w') \<Longrightarrow> t = time w' \<and> time w \<le> time w'"
  unfolding clock_runs_def by blast

lemma clock_sleep: "clock_runs ex time \<Longrightarrow> ex_sleep_ms ex ms w = (Inr (), w') \<Longrightarrow> time w + of_int ms / 1000 \<le> time w'"
  unfolding clock_runs_def by blast

text \<open>A round either answers or leads to the next one half a second later.\<close>

lemma await_round:
  assumes "clock_runs ex time"
  shows "(\<exists>out. await_loop ex signature target timeout deadline w = Some out)
         \<or> (\<exists>w4. await_loop ex signature target timeout deadline w = await_loop ex signature target timeout deadline w4
              \<and> time w < deadline \<and> time w + 1 / 2 \<le> time w4)"
proof (rule ccontr)
  assume no: "\<not> ?thesis"
  obtain r1 w1 where 1: "signature_statuses (ex_rpc ex) [signature] False w = (r1, w1)" by (rule prod.exhaust)
  obtain statuses where r1: "r1 = Inr statuses" using no 1 by (cases r1) (auto simp: await_loop.simps [of ex signature target timeout deadline w])
  have p: "poll_of signature target statuses = Pending"
    using no 1 r1 by (cases "poll_of signature target statuses") (auto simp: await_loop.simps [of ex signature target timeout deadline w])
  obtain r2 w2 where 2: "ex_monotonic ex w1 = (r2, w2)" by (rule prod.exhaust)
  obtain now1 where r2: "r2 = Inr now1" using no 1 r1 p 2 by (cases r2) (auto simp: await_loop.simps [of ex signature target timeout deadline w])
  obtain r3 w3 where 3: "ex_monotonic ex w2 = (r3, w3)" by (rule prod.exhaust)
  obtain now2 where r3: "r3 = Inr now2" using no 1 r1 p 2 r2 3 by (cases r3) (auto simp: await_loop.simps [of ex signature target timeout deadline w])
  have d: "now2 < deadline" using no 1 r1 p 2 r2 3 r3
    by (cases "deadline \<le> now2") (auto simp: await_loop.simps [of ex signature target timeout deadline w])
  obtain r4 w4 where 4: "ex_sleep_ms ex 500 w3 = (r4, w4)" by (rule prod.exhaust)
  have r4: "r4 = Inr ()" using no 1 r1 p 2 r2 3 r3 d 4 by (cases r4) (auto simp: await_loop.simps [of ex signature target timeout deadline w])
  have e: "await_loop ex signature target timeout deadline w = await_loop ex signature target timeout deadline w4"
    using 1 r1 p 2 r2 3 r3 d 4 r4 by (simp add: await_loop.simps [of ex signature target timeout deadline w])
  have "time w \<le> time w1" "time w1 \<le> time w2" "now2 = time w3" "time w2 \<le> time w3" "time w3 + 1 / 2 \<le> time w4"
    using clock_statuses [OF assms 1] clock_monotonic [OF assms] clock_sleep [OF assms] 2 r2 3 r3 4 r4 by fastforce+
  then have "time w < deadline" "time w + 1 / 2 \<le> time w4" using d by linarith+
  with no e show False by blast
qed

lemma await_loop_returns:
  assumes "clock_runs ex time"
  shows "deadline - time w \<le> of_nat n / 2 \<Longrightarrow>
    \<exists>out. await_loop ex signature target timeout deadline w = Some out"
proof (induction n arbitrary: w)
  case 0
  then have "\<not> time w < deadline" by simp
  then show ?case using await_round [OF assms, of signature target timeout deadline w] by blast
next
  case (Suc n)
  from await_round [OF assms, of signature target timeout deadline w] show ?case
  proof
    assume "\<exists>w4. await_loop ex signature target timeout deadline w = await_loop ex signature target timeout deadline w4
              \<and> time w < deadline \<and> time w + 1 / 2 \<le> time w4"
    then obtain w4 where w4: "await_loop ex signature target timeout deadline w
        = await_loop ex signature target timeout deadline w4" "time w + 1 / 2 \<le> time w4" by blast
    have "deadline - time w4 \<le> of_nat n / 2" using w4(2) Suc.prems by (simp add: field_simps)
    from Suc.IH [OF this] w4(1) show ?thesis by simp
  qed
qed

text \<open>What the last poll of a confirmed transaction said.\<close>

definition confirmed_by :: "'w executor \<Rightarrow> string \<Rightarrow> string \<Rightarrow> int option \<Rightarrow> 'w \<Rightarrow> bool" where
  "confirmed_by ex signature target slot w' \<longleftrightarrow>
     (\<exists>w status rest. signature_statuses (ex_rpc ex) [signature] False w = (Inr (Some status # rest), w')
        \<and> jget status ''err'' = JNull \<and> meets_commitment (Some status) target
        \<and> slot = json_int (jget status ''slot''))"

lemma poll_of_Confirmed:
  "poll_of signature target statuses = Confirmed slot \<Longrightarrow>
   \<exists>status rest. statuses = Some status # rest \<and> jget status ''err'' = JNull
     \<and> meets_commitment (Some status) target \<and> slot = json_int (jget status ''slot'')"
  by (cases statuses) (auto simp: poll_of_def split: option.splits if_splits)

lemma poll_of_OnChainError:
  "poll_of signature target statuses = OnChainError e \<Longrightarrow> is_upstream e"
  by (auto simp: poll_of_def split: option.splits if_splits)

lemma await_loop_confirmed_aux:
  "await_loop ex signature target timeout deadline w = Some y \<Longrightarrow>
   \<forall>slot w'. y = (Inr slot, w') \<longrightarrow> confirmed_by ex signature target slot w'"
proof (erule await_loop.raw_induct [rotated], intro allI impI)
  fix loop ex signature target timeout deadline w y slot and w' :: 'a
  assume IH: "\<And>ex signature target timeout deadline w y.
      loop ex signature target timeout deadline w = Some y \<Longrightarrow>
      \<forall>slot w'. y = (Inr slot, w') \<longrightarrow> confirmed_by ex signature target slot w'"
    and body: "(case signature_statuses (ex_rpc ex) [signature] False w of
        (Inl e, w1) \<Rightarrow> Some (Inl e, w1)
      | (Inr statuses, w1) \<Rightarrow>
          (case poll_of signature target statuses of
             OnChainError e \<Rightarrow> Some (Inl e, w1)
           | Confirmed slot \<Rightarrow> Some (Inr slot, w1)
           | Pending \<Rightarrow>
               (case ex_monotonic ex w1 of
                  (Inl e, w2) \<Rightarrow> Some (Inl e, w2)
                | (Inr now1, w2) \<Rightarrow>
                    (case ex_monotonic ex w2 of
                       (Inl e, w3) \<Rightarrow> Some (Inl e, w3)
                     | (Inr now2, w3) \<Rightarrow>
                         if deadline \<le> now2
                         then Some (Inl (confirm_timeout signature target (now1 - (deadline - timeout))), w3)
                         else (case ex_sleep_ms ex 500 w3 of
                                 (Inl e, w4) \<Rightarrow> Some (Inl e, w4)
                               | (Inr _, w4) \<Rightarrow> loop ex signature target timeout deadline w4))))) = Some y"
    and y: "y = (Inr slot, w')"
  obtain r1 w1 where 1: "signature_statuses (ex_rpc ex) [signature] False w = (r1, w1)" by (rule prod.exhaust)
  obtain statuses where r1: "r1 = Inr statuses" using body 1 y by (cases r1) auto
  show "confirmed_by ex signature target slot w'"
  proof (cases "poll_of signature target statuses")
    case (Confirmed s)
    with body 1 r1 y have "slot = s" "w' = w1" by auto
    with poll_of_Confirmed [OF Confirmed] 1 r1 show ?thesis unfolding confirmed_by_def by blast
  next
    case (OnChainError e)
    with body 1 r1 y show ?thesis by simp
  next
    case Pending
    with body 1 r1 y obtain w4 where "loop ex signature target timeout deadline w4 = Some (Inr slot, w')"
      by (auto split: prod.splits sum.splits if_splits)
    with IH show ?thesis by blast
  qed
qed

lemmas await_loop_confirmed = await_loop_confirmed_aux [rule_format, OF _ refl]

section \<open>Invariants of the environment\<close>

text \<open>What every call the executor makes keeps, \<open>send\<close> keeps.\<close>

definition executor_keeps :: "('w \<Rightarrow> bool) \<Rightarrow> 'w executor \<Rightarrow> bool" where
  "executor_keeps I ex \<longleftrightarrow>
     keeps I (latest_blockhash (ex_rpc ex)) \<and> (\<forall>tx b. keeps I (send_tx (ex_rpc ex) tx b)) \<and>
     (\<forall>tx b. keeps I (simulate_tx (ex_rpc ex) tx b)) \<and>
     (\<forall>sigs h. keeps I (signature_statuses (ex_rpc ex) sigs h)) \<and>
     (\<forall>ixs bh p. keeps I (ex_sign ex ixs bh p)) \<and> (\<forall>ms. keeps I (ex_sleep_ms ex ms)) \<and>
     keeps I (ex_monotonic ex)"

lemma executor_keepsD [keeps_rules]:
  "executor_keeps I ex \<Longrightarrow> keeps I (latest_blockhash (ex_rpc ex))"
  "executor_keeps I ex \<Longrightarrow> keeps I (send_tx (ex_rpc ex) tx b)"
  "executor_keeps I ex \<Longrightarrow> keeps I (simulate_tx (ex_rpc ex) tx b)"
  "executor_keeps I ex \<Longrightarrow> keeps I (signature_statuses (ex_rpc ex) sigs h)"
  "executor_keeps I ex \<Longrightarrow> keeps I (ex_sign ex ixs bh p)"
  "executor_keeps I ex \<Longrightarrow> keeps I (ex_sleep_ms ex ms)"
  "executor_keeps I ex \<Longrightarrow> keeps I (ex_monotonic ex)"
  by (auto simp: executor_keeps_def)

lemma keeps_build_signed [keeps_rules]:
  "executor_keeps I ex \<Longrightarrow> keeps I (build_signed_b64 ex ixs payer bh extra)"
  unfolding build_signed_b64_def by (intro keeps_rules)

lemma keeps_rebuild [keeps_rules]: "executor_keeps I ex \<Longrightarrow> keeps I (rebuild ex ixs payer extra)"
  unfolding rebuild_def by (intro keeps_rules)

lemma keeps_prepare: "executor_keeps I ex \<Longrightarrow> keeps I (prepare fmt ex ixs payer recent extra)"
  unfolding prepare_def simulate_step_def Let_def by (intro keeps_rules)

lemma next_payload_keeps:
  assumes "executor_keeps I ex" "I w" "next_payload ex ixs payer extra payload exc w = (p, e, w')"
  shows "I w'"
  using assms(3) keepsD [OF keeps_rebuild [OF assms(1)] assms(2)]
  by (auto simp: next_payload_def split: prod.splits sum.splits)

lemma broadcast_loop_keeps:
  assumes "executor_keeps I ex"
  shows "broadcast_loop n ex ixs payer extra ma base attempt payload lst (u, w) = (r, u', w') \<Longrightarrow> I w \<Longrightarrow> I w'"
proof (induction n arbitrary: attempt payload lst w)
  case (Suc n)
  obtain r1 w1 where s: "send_tx (ex_rpc ex) payload True w = (r1, w1)" by (rule prod.exhaust)
  note 1 = keepsD [OF executor_keepsD(2) [OF assms] Suc.prems(2) s]
  show ?case
  proof (cases "\<exists>exc. r1 = Inl exc \<and> classify_text (exn_str exc) \<noteq> Fatal \<and> attempt + 1 < ma")
    case False
    then show ?thesis using Suc.prems(1) s 1 by (cases r1) (auto simp: broadcast_step split: if_splits)
  next
    case True
    then obtain exc where e: "r1 = Inl exc" "classify_text (exn_str exc) \<noteq> Fatal" "attempt + 1 < ma" by blast
    obtain p l w2 where np: "next_payload ex ixs payer extra payload exc w1 = (p, l, w2)" by (metis prod_cases3)
    note 2 = next_payload_keeps [OF assms 1 np]
    obtain r3 w3 where sl: "ex_sleep_ms ex (base * 2 ^ attempt) w2 = (r3, w3)" by (rule prod.exhaust)
    note 3 = keepsD [OF executor_keepsD(6) [OF assms] 2 sl]
    show ?thesis using Suc.prems(1) Suc.IH [OF _ 3] s e np sl 3 by (cases r3) (auto simp: broadcast_step)
  qed
qed simp

lemma await_loop_keeps_aux:
  "await_loop ex signature target timeout deadline w = Some y \<Longrightarrow>
   executor_keeps I ex \<longrightarrow> I w \<longrightarrow> I (snd y)"
proof (erule await_loop.raw_induct [rotated], intro impI)
  fix loop ex signature target timeout deadline w y
  assume IH: "\<And>ex signature target timeout deadline w y.
      loop ex signature target timeout deadline w = Some y \<Longrightarrow> executor_keeps I ex \<longrightarrow> I w \<longrightarrow> I (snd y)"
    and body: "(case signature_statuses (ex_rpc ex) [signature] False w of
        (Inl e, w1) \<Rightarrow> Some (Inl e, w1)
      | (Inr statuses, w1) \<Rightarrow>
          (case poll_of signature target statuses of
             OnChainError e \<Rightarrow> Some (Inl e, w1)
           | Confirmed slot \<Rightarrow> Some (Inr slot, w1)
           | Pending \<Rightarrow>
               (case ex_monotonic ex w1 of
                  (Inl e, w2) \<Rightarrow> Some (Inl e, w2)
                | (Inr now1, w2) \<Rightarrow>
                    (case ex_monotonic ex w2 of
                       (Inl e, w3) \<Rightarrow> Some (Inl e, w3)
                     | (Inr now2, w3) \<Rightarrow>
                         if deadline \<le> now2
                         then Some (Inl (confirm_timeout signature target (now1 - (deadline - timeout))), w3)
                         else (case ex_sleep_ms ex 500 w3 of
                                 (Inl e, w4) \<Rightarrow> Some (Inl e, w4)
                               | (Inr _, w4) \<Rightarrow> loop ex signature target timeout deadline w4))))) = Some y"
    and k: "executor_keeps I ex" and w: "I w"
  obtain r1 w1 where 1: "signature_statuses (ex_rpc ex) [signature] False w = (r1, w1)" by (rule prod.exhaust)
  obtain r2 w2 where 2: "ex_monotonic ex w1 = (r2, w2)" by (rule prod.exhaust)
  obtain r3 w3 where 3: "ex_monotonic ex w2 = (r3, w3)" by (rule prod.exhaust)
  obtain r4 w4 where 4: "ex_sleep_ms ex 500 w3 = (r4, w4)" by (rule prod.exhaust)
  note i1 = keepsD [OF executor_keepsD(4) [OF k] w 1]
  note i2 = keepsD [OF executor_keepsD(7) [OF k] i1 2]
  note i3 = keepsD [OF executor_keepsD(7) [OF k] i2 3]
  note i4 = keepsD [OF executor_keepsD(6) [OF k] i3 4]
  have "snd y \<in> {w1, w2, w3, w4} \<or> loop ex signature target timeout deadline w4 = Some y"
    using body 1 2 3 4 by (auto split: sum.splits poll.splits if_splits)
  then show "I (snd y)" using i1 i2 i3 i4 IH [of ex signature target timeout deadline w4 y] k by auto
qed

lemma await_confirmation_keeps:
  assumes "executor_keeps I ex" "I w" "await_confirmation ex signature w = Some (r, w')"
  shows "I w'"
proof -
  obtain r1 w1 where 1: "ex_monotonic ex w = (r1, w1)" by (rule prod.exhaust)
  note i1 = keepsD [OF executor_keepsD(7) [OF assms(1)] assms(2) 1]
  show ?thesis
    using assms(3) 1 i1 await_loop_keeps_aux [where I = I and ex = ex] assms(1)
    by (cases r1) (fastforce simp: await_confirmation_def)+
qed

lemma send_keeps:
  assumes "executor_keeps I ex" "I w" "send fmt ex ixs payer recent extra (u, w) = Some (r, u', w')"
  shows "I w'"
proof -
  obtain r1 w1 where p: "prepare fmt ex ixs payer recent extra w = (r1, w1)" by (rule prod.exhaust)
  note i1 = keepsD [OF keeps_prepare [OF assms(1)] assms(2) p]
  show ?thesis
  proof (cases r1)
    case (Inl e)
    with p assms(3) i1 show ?thesis by (simp add: send_def)
  next
    case (Inr x)
    obtain full b64 logs where x: "x = (full, b64, logs)" by (metis prod_cases3)
    obtain r2 u2 w2 where b: "broadcast_with_retry ex full payer b64 extra (u, w1) = (r2, u2, w2)" by (metis prod_cases3)
    have i2: "I w2" using b i1 broadcast_loop_keeps [OF assms(1)]
      by (auto simp: broadcast_with_retry_def Let_def)
    show ?thesis
      using assms(3) p Inr x b i2 await_confirmation_keeps [OF assms(1) i2]
      by (cases r2) (auto simp: send_def split: option.splits prod.splits sum.splits)
  qed
qed

section \<open>Properties\<close>

text \<open>A node for the witnesses: it answers HTTP 503 to the first \<open>k\<close> submissions; a
  status query answers \<open>st\<close>; sleeping moves the clock.\<close>

record demo_world =
  dw_sent :: nat
  dw_naps :: "int list"
  dw_time :: rat

definition demo_rpc :: "nat \<Rightarrow> json \<Rightarrow> dict option list \<Rightarrow> demo_world rpc" where
  "demo_rpc k simerr st = \<lparr>latest_blockhash = ret (JObj [(''blockhash'', JStr ''bh'')]),
     send_tx = (\<lambda>tx sk w. (if dw_sent w < k then Inl (upstream ''Solana RPC returned HTTP 503.'' []) else Inr ''sig'',
                           w\<lparr>dw_sent := Suc (dw_sent w)\<rparr>)),
     simulate_tx = (\<lambda>tx rb. ret [(''err'', simerr)]),
     signature_statuses = (\<lambda>sigs h. ret st),
     transaction = (\<lambda>s. ret None),
     account_info = (\<lambda>p e. ret None)\<rparr>"

definition demo_executor :: "nat \<Rightarrow> json \<Rightarrow> dict option list \<Rightarrow> demo_world executor" where
  "demo_executor k simerr st = \<lparr>ex_solders = demo_solders, ex_rpc = demo_rpc k simerr st,
     ex_sign = (\<lambda>ixs bh p. ret [1, 2, 3]),
     ex_sleep_ms = (\<lambda>ms w. (Inr (), w\<lparr>dw_naps := dw_naps w @ [ms], dw_time := dw_time w + of_int ms / 1000\<rparr>)),
     ex_monotonic = (\<lambda>w. (Inr (dw_time w), w)),
     ex_settings = default_settings\<rparr>"

definition demo_start :: demo_world where
  "demo_start = \<lparr>dw_sent = 0, dw_naps = [], dw_time = 0\<rparr>"

lemma demo_observes: "observes (demo_executor k simerr st) dw_sent dw_naps"
  by (auto simp: observes_def demo_executor_def demo_rpc_def)

lemma demo_fails_until: "fails_until (demo_executor k simerr st) dw_sent k ''sig''"
proof -
  have "classify_text ''Solana RPC returned HTTP 503.'' = Retryable" by code_simp
  then show ?thesis by (simp add: fails_until_def demo_executor_def demo_rpc_def upstream_def)
qed

lemma demo_sleeps: "sleeps (demo_executor k simerr st)"
  by (simp add: sleeps_def demo_executor_def)

lemma demo_clock: "clock_runs (demo_executor k simerr st) dw_time"
  by (auto simp: clock_runs_def demo_executor_def demo_rpc_def)

text \<open>Bounded retry. Whatever the node answers, the broadcast submits the transaction at
  least once and at most \<open>max(1, tx_retry_max_attempts)\<close> times; on success the recorded number of
  attempts is the number of submissions made, on failure the record is left alone.\<close>

theorem broadcast_attempts_bounded:
  assumes "observes ex sent naps"
    and "broadcast_with_retry ex ixs payer b64 extra (u, w) = (r, u', w')"
  shows "sent w < sent w' \<and> sent w' \<le> sent w + max_attempts_of ex
         \<and> (\<forall>signature. r = Inr signature \<longrightarrow> u' = sent w' - sent w)
         \<and> (\<forall>e. r = Inl e \<longrightarrow> u' = u)"
proof -
  have l: "broadcast_loop (max_attempts_of ex) ex ixs payer extra (max_attempts_of ex)
      (max 0 (tx_retry_initial_backoff_ms (ex_settings ex))) 0 b64 None (u, w) = (r, u', w')"
    using assms(2) by (simp add: broadcast_with_retry_def Let_def)
  have "0 < max_attempts_of ex" by (simp add: max_attempts_of_def)
  from broadcast_loop_bounds [OF assms(1) l _ this] show ?thesis by auto
qed

theorem broadcast_attempts_bounded_witness:
  "\<exists>r u' w'. broadcast_with_retry (demo_executor 9 JNull []) [] [] ''tx'' [] (0, demo_start) = (r, u', w')
     \<and> 0 < dw_sent w' \<and> dw_sent w' \<le> 3"
proof -
  obtain r u' w' where b: "broadcast_with_retry (demo_executor 9 JNull []) [] [] ''tx'' [] (0, demo_start) = (r, u', w')"
    by (metis prod_cases3)
  from broadcast_attempts_bounded [OF demo_observes b] b show ?thesis
    by (auto simp: demo_start_def demo_executor_def max_attempts_of_def default_settings_def)
qed

text \<open>C19. Transient failures are survived. If the node fails the first \<open>k\<close> submissions with a
  retryable error and then accepts, and \<open>k\<close> is below the configured number of attempts, the
  broadcast returns the signature with \<open>k + 1\<close> attempts recorded, having slept
  \<open>base\<close>, \<open>2 base\<close>, ..., \<open>2^(k-1) base\<close> milliseconds in between - also when refreshing the blockhash
  or re-signing failed on the way. With \<open>k\<close> at or above the bound it gives up with
  \<open>UpstreamError\<close> after exactly the configured number of submissions and does not sleep after
  the last one.\<close>

theorem broadcast_retries_transient:
  assumes "observes ex sent naps" and "sleeps ex"
    and "fails_until ex sent k signature" and "sent w = 0"
  shows "\<exists>r u' w'. broadcast_with_retry ex ixs payer b64 extra (u, w) = (r, u', w') \<and>
     (if k < max_attempts_of ex
      then r = Inr signature \<and> u' = k + 1
           \<and> naps w' = naps w @ backoffs (max 0 (tx_retry_initial_backoff_ms (ex_settings ex))) 0 k
      else (\<exists>e. r = Inl (exhausted (max_attempts_of ex) (Some e))) \<and> u' = u
           \<and> sent w' = max_attempts_of ex
           \<and> naps w' = naps w @ backoffs (max 0 (tx_retry_initial_backoff_ms (ex_settings ex))) 0
                                 (max_attempts_of ex - 1))"
proof (cases "k < max_attempts_of ex")
  case True
  then show ?thesis
    using broadcast_loop_recovers [OF assms(1,3,2), of 0 "max_attempts_of ex" "max_attempts_of ex" w
        ixs payer extra "max 0 (tx_retry_initial_backoff_ms (ex_settings ex))" b64 None u] assms(4)
    by (auto simp: broadcast_with_retry_def Let_def)
next
  case False
  have "0 < max_attempts_of ex" by (simp add: max_attempts_of_def)
  then show ?thesis
    using broadcast_loop_exhausts [OF assms(1,3,2), of 0 "max_attempts_of ex" "max_attempts_of ex" w
        ixs payer extra "max 0 (tx_retry_initial_backoff_ms (ex_settings ex))" b64 None u] assms(4) False
    by (auto simp: broadcast_with_retry_def Let_def)
qed

theorem broadcast_retries_transient_witness:
  "\<exists>w'. broadcast_with_retry (demo_executor 2 JNull []) [] [] ''tx'' [] (0, demo_start) = (Inr ''sig'', 3, w')
     \<and> dw_naps w' = [500, 1000]"
proof -
  have m: "max_attempts_of (demo_executor 2 JNull []) = 3"
    "tx_retry_initial_backoff_ms (ex_settings (demo_executor 2 JNull [])) = 500"
    by (simp_all add: max_attempts_of_def demo_executor_def default_settings_def)
  have "dw_sent demo_start = 0" "dw_naps demo_start = []" by (simp_all add: demo_start_def)
  then show ?thesis
    using broadcast_retries_transient [OF demo_observes demo_sleeps demo_fails_until, of demo_start 2 JNull "[]"
        "[]" "[]" "''tx''" "[]" 0] m
    by (auto simp: backoffs_def upt_rec)
qed

text \<open>What the client's own errors classify as. An HTTP 429, 502, 503 or 504 answer of
  the node is retryable. An HTTP 500, a body that is no JSON object and every error the node reports in a
  JSON-RPC envelope is fatal, whatever its code or message - an expired blockhash or a lagging node
  included - because the classifier sees only the exception's text and the client puts the report into
  the details.\<close>

theorem envelope_errors_never_retried:
  assumes "read_envelope name resp = Inl e"
    and "http_status resp < 400 \<or> http_status resp \<in> {429, 500, 502, 503, 504}"
  shows "classify_rpc_error fmt (ErrExn e) =
           (if http_status resp \<in> {429, 502, 503, 504} then Retryable else Fatal)"
proof -
  have s: "int_str 429 = ''429''" "int_str 502 = ''502''" "int_str 503 = ''503''" "int_str 504 = ''504''"
    "int_str 500 = ''500''"
    by (simp add: int_str_def nat_str.simps, code_simp)+
  have c: "classify_text ''Solana RPC returned an error envelope.'' = Fatal"
    "classify_text ''Solana RPC returned a non-JSON body.'' = Fatal"
    "classify_text ''Solana RPC returned an unexpected JSON shape.'' = Fatal"
    "classify_text ''Solana RPC returned HTTP 429.'' = Retryable"
    "classify_text ''Solana RPC returned HTTP 502.'' = Retryable"
    "classify_text ''Solana RPC returned HTTP 503.'' = Retryable"
    "classify_text ''Solana RPC returned HTTP 504.'' = Retryable"
    "classify_text ''Solana RPC returned HTTP 500.'' = Fatal"
    by code_simp+
  from assms(2) consider "http_status resp < 400" | "http_status resp \<in> {429, 500, 502, 503, 504}" by blast
  then show ?thesis
  proof cases
    case 1
    with assms(1) c(1-3) show ?thesis
      by (auto simp: classify_rpc_error_def upstream_def read_envelope_def
          split: option.splits json.splits if_splits)
  next
    case 2
    with assms(1) s c show ?thesis
      by (auto simp: classify_rpc_error_def upstream_def read_envelope_def)
  qed
qed

theorem envelope_errors_never_retried_witness:
  "\<exists>e. read_envelope ''sendTransaction'' \<lparr>http_status = 200, http_text = [],
       http_json = Some (JObj [(''error'', JObj [(''message'', JStr ''BlockhashNotFound'')])])\<rparr> = Inl e
     \<and> classify_rpc_error (\<lambda>_. []) (ErrExn e) = Fatal"
proof -
  let ?resp = "\<lparr>http_status = 200, http_text = [],
       http_json = Some (JObj [(''error'', JObj [(''message'', JStr ''BlockhashNotFound'')])])\<rparr>"
  have "\<exists>e. read_envelope ''sendTransaction'' ?resp = Inl e" by (simp add: read_envelope_def jget_def)
  then obtain e where e: "read_envelope ''sendTransaction'' ?resp = Inl e" by blast
  have s: "http_status ?resp = 200" by simp
  show ?thesis using envelope_errors_never_retried [OF e, of "\<lambda>_. []"] e by (auto simp: s)
qed

text \<open>Nothing is broadcast after a failed simulation. With simulation required and a node
  whose simulation reports an error, \<open>send\<close> ends in an error, whatever the other answers are, and
  the number of submissions is unchanged.\<close>

theorem simulation_failure_not_broadcast:
  assumes "observes ex sent naps" and "tx_simulation_required (ex_settings ex)"
    and "\<forall>tx rb w sim w'. simulate_tx (ex_rpc ex) tx rb w = (Inr sim, w') \<longrightarrow> jget sim ''err'' \<noteq> JNull"
  shows "\<exists>e w'. send fmt ex ixs payer recent extra (u, w) = Some (Inl e, u, w') \<and> sent w' = sent w"
proof -
  obtain r w' where p: "prepare fmt ex ixs payer recent extra w = (r, w')" by (rule prod.exhaust)
  have *: "sent w2 = sent w1 \<and> (\<forall>l. r2 \<noteq> Inr l)" if "simulate_step fmt ex b w1 = (r2, w2)" for b w1 r2 w2
  proof -
    obtain r3 w3 where s: "simulate_tx (ex_rpc ex) b False w1 = (r3, w3)" by (rule prod.exhaust)
    show ?thesis
    proof (cases r3)
      case (Inl e)
      with that s assms(2) observes_simulate [OF assms(1) s] show ?thesis
        by (auto simp: simulate_step_def andthen_def)
    next
      case (Inr sim)
      with assms(3) s have "jget sim ''err'' \<noteq> JNull" by blast
      with Inr that s assms(2) observes_simulate [OF assms(1) s] show ?thesis
        by (auto simp: simulate_step_def andthen_def Let_def)
    qed
  qed
  have bh: "sent w2 = sent w1" if "andthen (latest_blockhash (ex_rpc ex)) (\<lambda>raw. pure (coerce_blockhash raw)) w1 = (r2, w2)" for w1 r2 w2
  proof -
    obtain r3 w3 where s: "latest_blockhash (ex_rpc ex) w1 = (r3, w3)" by (rule prod.exhaust)
    from that s observes_blockhash [OF assms(1) s] show ?thesis by (cases r3) (auto simp: andthen_def pure_def)
  qed
  have "sent w' = sent w \<and> (\<forall>x. r \<noteq> Inr x)"
  proof (cases r)
    case (Inr x)
    then show ?thesis using p by (auto simp: prepare_def elim!: andthen_InrE dest: *)
  next
    case (Inl e)
    then have "prepare fmt ex ixs payer recent extra w = (Inl e, w')" using p by simp
    then have "sent w' = sent w" unfolding prepare_def
      using * bh observes_build [OF assms(1)]
      by (fastforce elim!: andthen_InlE simp: pure_def ret_def split: option.splits if_splits)
    then show ?thesis using Inl by simp
  qed
  then show ?thesis using p by (cases r) (auto simp: send_def)
qed

theorem simulation_failure_not_broadcast_witness:
  "\<exists>e w'. send (\<lambda>_. []) (demo_executor 0 (JStr ''AccountInUse'') []) [] [] None [] (0, demo_start) = Some (Inl e, 0, w')
     \<and> dw_sent w' = 0"
proof -
  have "tx_simulation_required (ex_settings (demo_executor 0 (JStr ''AccountInUse'') []))"
    by (simp add: demo_executor_def default_settings_def)
  moreover have "\<forall>tx rb w sim w'. simulate_tx (ex_rpc (demo_executor 0 (JStr ''AccountInUse'') [])) tx rb w = (Inr sim, w')
      \<longrightarrow> jget sim ''err'' \<noteq> JNull"
    by (simp add: demo_executor_def demo_rpc_def jget_def)
  moreover have "dw_sent demo_start = 0" by (simp add: demo_start_def)
  ultimately show ?thesis
    using simulation_failure_not_broadcast [OF demo_observes, of 0 "JStr ''AccountInUse''" "[]" "\<lambda>_. []" "[]" "[]" None "[]" 0 demo_start]
    by simp
qed

text \<open>C30. Polling ends. If the clock advances at least as far as the executor sleeps, the
  unbounded polling loop returns or raises in every case, so \<open>send\<close> as a whole always comes back.\<close>

theorem send_returns:
  assumes "clock_runs ex time"
  shows "\<exists>out. send fmt ex ixs payer recent extra (u, w) = Some out"
proof -
  have "\<exists>out. await_confirmation ex signature w = Some out" for signature w
  proof (cases "ex_monotonic ex w")
    case (Pair r w1)
    show ?thesis
    proof (cases r)
      case (Inr now)
      obtain n :: nat where "timeout_of ex + (now - time w1) \<le> of_nat n / 2"
        using reals_Archimedean2 [of "2 * (timeout_of ex + (now - time w1))"]
        by (auto simp: field_simps dest: less_imp_le)
      then have "now + timeout_of ex - time w1 \<le> of_nat n / 2" by (simp add: algebra_simps)
      from await_loop_returns [OF assms this] Pair Inr show ?thesis by (simp add: await_confirmation_def)
    qed (simp add: await_confirmation_def Pair)
  qed
  then have a: "await_confirmation ex signature w = None \<Longrightarrow> False" for signature w
    by (metis option.distinct(1))
  show ?thesis
    by (auto simp: send_def split: prod.splits sum.splits option.splits dest: a)
qed

theorem send_returns_witness:
  "\<exists>out. send (\<lambda>_. []) (demo_executor 0 JNull [None]) [] [] None [] (0, demo_start) = Some out"
  by (rule send_returns [OF demo_clock])

text \<open>C18. A confirmed result is confirmed. When \<open>send\<close> returns a result, the last answer of the
  node about this very signature had no error and a commitment level at or above the configured one, the
  reported slot is the one in that answer, the status is \<open>confirmed\<close>, and the signature and number of
  attempts are those of the broadcast.\<close>

theorem send_result_is_confirmed:
  assumes "send fmt ex ixs payer recent extra (u, w) = Some (Inr res, u', w')"
  shows "confirmed_by ex (tr_signature res) (solana_commitment (ex_settings ex)) (tr_slot res) w'
         \<and> tr_status res = ''confirmed'' \<and> tr_attempts res = u'"
proof -
  from assms obtain full b64 logs w1 w2 signature where
    b: "broadcast_with_retry ex full payer b64 extra (u, w1) = (Inr signature, u', w2)"
    and a: "await_confirmation ex signature w2 = Some (Inr (tr_slot res), w')"
    and r: "tr_signature res = signature" "tr_status res = ''confirmed''" "tr_attempts res = u'"
    by (auto simp: send_def split: prod.splits sum.splits option.splits)
  from a obtain now w3 where "await_loop ex signature (solana_commitment (ex_settings ex)) (timeout_of ex)
      (now + timeout_of ex) w3 = Some (Inr (tr_slot res), w')"
    by (auto simp: await_confirmation_def split: prod.splits sum.splits)
  from await_loop_confirmed [OF this] r show ?thesis by simp
qed

definition demo_status :: "dict option list" where
  "demo_status = [Some [(''confirmationStatus'', JStr ''finalized''), (''slot'', JInt 9)]]"

theorem send_result_is_confirmed_witness:
  "\<exists>res w'. send (\<lambda>_. []) (demo_executor 0 JNull demo_status) [] [] None [] (0, demo_start) = Some (Inr res, 1, w')
     \<and> tr_slot res = Some 9
     \<and> confirmed_by (demo_executor 0 JNull demo_status) (tr_signature res) ''confirmed'' (tr_slot res) w'"
proof -
  let ?ex = "demo_executor 0 JNull demo_status"
  have p: "poll_of ''sig'' ''confirmed'' demo_status = Confirmed (Some 9)"
    by (simp add: poll_of_def demo_status_def jget_def meets_commitment_def rank_or_def COMMITMENT_RANK_def)
  have "max_attempts_of ?ex = Suc 2"
    by (simp add: max_attempts_of_def demo_executor_def default_settings_def)
  moreover have "broadcast_loop (Suc n) ?ex ixs payer extra ma base 0 tx None (u, w)
      = (Inr ''sig'', 1, w\<lparr>dw_sent := Suc (dw_sent w)\<rparr>)" for n ixs payer extra ma base tx u w
    by (simp add: broadcast_step demo_executor_def demo_rpc_def)
  ultimately have b: "broadcast_with_retry ?ex ixs payer tx extra (u, w)
      = (Inr ''sig'', 1, w\<lparr>dw_sent := Suc (dw_sent w)\<rparr>)" for ixs payer tx extra u w
    by (simp only: broadcast_with_retry_def Let_def)
  have a: "await_confirmation ?ex ''sig'' w = Some (Inr (Some 9), w)" for w
    using p by (simp add: await_confirmation_def await_loop.simps demo_executor_def demo_rpc_def default_settings_def)
  have "\<exists>x w'. prepare (\<lambda>_. []) ?ex [] [] None [] demo_start = (Inr x, w')"
    by (simp add: prepare_def with_compute_budget_def demo_executor_def demo_rpc_def demo_solders_def
        default_settings_def coerce_blockhash_def jget_def build_signed_b64_def simulate_step_def
        catching_def andthen_def simulation_logs_of_def py_or_def Let_def)
  then obtain x w' where "prepare (\<lambda>_. []) ?ex [] [] None [] demo_start = (Inr x, w')" by blast
  then obtain res w2 where s: "send (\<lambda>_. []) ?ex [] [] None [] (0, demo_start) = Some (Inr res, 1, w2)"
    and "tr_slot res = Some 9"
    using a b by (cases x) (auto simp: send_def)
  moreover have "solana_commitment (ex_settings ?ex) = ''confirmed''"
    by (simp add: demo_executor_def default_settings_def)
  ultimately show ?thesis using send_result_is_confirmed [OF s] by auto
qed

end
