(* ===== verification/Store.thy ===== *)
theory Store
  imports Effects "HOL-Library.Multiset"
begin

text \<open>
  \<open>backend/app/database.py\<close> and the database as the services see it. MongoDB is
  outside the repository: its driver calls are the fields of a record over the
  world, and the locale \<open>mongo\<close> states the documented behaviour the services rely
  on, with the unique indexes that \<open>ensure_indexes\<close> creates. A store of lists is
  an interpretation.
\<close>

section \<open>Indexes\<close>

text \<open>The collections and keys \<open>ensure_indexes\<close> makes unique, and its expiry times.\<close>

definition unique_keys :: "string \<Rightarrow> string list" where
  "unique_keys coll =
     (if coll = ''commitments'' then [''commitment'', ''merkle_index'']
      else if coll = ''withdrawals'' then [''nullifier_hash'']
      else if coll = ''relayers'' then [''relayer_id'', ''pubkey'']
      else if coll = ''merkle_roots'' then [''root'']
      else if coll = ''creators'' then [''wallet'']
      else if coll = ''tokens'' then [''mint'']
      else if coll = ''idempotency_keys'' then [''key'']
      else [])"

definition expire_after_seconds :: "string \<Rightarrow> (string \<times> int) option" where
  "expire_after_seconds coll =
     (if coll = ''risk_scans'' then Some (''scanned_at'', 60 * 60 * 24 * 30)
      else if coll = ''idempotency_keys'' then Some (''created_at'', 60 * 60 * 24)
      else None)"

section \<open>The driver calls\<close>

text \<open>
  The first argument is the collection. A filter is a predicate on documents, an
  update a function; \<open>find_many\<close> sorts by a key, ascending for 1 and descending for
  -1, and returns at most the given number of documents.
\<close>

type_synonym doc = dict

record 'w mongo =
  find_one :: "string \<Rightarrow> (doc \<Rightarrow> bool) \<Rightarrow> (doc option, 'w) io"
  insert_one :: "string \<Rightarrow> doc \<Rightarrow> (unit, 'w) io"
  update_one :: "string \<Rightarrow> (doc \<Rightarrow> bool) \<Rightarrow> (doc \<Rightarrow> doc) \<Rightarrow> doc option \<Rightarrow> (unit, 'w) io"
  count_documents :: "string \<Rightarrow> (nat, 'w) io"
  find_many :: "string \<Rightarrow> (doc \<Rightarrow> bool) \<Rightarrow> string \<Rightarrow> int \<Rightarrow> nat \<Rightarrow> (doc list, 'w) io"
  find_all :: "string \<Rightarrow> (doc \<Rightarrow> bool) \<Rightarrow> (doc list, 'w) io"

definition field_is :: "string \<Rightarrow> json \<Rightarrow> doc \<Rightarrow> bool" where
  "field_is k v d \<longleftrightarrow> jget d k = v"

text \<open>\<open>{**d, k: v}\<close>: the value of a key replaced in place, or appended.\<close>

fun set_field :: "string \<Rightarrow> json \<Rightarrow> doc \<Rightarrow> doc" where
  "set_field k v [] = [(k, v)]"
| "set_field k v ((a, b) # d) = (if a = k then (k, v) # d else (a, b) # set_field k v d)"

definition set_fields :: "doc \<Rightarrow> doc \<Rightarrow> doc" where
  "set_fields new d = fold (\<lambda>(k, v). set_field k v) new d"

definition del_field :: "string \<Rightarrow> doc \<Rightarrow> doc" where
  "del_field k d = filter (\<lambda>(a, b). a \<noteq> k) d"

definition strip_id :: "doc \<Rightarrow> doc" where
  "strip_id d = del_field ''_id'' d"

text \<open>\<open>d.get(k, v)\<close>.\<close>

definition jget_or :: "doc \<Rightarrow> string \<Rightarrow> json \<Rightarrow> json" where
  "jget_or d k v = (case map_of d k of Some x \<Rightarrow> x | None \<Rightarrow> v)"

lemma map_of_set_field: "map_of (set_field k v d) a = (if a = k then Some v else map_of d a)"
  by (induction d) auto

lemma jget_set_field [simp]: "jget (set_field k v d) a = (if a = k then v else jget d a)"
  by (simp add: jget_def map_of_set_field)

lemma map_of_strip_id: "map_of (strip_id d) a = (if a = ''_id'' then None else map_of d a)"
  by (induction d) (auto simp: strip_id_def del_field_def)

text \<open>\<open>DuplicateKeyError\<close> is raised by the driver, and by nothing else.\<close>

definition is_duplicate :: "exn \<Rightarrow> bool" where
  "is_duplicate e = (case e of Other t m \<Rightarrow> t = ''DuplicateKeyError'' | Domain _ _ _ \<Rightarrow> False)"

definition clashes :: "string \<Rightarrow> doc \<Rightarrow> doc \<Rightarrow> bool" where
  "clashes coll d e \<longleftrightarrow> (\<exists>k \<in> set (unique_keys coll). jget d k = jget e k)"

definition sorted_by :: "(json \<Rightarrow> json \<Rightarrow> bool) \<Rightarrow> string \<Rightarrow> int \<Rightarrow> doc list \<Rightarrow> bool" where
  "sorted_by le k dir ds \<longleftrightarrow>
     sorted_wrt (\<lambda>a b. if dir = 1 then le (jget a k) (jget b k) else le (jget b k) (jget a k)) ds"

section \<open>The contract\<close>

text \<open>
  \<open>docs w c\<close> is what collection \<open>c\<close> holds; \<open>le\<close> is the database's order of
  values. Reads change nothing. A write that raised may or may not have been
  applied, but after a \<open>DuplicateKeyError\<close> it was not. A new document is added at
  the end of the abstract list. Documents are seen without the \<open>_id\<close> that the driver adds, and
  none expires within a call.
\<close>

locale mongo =
  fixes db :: "'w mongo" and docs :: "'w \<Rightarrow> string \<Rightarrow> doc list" and le :: "json \<Rightarrow> json \<Rightarrow> bool"
  assumes find_one_law: "find_one db c P w = (Inr r, w') \<Longrightarrow>
      docs w' = docs w \<and> (case r of None \<Rightarrow> \<forall>d \<in> set (docs w c). \<not> P d
                             | Some d \<Rightarrow> d \<in> set (docs w c) \<and> P d)"
    and insert_law: "insert_one db c d w = (Inr u, w') \<Longrightarrow>
      docs w' = (docs w)(c := docs w c @ [d]) \<and> (\<forall>e \<in> set (docs w c). \<not> clashes c d e)"
    and insert_duplicate: "insert_one db c d w = (Inl e, w') \<Longrightarrow> is_duplicate e \<Longrightarrow>
      docs w' = docs w \<and> (\<exists>f \<in> set (docs w c). clashes c d f)"
    and insert_failed: "insert_one db c d w = (Inl e, w') \<Longrightarrow>
      docs w' = docs w \<or>
      (docs w' = (docs w)(c := docs w c @ [d]) \<and> (\<forall>f \<in> set (docs w c). \<not> clashes c d f))"
    and update_frame: "update_one db c P f up w = (r1, w') \<Longrightarrow> c' \<noteq> c \<Longrightarrow> docs w' c' = docs w c'"
    and find_one_reads: "find_one db c P w = (r2, w') \<Longrightarrow> docs w' = docs w"
    and find_many_reads: "find_many db c P k dir n w = (r3, w') \<Longrightarrow> docs w' = docs w"
    and find_all_reads: "find_all db c P w = (r4, w') \<Longrightarrow> docs w' = docs w"
    and count_reads: "count_documents db c w = (r5, w') \<Longrightarrow> docs w' = docs w"
    and update_law: "update_one db c P f up w = (Inr u, w') \<Longrightarrow>
      (\<exists>xs d ys. docs w c = xs @ d # ys \<and> P d \<and> docs w' = (docs w)(c := xs @ f d # ys))
      \<or> ((\<forall>d \<in> set (docs w c). \<not> P d) \<and>
          docs w' = (case up of None \<Rightarrow> docs w | Some d \<Rightarrow> (docs w)(c := docs w c @ [d])))"
    and count_law: "count_documents db c w = (Inr n, w') \<Longrightarrow> docs w' = docs w \<and> n = length (docs w c)"
    and find_many_law: "find_many db c P k dir n w = (Inr ds, w') \<Longrightarrow> 0 < n \<Longrightarrow>
      docs w' = docs w \<and>
      (\<exists>all. mset all = mset (filter P (docs w c)) \<and> sorted_by le k dir all \<and> ds = take n all)"
    and find_all_law: "find_all db c P w = (Inr ds, w') \<Longrightarrow>
      docs w' = docs w \<and> mset ds = mset (filter P (docs w c))"
    and le_total: "le va vb \<or> le vb va" and le_trans: "le va vb \<Longrightarrow> le vb vc \<Longrightarrow> le va vc"
    and le_int: "le (JInt i) (JInt j) \<longleftrightarrow> i \<le> j" and le_float: "le (JFloat x) (JFloat y) \<longleftrightarrow> x \<le> y"
    and le_date: "le (JDate s) (JDate t) \<longleftrightarrow> s \<le> t"
begin

lemma find_many_bound: "find_many db c P k dir n w = (Inr ds, w') \<Longrightarrow> 0 < n \<Longrightarrow> length ds \<le> n"
  using find_many_law by fastforce

lemma find_many_sub:
  assumes "find_many db c P k dir n w = (Inr ds, w')" "0 < n" "d \<in> set ds"
  shows "d \<in> set (docs w c) \<and> P d"
proof -
  from find_many_law [OF assms(1,2)] obtain all where
    a: "mset all = mset (filter P (docs w c))" "ds = take n all" by blast
  have "set all = set (filter P (docs w c))" using a(1) by (metis set_mset_mset)
  with assms(3) a(2) show ?thesis by (auto dest: in_set_takeD)
qed

lemma find_many_sorted:
  "find_many db c P k dir n w = (Inr ds, w') \<Longrightarrow> 0 < n \<Longrightarrow> sorted_by le k dir ds"
  using find_many_law [of c P k dir n w ds w'] unfolding sorted_by_def by (auto simp only: intro: sorted_wrt_take)

text \<open>Nothing the query leaves out precedes what it returns.\<close>

lemma find_many_best:
  assumes "find_many db c P k dir n w = (Inr ds, w')" "0 < n" "d \<in> set (docs w c)" "P d"
  shows "d \<in> set ds \<or> (ds \<noteq> [] \<and>
           (\<forall>e \<in> set ds. if dir = 1 then le (jget e k) (jget d k) else le (jget d k) (jget e k)))"
proof -
  from find_many_law [OF assms(1,2)] obtain all where
    a: "mset all = mset (filter P (docs w c))" "sorted_by le k dir all" "ds = take n all" by blast
  have "d \<in> set all" using a(1) assms(3,4) by (metis (mono_tags, lifting) filter_is_subset mem_Collect_eq set_filter set_mset_mset)
  then consider "d \<in> set ds" | "d \<in> set (drop n all)"
    using a(3) by (metis Un_iff append_take_drop_id set_append)
  then show ?thesis
  proof cases
    case 2
    have "sorted_wrt (\<lambda>a b. if dir = 1 then le (jget a k) (jget b k) else le (jget b k) (jget a k)) (ds @ drop n all)"
      using a(2,3) by (simp add: sorted_by_def)
    then have "\<forall>e \<in> set ds. if dir = 1 then le (jget e k) (jget d k) else le (jget d k) (jget e k)"
      using 2 by (simp add: sorted_wrt_append)
    moreover have "ds \<noteq> []" using a(3) 2 assms(2) by auto
    ultimately show ?thesis by blast
  qed simp
qed

end

section \<open>A store of lists\<close>

type_synonym store = "string \<Rightarrow> doc list"

text \<open>An order of values: numbers and dates by value, everything else equal to 0.\<close>

definition json_ord :: "json \<Rightarrow> rat" where
  "json_ord j = (case j of JInt i \<Rightarrow> of_int i | JFloat r \<Rightarrow> r | JDate t \<Rightarrow> of_int t | _ \<Rightarrow> 0)"

definition json_le :: "json \<Rightarrow> json \<Rightarrow> bool" where
  "json_le a b \<longleftrightarrow> json_ord a \<le> json_ord b"

definition ls_insert :: "string \<Rightarrow> doc \<Rightarrow> (unit, store) io" where
  "ls_insert c d s =
     (if \<exists>e \<in> set (s c). clashes c d e then (Inl (Other ''DuplicateKeyError'' c), s)
      else (Inr (), s(c := s c @ [d])))"

fun update_first :: "(doc \<Rightarrow> bool) \<Rightarrow> (doc \<Rightarrow> doc) \<Rightarrow> doc list \<Rightarrow> doc list option" where
  "update_first P f [] = None"
| "update_first P f (d # ds) =
     (if P d then Some (f d # ds) else map_option ((#) d) (update_first P f ds))"

definition ls_update :: "string \<Rightarrow> (doc \<Rightarrow> bool) \<Rightarrow> (doc \<Rightarrow> doc) \<Rightarrow> doc option \<Rightarrow> (unit, store) io" where
  "ls_update c P f up s =
     (case update_first P f (s c) of
        Some ds \<Rightarrow> (Inr (), s(c := ds))
      | None \<Rightarrow> (case up of None \<Rightarrow> (Inr (), s) | Some d \<Rightarrow> (Inr (), s(c := s c @ [d]))))"

definition ls_sort :: "string \<Rightarrow> int \<Rightarrow> doc list \<Rightarrow> doc list" where
  "ls_sort k dir ds =
     sort_key (\<lambda>d. if dir = 1 then json_ord (jget d k) else - json_ord (jget d k)) ds"

definition list_store :: "store mongo" where
  "list_store = \<lparr>find_one = (\<lambda>c P s. (Inr (List.find P (s c)), s)),
     insert_one = ls_insert, update_one = ls_update,
     count_documents = (\<lambda>c s. (Inr (length (s c)), s)),
     find_many = (\<lambda>c P k dir n s. (Inr (take n (ls_sort k dir (filter P (s c)))), s)),
     find_all = (\<lambda>c P s. (Inr (filter P (s c)), s))\<rparr>"

lemma update_first_Some:
  "update_first P f ds = Some es \<Longrightarrow> \<exists>xs d ys. ds = xs @ d # ys \<and> P d \<and> es = xs @ f d # ys"
proof (induction ds arbitrary: es)
  case (Cons d ds)
  show ?case
  proof (cases "P d")
    case True
    with Cons.prems show ?thesis by (metis append_Nil option.inject update_first.simps(2))
  next
    case False
    with Cons.prems obtain es' where "update_first P f ds = Some es'" "es = d # es'" by auto
    with Cons.IH show ?thesis by (metis append_Cons)
  qed
qed simp

lemma update_first_None: "update_first P f ds = None \<longleftrightarrow> (\<forall>d \<in> set ds. \<not> P d)"
  by (induction ds) auto

lemma ls_sort_sorted: "sorted_by json_le k dir (ls_sort k dir ds)"
proof -
  have "sorted (map (\<lambda>d. if dir = 1 then json_ord (jget d k) else - json_ord (jget d k)) (ls_sort k dir ds))"
    unfolding ls_sort_def by (rule sorted_sort_key)
  then show ?thesis by (cases "dir = 1") (simp_all add: sorted_by_def sorted_map json_le_def)
qed

interpretation lists: mongo list_store "\<lambda>s. s" json_le
proof (unfold_locales, goal_cases)
  case (1 c P w r w')
  then show ?case by (auto simp: list_store_def find_None_iff_all dest: find_SomeD split: option.splits)
next
  case (5 c P f up w r w' c')
  then show ?case by (auto simp: list_store_def ls_update_def split: option.splits)
next
  case (10 c P f up w u w')
  then show ?case
    by (auto simp: list_store_def ls_update_def update_first_None dest!: update_first_Some split: option.splits)
next
  case (12 c P k dir n w ds w')
  then have "ds = take n (ls_sort k dir (filter P (w c)))" "w' = w" by (auto simp: list_store_def)
  moreover have "mset (ls_sort k dir (filter P (w c))) = mset (filter P (w c))" by (simp add: ls_sort_def)
  ultimately show ?case using ls_sort_sorted by blast
qed (auto simp: list_store_def ls_insert_def json_le_def json_ord_def split: if_splits)

end
