(* ===== verification/Models.thy ===== *)
theory Models
  imports Store
begin

text \<open>
  The pydantic models of \<open>backend/app/models\<close> that the modelled services store:
  commitment, withdrawal with its relay request, relayer and Merkle root. A model
  is a record; \<open>*_to_doc\<close> is \<open>model_dump()\<close> and \<open>*_of_doc\<close> the constructor on the
  fields of a document, with the constraints the class declares. How pydantic
  converts a single value is a parameter.
\<close>

named_theorems model_simps \<open>evaluation of model constructors\<close>

section \<open>Fields\<close>

record pydantic =
  to_str :: "json \<Rightarrow> string option"
  to_int :: "json \<Rightarrow> int option"
  to_float :: "json \<Rightarrow> rat option"
  to_date :: "json \<Rightarrow> int option"
  iso_parse :: "string \<Rightarrow> int option"

definition validation_error :: exn where
  "validation_error = Other ''ValidationError'' ''validation error''"

definition field_req :: "(json \<Rightarrow> 'a option) \<Rightarrow> doc \<Rightarrow> string \<Rightarrow> 'a res" where
  "field_req conv d k =
     (case map_of d k of None \<Rightarrow> Inl validation_error
      | Some v \<Rightarrow> (case conv v of None \<Rightarrow> Inl validation_error | Some x \<Rightarrow> Inr x))"

definition field_dflt :: "(json \<Rightarrow> 'a option) \<Rightarrow> 'a \<Rightarrow> doc \<Rightarrow> string \<Rightarrow> 'a res" where
  "field_dflt conv dflt d k =
     (case map_of d k of None \<Rightarrow> Inr dflt
      | Some v \<Rightarrow> (case conv v of None \<Rightarrow> Inl validation_error | Some x \<Rightarrow> Inr x))"

definition nullable :: "(json \<Rightarrow> 'a option) \<Rightarrow> json \<Rightarrow> 'a option option" where
  "nullable conv v = (if v = JNull then Some None else map_option Some (conv v))"

definition ranged :: "int \<Rightarrow> int option \<Rightarrow> (json \<Rightarrow> int option) \<Rightarrow> json \<Rightarrow> int option" where
  "ranged lo hi conv v =
     (case conv v of None \<Rightarrow> None
      | Some i \<Rightarrow> if lo \<le> i \<and> (case hi of None \<Rightarrow> True | Some h \<Rightarrow> i \<le> h) then Some i else None)"

definition ranged_rat :: "rat \<Rightarrow> rat \<Rightarrow> (json \<Rightarrow> rat option) \<Rightarrow> json \<Rightarrow> rat option" where
  "ranged_rat lo hi conv v =
     (case conv v of None \<Rightarrow> None | Some i \<Rightarrow> if lo \<le> i \<and> i \<le> hi then Some i else None)"

definition json_opt :: "('a \<Rightarrow> json) \<Rightarrow> 'a option \<Rightarrow> json" where
  "json_opt f x = (case x of None \<Rightarrow> JNull | Some y \<Rightarrow> f y)"

text \<open>
  \<open>if isinstance(clean.get(key), str): clean[key] = datetime.fromisoformat(...)\<close>,
  which raises \<open>ValueError\<close> on malformed text.
\<close>

definition parse_date_field :: "pydantic \<Rightarrow> string \<Rightarrow> doc \<Rightarrow> doc res" where
  "parse_date_field py key d =
     (case jget d key of
        JStr s \<Rightarrow> (case iso_parse py s of
                     Some t \<Rightarrow> Inr (set_field key (JDate t) d)
                   | None \<Rightarrow> Inl (Other ''ValueError'' ''Invalid isoformat string''))
      | _ \<Rightarrow> Inr d)"

section \<open>Commitment\<close>

record commitment =
  c_id :: string
  c_commitment :: string
  c_merkle_index :: int
  c_amount :: int
  c_token :: string
  c_tx_signature :: string
  c_creator_wallet :: "string option"
  c_created_at :: int

definition commitment_ok :: "commitment \<Rightarrow> bool" where
  "commitment_ok c \<longleftrightarrow> 0 \<le> c_merkle_index c \<and> 0 \<le> c_amount c"

definition commitment_to_doc :: "commitment \<Rightarrow> doc" where
  "commitment_to_doc c =
     [(''id'', JStr (c_id c)), (''commitment'', JStr (c_commitment c)),
      (''merkle_index'', JInt (c_merkle_index c)), (''amount'', JInt (c_amount c)),
      (''token'', JStr (c_token c)), (''tx_signature'', JStr (c_tx_signature c)),
      (''creator_wallet'', json_opt JStr (c_creator_wallet c)),
      (''created_at'', JDate (c_created_at c))]"

text \<open>\<open>uid\<close> and \<open>now\<close> are what the default factories would return.\<close>

definition commitment_of_doc :: "pydantic \<Rightarrow> string \<Rightarrow> int \<Rightarrow> doc \<Rightarrow> commitment res" where
  "commitment_of_doc py uid now d =
     rbind (field_dflt (to_str py) uid d ''id'') (\<lambda>a.
     rbind (field_req (to_str py) d ''commitment'') (\<lambda>b.
     rbind (field_req (ranged 0 None (to_int py)) d ''merkle_index'') (\<lambda>c.
     rbind (field_req (ranged 0 None (to_int py)) d ''amount'') (\<lambda>e.
     rbind (field_req (to_str py) d ''token'') (\<lambda>f.
     rbind (field_req (to_str py) d ''tx_signature'') (\<lambda>g.
     rbind (field_dflt (nullable (to_str py)) None d ''creator_wallet'') (\<lambda>h.
     rbind (field_dflt (to_date py) now d ''created_at'') (\<lambda>i.
     Inr \<lparr>c_id = a, c_commitment = b, c_merkle_index = c, c_amount = e, c_token = f,
          c_tx_signature = g, c_creator_wallet = h, c_created_at = i\<rparr>))))))))"

text \<open>\<open>CommitmentCreate\<close>, the request body: lengths and sign are checked before the route runs.\<close>

record commitment_create =
  cc_commitment :: string
  cc_amount :: int
  cc_token :: string
  cc_tx_signature :: string
  cc_creator_wallet :: "string option"

definition commitment_create_ok :: "commitment_create \<Rightarrow> bool" where
  "commitment_create_ok p \<longleftrightarrow> cc_commitment p \<noteq> [] \<and> 0 \<le> cc_amount p \<and> cc_token p \<noteq> []
     \<and> cc_tx_signature p \<noteq> []"

section \<open>Withdrawal\<close>

record public_inputs =
  pi_root :: string
  pi_nullifier_hash :: string
  pi_recipient :: string
  pi_amount :: int
  pi_token :: string

record relay_request =
  rq_proof :: string
  rq_public_inputs :: public_inputs

definition relay_request_ok :: "relay_request \<Rightarrow> bool" where
  "relay_request_ok q \<longleftrightarrow> 0 \<le> pi_amount (rq_public_inputs q)"

record withdrawal =
  w_id :: string
  w_nullifier_hash :: string
  w_recipient :: string
  w_amount :: int
  w_token :: string
  w_relayer_id :: string
  w_tx_signature :: string
  w_created_at :: int

definition withdrawal_to_doc :: "withdrawal \<Rightarrow> doc" where
  "withdrawal_to_doc r =
     [(''id'', JStr (w_id r)), (''nullifier_hash'', JStr (w_nullifier_hash r)),
      (''recipient'', JStr (w_recipient r)), (''amount'', JInt (w_amount r)),
      (''token'', JStr (w_token r)), (''relayer_id'', JStr (w_relayer_id r)),
      (''tx_signature'', JStr (w_tx_signature r)), (''created_at'', JDate (w_created_at r))]"

section \<open>Relayer\<close>

record relayer =
  r_id :: string
  r_relayer_id :: string
  r_name :: string
  r_operator :: string
  r_pubkey :: string
  r_region :: string
  r_fee_bps :: int
  r_ping_ms :: int
  r_uptime_pct :: rat
  r_jobs_24h :: int
  r_volume_24h_lamports :: int
  r_last_seen :: "int option"
  r_registered_at :: int

definition relayer_ok :: "relayer \<Rightarrow> bool" where
  "relayer_ok r \<longleftrightarrow> 0 \<le> r_fee_bps r \<and> r_fee_bps r \<le> 10000 \<and> 0 \<le> r_ping_ms r
     \<and> 0 \<le> r_uptime_pct r \<and> r_uptime_pct r \<le> 100 \<and> 0 \<le> r_jobs_24h r
     \<and> 0 \<le> r_volume_24h_lamports r"

definition relayer_to_doc :: "relayer \<Rightarrow> doc" where
  "relayer_to_doc r =
     [(''id'', JStr (r_id r)), (''relayer_id'', JStr (r_relayer_id r)), (''name'', JStr (r_name r)),
      (''operator'', JStr (r_operator r)), (''pubkey'', JStr (r_pubkey r)),
      (''region'', JStr (r_region r)), (''fee_bps'', JInt (r_fee_bps r)),
      (''ping_ms'', JInt (r_ping_ms r)), (''uptime_pct'', JFloat (r_uptime_pct r)),
      (''jobs_24h'', JInt (r_jobs_24h r)),
      (''volume_24h_lamports'', JInt (r_volume_24h_lamports r)),
      (''last_seen'', json_opt JDate (r_last_seen r)),
      (''registered_at'', JDate (r_registered_at r))]"

definition relayer_of_doc :: "pydantic \<Rightarrow> string \<Rightarrow> int \<Rightarrow> doc \<Rightarrow> relayer res" where
  "relayer_of_doc py uid now d =
     rbind (field_dflt (to_str py) uid d ''id'') (\<lambda>a.
     rbind (field_req (to_str py) d ''relayer_id'') (\<lambda>b.
     rbind (field_req (to_str py) d ''name'') (\<lambda>c.
     rbind (field_req (to_str py) d ''operator'') (\<lambda>e.
     rbind (field_req (to_str py) d ''pubkey'') (\<lambda>f.
     rbind (field_req (to_str py) d ''region'') (\<lambda>g.
     rbind (field_req (ranged 0 (Some 10000) (to_int py)) d ''fee_bps'') (\<lambda>h.
     rbind (field_req (ranged 0 None (to_int py)) d ''ping_ms'') (\<lambda>i.
     rbind (field_req (ranged_rat 0 100 (to_float py)) d ''uptime_pct'') (\<lambda>j.
     rbind (field_dflt (ranged 0 None (to_int py)) 0 d ''jobs_24h'') (\<lambda>k.
     rbind (field_dflt (ranged 0 None (to_int py)) 0 d ''volume_24h_lamports'') (\<lambda>l.
     rbind (field_dflt (nullable (to_date py)) None d ''last_seen'') (\<lambda>m.
     rbind (field_dflt (to_date py) now d ''registered_at'') (\<lambda>n.
     Inr \<lparr>r_id = a, r_relayer_id = b, r_name = c, r_operator = e, r_pubkey = f, r_region = g,
          r_fee_bps = h, r_ping_ms = i, r_uptime_pct = j, r_jobs_24h = k,
          r_volume_24h_lamports = l, r_last_seen = m, r_registered_at = n\<rparr>)))))))))))))"

section \<open>Merkle root\<close>

datatype root_source = Indexed | Fallback

definition source_str :: "root_source \<Rightarrow> string" where
  "source_str s = (case s of Indexed \<Rightarrow> ''indexed'' | Fallback \<Rightarrow> ''fallback'')"

definition to_source :: "json \<Rightarrow> root_source option" where
  "to_source j = (if j = JStr ''indexed'' then Some Indexed
     else if j = JStr ''fallback'' then Some Fallback else None)"

record merkle_root =
  m_root :: string
  m_commitment_count :: int
  m_block_height :: "int option"
  m_indexed_at :: int
  m_source :: root_source

definition merkle_root_ok :: "merkle_root \<Rightarrow> bool" where
  "merkle_root_ok m \<longleftrightarrow> 0 \<le> m_commitment_count m"

definition merkle_root_to_doc :: "merkle_root \<Rightarrow> doc" where
  "merkle_root_to_doc m =
     [(''root'', JStr (m_root m)), (''commitment_count'', JInt (m_commitment_count m)),
      (''block_height'', json_opt JInt (m_block_height m)),
      (''indexed_at'', JDate (m_indexed_at m)), (''source'', JStr (source_str (m_source m)))]"

definition merkle_root_of_doc :: "pydantic \<Rightarrow> int \<Rightarrow> doc \<Rightarrow> merkle_root res" where
  "merkle_root_of_doc py now d =
     rbind (field_req (to_str py) d ''root'') (\<lambda>a.
     rbind (field_req (ranged 0 None (to_int py)) d ''commitment_count'') (\<lambda>b.
     rbind (field_dflt (nullable (to_int py)) None d ''block_height'') (\<lambda>c.
     rbind (field_dflt (to_date py) now d ''indexed_at'') (\<lambda>e.
     rbind (field_dflt to_source Indexed d ''source'') (\<lambda>f.
     Inr \<lparr>m_root = a, m_commitment_count = b, m_block_height = c, m_indexed_at = e,
          m_source = f\<rparr>)))))"

section \<open>Value conversion\<close>

text \<open>What the models rely on: a value of the declared type is taken as it is.\<close>

locale pydantic_laws =
  fixes py :: pydantic
  assumes to_str_str [simp]: "to_str py (JStr s) = Some s"
    and to_int_int [simp]: "to_int py (JInt i) = Some i"
    and to_float_float [simp]: "to_float py (JFloat r) = Some r"
    and to_date_date [simp]: "to_date py (JDate t) = Some t"
begin

lemma nullable_str [simp]: "nullable (to_str py) (json_opt JStr x) = Some x"
  by (cases x) (simp_all add: nullable_def json_opt_def)

lemma nullable_date [simp]: "nullable (to_date py) (json_opt JDate x) = Some x"
  by (cases x) (simp_all add: nullable_def json_opt_def)

lemma nullable_int [simp]: "nullable (to_int py) (json_opt JInt x) = Some x"
  by (cases x) (simp_all add: nullable_def json_opt_def)

lemma commitment_roundtrip:
  "commitment_ok c \<Longrightarrow> commitment_of_doc py uid now (commitment_to_doc c) = Inr c"
  by (simp add: commitment_of_doc_def commitment_to_doc_def field_req_def field_dflt_def
      ranged_def commitment_ok_def)

lemma relayer_roundtrip:
  "relayer_ok r \<Longrightarrow> relayer_of_doc py uid now (relayer_to_doc r) = Inr r"
  by (simp add: relayer_of_doc_def relayer_to_doc_def field_req_def field_dflt_def
      ranged_def ranged_rat_def relayer_ok_def)

lemma merkle_root_roundtrip:
  "merkle_root_ok m \<Longrightarrow> merkle_root_of_doc py now (merkle_root_to_doc m) = Inr m"
  by (cases "m_source m") (simp_all add: merkle_root_of_doc_def merkle_root_to_doc_def field_req_def
      field_dflt_def ranged_def merkle_root_ok_def source_str_def to_source_def)

end

text \<open>Conversion without coercions.\<close>

definition strict_pydantic :: pydantic where
  "strict_pydantic = \<lparr>to_str = (\<lambda>j. case j of JStr s \<Rightarrow> Some s | _ \<Rightarrow> None),
     to_int = (\<lambda>j. case j of JInt i \<Rightarrow> Some i | _ \<Rightarrow> None),
     to_float = (\<lambda>j. case j of JFloat r \<Rightarrow> Some r | JInt i \<Rightarrow> Some (of_int i) | _ \<Rightarrow> None),
     to_date = (\<lambda>j. case j of JDate t \<Rightarrow> Some t | _ \<Rightarrow> None),
     iso_parse = (\<lambda>s. None)\<rparr>"

interpretation strict: pydantic_laws strict_pydantic
  by unfold_locales (simp_all add: strict_pydantic_def)

lemma parse_date_field_date [simp]: "jget d k = JDate t \<Longrightarrow> parse_date_field py k d = Inr d"
  "jget d k = JNull \<Longrightarrow> parse_date_field py k d = Inr d"
  by (simp_all add: parse_date_field_def)

lemma ranged_bounds: "ranged lo hi conv v = Some i \<Longrightarrow> lo \<le> i \<and> (\<forall>h. hi = Some h \<longrightarrow> i \<le> h)"
  by (auto simp: ranged_def split: option.splits if_splits)

lemma ranged_rat_bounds: "ranged_rat lo hi conv v = Some i \<Longrightarrow> lo \<le> i \<and> i \<le> hi"
  by (auto simp: ranged_rat_def split: option.splits if_splits)

lemma field_req_bounds:
  "field_req (ranged lo hi conv) d k = Inr i \<Longrightarrow> lo \<le> i \<and> (\<forall>h. hi = Some h \<longrightarrow> i \<le> h)"
  by (auto simp: field_req_def dest: ranged_bounds split: option.splits)

lemma field_req_rat_bounds: "field_req (ranged_rat lo hi conv) d k = Inr i \<Longrightarrow> lo \<le> i \<and> i \<le> hi"
  by (auto simp: field_req_def dest: ranged_rat_bounds split: option.splits)

lemma field_dflt_bounds: "field_dflt (ranged 0 hi conv) 0 d k = Inr i \<Longrightarrow> (0::int) \<le> i"
  by (auto simp: field_dflt_def dest: ranged_bounds split: option.splits)

lemma relayer_of_doc_ok: "relayer_of_doc py uid now d = Inr r \<Longrightarrow> relayer_ok r"
  unfolding relayer_of_doc_def rbind_Inr_iff relayer_ok_def
  by (elim exE conjE, drule field_req_bounds, drule field_req_bounds, drule field_req_rat_bounds,
      drule field_dflt_bounds, drule field_dflt_bounds) auto

lemma commitment_of_doc_ok: "commitment_of_doc py uid now d = Inr c \<Longrightarrow> commitment_ok c"
  unfolding commitment_of_doc_def rbind_Inr_iff commitment_ok_def
  by (elim exE conjE, drule field_req_bounds, drule field_req_bounds) auto

lemma merkle_root_of_doc_ok: "merkle_root_of_doc py now d = Inr m \<Longrightarrow> merkle_root_ok m"
  unfolding merkle_root_of_doc_def rbind_Inr_iff merkle_root_ok_def
  by (elim exE conjE, drule field_req_bounds) auto

section \<open>Properties\<close>

text \<open>Documents round-trip. A commitment, relayer or Merkle root that satisfies its class's
  constraints is rebuilt unchanged from the document it was stored as, and whatever document a model is
  built from - written by this program or not - the result satisfies the constraints.\<close>

theorem models_roundtrip:
  assumes "pydantic_laws py"
  shows "(\<forall>c. commitment_ok c \<longleftrightarrow> commitment_of_doc py uid now (commitment_to_doc c) = Inr c)
       \<and> (\<forall>r. relayer_ok r \<longleftrightarrow> relayer_of_doc py uid now (relayer_to_doc r) = Inr r)
       \<and> (\<forall>m. merkle_root_ok m \<longleftrightarrow> merkle_root_of_doc py now (merkle_root_to_doc m) = Inr m)
       \<and> (\<forall>d c. commitment_of_doc py uid now d = Inr c \<longrightarrow> commitment_ok c)
       \<and> (\<forall>d r. relayer_of_doc py uid now d = Inr r \<longrightarrow> relayer_ok r)"
  by (intro conjI allI impI iffI)
     (erule pydantic_laws.commitment_roundtrip [OF assms] pydantic_laws.relayer_roundtrip [OF assms]
        pydantic_laws.merkle_root_roundtrip [OF assms] relayer_of_doc_ok commitment_of_doc_ok
        merkle_root_of_doc_ok)+

theorem models_roundtrip_witness:
  "\<exists>r. relayer_of_doc strict_pydantic [] 0 (relayer_to_doc r) = Inr r \<and> r_fee_bps r = 15"
proof -
  define r where "r = \<lparr>r_id = ''u'', r_relayer_id = ''n1'', r_name = ''N'', r_operator = ''op'', r_pubkey = ''pk'',
     r_region = ''US'', r_fee_bps = 15, r_ping_ms = 40, r_uptime_pct = 99, r_jobs_24h = 0,
     r_volume_24h_lamports = 0, r_last_seen = None, r_registered_at = 7\<rparr>"
  have "relayer_ok r" "r_fee_bps r = 15" by (simp_all add: r_def relayer_ok_def)
  with models_roundtrip [OF strict.pydantic_laws_axioms, of "[]" 0] show ?thesis by blast
qed

end
