(* ===== verification/Relayers.thy ===== *)
theory Relayers
  imports Models
begin

text \<open>
  \<open>backend/app/services/relayer_service.py\<close>: the relayer registry. The database
  is a parameter; \<open>uid\<close> and \<open>now\<close> stand for what \<open>uuid4()\<close> and \<open>datetime.now\<close>
  return during the call. Times are in microseconds.
\<close>

section \<open>Documents\<close>

definition SORT_FIELDS :: "(string \<times> string \<times> int) list" where
  "SORT_FIELDS = [(''uptime'', ''uptime_pct'', -1), (''fee'', ''fee_bps'', 1),
     (''ping'', ''ping_ms'', 1), (''jobs'', ''jobs_24h'', -1)]"

definition relayer_from_doc :: "pydantic \<Rightarrow> string \<Rightarrow> int \<Rightarrow> doc \<Rightarrow> relayer res" where
  "relayer_from_doc py uid now d =
     rbind (parse_date_field py ''registered_at'' (strip_id d)) (\<lambda>d1.
     rbind (parse_date_field py ''last_seen'' d1) (\<lambda>d2.
     relayer_of_doc py uid now d2))"

section \<open>Registry mutations\<close>

text \<open>\<open>doc[k] = existing.get(k, doc[k])\<close>.\<close>

definition keep_field :: "doc \<Rightarrow> string \<Rightarrow> doc \<Rightarrow> doc" where
  "keep_field existing k d =
     (case map_of existing k of Some v \<Rightarrow> set_field k v d | None \<Rightarrow> d)"

definition upsert_doc :: "relayer \<Rightarrow> doc option \<Rightarrow> doc" where
  "upsert_doc r existing =
     (case existing of
        None \<Rightarrow> relayer_to_doc r
      | Some e \<Rightarrow> if e = [] then relayer_to_doc r
                  else keep_field e ''registered_at'' (keep_field e ''id'' (relayer_to_doc r)))"

definition relayer_upsert :: "pydantic \<Rightarrow> 'w mongo \<Rightarrow> string \<Rightarrow> int \<Rightarrow> relayer \<Rightarrow> (relayer, 'w) io" where
  "relayer_upsert py db uid now r =
     andthen (find_one db ''relayers'' (field_is ''relayer_id'' (JStr (r_relayer_id r)))) (\<lambda>existing.
       let d = upsert_doc r existing in
       andthen (update_one db ''relayers'' (field_is ''relayer_id'' (JStr (r_relayer_id r)))
                  (set_fields d) (Some d)) (\<lambda>_.
       pure (relayer_from_doc py uid now d)))"

section \<open>Lookups\<close>

fun all_res :: "('a \<Rightarrow> 'b res) \<Rightarrow> 'a list \<Rightarrow> 'b list res" where
  "all_res f [] = Inr []"
| "all_res f (x # xs) = rbind (f x) (\<lambda>y. rbind (all_res f xs) (\<lambda>ys. Inr (y # ys)))"

definition sort_field :: "string \<Rightarrow> string \<times> int" where
  "sort_field srt = (case map_of SORT_FIELDS srt of Some fd \<Rightarrow> fd | None \<Rightarrow> (''uptime_pct'', -1))"

definition list_active ::
  "pydantic \<Rightarrow> 'w mongo \<Rightarrow> string \<Rightarrow> int \<Rightarrow> string \<Rightarrow> nat \<Rightarrow> (relayer list, 'w) io" where
  "list_active py db uid now srt limit =
     (let (field, direction) = sort_field srt in
      andthen (find_many db ''relayers'' (\<lambda>_. True) field direction limit) (\<lambda>ds.
      pure (all_res (relayer_from_doc py uid now) ds)))"

definition relayer_get ::
  "pydantic \<Rightarrow> 'w mongo \<Rightarrow> string \<Rightarrow> int \<Rightarrow> string \<Rightarrow> (relayer option, 'w) io" where
  "relayer_get py db uid now relayer_id =
     andthen (find_one db ''relayers'' (field_is ''relayer_id'' (JStr relayer_id))) (\<lambda>d.
       case d of
         None \<Rightarrow> ret None
       | Some doc \<Rightarrow> if doc = [] then ret None
                     else pure (rbind (relayer_from_doc py uid now doc) (\<lambda>r. Inr (Some r))))"

text \<open>
  The aggregation \<open>$match\<close> then \<open>$group\<close> with \<open>$sum\<close> and \<open>$max\<close>: one entry when
  some withdrawal of the relayer is at most 24 hours old, else none. It is
  evaluated by the database; what the pipeline asks for is written out here on
  the documents that match.
\<close>

definition day_us :: int where "day_us = 24 * 60 * 60 * 1000000"

definition in_window :: "string \<Rightarrow> int \<Rightarrow> doc \<Rightarrow> bool" where
  "in_window relayer_id now d \<longleftrightarrow>
     jget d ''relayer_id'' = JStr relayer_id \<and>
     (case jget d ''created_at'' of JDate t \<Rightarrow> now - day_us \<le> t | _ \<Rightarrow> False)"

definition sum_amounts :: "doc list \<Rightarrow> int" where
  "sum_amounts ds =
     sum_list (map (\<lambda>d. case jget d ''amount'' of JInt i \<Rightarrow> i | _ \<Rightarrow> 0) ds)"

definition max_created :: "doc list \<Rightarrow> int" where
  "max_created ds = Max (set (map (\<lambda>d. case jget d ''created_at'' of JDate t \<Rightarrow> t | _ \<Rightarrow> 0) ds))"

record relayer_stats =
  st_relayer_id :: string
  st_jobs_24h :: int
  st_volume_24h :: int
  st_last_seen :: "int option"
  st_uptime_pct :: rat
  st_ping_ms_avg :: int

text \<open>\<open>matching now\<close> is the driver's answer to the \<open>$match\<close> stage.\<close>

definition relayer_stats_for ::
  "pydantic \<Rightarrow> 'w mongo \<Rightarrow> (string \<Rightarrow> int \<Rightarrow> (doc list, 'w) io) \<Rightarrow> string \<Rightarrow> int \<Rightarrow> string
     \<Rightarrow> (relayer_stats, 'w) io" where
  "relayer_stats_for py db matching uid now relayer_id =
     andthen (relayer_get py db uid now relayer_id) (\<lambda>found.
       case found of
         None \<Rightarrow> ret \<lparr>st_relayer_id = relayer_id, st_jobs_24h = 0, st_volume_24h = 0,
                      st_last_seen = None, st_uptime_pct = 0, st_ping_ms_avg = 0\<rparr>
       | Some r \<Rightarrow>
           andthen (matching relayer_id now) (\<lambda>ds.
             ret \<lparr>st_relayer_id = relayer_id, st_jobs_24h = int (length ds),
                  st_volume_24h = sum_amounts ds,
                  st_last_seen = (if ds = [] then r_last_seen r else Some (max_created ds)),
                  st_uptime_pct = r_uptime_pct r, st_ping_ms_avg = r_ping_ms r\<rparr>))"

definition pick_best :: "pydantic \<Rightarrow> 'w mongo \<Rightarrow> string \<Rightarrow> int \<Rightarrow> (relayer, 'w) io" where
  "pick_best py db uid now =
     andthen (list_active py db uid now ''uptime'' 1) (\<lambda>candidates.
       case candidates of
         [] \<Rightarrow> throw (Domain ServiceUnavailableError ''No relayers registered.''
                 [(''hint'', JStr ''Run scripts/seed_relayers.py to bootstrap.'')])
       | r # _ \<Rightarrow> ret r)"


section \<open>Lemmas\<close>

text \<open>A registry in which every document was written by this service.\<close>

definition registry_ok :: "doc list \<Rightarrow> bool" where
  "registry_ok ds \<longleftrightarrow> (\<forall>d \<in> set ds. \<exists>r. relayer_ok r \<and> d = relayer_to_doc r)"

lemma jget_relayer [simp, model_simps]:
  "jget (relayer_to_doc r) ''id'' = JStr (r_id r)"
  "jget (relayer_to_doc r) ''relayer_id'' = JStr (r_relayer_id r)"
  "jget (relayer_to_doc r) ''name'' = JStr (r_name r)"
  "jget (relayer_to_doc r) ''pubkey'' = JStr (r_pubkey r)"
  "jget (relayer_to_doc r) ''fee_bps'' = JInt (r_fee_bps r)"
  "jget (relayer_to_doc r) ''ping_ms'' = JInt (r_ping_ms r)"
  "jget (relayer_to_doc r) ''uptime_pct'' = JFloat (r_uptime_pct r)"
  "jget (relayer_to_doc r) ''jobs_24h'' = JInt (r_jobs_24h r)"
  "jget (relayer_to_doc r) ''last_seen'' = json_opt JDate (r_last_seen r)"
  "jget (relayer_to_doc r) ''registered_at'' = JDate (r_registered_at r)"
  by (simp_all add: relayer_to_doc_def jget_def)

lemma strip_id_relayer [simp]: "strip_id (relayer_to_doc r) = relayer_to_doc r"
  by (simp add: strip_id_def del_field_def relayer_to_doc_def)

lemma parse_date_relayer [simp]:
  "parse_date_field py ''registered_at'' (relayer_to_doc r) = Inr (relayer_to_doc r)"
  "parse_date_field py ''last_seen'' (relayer_to_doc r) = Inr (relayer_to_doc r)"
  by (simp, cases "r_last_seen r") (simp_all add: json_opt_def)

lemma relayer_from_doc_to_doc:
  "pydantic_laws py \<Longrightarrow> relayer_ok r \<Longrightarrow> relayer_from_doc py uid now (relayer_to_doc r) = Inr r"
  by (simp add: relayer_from_doc_def pydantic_laws.relayer_roundtrip)

text \<open>Updating one registered relayer with the fields of another.\<close>

definition keeping_identity :: "relayer \<Rightarrow> relayer \<Rightarrow> relayer" where
  "keeping_identity old r = r\<lparr>r_id := r_id old, r_registered_at := r_registered_at old\<rparr>"

lemma upsert_doc_existing:
  "upsert_doc r (Some (relayer_to_doc old)) = relayer_to_doc (keeping_identity old r)"
  by (simp add: upsert_doc_def keep_field_def relayer_to_doc_def keeping_identity_def)

lemma set_fields_relayer: "set_fields (relayer_to_doc r) (relayer_to_doc old) = relayer_to_doc r"
  by (simp add: set_fields_def relayer_to_doc_def)

lemma keeping_identity_ok [simp]: "relayer_ok (keeping_identity old r) = relayer_ok r"
  by (simp add: relayer_ok_def keeping_identity_def)

lemma all_res_Inr: "all_res f xs = Inr ys \<longleftrightarrow> list_all2 (\<lambda>x y. f x = Inr y) xs ys"
  by (induction xs arbitrary: ys) (auto simp: res_simps list_all2_Cons1)

lemma all_res_relayers:
  assumes "pydantic_laws py" "all_res (relayer_from_doc py uid now) ds = Inr rs" "registry_ok ds"
  shows "ds = map relayer_to_doc rs"
  using assms(2,3) unfolding all_res_Inr
proof (induction rule: list_all2_induct)
  case (Cons d ds r rs)
  then obtain r' where "relayer_ok r'" "d = relayer_to_doc r'" by (auto simp: registry_ok_def)
  with Cons relayer_from_doc_to_doc [OF assms(1)] show ?case by (auto simp: registry_ok_def)
qed simp

lemma list_active_docs:
  assumes "mongo db docs le" "pydantic_laws py" "registry_ok (docs w ''relayers'')" "0 < limit"
    and "list_active py db uid now srt limit w = (Inr rs, w')"
  shows "\<exists>w1. find_many db ''relayers'' (\<lambda>_. True) (fst (sort_field srt)) (snd (sort_field srt)) limit w
           = (Inr (map relayer_to_doc rs), w1) \<and> w' = w1"
proof -
  obtain f k where fk: "sort_field srt = (f, k)" by (rule prod.exhaust)
  from assms(5) fk obtain ds w1 where
    q: "find_many db ''relayers'' (\<lambda>_. True) f k limit w = (Inr ds, w1)"
    and a: "all_res (relayer_from_doc py uid now) ds = Inr rs" "w' = w1"
    by (auto simp: list_active_def pure_def elim!: andthen_InrE)
  have "registry_ok ds"
    using mongo.find_many_sub [OF assms(1), OF q assms(4)] assms(3) by (auto simp: registry_ok_def)
  from all_res_relayers [OF assms(2) a(1) this] q a(2) fk show ?thesis by simp
qed

lemma keeps_pick_best:
  assumes "mongo db docs le"
  shows "keeps (\<lambda>w. docs w = D) (pick_best py db uid now)"
proof -
  have "keeps (\<lambda>w. docs w = D) (find_many db c P k dir n)" for c P k dir n
    by (rule keepsI) (simp add: mongo.find_many_reads [OF assms])
  then show ?thesis
    unfolding pick_best_def list_active_def by (auto intro!: keeps_rules split: prod.split)
qed

lemma pick_best_found:
  assumes "mongo db docs le" "pydantic_laws py" "registry_ok (docs w ''relayers'')"
    and "pick_best py db uid now w = (Inr best, w')"
  shows "relayer_to_doc best \<in> set (docs w ''relayers'')"
proof -
  from assms(4) obtain rs where l: "list_active py db uid now ''uptime'' 1 w = (Inr rs, w')"
    and b: "best \<in> set rs"
    by (auto simp: pick_best_def elim!: andthen_InrE split: list.splits)
  have "(0::nat) < 1" by simp
  from list_active_docs [OF assms(1-3) this l] obtain w1 where
    q: "find_many db ''relayers'' (\<lambda>_. True) (fst (sort_field ''uptime'')) (snd (sort_field ''uptime'')) 1 w
      = (Inr (map relayer_to_doc rs), w1)" by blast
  from mongo.find_many_sub [OF assms(1), OF q] b show ?thesis by simp
qed

section \<open>Properties\<close>

text \<open>Upsert keeps identities. When a relayer registered under the same \<open>relayer_id\<close> exists, a
  successful upsert returns the new data under the old \<open>id\<close> and \<open>registered_at\<close>, and stores exactly
  that in the place of the old document; nothing else in the database changes.\<close>

theorem upsert_keeps_identity:
  assumes "mongo db docs le" and "pydantic_laws py" and "relayer_ok r"
    and "docs w ''relayers'' = xs @ relayer_to_doc old # ys"
    and "r_relayer_id old = r_relayer_id r"
    and "\<forall>d \<in> set (xs @ ys). jget d ''relayer_id'' \<noteq> JStr (r_relayer_id r)"
    and "relayer_upsert py db uid now r w = (Inr r', w')"
  shows "r' = keeping_identity old r
         \<and> docs w' = (docs w)(''relayers'' := xs @ relayer_to_doc (keeping_identity old r) # ys)"
proof -
  let ?P = "field_is ''relayer_id'' (JStr (r_relayer_id r))"
  from assms(7) obtain existing w1 u where
    f: "find_one db ''relayers'' ?P w = (Inr existing, w1)"
    and up: "update_one db ''relayers'' ?P (set_fields (upsert_doc r existing))
               (Some (upsert_doc r existing)) w1 = (Inr u, w')"
    and out: "relayer_from_doc py uid now (upsert_doc r existing) = Inr r'"
    by (auto simp: relayer_upsert_def Let_def pure_def elim!: andthen_InrE)
  note fl = mongo.find_one_law [OF assms(1), OF f]
  have old: "?P (relayer_to_doc old)" using assms(5) by (simp add: field_is_def)
  have only: "d = relayer_to_doc old" if "d \<in> set (docs w ''relayers'')" "?P d" for d
    using that assms(4,6) by (auto simp: field_is_def)
  have ex: "existing = Some (relayer_to_doc old)"
  proof (cases existing)
    case None
    with fl old assms(4) show ?thesis by auto
  next
    case (Some d)
    with fl only [of d] show ?thesis by simp
  qed
  have doc: "upsert_doc r existing = relayer_to_doc (keeping_identity old r)"
    by (simp add: ex upsert_doc_existing)
  from mongo.update_law [OF assms(1), OF up] have
    "\<exists>as d bs. docs w1 ''relayers'' = as @ d # bs \<and> ?P d \<and>
       docs w' = (docs w1)(''relayers'' := as @ relayer_to_doc (keeping_identity old r) # bs)"
  proof
    assume "\<exists>as d bs. docs w1 ''relayers'' = as @ d # bs \<and> ?P d \<and>
       docs w' = (docs w1)(''relayers'' := as @ set_fields (upsert_doc r existing) d # bs)"
    then obtain as d bs where *: "docs w1 ''relayers'' = as @ d # bs" "?P d"
       "docs w' = (docs w1)(''relayers'' := as @ set_fields (upsert_doc r existing) d # bs)" by blast
    have "d = relayer_to_doc old" using * fl only [of d] by simp
    with * doc show ?thesis by (auto simp: set_fields_relayer)
  qed (use fl old assms(4) in auto)
  then obtain as d bs where w': "docs w ''relayers'' = as @ d # bs" "?P d"
    "docs w' = (docs w)(''relayers'' := as @ relayer_to_doc (keeping_identity old r) # bs)"
    using fl by auto
  have "d = relayer_to_doc old" using w'(1,2) only by auto
  moreover have "jget (relayer_to_doc old) ''relayer_id'' = JStr (r_relayer_id r)" using assms(5) by simp
  then have "relayer_to_doc old \<notin> set xs" "relayer_to_doc old \<notin> set ys"
    using assms(6) by (metis Un_iff set_append)+
  ultimately have "as = xs \<and> bs = ys" using w'(1) assms(4) append_Cons_eq_iff by metis
  moreover have "r' = keeping_identity old r"
    using out relayer_from_doc_to_doc [OF assms(2)] assms(3) by (simp add: doc)
  ultimately show ?thesis using w'(3) by simp
qed

definition demo_relayer :: "string \<Rightarrow> string \<Rightarrow> rat \<Rightarrow> relayer" where
  "demo_relayer uid rid up = \<lparr>r_id = uid, r_relayer_id = rid, r_name = ''N'', r_operator = ''op'',
     r_pubkey = rid, r_region = ''US'', r_fee_bps = 15, r_ping_ms = 40, r_uptime_pct = up,
     r_jobs_24h = 0, r_volume_24h_lamports = 0, r_last_seen = None, r_registered_at = 7\<rparr>"

definition demo_registry :: store where
  "demo_registry = (\<lambda>_. [])(''relayers'' :=
     [relayer_to_doc (demo_relayer ''u1'' ''n1'' 90), relayer_to_doc (demo_relayer ''u2'' ''n2'' 99)])"

lemma demo_relayer_ok [simp]: "0 \<le> up \<Longrightarrow> up \<le> 100 \<Longrightarrow> relayer_ok (demo_relayer uid rid up)"
  by (simp add: demo_relayer_def relayer_ok_def)

theorem upsert_keeps_identity_witness:
  "\<exists>r' w'. relayer_upsert strict_pydantic list_store [] 0 (demo_relayer ''fresh'' ''n2'' 95) demo_registry = (Inr r', w')
     \<and> r_id r' = ''u2'' \<and> r_uptime_pct r' = 95"
proof -
  let ?r = "demo_relayer ''fresh'' ''n2'' 95" and ?old = "demo_relayer ''u2'' ''n2'' 99"
  have reg: "demo_registry ''relayers'' = [relayer_to_doc (demo_relayer ''u1'' ''n1'' 90)] @ relayer_to_doc ?old # []"
    by (simp add: demo_registry_def)
  have ids: "r_relayer_id ?r = ''n2''" "r_relayer_id ?old = ''n2''"
    "\<forall>d \<in> set ([relayer_to_doc (demo_relayer ''u1'' ''n1'' 90)] @ []). jget d ''relayer_id'' \<noteq> JStr (r_relayer_id ?r)"
    by (simp_all add: demo_relayer_def)
  have f: "find_one list_store ''relayers'' (field_is ''relayer_id'' (JStr (r_relayer_id ?r))) demo_registry
      = (Inr (Some (relayer_to_doc ?old)), demo_registry)"
    using ids(3) by (simp add: list_store_def reg field_is_def) (simp add: demo_relayer_def)
  have "\<exists>w'. relayer_upsert strict_pydantic list_store [] 0 ?r demo_registry
      = (relayer_from_doc strict_pydantic [] 0 (upsert_doc ?r (Some (relayer_to_doc ?old))), w')"
    unfolding relayer_upsert_def andthen_def f
    by (simp add: Let_def list_store_def ls_update_def pure_def split: option.split)
  then obtain w' where "relayer_upsert strict_pydantic list_store [] 0 ?r demo_registry
      = (relayer_from_doc strict_pydantic [] 0 (upsert_doc ?r (Some (relayer_to_doc ?old))), w')" by blast
  then have u: "relayer_upsert strict_pydantic list_store [] 0 ?r demo_registry = (Inr (keeping_identity ?old ?r), w')"
    by (simp add: upsert_doc_existing relayer_from_doc_to_doc [OF strict.pydantic_laws_axioms])
  from upsert_keeps_identity [OF lists.mongo_axioms strict.pydantic_laws_axioms _ reg _ ids(3) u] u ids
  show ?thesis by (auto simp: keeping_identity_def demo_relayer_def)
qed

definition rank_le :: "string \<Rightarrow> relayer \<Rightarrow> relayer \<Rightarrow> bool" where
  "rank_le srt a b \<longleftrightarrow>
     (if srt = ''fee'' then r_fee_bps a \<le> r_fee_bps b
      else if srt = ''ping'' then r_ping_ms a \<le> r_ping_ms b
      else if srt = ''jobs'' then r_jobs_24h b \<le> r_jobs_24h a
      else r_uptime_pct b \<le> r_uptime_pct a)"

lemma sort_field_cases:
  "sort_field srt = (if srt = ''uptime'' then (''uptime_pct'', -1) else if srt = ''fee'' then (''fee_bps'', 1)
     else if srt = ''ping'' then (''ping_ms'', 1) else if srt = ''jobs'' then (''jobs_24h'', -1)
     else (''uptime_pct'', -1))"
  by (simp add: sort_field_def SORT_FIELDS_def)

lemma rank_le_docs:
  assumes "mongo db docs le"
  shows "(if snd (sort_field srt) = 1
          then le (jget (relayer_to_doc a) (fst (sort_field srt))) (jget (relayer_to_doc b) (fst (sort_field srt)))
          else le (jget (relayer_to_doc b) (fst (sort_field srt))) (jget (relayer_to_doc a) (fst (sort_field srt))))
         = rank_le srt a b"
  by (simp add: sort_field_cases rank_le_def mongo.le_int [OF assms] mongo.le_float [OF assms])

text \<open>The leaderboard. \<open>list_active\<close> returns at most \<open>limit\<close> registered relayers, ordered by the
  requested key - uptime and jobs descending, fee and ping ascending - and an unknown key gives exactly the
  result of \<open>uptime\<close>; no relayer left out precedes one returned.\<close>

theorem list_active_ranked:
  assumes "mongo db docs le" and "pydantic_laws py" and "registry_ok (docs w ''relayers'')" and "0 < limit"
    and "list_active py db uid now srt limit w = (Inr rs, w')"
  shows "length rs \<le> limit \<and> sorted_wrt (rank_le srt) rs
         \<and> (\<forall>r \<in> set rs. relayer_to_doc r \<in> set (docs w ''relayers''))
         \<and> (\<forall>r. relayer_to_doc r \<in> set (docs w ''relayers'') \<longrightarrow>
              relayer_to_doc r \<in> relayer_to_doc ` set rs \<or> (\<forall>q \<in> set rs. rank_le srt q r))
         \<and> (srt \<notin> {''uptime'', ''fee'', ''ping'', ''jobs''} \<longrightarrow>
              list_active py db uid now srt limit = list_active py db uid now ''uptime'' limit)"
proof -
  obtain w1 where q: "find_many db ''relayers'' (\<lambda>_. True) (fst (sort_field srt)) (snd (sort_field srt)) limit w
      = (Inr (map relayer_to_doc rs), w1)"
    using list_active_docs [OF assms] by blast
  have s: "sorted_wrt (rank_le srt) rs"
    using mongo.find_many_sorted [OF assms(1), OF q assms(4)]
    unfolding sorted_by_def sorted_wrt_map rank_le_docs [OF assms(1)] .
  have b: "length rs \<le> limit" using mongo.find_many_bound [OF assms(1), OF q assms(4)] by simp
  have m: "\<forall>r \<in> set rs. relayer_to_doc r \<in> set (docs w ''relayers'')"
    using mongo.find_many_sub [OF assms(1), OF q assms(4)] by simp
  have o: "relayer_to_doc r \<in> relayer_to_doc ` set rs \<or> (\<forall>q \<in> set rs. rank_le srt q r)"
    if "relayer_to_doc r \<in> set (docs w ''relayers'')" for r
    using mongo.find_many_best [OF assms(1), OF q assms(4) that TrueI]
  proof (elim disjE conjE)
    assume a: "\<forall>e \<in> set (map relayer_to_doc rs).
        if snd (sort_field srt) = 1
        then le (jget e (fst (sort_field srt))) (jget (relayer_to_doc r) (fst (sort_field srt)))
        else le (jget (relayer_to_doc r) (fst (sort_field srt))) (jget e (fst (sort_field srt)))"
    have "rank_le srt p r" if "p \<in> set rs" for p
    proof -
      have "relayer_to_doc p \<in> set (map relayer_to_doc rs)" using that by simp
      from bspec [OF a this] show ?thesis unfolding rank_le_docs [OF assms(1)] .
    qed
    then show ?thesis by blast
  qed simp_all
  have "srt \<notin> {''uptime'', ''fee'', ''ping'', ''jobs''} \<Longrightarrow> sort_field srt = sort_field ''uptime''"
    by (simp add: sort_field_cases)
  then have u: "srt \<notin> {''uptime'', ''fee'', ''ping'', ''jobs''} \<Longrightarrow>
      list_active py db uid now srt limit = list_active py db uid now ''uptime'' limit"
    by (simp add: list_active_def)
  have "\<forall>r. relayer_to_doc r \<in> set (docs w ''relayers'') \<longrightarrow>
      relayer_to_doc r \<in> relayer_to_doc ` set rs \<or> (\<forall>q \<in> set rs. rank_le srt q r)"
    by (intro allI impI) (rule o)
  then show ?thesis using b s m u by (intro conjI impI)
qed

lemma demo_registry_ok: "registry_ok (demo_registry ''relayers'')"
proof -
  have "\<exists>r. relayer_ok r \<and> relayer_to_doc (demo_relayer u n p) = relayer_to_doc r" if "0 \<le> p" "p \<le> 100" for u n p
    using that demo_relayer_ok by blast
  then show ?thesis by (simp add: registry_ok_def demo_registry_def)
qed

lemma all_res_ex: "\<forall>x \<in> set xs. \<exists>y. f x = Inr y \<Longrightarrow> \<exists>ys. all_res f xs = Inr ys"
  by (induction xs) (auto simp: res_simps)

lemma demo_list_active:
  "\<exists>rs. list_active strict_pydantic list_store [] 0 srt n demo_registry = (Inr rs, demo_registry)"
proof -
  obtain f k where fk: "sort_field srt = (f, k)" by (rule prod.exhaust)
  let ?ds = "take n (ls_sort f k (demo_registry ''relayers''))"
  have "\<forall>d \<in> set ?ds. d \<in> set (demo_registry ''relayers'')"
    by (auto simp: ls_sort_def dest: in_set_takeD)
  then have "\<forall>d \<in> set ?ds. \<exists>r. relayer_from_doc strict_pydantic [] 0 d = Inr r"
    using demo_registry_ok relayer_from_doc_to_doc [OF strict.pydantic_laws_axioms]
    unfolding registry_ok_def by metis
  from all_res_ex [OF this] show ?thesis by (auto simp: list_active_def fk list_store_def andthen_def)
qed

theorem list_active_ranked_witness:
  "\<exists>rs. list_active strict_pydantic list_store [] 0 ''speed'' 1 demo_registry = (Inr rs, demo_registry)
     \<and> length rs \<le> 1 \<and> sorted_wrt (rank_le ''speed'') rs"
proof -
  obtain rs where "list_active strict_pydantic list_store [] 0 ''speed'' 1 demo_registry = (Inr rs, demo_registry)"
    using demo_list_active by blast
  with list_active_ranked [OF lists.mongo_axioms strict.pydantic_laws_axioms demo_registry_ok _ this]
  show ?thesis by auto
qed

text \<open>The relayer of a withdrawal. \<open>pick_best\<close> returns a registered relayer whose uptime no
  registered relayer exceeds, and with an empty registry it answers 503 instead.\<close>

theorem pick_best_maximal:
  assumes "mongo db docs le" and "pydantic_laws py" and "registry_ok (docs w ''relayers'')"
    and "pick_best py db uid now w = (out, w')"
    and "\<And>f k n e w1. find_many db ''relayers'' (\<lambda>_. True) f k n w \<noteq> (Inl e, w1)"
  shows "case out of
           Inr best \<Rightarrow> relayer_to_doc best \<in> set (docs w ''relayers'') \<and>
             (\<forall>r. relayer_to_doc r \<in> set (docs w ''relayers'') \<longrightarrow> r_uptime_pct r \<le> r_uptime_pct best)
         | Inl e \<Rightarrow> docs w ''relayers'' = [] \<and> map_option fst (bagsvault_handler e) = Some 503"
proof -
  let ?q = "find_many db ''relayers'' (\<lambda>_. True) ''uptime_pct'' (-1) 1 w"
  have sf: "sort_field ''uptime'' = (''uptime_pct'', -1)" by (simp add: sort_field_cases)
  obtain o1 w1 where o1: "?q = (o1, w1)" by (rule prod.exhaust)
  obtain ds where "o1 = Inr ds" using assms(5) o1 by (cases o1) auto
  with o1 have q: "?q = (Inr ds, w1)" by simp
  have sub: "\<forall>d \<in> set ds. d \<in> set (docs w ''relayers'')"
    using mongo.find_many_sub [OF assms(1), OF q] by simp
  have "\<forall>d \<in> set ds. \<exists>r. relayer_from_doc py uid now d = Inr r"
    using sub assms(3) relayer_from_doc_to_doc [OF assms(2)] unfolding registry_ok_def by metis
  from all_res_ex [OF this] obtain rs where rs: "all_res (relayer_from_doc py uid now) ds = Inr rs" by blast
  have reg: "registry_ok ds" using sub assms(3) by (auto simp: registry_ok_def)
  note ds = all_res_relayers [OF assms(2) rs reg]
  have out: "out = (case rs of [] \<Rightarrow> Inl (Domain ServiceUnavailableError ''No relayers registered.''
                 [(''hint'', JStr ''Run scripts/seed_relayers.py to bootstrap.'')]) | r # _ \<Rightarrow> Inr r)"
    using assms(4) q rs by (auto simp: pick_best_def list_active_def sf andthen_def pure_def split: list.splits)
  show ?thesis
  proof (cases rs)
    case Nil
    have "docs w ''relayers'' = []"
    proof (rule ccontr)
      assume "docs w ''relayers'' \<noteq> []"
      then obtain d where "d \<in> set (docs w ''relayers'')" by (meson last_in_set)
      from mongo.find_many_best [OF assms(1), OF q _ this] ds Nil show False by simp
    qed
    with Nil out show ?thesis by simp
  next
    case (Cons best rest)
    have "r_uptime_pct r \<le> r_uptime_pct best" if "relayer_to_doc r \<in> set (docs w ''relayers'')" for r
    proof -
      have "length rs \<le> 1" using mongo.find_many_bound [OF assms(1), OF q] ds by simp
      with Cons have ds1: "ds = [relayer_to_doc best]" using ds by simp
      from mongo.find_many_best [OF assms(1), OF q _ that TrueI] ds1
      have "relayer_to_doc r = relayer_to_doc best \<or> le (jget (relayer_to_doc r) ''uptime_pct'') (jget (relayer_to_doc best) ''uptime_pct'')"
        by auto
      then show ?thesis
      proof
        assume "relayer_to_doc r = relayer_to_doc best"
        then have "jget (relayer_to_doc r) ''uptime_pct'' = jget (relayer_to_doc best) ''uptime_pct''" by simp
        then show ?thesis by simp
      qed (simp add: mongo.le_float [OF assms(1)])
    qed
    moreover have "relayer_to_doc best \<in> set (docs w ''relayers'')" using sub ds Cons by simp
    ultimately show ?thesis using Cons out by simp
  qed
qed

theorem pick_best_maximal_witness:
  "\<exists>out w'. pick_best strict_pydantic list_store [] 0 demo_registry = (out, w') \<and>
     (case out of Inr best \<Rightarrow> 99 \<le> r_uptime_pct best | Inl e \<Rightarrow> False)"
proof -
  obtain out w' where p: "pick_best strict_pydantic list_store [] 0 demo_registry = (out, w')"
    by (rule prod.exhaust)
  have "find_many list_store ''relayers'' (\<lambda>_. True) f k n demo_registry \<noteq> (Inl e, w1)" for f k n e w1
    by (simp add: list_store_def)
  note pb = pick_best_maximal [OF lists.mongo_axioms strict.pydantic_laws_axioms demo_registry_ok p this]
  have in_reg: "relayer_to_doc (demo_relayer ''u2'' ''n2'' 99) \<in> set (demo_registry ''relayers'')"
    by (simp add: demo_registry_def)
  have "demo_registry ''relayers'' \<noteq> []" by (simp add: demo_registry_def)
  moreover have "r_uptime_pct (demo_relayer ''u2'' ''n2'' 99) = 99" by (simp add: demo_relayer_def)
  ultimately show ?thesis using pb in_reg p by (cases out) auto
qed

end
