(* ===== verification/Withdrawal.thy ===== *)
theory Withdrawal
  imports TxExecutor Relayers
begin

text \<open>
  \<open>WithdrawalService\<close> of \<open>backend/app/services/withdrawal_service.py\<close>: the relay
  pipeline and the anonymised listing. The world of a request is the signer
  object and everything outside (\<open>'w\<close>): database, node, clock.
\<close>

section \<open>The service\<close>

text \<open>
  \<open>wd_executor\<close> is the executor \<open>__init__\<close> builds when the RPC object has the
  methods it needs, \<open>wd_rpc\<close> the object the older path uses without one.
\<close>

record 'w withdrawal_service =
  wd_solders :: solders
  wd_settings :: settings
  wd_pydantic :: pydantic
  wd_db :: "'w mongo"
  wd_files :: "'w files"
  wd_executor :: "(signer \<times> 'w) executor option"
  wd_rpc :: "(signer \<times> 'w) rpc"
  wd_fmt :: "json \<Rightarrow> string"

text \<open>\<open>__init__\<close>: an injected executor wins; else one is built if \<open>_rpc_supports_executor\<close>.\<close>

definition choose_executor ::
  "'x executor option \<Rightarrow> bool \<Rightarrow> 'x executor \<Rightarrow> 'x executor option" where
  "choose_executor injected supported built =
     (case injected of Some e \<Rightarrow> Some e | None \<Rightarrow> if supported then Some built else None)"

section \<open>The pipeline up to the instruction\<close>

definition parse_program_id :: "solders \<Rightarrow> settings \<Rightarrow> pubkey res" where
  "parse_program_id sol cfg =
     (if bagsvault_program_id cfg = []
      then Inl (Domain ServiceUnavailableError ''BAGSVAULT_PROGRAM_ID is not configured.''
             [(''missing_env'', JStr ''BAGSVAULT_PROGRAM_ID'')])
      else case pubkey_from_string sol (bagsvault_program_id cfg) of
             Inr p \<Rightarrow> Inr p
           | Inl err \<Rightarrow> Inl (Domain ServiceUnavailableError
               ''BagsVault program id is not a valid base58 pubkey.''
               [(''program_id'', JStr (bagsvault_program_id cfg)), (''error'', JStr err)]))"

text \<open>Step 2: the guard looks the nullifier up as the text the request carries.\<close>

definition nullifier_spent :: "string \<Rightarrow> exn" where
  "nullifier_spent h = Domain ConflictError ''Nullifier already spent.'' [(''nullifier_hash'', JStr h)]"

definition nullifier_guard :: "'w mongo \<Rightarrow> string \<Rightarrow> (unit, 'w) io" where
  "nullifier_guard db h =
     andthen (find_one db ''withdrawals'' (field_is ''nullifier_hash'' (JStr h))) (\<lambda>existing.
       case existing of
         None \<Rightarrow> ret ()
       | Some d \<Rightarrow> if d = [] then ret () else throw (nullifier_spent h))"

text \<open>
  \<open>relayer.fee_bps\<close>: the model class makes it a required int, so the fallback to
  \<open>settings.relayer_fee_bps\<close> on \<open>None\<close> is never taken.
\<close>

definition active_fee_bps :: "relayer \<Rightarrow> int" where
  "active_fee_bps r = r_fee_bps r"

text \<open>The decoding of step 4, in the order of the source.\<close>

definition request_args ::
  "solders \<Rightarrow> settings \<Rightarrow> relay_request \<Rightarrow> (bytes \<times> bytes \<times> bytes \<times> pubkey \<times> pubkey) res" where
  "request_args sol cfg q =
     (let pin = rq_public_inputs q in
      rbind (hex_to_bytes (rq_proof q) ''proof'') (\<lambda>proof_bytes.
      rbind (hex_to_bytes (pi_root pin) ''public_inputs.root'') (\<lambda>root_bytes.
      rbind (hex_to_bytes (pi_nullifier_hash pin) ''public_inputs.nullifier_hash'') (\<lambda>nullifier_bytes.
      rbind (decode_recipient sol (pi_recipient pin)) (\<lambda>recipient_pubkey.
      rbind (resolve_token_mint sol cfg (pi_token pin)) (\<lambda>token_mint.
      Inr (proof_bytes, root_bytes, nullifier_bytes, recipient_pubkey, token_mint)))))))"

definition relay_prepare ::
  "'w withdrawal_service \<Rightarrow> string \<Rightarrow> int \<Rightarrow> relay_request
     \<Rightarrow> (relayer \<times> pubkey \<times> instruction, signer \<times> 'w) io" where
  "relay_prepare s uid now q =
     (let sol = wd_solders s; cfg = wd_settings s; pin = rq_public_inputs q in
      andthen (on_snd (nullifier_guard (wd_db s) (pi_nullifier_hash pin))) (\<lambda>_.
      andthen (pure (parse_program_id sol cfg)) (\<lambda>program_id.
      andthen (on_snd (pick_best (wd_pydantic s) (wd_db s) uid now)) (\<lambda>relayer.
      andthen (pure (request_args sol cfg q)) (\<lambda>(proof_bytes, root_bytes, nullifier_bytes, recipient, token_mint).
      andthen (pubkey_obj sol (wd_files s) cfg) (\<lambda>relayer_pubkey.
      andthen (pure (build_withdraw_ix_for_pool sol
                 \<lparr>wa_program_id = program_id, wa_token_mint = token_mint, wa_recipient = recipient,
                  wa_relayer = relayer_pubkey, wa_proof_bytes = proof_bytes,
                  wa_root_bytes = root_bytes, wa_nullifier_bytes = nullifier_bytes,
                  wa_amount = pi_amount pin\<rparr>)) (\<lambda>ix.
      ret (relayer, relayer_pubkey, ix))))))))"

section \<open>Broadcast\<close>

definition rejected :: "string \<Rightarrow> exn" where
  "rejected err = upstream ''Solana RPC rejected the withdrawal transaction.'' [(''error'', JStr err)]"

text \<open>The older path: blockhash, signature, submission, each with its own wrapper.\<close>

definition relay_inline ::
  "'w withdrawal_service \<Rightarrow> pubkey \<Rightarrow> instruction \<Rightarrow> (string, signer \<times> 'w) io" where
  "relay_inline s relayer_pubkey ix =
     andthen (wrap_foreign (\<lambda>err. upstream ''Failed to fetch recent blockhash from Solana RPC.''
                              [(''error'', JStr err)])
               (latest_blockhash (wd_rpc s))) (\<lambda>raw.
     andthen (pure (coerce_blockhash raw)) (\<lambda>blockhash.
     andthen (wrap_foreign (\<lambda>err. Domain ServiceUnavailableError
                ''Failed to build and sign withdrawal transaction.'' [(''error'', JStr err)])
               (build_and_sign (wd_solders s) (wd_files s) (wd_settings s) [ix] blockhash
                 (Some relayer_pubkey))) (\<lambda>signed.
     wrap_foreign rejected (send_tx (wd_rpc s) (b64encode signed) False))))"

text \<open>With the executor; the attempt counter of a fresh executor is 0.\<close>

definition relay_executor ::
  "'w withdrawal_service \<Rightarrow> (signer \<times> 'w) executor \<Rightarrow> pubkey \<Rightarrow> instruction \<Rightarrow> signer \<times> 'w
     \<Rightarrow> (string res \<times> signer \<times> 'w) option" where
  "relay_executor s ex relayer_pubkey ix w =
     (case send (wd_fmt s) ex [ix] relayer_pubkey None [] (0, w) of
        None \<Rightarrow> None
      | Some (Inr tx_result, used, w') \<Rightarrow> Some (Inr (tr_signature tx_result), w')
      | Some (Inl e, used, w') \<Rightarrow> Some (Inl (if is_domain e then e else rejected (exn_str e)), w'))"

definition relay_broadcast ::
  "'w withdrawal_service \<Rightarrow> pubkey \<Rightarrow> instruction \<Rightarrow> signer \<times> 'w
     \<Rightarrow> (string res \<times> signer \<times> 'w) option" where
  "relay_broadcast s relayer_pubkey ix w =
     (case wd_executor s of
        Some ex \<Rightarrow> relay_executor s ex relayer_pubkey ix w
      | None \<Rightarrow> Some (relay_inline s relayer_pubkey ix w))"

section \<open>Persistence and response\<close>

definition withdrawal_record :: "string \<Rightarrow> int \<Rightarrow> relay_request \<Rightarrow> relayer \<Rightarrow> string \<Rightarrow> withdrawal" where
  "withdrawal_record uid now q r signature =
     (let pin = rq_public_inputs q in
      \<lparr>w_id = uid, w_nullifier_hash = pi_nullifier_hash pin, w_recipient = pi_recipient pin,
       w_amount = pi_amount pin, w_token = pi_token pin, w_relayer_id = r_relayer_id r,
       w_tx_signature = signature, w_created_at = now\<rparr>)"

text \<open>Both writes are best effort: an exception is logged and dropped.\<close>

definition relay_persist :: "'w mongo \<Rightarrow> withdrawal \<Rightarrow> (unit, 'w) io" where
  "relay_persist db record =
     andthen (catching (insert_one db ''withdrawals'' (withdrawal_to_doc record)) (\<lambda>_. ret ())) (\<lambda>_.
     catching (update_one db ''relayers'' (field_is ''relayer_id'' (JStr (w_relayer_id record)))
                (set_field ''last_seen'' (JDate (w_created_at record))) None) (\<lambda>_. ret ()))"

record relay_response =
  rr_signature :: string
  rr_status :: string
  rr_fee_bps :: int

definition relay ::
  "'w withdrawal_service \<Rightarrow> string \<Rightarrow> int \<Rightarrow> relay_request \<Rightarrow> signer \<times> 'w
     \<Rightarrow> (relay_response res \<times> signer \<times> 'w) option" where
  "relay s uid now q w =
     (case relay_prepare s uid now q w of
        (Inl e, w1) \<Rightarrow> Some (Inl e, w1)
      | (Inr (relayer, relayer_pubkey, ix), w1) \<Rightarrow>
          (case relay_broadcast s relayer_pubkey ix w1 of
             None \<Rightarrow> None
           | Some (Inl e, w2) \<Rightarrow> Some (Inl e, w2)
           | Some (Inr signature, w2) \<Rightarrow>
               Some (andthen (on_snd (relay_persist (wd_db s) (withdrawal_record uid now q relayer signature)))
                      (\<lambda>_. ret \<lparr>rr_signature = signature, rr_status = ''submitted'',
                               rr_fee_bps = active_fee_bps relayer\<rparr>) w2)))"

section \<open>The anonymised listing\<close>

text \<open>The ellipsis of the source is one character, here three dots.\<close>

definition short_hash :: "string \<Rightarrow> string" where
  "short_hash sig = (if length sig \<le> 8 then sig else take 4 sig @ ''...'' @ last_n 4 sig)"

text \<open>\<open>int(delta.total_seconds())\<close> rounds toward 0.\<close>

definition trunc_seconds :: "int \<Rightarrow> int" where
  "trunc_seconds us = (if us < 0 then - ((- us) div 1000000) else us div 1000000)"

definition relative_time :: "int \<Rightarrow> int \<Rightarrow> string" where
  "relative_time now dt =
     (let seconds = trunc_seconds (now - dt) in
      if seconds < 60 then int_str (max seconds 0) @ ''s ago''
      else let minutes = seconds div 60 in
      if minutes < 60 then int_str minutes @ ''m ago''
      else let hours = minutes div 60 in
      if hours < 24 then int_str hours @ ''h ago''
      else int_str (hours div 24) @ ''d ago'')"

record recent_item =
  ri_hash :: string
  ri_tx_signature :: json
  ri_amount :: json
  ri_token :: json
  ri_relayer_name :: string
  ri_relative_time :: string

definition relayer_names :: "doc list \<Rightarrow> (string \<times> string) list" where
  "relayer_names ds =
     fold (\<lambda>d names. case (jget d ''relayer_id'', jget d ''name'') of
             (JStr rid, JStr nm) \<Rightarrow> (rid, nm) # names | _ \<Rightarrow> names) ds []"

definition created_at_of :: "pydantic \<Rightarrow> doc \<Rightarrow> int option" where
  "created_at_of py d =
     (case jget d ''created_at'' of
        JStr s \<Rightarrow> iso_parse py s | JDate t \<Rightarrow> Some t | _ \<Rightarrow> None)"

definition recent_item_of ::
  "(json \<Rightarrow> string) \<Rightarrow> pydantic \<Rightarrow> int \<Rightarrow> (string \<times> string) list \<Rightarrow> doc \<Rightarrow> recent_item" where
  "recent_item_of fmt py now names d =
     (let clean = strip_id d;
          sig = jget_or clean ''tx_signature'' (JStr []);
          rid = py_str fmt (jget_or clean ''relayer_id'' (JStr [])) in
      \<lparr>ri_hash = (if truthy sig then short_hash (py_str fmt sig) else []),
       ri_tx_signature = sig,
       ri_amount = jget_or clean ''amount'' (JInt 0),
       ri_token = jget_or clean ''token'' (JStr []),
       ri_relayer_name = (case map_of names rid of Some nm \<Rightarrow> nm | None \<Rightarrow> rid),
       ri_relative_time = (case created_at_of py clean of
                             Some t \<Rightarrow> relative_time now t | None \<Rightarrow> [])\<rparr>)"

text \<open>
  The relayer ids of the page are text, as this program writes them; the source
  sorts the set before it queries, which has no effect on the answer.
\<close>

definition list_recent ::
  "'w withdrawal_service \<Rightarrow> int \<Rightarrow> nat \<Rightarrow> (recent_item list, 'w) io" where
  "list_recent s now limit =
     andthen (find_many (wd_db s) ''withdrawals'' (\<lambda>_. True) ''created_at'' (-1) limit) (\<lambda>ds.
       let ids = filter truthy (map (\<lambda>d. jget d ''relayer_id'') ds) in
       andthen (if ids \<noteq> []
                then find_all (wd_db s) ''relayers'' (\<lambda>d. jget d ''relayer_id'' \<in> set ids)
                else ret []) (\<lambda>rs.
       ret (map (recent_item_of (wd_fmt s) (wd_pydantic s) now (relayer_names rs)) ds)))"


section \<open>Lemmas\<close>

text \<open>What the environment of a request leaves alone.\<close>

definition environment_keeps :: "('w \<Rightarrow> bool) \<Rightarrow> 'w withdrawal_service \<Rightarrow> bool" where
  "environment_keeps I s \<longleftrightarrow>
     files_keep I (wd_files s) \<and>
     (\<forall>ex. wd_executor s = Some ex \<longrightarrow> executor_keeps (\<lambda>p. I (snd p)) ex) \<and>
     keeps (\<lambda>p. I (snd p)) (latest_blockhash (wd_rpc s)) \<and>
     (\<forall>tx b. keeps (\<lambda>p. I (snd p)) (send_tx (wd_rpc s) tx b))"

lemma jget_withdrawal [simp, model_simps]:
  "jget (withdrawal_to_doc r) ''nullifier_hash'' = JStr (w_nullifier_hash r)"
  "jget (withdrawal_to_doc r) ''tx_signature'' = JStr (w_tx_signature r)"
  "jget (withdrawal_to_doc r) ''relayer_id'' = JStr (w_relayer_id r)"
  "jget (withdrawal_to_doc r) ''recipient'' = JStr (w_recipient r)"
  "jget (withdrawal_to_doc r) ''amount'' = JInt (w_amount r)"
  "withdrawal_to_doc r \<noteq> []"
  by (simp_all add: withdrawal_to_doc_def jget_def)

lemma keeps_guard:
  assumes "mongo db docs le"
  shows "keeps (\<lambda>w. docs w = D) (nullifier_guard db h)"
proof -
  have "keeps (\<lambda>w. docs w = D) (find_one db c P)" for c P
    by (rule keepsI) (simp add: mongo.find_one_reads [OF assms])
  then show ?thesis unfolding nullifier_guard_def by (intro keeps_rules)
qed

lemma keeps_prepare_relay:
  assumes "mongo (wd_db s) docs le" "environment_keeps (\<lambda>w. docs w = D) s"
  shows "keeps (\<lambda>p. docs (snd p) = D) (relay_prepare s uid now q)"
  unfolding relay_prepare_def Let_def
  using assms(2)
  by (intro keeps_rules keeps_guard [OF assms(1)] keeps_pick_best [OF assms(1)] keeps_pubkey_obj)
     (simp add: environment_keeps_def)

lemma broadcast_keeps:
  assumes "environment_keeps I s" "I (snd w)" "relay_broadcast s pk ix w = Some (r, w')"
  shows "I (snd w')"
proof (cases "wd_executor s")
  case (Some ex)
  with assms(1) have "executor_keeps (\<lambda>p. I (snd p)) ex" by (simp add: environment_keeps_def)
  from send_keeps [OF this, of w] assms(2,3) Some show ?thesis
    by (fastforce simp: relay_broadcast_def relay_executor_def split: option.splits sum.splits prod.splits)
next
  case None
  have "keeps (\<lambda>p. I (snd p)) (relay_inline s pk ix)"
    unfolding relay_inline_def using assms(1)
    by (intro keeps_rules keeps_build_and_sign) (auto simp: environment_keeps_def)
  from keepsD [OF this assms(2)] assms(3) None show ?thesis by (auto simp: relay_broadcast_def)
qed

lemma guard_passes:
  assumes "mongo db docs le" "nullifier_guard db h w = (Inr u, w')"
  shows "docs w' = docs w \<and>
         (\<forall>r. withdrawal_to_doc r \<in> set (docs w ''withdrawals'') \<longrightarrow> [] \<notin> set (docs w ''withdrawals'')
            \<longrightarrow> w_nullifier_hash r \<noteq> h)"
proof -
  from assms(2) obtain e w1 where f: "find_one db ''withdrawals'' (field_is ''nullifier_hash'' (JStr h)) w = (Inr e, w1)"
    and r: "w' = w1" "e = None \<or> e = Some []"
    by (auto simp: nullifier_guard_def elim!: andthen_InrE split: option.splits if_splits)
  from mongo.find_one_law [OF assms(1) f] r show ?thesis by (fastforce simp: field_is_def)
qed

lemma relayer_to_doc_inj: "relayer_to_doc a = relayer_to_doc b \<Longrightarrow> a = b"
proof -
  have j: "json_opt JDate x = json_opt JDate y \<Longrightarrow> x = y" for x y
    by (cases x; cases y) (simp_all add: json_opt_def)
  show "relayer_to_doc a = relayer_to_doc b \<Longrightarrow> a = b"
    by (cases a; cases b) (auto simp: relayer_to_doc_def dest: j)
qed

text \<open>The two outcomes of the persistence step.\<close>

lemma persist_outcome:
  assumes "mongo db docs le" "relay_persist db record w = (r, w')"
  shows "docs w' ''withdrawals'' = docs w ''withdrawals''
         \<or> docs w' ''withdrawals'' = docs w ''withdrawals'' @ [withdrawal_to_doc record]"
proof -
  obtain r1 w1 where i: "insert_one db ''withdrawals'' (withdrawal_to_doc record) w = (r1, w1)" by (rule prod.exhaust)
  have 1: "docs w1 ''withdrawals'' = docs w ''withdrawals''
      \<or> docs w1 ''withdrawals'' = docs w ''withdrawals'' @ [withdrawal_to_doc record]"
    using i mongo.insert_law [OF assms(1)] mongo.insert_failed [OF assms(1)] by (cases r1) fastforce+
  let ?up = "update_one db ''relayers'' (field_is ''relayer_id'' (JStr (w_relayer_id record)))
                (set_field ''last_seen'' (JDate (w_created_at record))) None"
  obtain r2 w2 where u: "?up w1 = (r2, w2)" by (rule prod.exhaust)
  have "w' = w2" using assms(2) i u
    by (cases r1; cases r2) (auto simp: relay_persist_def andthen_def catching_def)
  moreover have "docs w2 ''withdrawals'' = docs w1 ''withdrawals''"
    by (rule mongo.update_frame [OF assms(1) u]) simp
  ultimately show ?thesis using 1 by simp
qed

lemma persist_returns: "\<exists>w'. relay_persist db record w = (Inr (), w')"
  by (auto simp: relay_persist_def andthen_def catching_def split: prod.splits sum.splits)

text \<open>A relay that returned ran every stage.\<close>

lemma relay_success:
  assumes "relay s uid now q w = Some (Inr resp, w')"
  obtains r pk ix w1 sg w2 where
    "relay_prepare s uid now q w = (Inr (r, pk, ix), w1)"
    "relay_broadcast s pk ix w1 = Some (Inr sg, w2)"
    "fst w' = fst w2" "relay_persist (wd_db s) (withdrawal_record uid now q r sg) (snd w2) = (Inr (), snd w')"
    "resp = \<lparr>rr_signature = sg, rr_status = ''submitted'', rr_fee_bps = r_fee_bps r\<rparr>"
proof -
  obtain o1 w1 where p: "relay_prepare s uid now q w = (o1, w1)" by (rule prod.exhaust)
  obtain r pk ix where o1: "o1 = Inr (r, pk, ix)"
    using assms p by (cases o1) (auto simp: relay_def)
  obtain o2 w2 where b: "relay_broadcast s pk ix w1 = Some (o2, w2)"
    using assms p o1 by (cases "relay_broadcast s pk ix w1") (auto simp: relay_def)
  obtain sg where o2: "o2 = Inr sg" using assms p o1 b by (cases o2) (auto simp: relay_def)
  obtain v where v: "relay_persist (wd_db s) (withdrawal_record uid now q r sg) (snd w2) = (Inr (), v)"
    using persist_returns [of "wd_db s" "withdrawal_record uid now q r sg" "snd w2"] by blast
  have "resp = \<lparr>rr_signature = sg, rr_status = ''submitted'', rr_fee_bps = r_fee_bps r\<rparr>" "w' = (fst w2, v)"
    using assms p o1 b o2 v by (auto simp: relay_def andthen_def on_snd_def active_fee_bps_def)
  with p o1 b o2 v show ?thesis by (intro that) auto
qed

lemma relay_prepare_success:
  assumes "relay_prepare s uid now q w = (Inr (r, pk, ix), w')"
  obtains pid pf rt nb rc mint w1 w2 where
    "nullifier_guard (wd_db s) (pi_nullifier_hash (rq_public_inputs q)) (snd w) = (Inr (), w1)"
    "parse_program_id (wd_solders s) (wd_settings s) = Inr pid"
    "pick_best (wd_pydantic s) (wd_db s) uid now w1 = (Inr r, w2)"
    "request_args (wd_solders s) (wd_settings s) q = Inr (pf, rt, nb, rc, mint)"
    "build_withdraw_ix_for_pool (wd_solders s)
       \<lparr>wa_program_id = pid, wa_token_mint = mint, wa_recipient = rc, wa_relayer = pk,
        wa_proof_bytes = pf, wa_root_bytes = rt, wa_nullifier_bytes = nb,
        wa_amount = pi_amount (rq_public_inputs q)\<rparr> = Inr ix"
  using assms unfolding relay_prepare_def Let_def
  by (auto elim!: andthen_InrE simp: pure_def on_snd_def split: prod.splits)

text \<open>The listing does not look at the fields that identify a withdrawal.\<close>

definition hidden_fields :: "string list" where
  "hidden_fields = [''id'', ''nullifier_hash'', ''recipient'']"

lemma jget_or_set_field [simp]:
  "a \<noteq> k \<Longrightarrow> jget_or (strip_id (set_field k v d)) a x = jget_or (strip_id d) a x"
  by (simp add: jget_or_def map_of_strip_id map_of_set_field)

lemma created_at_set_field:
  "k \<noteq> ''created_at'' \<Longrightarrow> created_at_of py (strip_id (set_field k v d)) = created_at_of py (strip_id d)"
  by (simp add: created_at_of_def jget_def map_of_strip_id map_of_set_field)

lemma recent_item_hidden:
  "k \<in> set hidden_fields \<Longrightarrow> recent_item_of fmt py now names (set_field k v d) = recent_item_of fmt py now names d"
proof -
  assume k: "k \<in> set hidden_fields"
  then have e: "jget_or (strip_id (set_field k v d)) ''tx_signature'' x = jget_or (strip_id d) ''tx_signature'' x"
    "jget_or (strip_id (set_field k v d)) ''relayer_id'' x = jget_or (strip_id d) ''relayer_id'' x"
    "jget_or (strip_id (set_field k v d)) ''amount'' x = jget_or (strip_id d) ''amount'' x"
    "jget_or (strip_id (set_field k v d)) ''token'' x = jget_or (strip_id d) ''token'' x"
    "created_at_of py (strip_id (set_field k v d)) = created_at_of py (strip_id d)" for x
    by (auto simp: hidden_fields_def created_at_set_field)
  show ?thesis unfolding recent_item_of_def Let_def e by (rule refl)
qed

lemma sort_key_map: "(\<And>x. f (g x) = f x) \<Longrightarrow> sort_key f (map g xs) = map g (sort_key f xs)"
proof (induction xs)
  case (Cons x xs)
  have ins: "insort_key f (g x) (map g ys) = map g (insort_key f x ys)" for ys
    using Cons.prems by (induction ys) auto
  show ?case using Cons ins by simp
qed simp

lemma ls_sort_hidden:
  "k \<noteq> f \<Longrightarrow> ls_sort f dir (map (set_field k v) ds) = map (set_field k v) (ls_sort f dir ds)"
  unfolding ls_sort_def by (rule sort_key_map) simp

lemma nullifier_guard_answer:
  "find_one db ''withdrawals'' (field_is ''nullifier_hash'' (JStr h)) w = (Inr x, w') \<Longrightarrow>
   nullifier_guard db h w =
     (if x = None \<or> x = Some [] then Inr () else Inl (nullifier_spent h), w')"
  by (auto simp: nullifier_guard_def andthen_def split: option.split)

lemma prepare_guard_fails:
  "nullifier_guard (wd_db s) (pi_nullifier_hash (rq_public_inputs q)) (snd w) = (Inl e, w1) \<Longrightarrow>
   relay_prepare s uid now q w = (Inl e, fst w, w1)"
  by (simp add: relay_prepare_def Let_def andthen_def on_snd_def)

lemma field_is_nonempty: "field_is k (JStr h) d \<Longrightarrow> d \<noteq> []"
  by (auto simp: field_is_def jget_def)

section \<open>Properties\<close>

text \<open>C1. Double spends are refused before anything is signed. When a stored withdrawal carries the
  request's nullifier and the database answers, the relay raises the 409 conflict; the signer
  has not moved, no collection has changed, and the executor and the node were never called: the
  outcome is the same for every executor and node.\<close>

theorem double_spend_refused:
  assumes "mongo (wd_db s) docs le"
    and "\<exists>d \<in> set (docs (snd w) ''withdrawals''). jget d ''nullifier_hash'' = JStr h"
    and "h = pi_nullifier_hash (rq_public_inputs q)"
    and "find_one (wd_db s) ''withdrawals'' (field_is ''nullifier_hash'' (JStr h)) (snd w) = (Inr x, w1)"
  shows "relay (s\<lparr>wd_executor := ex, wd_rpc := rpc\<rparr>) uid now q w = Some (Inl (nullifier_spent h), fst w, w1)
         \<and> docs w1 = docs (snd w)
         \<and> map_option fst (bagsvault_handler (nullifier_spent h)) = Some 409"
proof -
  note f = mongo.find_one_law [OF assms(1), OF assms(4)]
  obtain d where x: "x = Some d" "field_is ''nullifier_hash'' (JStr h) d"
    using f assms(2) by (cases x) (auto simp: field_is_def)
  have "nullifier_guard (wd_db (s\<lparr>wd_executor := ex, wd_rpc := rpc\<rparr>)) (pi_nullifier_hash (rq_public_inputs q)) (snd w)
      = (Inl (nullifier_spent h), w1)"
    using nullifier_guard_answer [OF assms(4)] assms(3) x field_is_nonempty [OF x(2)] by simp
  from prepare_guard_fails [OF this] f show ?thesis by (simp add: relay_def nullifier_spent_def)
qed

definition demo_service :: "store withdrawal_service" where
  "demo_service = \<lparr>wd_solders = demo_solders,
     wd_settings = default_settings\<lparr>bagsvault_program_id := replicate 32 CHR ''p''\<rparr>,
     wd_pydantic = strict_pydantic, wd_db = list_store,
     wd_files = \<lparr>path_exists = (\<lambda>p. ret False), read_text = (\<lambda>p. ret []),
                 json_loads = (\<lambda>s. Inr JNull), root_dir = ''/srv''\<rparr>,
     wd_executor = None,
     wd_rpc = \<lparr>latest_blockhash = ret (JStr ''bh''), send_tx = (\<lambda>tx b. ret ''sig''),
       simulate_tx = (\<lambda>tx b. ret []), signature_statuses = (\<lambda>sigs h. ret []),
       transaction = (\<lambda>x. ret None), account_info = (\<lambda>p e. ret None)\<rparr>,
     wd_fmt = (\<lambda>j. [])\<rparr>"

definition demo_request :: relay_request where
  "demo_request = \<lparr>rq_proof = ''0a0b'', rq_public_inputs =
     \<lparr>pi_root = ''0c'', pi_nullifier_hash = ''0d'', pi_recipient = replicate 32 CHR ''r'',
      pi_amount = 1000, pi_token = ''SOL''\<rparr>\<rparr>"

definition demo_withdrawal :: withdrawal where
  "demo_withdrawal = withdrawal_record ''w0'' 5 demo_request (demo_relayer ''u2'' ''n2'' 99) ''sig0''"

definition demo_relay_signer :: signer where
  "demo_relay_signer = (new_signer None None)\<lparr>sg_keypair := Some (replicate 64 1)\<rparr>"

lemma demo_nullifier [simp]: "w_nullifier_hash demo_withdrawal = ''0d''"
  "pi_nullifier_hash (rq_public_inputs demo_request) = ''0d''"
  by (simp_all add: demo_withdrawal_def withdrawal_record_def demo_request_def Let_def)

lemma demo_service_simps [simp]: "wd_db demo_service = list_store"
  by (simp add: demo_service_def)

theorem double_spend_refused_witness:
  "relay demo_service ''w1'' 9 demo_request
     (demo_relay_signer, demo_registry(''withdrawals'' := [withdrawal_to_doc demo_withdrawal]))
   = Some (Inl (nullifier_spent ''0d''), demo_relay_signer,
       demo_registry(''withdrawals'' := [withdrawal_to_doc demo_withdrawal]))"
proof -
  let ?w = "(demo_relay_signer, demo_registry(''withdrawals'' := [withdrawal_to_doc demo_withdrawal]))"
  have m: "mongo (wd_db demo_service) (\<lambda>s. s) json_le" using lists.mongo_axioms by simp
  have d: "\<exists>d \<in> set (snd ?w ''withdrawals''). jget d ''nullifier_hash'' = JStr ''0d''" by simp
  have f: "find_one (wd_db demo_service) ''withdrawals'' (field_is ''nullifier_hash'' (JStr ''0d'')) (snd ?w)
      = (Inr (Some (withdrawal_to_doc demo_withdrawal)), snd ?w)"
    by (simp add: list_store_def field_is_def)
  have "demo_service\<lparr>wd_executor := wd_executor demo_service, wd_rpc := wd_rpc demo_service\<rparr> = demo_service" by simp
  with double_spend_refused [OF m d _ f, of demo_request "wd_rpc demo_service" "wd_executor demo_service" "''w1''" 9]
  show ?thesis by simp
qed

text \<open>A failed relay stores nothing. Whatever stage raises - the guard, the configuration, the registry,
  the request's encoding, the key file, the builder, the node or the confirmation - the
  database is as it was, when the files, the node and the clock leave the database alone.\<close>

theorem failed_relay_stores_nothing:
  assumes "mongo (wd_db s) docs le"
    and "environment_keeps (\<lambda>w1. docs w1 = docs (snd w)) s"
    and "relay s uid now q w = Some (Inl e, w')"
  shows "docs (snd w') = docs (snd w)"
proof -
  obtain o1 w1 where p: "relay_prepare s uid now q w = (o1, w1)" by (rule prod.exhaust)
  from keepsD [OF keeps_prepare_relay [OF assms(1,2)] refl p] have 1: "docs (snd w1) = docs (snd w)" .
  show ?thesis
  proof (cases o1)
    case (Inl a)
    with p assms(3) 1 show ?thesis by (simp add: relay_def)
  next
    case (Inr t)
    obtain r pk ix where t: "t = (r, pk, ix)" by (metis prod_cases3)
    obtain o2 w2 where b: "relay_broadcast s pk ix w1 = Some (o2, w2)"
      using assms(3) p Inr t by (cases "relay_broadcast s pk ix w1") (auto simp: relay_def)
    have 2: "docs (snd w2) = docs (snd w)" by (rule broadcast_keeps [OF assms(2) 1 b])
    show ?thesis
    proof (cases o2)
      case (Inl a)
      with p assms(3) Inr t b 2 show ?thesis by (simp add: relay_def)
    next
      case (Inr sg)
      obtain v where "relay_persist (wd_db s) (withdrawal_record uid now q r sg) (snd w2) = (Inr (), v)"
        using persist_returns [of "wd_db s" "withdrawal_record uid now q r sg" "snd w2"] by blast
      with p assms(3) \<open>o1 = Inr t\<close> t b Inr show ?thesis by (simp add: relay_def andthen_def on_snd_def)
    qed
  qed
qed

lemma demo_environment: "environment_keeps I demo_service"
  by (simp add: environment_keeps_def demo_service_def files_keep_def keeps_ret)

theorem failed_relay_stores_nothing_witness:
  "\<exists>e w'. relay demo_service ''w1'' 9 (demo_request\<lparr>rq_proof := ''zz''\<rparr>) (demo_relay_signer, demo_registry) = Some (Inl e, w')
     \<and> snd w' = demo_registry"
proof -
  have m: "mongo (wd_db demo_service) (\<lambda>s. s) json_le" using lists.mongo_axioms by simp
  have "hex_to_bytes ''zz'' l = Inl (Domain ValidationError (''Invalid hex value for '' @ l @ ''.'')
      [(''field'', JStr l), (''error'', JStr ''Non-hexadecimal digit found'')])" for l
    by (simp add: hex_to_bytes_def strip_0x_def startswith_def lower_def lower_char_def py_unhexlify_def) code_simp
  then have "request_args sol cfg (demo_request\<lparr>rq_proof := ''zz''\<rparr>) = Inl (Domain ValidationError (''Invalid hex value for '' @ ''proof'' @ ''.'')
      [(''field'', JStr ''proof''), (''error'', JStr ''Non-hexadecimal digit found'')])" for sol cfg
    by (simp add: request_args_def Let_def)
  then obtain e w' where r: "relay demo_service ''w1'' 9 (demo_request\<lparr>rq_proof := ''zz''\<rparr>) (demo_relay_signer, demo_registry) = Some (Inl e, w')"
    by (cases "relay_prepare demo_service ''w1'' 9 (demo_request\<lparr>rq_proof := ''zz''\<rparr>) (demo_relay_signer, demo_registry)"; cases "fst (relay_prepare demo_service ''w1'' 9 (demo_request\<lparr>rq_proof := ''zz''\<rparr>) (demo_relay_signer, demo_registry))")
       (auto simp: relay_def relay_prepare_def Let_def elim!: andthen_InrE)
  with failed_relay_stores_nothing [OF m demo_environment r] show ?thesis by auto
qed

text \<open>C6. What a successful relay has done. The nullifier was in no stored withdrawal, as spelled; the fee it
  reports is that of a registered relayer, between 0 and 10000 basis points; and the withdrawals
  are as before or longer by one document, which carries the request, that relayer and
  exactly the signature that is reported. The first case is the insert that failed, which is
  logged and not raised.\<close>

theorem successful_relay_records:
  assumes "mongo (wd_db s) docs le" and "pydantic_laws (wd_pydantic s)"
    and "environment_keeps (\<lambda>w1. docs w1 = docs (snd w)) s"
    and "registry_ok (docs (snd w) ''relayers'')" and "[] \<notin> set (docs (snd w) ''withdrawals'')"
    and "relay s uid now q w = Some (Inr resp, w')"
  shows "\<exists>r. relayer_to_doc r \<in> set (docs (snd w) ''relayers'')
     \<and> resp = \<lparr>rr_signature = rr_signature resp, rr_status = ''submitted'', rr_fee_bps = r_fee_bps r\<rparr>
     \<and> 0 \<le> r_fee_bps r \<and> r_fee_bps r \<le> 10000
     \<and> (\<forall>x. withdrawal_to_doc x \<in> set (docs (snd w) ''withdrawals'') \<longrightarrow>
            w_nullifier_hash x \<noteq> pi_nullifier_hash (rq_public_inputs q))
     \<and> (docs (snd w') ''withdrawals'' = docs (snd w) ''withdrawals'' \<or>
          (\<exists>d. docs (snd w') ''withdrawals'' = docs (snd w) ''withdrawals'' @ [d]
             \<and> jget d ''tx_signature'' = JStr (rr_signature resp)
             \<and> jget d ''nullifier_hash'' = JStr (pi_nullifier_hash (rq_public_inputs q))
             \<and> jget d ''recipient'' = JStr (pi_recipient (rq_public_inputs q))
             \<and> jget d ''amount'' = JInt (pi_amount (rq_public_inputs q))
             \<and> jget d ''relayer_id'' = JStr (r_relayer_id r)))"
proof -
  obtain r pk ix w1 sg w2 where p: "relay_prepare s uid now q w = (Inr (r, pk, ix), w1)"
    and b: "relay_broadcast s pk ix w1 = Some (Inr sg, w2)"
    and pe: "relay_persist (wd_db s) (withdrawal_record uid now q r sg) (snd w2) = (Inr (), snd w')"
    and resp: "resp = \<lparr>rr_signature = sg, rr_status = ''submitted'', rr_fee_bps = r_fee_bps r\<rparr>"
    by (rule relay_success [OF assms(6)])
  from p obtain w3 w4 where
    g: "nullifier_guard (wd_db s) (pi_nullifier_hash (rq_public_inputs q)) (snd w) = (Inr (), w3)"
    and pb: "pick_best (wd_pydantic s) (wd_db s) uid now w3 = (Inr r, w4)"
    by (rule relay_prepare_success)
  note gp = guard_passes [OF assms(1) g]
  from pick_best_found [OF assms(1,2) _ pb] gp assms(4)
  have r: "relayer_to_doc r \<in> set (docs (snd w) ''relayers'')" by simp
  with assms(4) obtain r' where "relayer_ok r'" "relayer_to_doc r = relayer_to_doc r'" by (auto simp: registry_ok_def)
  then have ok: "relayer_ok r"
using relayer_to_doc_inj by blast
  have 1: "docs (snd w1) = docs (snd w)" by (rule keepsD [OF keeps_prepare_relay [OF assms(1,3)] refl p])
  have 2: "docs (snd w2) = docs (snd w)" by (rule broadcast_keeps [OF assms(3) 1 b])
  from persist_outcome [OF assms(1) pe] 2 r ok gp assms(5) resp show ?thesis
    by (intro exI [of _ r]) (auto simp: relayer_ok_def withdrawal_record_def Let_def)
qed

lemma demo_pick_best:
  "pick_best strict_pydantic list_store [] 0 demo_registry = (Inr (demo_relayer ''u2'' ''n2'' 99), demo_registry)"
proof -
  have "sort_field ''uptime'' = (''uptime_pct'', -1)" by (simp add: sort_field_cases)
  moreover have "r_uptime_pct (demo_relayer a b c) = c" for a b c by (simp add: demo_relayer_def)
  ultimately show ?thesis
    by (simp add: pick_best_def list_active_def list_store_def demo_registry_def ls_sort_def json_ord_def
        andthen_def relayer_from_doc_to_doc [OF strict.pydantic_laws_axioms])
qed

lemma demo_request_args:
  "request_args demo_solders cfg demo_request
     = Inr ([10, 11], [12], [13], ascii (replicate 32 CHR ''r''), replicate 32 0)"
proof -
  have "py_unhexlify ''0a0b'' = Inr [10, 11]" "py_unhexlify ''0c'' = Inr [12]" "py_unhexlify ''0d'' = Inr [13]"
    by code_simp+
  moreover have "strip_0x ''0a0b'' = ''0a0b''" "strip_0x ''0c'' = ''0c''" "strip_0x ''0d'' = ''0d''" by code_simp+
  ultimately have "hex_to_bytes ''0a0b'' l = Inr [10, 11]" "hex_to_bytes ''0c'' l = Inr [12]"
    "hex_to_bytes ''0d'' l = Inr [13]" for l
    by (simp_all add: hex_to_bytes_def)
  moreover have "decode_recipient demo_solders (replicate 32 CHR ''r'') = Inr (ascii (replicate 32 CHR ''r''))"
    by (simp add: decode_recipient_def demo_solders_def)
  ultimately show ?thesis
    by (simp add: request_args_def demo_request_def Let_def resolve_token_mint_def SOL_TOKEN_SENTINEL_def)
       (simp add: demo_solders_def)
qed

lemma demo_program_id:
  "parse_program_id demo_solders (wd_settings demo_service) = Inr (ascii (replicate 32 CHR ''p''))"
  by (simp add: parse_program_id_def demo_service_def demo_solders_def)

lemma demo_pubkey_obj:
  "pubkey_obj sol fs cfg (demo_relay_signer, w) = (Inr (keypair_pubkey sol (replicate 64 1)), demo_relay_signer, w)"
  by (simp add: pubkey_obj_def andthen_def next_keypair_def load_def Let_def demo_relay_signer_def new_signer_def)

lemma demo_relay_inline:
  "relay_inline demo_service (keypair_pubkey demo_solders (replicate 64 1)) ix (demo_relay_signer, w)
     = (Inr ''sig'', demo_relay_signer, w)"
  by (simp add: relay_inline_def demo_service_def wrap_foreign_def catching_def andthen_def coerce_blockhash_def
      build_and_sign_def next_keypair_def load_def Let_def demo_relay_signer_def new_signer_def demo_solders_def)

lemma demo_prepare:
  "\<exists>ix. relay_prepare demo_service [] 0 demo_request (demo_relay_signer, demo_registry) =
     (Inr (demo_relayer ''u2'' ''n2'' 99, keypair_pubkey demo_solders (replicate 64 1), ix), demo_relay_signer, demo_registry)"
proof -
  let ?a = "\<lparr>wa_program_id = ascii (replicate 32 CHR ''p''), wa_token_mint = replicate 32 0,
      wa_recipient = ascii (replicate 32 CHR ''r''), wa_relayer = keypair_pubkey demo_solders (replicate 64 1),
      wa_proof_bytes = [10, 11], wa_root_bytes = [12], wa_nullifier_bytes = [13],
      wa_amount = pi_amount (rq_public_inputs demo_request)\<rparr>"
  have "withdraw_fits ?a" by (simp add: withdraw_fits_def demo_request_def)
  then obtain ix where ix: "build_withdraw_ix_for_pool demo_solders ?a = Inr ix"
    using build_for_pool_total [of ?a demo_solders] by (auto simp: demo_request_def)
  have g: "nullifier_guard list_store ''0d'' demo_registry = (Inr (), demo_registry)"
    by (simp add: nullifier_guard_def andthen_def list_store_def demo_registry_def)
  have s: "wd_solders demo_service = demo_solders" "wd_pydantic demo_service = strict_pydantic"
    by (simp_all add: demo_service_def)
  show ?thesis
    using ix by (simp add: relay_prepare_def Let_def s andthen_def on_snd_def g demo_program_id demo_pick_best
        demo_request_args demo_pubkey_obj)
qed

theorem successful_relay_records_witness:
  "\<exists>resp w'. relay demo_service [] 0 demo_request (demo_relay_signer, demo_registry) = Some (Inr resp, w')
     \<and> rr_fee_bps resp \<le> 10000
     \<and> (snd w' ''withdrawals'' = [] \<or>
          (\<exists>d. snd w' ''withdrawals'' = [d] \<and> jget d ''tx_signature'' = JStr ''sig''))"
proof -
  obtain ix where p: "relay_prepare demo_service [] 0 demo_request (demo_relay_signer, demo_registry) =
     (Inr (demo_relayer ''u2'' ''n2'' 99, keypair_pubkey demo_solders (replicate 64 1), ix), demo_relay_signer, demo_registry)"
    using demo_prepare by blast
  have b: "relay_broadcast demo_service (keypair_pubkey demo_solders (replicate 64 1)) ix (demo_relay_signer, demo_registry)
      = Some (Inr ''sig'', demo_relay_signer, demo_registry)"
    using demo_relay_inline [of ix demo_registry] by (simp add: relay_broadcast_def) (simp add: demo_service_def)
  let ?rec = "withdrawal_record [] 0 demo_request (demo_relayer ''u2'' ''n2'' 99) ''sig''"
  obtain v where v: "relay_persist (wd_db demo_service) ?rec demo_registry = (Inr (), v)"
    using persist_returns [of "wd_db demo_service" ?rec demo_registry] by blast
  have r: "relay demo_service [] 0 demo_request (demo_relay_signer, demo_registry) =
      Some (Inr \<lparr>rr_signature = ''sig'', rr_status = ''submitted'', rr_fee_bps = r_fee_bps (demo_relayer ''u2'' ''n2'' 99)\<rparr>,
        demo_relay_signer, v)"
    using v by (simp add: relay_def p b andthen_def on_snd_def active_fee_bps_def)
  have m: "mongo (wd_db demo_service) (\<lambda>s. s) json_le" "pydantic_laws (wd_pydantic demo_service)"
    using lists.mongo_axioms strict.pydantic_laws_axioms by (simp_all add: demo_service_def)
  have "[] \<notin> set (demo_registry ''withdrawals'')" by (simp add: demo_registry_def)
  from successful_relay_records [OF m demo_environment _ _ r] demo_registry_ok this
  have "v ''withdrawals'' = [] \<or> (\<exists>d. v ''withdrawals'' = [d] \<and> jget d ''tx_signature'' = JStr ''sig'')"
    "r_fee_bps (demo_relayer ''u2'' ''n2'' 99) \<le> 10000"
    by (auto simp: demo_registry_def)
  with r show ?thesis by auto
qed

definition respelled :: "relay_request \<Rightarrow> relay_request" where
  "respelled q = q\<lparr>rq_public_inputs := (rq_public_inputs q)
     \<lparr>pi_nullifier_hash := ''0x'' @ pi_nullifier_hash (rq_public_inputs q)\<rparr>\<rparr>"

text \<open>The guard compares spellings, not nullifiers. Two requests that differ only in a "0x" in front of
  the nullifier decode to the same instruction arguments, so both spend the same on-chain
  nullifier account; yet when only the first spelling is stored, the guard stops the first
  and lets the second pass.\<close>

theorem guard_misses_respelled:
  assumes "mongo db docs le"
    and "\<exists>d \<in> set (docs w ''withdrawals''). jget d ''nullifier_hash'' = JStr h"
    and "\<forall>d \<in> set (docs w ''withdrawals''). jget d ''nullifier_hash'' \<noteq> JStr (''0x'' @ h)"
    and "\<forall>P. \<exists>x w1. find_one db ''withdrawals'' P w = (Inr x, w1)"
    and "h = pi_nullifier_hash (rq_public_inputs q)" and "\<not> startswith (lower h) ''0x''"
  shows "request_args sol cfg (respelled q) = request_args sol cfg q
     \<and> fst (nullifier_guard db (pi_nullifier_hash (rq_public_inputs q)) w) = Inl (nullifier_spent h)
     \<and> fst (nullifier_guard db (pi_nullifier_hash (rq_public_inputs (respelled q))) w) = Inr ()"
proof -
  have "hex_to_bytes (''0x'' @ h) l = hex_to_bytes h l" for l
    using assms(6) by (simp add: hex_to_bytes_def) (simp add: strip_0x_def)
  then have args: "request_args sol cfg (respelled q) = request_args sol cfg q"
    using assms(5) by (simp add: request_args_def respelled_def Let_def)
  obtain x1 w1 where f1: "find_one db ''withdrawals'' (field_is ''nullifier_hash'' (JStr h)) w = (Inr x1, w1)"
    using assms(4) by blast
  obtain x2 w2 where f2: "find_one db ''withdrawals'' (field_is ''nullifier_hash'' (JStr (''0x'' @ h))) w = (Inr x2, w2)"
    using assms(4) by blast
  obtain d where "x1 = Some d" "field_is ''nullifier_hash'' (JStr h) d"
    using mongo.find_one_law [OF assms(1), OF f1] assms(2) by (cases x1) (auto simp: field_is_def)
  moreover have "x2 = None"
    using mongo.find_one_law [OF assms(1), OF f2] assms(3) by (cases x2) (auto simp: field_is_def)
  ultimately show ?thesis
    using args nullifier_guard_answer [OF f1] nullifier_guard_answer [OF f2] field_is_nonempty assms(5)
    by (auto simp: respelled_def)
qed

theorem guard_misses_respelled_witness:
  "fst (nullifier_guard list_store (pi_nullifier_hash (rq_public_inputs (respelled demo_request)))
          (demo_registry(''withdrawals'' := [withdrawal_to_doc demo_withdrawal]))) = Inr ()"
proof -
  let ?w = "demo_registry(''withdrawals'' := [withdrawal_to_doc demo_withdrawal])"
  have 1: "\<exists>d \<in> set (?w ''withdrawals''). jget d ''nullifier_hash'' = JStr ''0d''" by simp
  have 2: "\<forall>d \<in> set (?w ''withdrawals''). jget d ''nullifier_hash'' \<noteq> JStr (''0x'' @ ''0d'')" by simp
  have 3: "\<forall>P. \<exists>x w1. find_one list_store ''withdrawals'' P ?w = (Inr x, w1)" by (simp add: list_store_def)
  have 4: "\<not> startswith (lower ''0d'') ''0x''" by (simp add: startswith_def lower_def lower_char_def)
  from guard_misses_respelled [OF lists.mongo_axioms 1 2 3 _ 4, of demo_request] show ?thesis by simp
qed

text \<open>The listing does not tell who was paid. On a store of lists, replacing the recipient, the nullifier or the
  record id of every stored withdrawal by any value leaves the page that \<open>list_recent\<close> returns
  unchanged, item by item, for every limit and every registry.\<close>

theorem listing_hides_recipient:
  assumes "wd_db s = list_store" and "k \<in> {''id'', ''nullifier_hash'', ''recipient''}"
  shows "fst (list_recent s now limit (st(''withdrawals'' := map (set_field k v) (st ''withdrawals''))))
         = fst (list_recent s now limit st)"
proof -
  have k: "k \<in> set hidden_fields" "k \<noteq> ''created_at''" "k \<noteq> ''relayer_id''"
    using assms(2) by (auto simp: hidden_fields_def)
  have "map (\<lambda>d. jget d ''relayer_id'') (map (set_field k v) ds) = map (\<lambda>d. jget d ''relayer_id'') ds" for ds
    using k by simp
  moreover have "map (recent_item_of f py now ns) (map (set_field k v) ds) = map (recent_item_of f py now ns) ds" for f py ns ds
    using recent_item_hidden [OF k(1)] by simp
  ultimately show ?thesis using assms(1) k
    by (simp add: list_recent_def Let_def andthen_def list_store_def ls_sort_hidden take_map del: map_map)
qed

theorem listing_hides_recipient_witness:
  "fst (list_recent demo_service 9 10 (demo_registry(''withdrawals'' :=
       map (set_field ''recipient'' JNull) [withdrawal_to_doc demo_withdrawal])))
   = fst (list_recent demo_service 9 10 (demo_registry(''withdrawals'' := [withdrawal_to_doc demo_withdrawal])))"
  using listing_hides_recipient [of demo_service "''recipient''" 9 10
    "demo_registry(''withdrawals'' := [withdrawal_to_doc demo_withdrawal])" JNull] by simp

end
