(* ===== verification/ZkProof.thy ===== *)
theory ZkProof
  imports MerkleTree Withdrawal
begin

text \<open>
  \<open>backend/app/services/zk_proof_service.py\<close> and \<open>backend/app/routers/proofs.py\<close>:
  the public inputs of a withdraw proof, its witness file, and the toolchain run.
  The Poseidon libraries, the file system and the two programs are parameters.
\<close>

section \<open>Field elements\<close>

definition BN254_R :: int where
  "BN254_R = 21888242871839275222246405745257275088548364400416034343698204186575808495617"

definition be32 :: "int \<Rightarrow> bytes" where
  "be32 v = rev (le_bytes 32 (nat v))"

definition hex32 :: "int \<Rightarrow> string res" where
  "hex32 v =
     (if v < 0 then Inl (Other ''ValueError'' ''field element must be non-negative'')
      else Inr (''0x'' @ to_hex (be32 (v mod BN254_R))))"

definition bytes_to_field :: "bytes \<Rightarrow> int" where
  "bytes_to_field raw = int (be_nat raw) mod BN254_R"

definition field_to_bytes32 :: "int \<Rightarrow> bytes" where
  "field_to_bytes32 v = be32 (v mod BN254_R)"

section \<open>Hashing\<close>

text \<open>
  \<open>_select_backend\<close> takes the first library that imports; \<open>lib\<close> is what the two
  libraries compute, by backend name.
\<close>

record hasher =
  backend :: string
  lib :: "string \<Rightarrow> int list \<Rightarrow> int"

definition select_backend :: "(string \<Rightarrow> bool) \<Rightarrow> string" where
  "select_backend importable =
     (if importable ''poseidon_hash'' then ''poseidon_hash''
      else if importable ''poseidon'' then ''poseidon_py'' else ''fallback'')"

definition fallback_hash :: "int list \<Rightarrow> int" where
  "fallback_hash inputs = bytes_to_field (sha256 (concat (map field_to_bytes32 inputs)))"

definition poseidon :: "hasher \<Rightarrow> int list \<Rightarrow> int" where
  "poseidon h inputs =
     (if backend h = ''poseidon_hash'' \<or> backend h = ''poseidon_py''
      then lib h (backend h) inputs mod BN254_R else fallback_hash inputs)"

definition zk_commitment :: "hasher \<Rightarrow> int \<Rightarrow> int \<Rightarrow> int \<Rightarrow> int" where
  "zk_commitment h nullifier secret amount = poseidon h [nullifier, secret, amount]"

definition zk_nullifier_hash :: "hasher \<Rightarrow> int \<Rightarrow> int \<Rightarrow> int" where
  "zk_nullifier_hash h nullifier leaf_index = poseidon h [nullifier, leaf_index]"

fun walk_path :: "hasher \<Rightarrow> int \<Rightarrow> (int \<times> int) list \<Rightarrow> int" where
  "walk_path h current [] = current"
| "walk_path h current ((sib, side) # rest) =
     walk_path h (if side = 1 then poseidon h [current, sib] else poseidon h [sib, current]) rest"

definition merkle_root_from_path :: "hasher \<Rightarrow> int \<Rightarrow> int list \<Rightarrow> int list \<Rightarrow> int res" where
  "merkle_root_from_path h leaf path is_left =
     (if length path \<noteq> length is_left
      then Inl (Other ''ValueError'' ''merkle path and is_left must have equal length'')
      else Inr (walk_path h leaf (zip path is_left)))"

section \<open>The witness file\<close>

record proof_input =
  zp_nullifier :: int
  zp_secret :: int
  zp_amount :: int
  zp_leaf_index :: int
  zp_merkle_path :: "int list"
  zp_is_left :: "int list"
  zp_recipient :: bytes
  zp_relayer :: bytes
  zp_fee_bps :: int

record proof_result =
  zr_proof_hex :: string
  zr_root_hex :: string
  zr_nullifier_hash_hex :: string
  zr_commitment_hex :: string
  zr_public_inputs_hex :: "string list"

fun hex_all :: "int list \<Rightarrow> string list res" where
  "hex_all [] = Inr []"
| "hex_all (v # vs) = rbind (hex32 v) (\<lambda>s. rbind (hex_all vs) (\<lambda>ss. Inr (s # ss)))"

definition quoted :: "string \<Rightarrow> string" where
  "quoted s = CHR 0x22 # s @ [CHR 0x22]"

fun join :: "string \<Rightarrow> string list \<Rightarrow> string" where
  "join sep [] = []"
| "join sep [s] = s"
| "join sep (s # ss) = s @ sep @ join sep ss"

text \<open>The first field that is negative raises; the order is that of the source.\<close>

definition render_prover_toml :: "proof_input \<Rightarrow> int \<Rightarrow> int \<Rightarrow> string res" where
  "render_prover_toml p root_el nullifier_hash =
     (let line = (\<lambda>name v. name @ '' = '' @ quoted v) in
      rbind (hex_all (zp_merkle_path p)) (\<lambda>path_hex.
      rbind (hex32 root_el) (\<lambda>root_hex.
      rbind (hex32 nullifier_hash) (\<lambda>nullifier_hash_hex.
      rbind (hex32 (bytes_to_field (zp_recipient p))) (\<lambda>recipient_hex.
      rbind (hex32 (bytes_to_field (zp_relayer p))) (\<lambda>relayer_hex.
      rbind (hex32 (zp_nullifier p)) (\<lambda>nullifier_hex.
      rbind (hex32 (zp_secret p)) (\<lambda>secret_hex.
      Inr (join [CHR 0x0A]
        [line ''root'' root_hex, line ''nullifier_hash'' nullifier_hash_hex, line ''recipient'' recipient_hex,
         line ''amount'' (int_str (zp_amount p)), line ''relayer'' relayer_hex,
         line ''fee_bps'' (int_str (zp_fee_bps p)), [],
         line ''nullifier'' nullifier_hex, line ''secret'' secret_hex,
         line ''leaf_index'' (int_str (zp_leaf_index p)),
         ''merkle_path = ['' @ join '', '' (map quoted path_hex) @ '']'',
         ''is_left = ['' @ join '', '' (map (\<lambda>b. quoted (int_str b)) (zp_is_left p)) @ '']'', []])))))))))"

section \<open>The toolchain\<close>

text \<open>
  \<open>run_cmd\<close> is a subprocess: return code, stdout and stderr as text. \<open>make_scratch\<close> creates the
  temporary directory with the witness file, \<open>drop_scratch\<close> removes it, and \<open>make_workspace\<close> copies
  the circuit directory and the witness file into it.
\<close>

record 'w toolchain =
  which :: "string \<Rightarrow> (bool, 'w) io"
  circuit_exists :: "(bool, 'w) io"
  make_scratch :: "string \<Rightarrow> (unit, 'w) io"
  drop_scratch :: "(unit, 'w) io"
  make_workspace :: "(unit, 'w) io"
  run_cmd :: "string list \<Rightarrow> (int \<times> string \<times> string, 'w) io"
  proof_exists :: "(bool, 'w) io"
  read_proof :: "(bytes, 'w) io"

record 'w zk_service =
  zk_hasher :: hasher
  zk_tools :: "'w toolchain"
  zk_nargo :: string
  zk_bb :: string
  zk_stub_mode :: bool
  zk_dir :: string

text \<open>\<open>__init__\<close>: arguments first, then the settings, then the default names.\<close>

definition first_nonempty :: "string option \<Rightarrow> string \<Rightarrow> string \<Rightarrow> string" where
  "first_nonempty arg setting dflt =
     (case arg of Some s \<Rightarrow> if s \<noteq> [] then s else if setting \<noteq> [] then setting else dflt
                | None \<Rightarrow> if setting \<noteq> [] then setting else dflt)"

definition new_zk_service ::
  "settings \<Rightarrow> hasher \<Rightarrow> 'w toolchain \<Rightarrow> string option \<Rightarrow> string option \<Rightarrow> string option \<Rightarrow> bool option
     \<Rightarrow> 'w zk_service" where
  "new_zk_service cfg h tools circuit_dir nargo_bin bb_bin stub =
     \<lparr>zk_hasher = h, zk_tools = tools,
      zk_nargo = first_nonempty nargo_bin (zk_nargo_bin cfg) ''nargo'',
      zk_bb = first_nonempty bb_bin (zk_bb_bin cfg) ''bb'',
      zk_stub_mode = (case stub of Some b \<Rightarrow> b | None \<Rightarrow> zk_proof_stub_mode cfg),
      zk_dir = (case circuit_dir of Some d \<Rightarrow> d | None \<Rightarrow> zk_circuit_dir cfg)\<rparr>"

definition PROOF_BYTE_LEN :: nat where "PROOF_BYTE_LEN = 256"

definition toolchain_available :: "'w zk_service \<Rightarrow> (bool, 'w) io" where
  "toolchain_available s =
     andthen (which (zk_tools s) (zk_nargo s)) (\<lambda>a.
       if \<not> a then ret False else which (zk_tools s) (zk_bb s))"

definition exec :: "'w toolchain \<Rightarrow> string list \<Rightarrow> (unit, 'w) io" where
  "exec t cmd =
     andthen (run_cmd t cmd) (\<lambda>(code, out, err).
       if code \<noteq> 0
       then throw (upstream ''Subprocess exited non-zero during proof generation.''
              [(''cmd'', JStr (join '' '' cmd)), (''returncode'', JInt code),
               (''stdout'', JStr (last_n 500 out)), (''stderr'', JStr (last_n 500 err))])
       else ret ())"

definition run_toolchain :: "'w zk_service \<Rightarrow> (bytes, 'w) io" where
  "run_toolchain s =
     (let t = zk_tools s in
      andthen (make_workspace t) (\<lambda>_.
      andthen (exec t [zk_nargo s, ''execute'', ''bagsvault_withdraw'']) (\<lambda>_.
      andthen (exec t [zk_bb s, ''prove'', ''-b'', ''./target/bagsvault_withdraw.json'',
                 ''-w'', ''./target/bagsvault_withdraw.gz'', ''-o'', ''./target/proof'']) (\<lambda>_.
      andthen (proof_exists t) (\<lambda>ex.
        if ex then read_proof t
        else throw (upstream ''Proof toolchain finished but proof file is missing.''
               [(''path'', JStr ''target/proof'')]))))))"

definition stub_proof :: string where
  "stub_proof = ''0x'' @ to_hex (replicate PROOF_BYTE_LEN 0)"

text \<open>The end of the \<open>with\<close> block: the directory is removed, on an exception as well.\<close>

definition with_scratch :: "'w toolchain \<Rightarrow> ('a, 'w) io \<Rightarrow> ('a, 'w) io" where
  "with_scratch t body =
     andthen (catching body (\<lambda>e. andthen (drop_scratch t) (\<lambda>_. throw e))) (\<lambda>r.
     andthen (drop_scratch t) (\<lambda>_. ret r))"

definition produce_proof_bytes ::
  "'w zk_service \<Rightarrow> proof_input \<Rightarrow> int \<Rightarrow> int \<Rightarrow> (string, 'w) io" where
  "produce_proof_bytes s p root_el nullifier_hash =
     andthen (if zk_stub_mode s then ret True
              else andthen (toolchain_available s) (\<lambda>a. ret (\<not> a))) (\<lambda>stub.
       if stub then ret stub_proof
       else
         andthen (circuit_exists (zk_tools s)) (\<lambda>ex.
           if \<not> ex then throw (Domain ServiceUnavailableError ''ZK circuit directory does not exist.''
                           [(''circuit_dir'', JStr (zk_dir s))])
           else
             andthen (pure (render_prover_toml p root_el nullifier_hash)) (\<lambda>toml.
             andthen (make_scratch (zk_tools s) toml) (\<lambda>_.
             andthen (with_scratch (zk_tools s) (catching (run_toolchain s)
                        (\<lambda>exc. throw (upstream ''Proof toolchain failed.'' [(''error'', JStr (exn_str exc))]))))
               (\<lambda>proof_bytes.
                  if length proof_bytes \<noteq> PROOF_BYTE_LEN
                  then throw (upstream ''Proof toolchain produced a proof with unexpected length.''
                         [(''expected'', JInt (int PROOF_BYTE_LEN)),
                          (''actual'', JInt (int (length proof_bytes)))])
                  else ret (''0x'' @ to_hex proof_bytes))))))"

section \<open>Proof generation\<close>

definition public_input_vector :: "hasher \<Rightarrow> proof_input \<Rightarrow> int \<Rightarrow> int list" where
  "public_input_vector h p root_el =
     [root_el, zk_nullifier_hash h (zp_nullifier p) (zp_leaf_index p), bytes_to_field (zp_recipient p),
      zp_amount p, bytes_to_field (zp_relayer p), zp_fee_bps p]"

definition generate_withdraw_proof :: "'w zk_service \<Rightarrow> proof_input \<Rightarrow> (proof_result, 'w) io" where
  "generate_withdraw_proof s p =
     (let h = zk_hasher s;
          commitment = zk_commitment h (zp_nullifier p) (zp_secret p) (zp_amount p);
          nullifier_hash = zk_nullifier_hash h (zp_nullifier p) (zp_leaf_index p) in
      andthen (pure (merkle_root_from_path h commitment (zp_merkle_path p) (zp_is_left p))) (\<lambda>root_el.
      andthen (pure (hex_all (public_input_vector h p root_el))) (\<lambda>public_inputs_hex.
      andthen (produce_proof_bytes s p root_el nullifier_hash) (\<lambda>proof_hex.
      andthen (pure (hex32 root_el)) (\<lambda>root_hex.
      andthen (pure (hex32 nullifier_hash)) (\<lambda>nullifier_hash_hex.
      andthen (pure (hex32 commitment)) (\<lambda>commitment_hex.
      ret \<lparr>zr_proof_hex = proof_hex, zr_root_hex = root_hex, zr_nullifier_hash_hex = nullifier_hash_hex,
           zr_commitment_hex = commitment_hex, zr_public_inputs_hex = public_inputs_hex\<rparr>)))))))"

section \<open>The router\<close>

text \<open>\<open>int(s, 16)\<close>: a sign, an optional prefix, digits with single underscores between.\<close>

fun hex_int_digits :: "nat \<Rightarrow> bool \<Rightarrow> string \<Rightarrow> nat option" where
  "hex_int_digits acc ok [] = (if ok then Some acc else None)"
| "hex_int_digits acc ok (c # s) =
     (case hex_value c of
        Some v \<Rightarrow> hex_int_digits (16 * acc + v) True s
      | None \<Rightarrow> if c = CHR ''_'' \<and> ok then hex_int_digits acc False s else None)"

definition hex_body :: "string \<Rightarrow> nat option" where
  "hex_body s =
     (if startswith (lower s) ''0x''
      then (case drop 2 s of
              [] \<Rightarrow> None
            | c # r \<Rightarrow> if c = CHR ''_'' then hex_int_digits 0 False r else hex_int_digits 0 False (c # r))
      else hex_int_digits 0 False s)"

definition int_base16 :: "string \<Rightarrow> int option" where
  "int_base16 s =
     (case strip s of
        [] \<Rightarrow> None
      | c # r \<Rightarrow> if c = CHR ''-'' then map_option (\<lambda>n. - int n) (hex_body r)
                 else if c = CHR ''+'' then map_option int (hex_body r)
                 else map_option int (hex_body (c # r)))"

definition strip_hex_prefix :: "string \<Rightarrow> string" where
  "strip_hex_prefix raw =
     (if startswith raw ''0x'' \<or> startswith raw ''0X'' then drop 2 raw else raw)"

definition value_error :: "string \<Rightarrow> exn" where
  "value_error m = Other ''ValueError'' m"

definition hex_to_int :: "string \<Rightarrow> string \<Rightarrow> int res" where
  "hex_to_int value label =
     (let raw = strip_hex_prefix (strip value) in
      if raw = [] then Inl (value_error (label @ '' is empty''))
      else case int_base16 raw of
             Some i \<Rightarrow> Inr i | None \<Rightarrow> Inl (value_error (label @ '' is not valid hex'')))"

definition hex_to_pubkey_bytes :: "solders \<Rightarrow> string \<Rightarrow> string \<Rightarrow> bytes res" where
  "hex_to_pubkey_bytes sol value label =
     (case fromhex (strip_hex_prefix (strip value)) of
        Some bs \<Rightarrow> if length bs = 32 then Inr bs
                   else (case pubkey_from_string sol (strip value) of
                           Inr p \<Rightarrow> Inr p
                         | Inl _ \<Rightarrow> Inl (value_error (label @ '' must be base58 pubkey or 32-byte hex'')))
      | None \<Rightarrow> (case pubkey_from_string sol (strip value) of
                   Inr p \<Rightarrow> Inr p
                 | Inl _ \<Rightarrow> Inl (value_error (label @ '' must be base58 pubkey or 32-byte hex''))))"

fun hex_ints :: "string list \<Rightarrow> string \<Rightarrow> int list res" where
  "hex_ints [] label = Inr []"
| "hex_ints (v # vs) label = rbind (hex_to_int v label) (\<lambda>i. rbind (hex_ints vs label) (\<lambda>is. Inr (i # is)))"

definition derive_commitment :: "hasher \<Rightarrow> string \<Rightarrow> string \<Rightarrow> int \<Rightarrow> (string \<times> string \<times> string) res" where
  "derive_commitment h nullifier_hex secret_hex amount =
     rbind (hex_to_int nullifier_hex ''nullifier'') (\<lambda>nullifier.
     rbind (hex_to_int secret_hex ''secret'') (\<lambda>secret.
     Inr (''0x'' @ to_hex (be32 (zk_commitment h nullifier secret amount)),
          ''0x'' @ to_hex (be32 (nullifier mod 2 ^ 256)),
          ''0x'' @ to_hex (be32 (secret mod 2 ^ 256)))))"

record proof_request =
  pr_nullifier :: string
  pr_secret :: string
  pr_amount :: int
  pr_leaf_index :: int
  pr_merkle_path :: "string list"
  pr_is_left :: "int list"
  pr_recipient :: string
  pr_relayer :: string
  pr_fee_bps :: int

definition proof_request_ok :: "proof_request \<Rightarrow> bool" where
  "proof_request_ok q \<longleftrightarrow> 0 \<le> pr_amount q \<and> 0 \<le> pr_leaf_index q \<and>
     1 \<le> length (pr_merkle_path q) \<and> length (pr_merkle_path q) \<le> 32 \<and>
     1 \<le> length (pr_is_left q) \<and> length (pr_is_left q) \<le> 32 \<and>
     0 \<le> pr_fee_bps q \<and> pr_fee_bps q \<le> 10000"

definition proof_input_of :: "solders \<Rightarrow> proof_request \<Rightarrow> proof_input res" where
  "proof_input_of sol q =
     (if length (pr_merkle_path q) \<noteq> length (pr_is_left q)
      then Inl (value_error ''merkle_path and is_left must have equal length'')
      else
        rbind (hex_to_int (pr_nullifier q) ''nullifier'') (\<lambda>nullifier.
        rbind (hex_to_int (pr_secret q) ''secret'') (\<lambda>secret.
        rbind (hex_ints (pr_merkle_path q) ''merkle_path entry'') (\<lambda>path.
        rbind (hex_to_pubkey_bytes sol (pr_recipient q) ''recipient'') (\<lambda>recipient.
        rbind (hex_to_pubkey_bytes sol (pr_relayer q) ''relayer'') (\<lambda>relayer.
        Inr \<lparr>zp_nullifier = nullifier, zp_secret = secret, zp_amount = pr_amount q,
             zp_leaf_index = pr_leaf_index q, zp_merkle_path = path,
             zp_is_left = map (\<lambda>b. if b \<noteq> 0 then 1 else 0) (pr_is_left q),
             zp_recipient = recipient, zp_relayer = relayer, zp_fee_bps = pr_fee_bps q\<rparr>))))))"

definition withdraw_proof_endpoint ::
  "solders \<Rightarrow> 'w zk_service \<Rightarrow> proof_request \<Rightarrow> (proof_result, 'w) io" where
  "withdraw_proof_endpoint sol s q =
     andthen (pure (proof_input_of sol q)) (\<lambda>p. generate_withdraw_proof s p)"

definition proof_health :: "'w zk_service \<Rightarrow> (bool \<times> bool \<times> string, 'w) io" where
  "proof_health s =
     andthen (toolchain_available s) (\<lambda>a. ret (a, zk_stub_mode s, zk_dir s))"

section \<open>Lemmas\<close>

lemma BN254_R_bounds: "0 < BN254_R" "BN254_R < 2 ^ 256"
  by (simp_all add: BN254_R_def)

lemma length_be32 [simp, byte_simps]: "length (be32 v) = 32"
  by (simp add: be32_def)

lemma be32_value: "0 \<le> v \<Longrightarrow> v < 2 ^ 256 \<Longrightarrow> int (be_nat (be32 v)) = v"
proof -
  assume "0 \<le> v" "v < 2 ^ 256"
  then have "nat v < 2 ^ (8 * 32)" by (simp add: nat_less_iff)
  then have "le_nat (le_bytes 32 (nat v)) = nat v" by (rule le_nat_le_bytes_id)
  with \<open>0 \<le> v\<close> show ?thesis by (simp add: be32_def be_nat_def)
qed

lemma be32_mod: "int (be_nat (be32 (v mod BN254_R))) = v mod BN254_R"
proof (rule be32_value)
  show "0 \<le> v mod BN254_R" using BN254_R_bounds(1) by simp
  have "v mod BN254_R < BN254_R" using BN254_R_bounds(1) by simp
  then show "v mod BN254_R < 2 ^ 256" using BN254_R_bounds(2) by (rule less_trans)
qed

lemma hex32_Inr: "hex32 v = Inr s \<longleftrightarrow> 0 \<le> v \<and> s = ''0x'' @ to_hex (be32 (v mod BN254_R))"
  by (auto simp: hex32_def)

lemma hex_all_Inr: "hex_all vs = Inr ss \<Longrightarrow>
  (\<forall>v \<in> set vs. 0 \<le> v) \<and> ss = map (\<lambda>v. ''0x'' @ to_hex (be32 (v mod BN254_R))) vs"
  by (induction vs arbitrary: ss) (auto simp: res_simps hex32_Inr)

lemma bytes_to_field_range: "0 \<le> bytes_to_field bs" "bytes_to_field bs < BN254_R"
  using BN254_R_bounds by (simp_all add: bytes_to_field_def)

lemma poseidon_range: "0 \<le> poseidon h vs" "poseidon h vs < BN254_R"
  using BN254_R_bounds bytes_to_field_range by (auto simp: poseidon_def fallback_hash_def)

lemma stub_proof_hex [simp]: "hex_to_bytes stub_proof l = Inr (replicate 256 0)"
  by (simp add: stub_proof_def PROOF_BYTE_LEN_def)

lemma produced_proof:
  assumes "produce_proof_bytes s p root_el nh w = (Inr t, w')"
  shows "\<exists>pb. length pb = 256 \<and> t = ''0x'' @ to_hex pb"
proof -
  have "\<exists>pb. length pb = 256 \<and> stub_proof = ''0x'' @ to_hex pb"
    by (intro exI [of _ "replicate 256 0"]) (simp add: stub_proof_def PROOF_BYTE_LEN_def)
  then show ?thesis using assms unfolding produce_proof_bytes_def
    by (auto elim!: andthen_InrE catching_InrE simp: PROOF_BYTE_LEN_def upstream_def split: if_splits; blast)
qed

text \<open>What a generated proof consists of.\<close>

lemma generated_parts:
  assumes "generate_withdraw_proof s p w = (Inr r, w')"
  obtains root_el pb where
    "merkle_root_from_path (zk_hasher s) (zk_commitment (zk_hasher s) (zp_nullifier p) (zp_secret p) (zp_amount p))
       (zp_merkle_path p) (zp_is_left p) = Inr root_el"
    "\<forall>v \<in> set (public_input_vector (zk_hasher s) p root_el). 0 \<le> v"
    "zr_public_inputs_hex r =
       map (\<lambda>v. ''0x'' @ to_hex (be32 (v mod BN254_R))) (public_input_vector (zk_hasher s) p root_el)"
    "zr_root_hex r = ''0x'' @ to_hex (be32 (root_el mod BN254_R))"
    "zr_nullifier_hash_hex r = ''0x'' @ to_hex (be32
       (zk_nullifier_hash (zk_hasher s) (zp_nullifier p) (zp_leaf_index p) mod BN254_R))"
    "length pb = 256" "zr_proof_hex r = ''0x'' @ to_hex pb"
  using assms unfolding generate_withdraw_proof_def Let_def
  by (elim andthen_InrE)
     (auto simp: hex32_Inr dest!: hex_all_Inr produced_proof)

section \<open>The service's walk and the specification tree\<close>

lemma hex_digit_not_special:
  "n < 16 \<Longrightarrow> \<not> py_space (hex_digit n) \<and> hex_digit n \<noteq> CHR ''x'' \<and> hex_digit n \<noteq> CHR ''X''
     \<and> hex_digit n \<noteq> CHR ''-'' \<and> hex_digit n \<noteq> CHR ''+''"
proof -
  assume n: "n < 16"
  have k: "(of_char (hex_digit n) :: nat) = (if n < 10 then 48 + n else 87 + n)"
    using n by (simp add: hex_digit_def)
  have c: "hex_digit n \<noteq> d" if "(of_char d :: nat) < 48 \<or> 103 \<le> (of_char d :: nat) \<or> (58 \<le> (of_char d :: nat) \<and> (of_char d :: nat) < 97)" for d
    using k n that by (auto split: if_splits)
  have "\<not> py_space (hex_digit n)" using n by (simp add: py_space_def Let_def k)
  then show ?thesis using c [of "CHR ''x''"] c [of "CHR ''X''"] c [of "CHR ''-''"] c [of "CHR ''+''"] by simp
qed

lemma be_nat_Cons: "be_nat (b # bs) = unat b * 256 ^ length bs + be_nat bs"
  by (simp add: be_nat_def le_nat_append)

lemma hex_int_digits_to_hex:
  "ok \<or> bs \<noteq> [] \<Longrightarrow> hex_int_digits acc ok (to_hex bs) = Some (acc * 256 ^ length bs + be_nat bs)"
proof (induction bs arbitrary: acc ok)
  case Nil
  then show ?case by (simp add: be_nat_def)
next
  case (Cons b bs)
  have "unat b < 256" by (rule byte_bound)
  then have b: "unat b div 16 < 16" "unat b mod 16 < 16" by auto
  have "16 * (16 * acc + unat b div 16) + unat b mod 16 = 256 * acc + unat b" by simp
  with b Cons.IH [of True] show ?case by (simp add: be_nat_Cons algebra_simps)
qed

lemma hex_to_int_to_hex [simp]: "bs \<noteq> [] \<Longrightarrow> hex_to_int (to_hex bs) label = Inr (int (be_nat bs))"
proof -
  assume bs: "bs \<noteq> []"
  then obtain b cs where b: "bs = b # cs" by (cases bs) auto
  have "unat b < 256" by (rule byte_bound)
  then have d: "unat b div 16 < 16" "unat b mod 16 < 16" by auto
  have st: "strip (to_hex bs) = to_hex bs"
    using to_hex_digits hex_digit_not_special by (intro strip_no_space) blast
  have "lower_char (hex_digit (unat b mod 16)) \<noteq> CHR ''x''" using d(2) by (rule lower_hex_digit_not_x)
  then have "int_base16 (to_hex bs) = Some (int (be_nat bs))"
    using st hex_digit_not_special [OF d(1)] hex_int_digits_to_hex [of False bs 0] bs
    by (simp add: int_base16_def b hex_body_def startswith_def lower_def)
  moreover have "strip_hex_prefix (to_hex bs) = to_hex bs"
    using hex_digit_not_special [OF d(2)] by (auto simp: strip_hex_prefix_def b startswith_def)
  moreover have "to_hex bs \<noteq> []" by (simp add: b)
  ultimately show ?thesis using st by (simp add: hex_to_int_def)
qed

text \<open>The service's hash as a node hash over 32-byte strings.\<close>

definition node_hash :: "hasher \<Rightarrow> bytes \<Rightarrow> bytes \<Rightarrow> bytes" where
  "node_hash h a b = be32 (poseidon h [int (be_nat a), int (be_nat b)])"

lemma be32_poseidon: "int (be_nat (be32 (poseidon h vs))) = poseidon h vs"
  using BN254_R_bounds(2) poseidon_range less_trans by (intro be32_value) blast+

lemma walk_path_fold:
  "walk_path h (int (be_nat c)) (map (\<lambda>(s, b). (int (be_nat s), if b then 1 else 0)) path)
   = int (be_nat (fold_path (node_hash h) c path))"
proof (induction path arbitrary: c)
  case (Cons x path)
  obtain s b where "x = (s, b)" by (rule prod.exhaust)
  with Cons [of "node_hash h c s"] Cons [of "node_hash h s c"] show ?case
    by (cases b) (simp_all add: node_hash_def be32_poseidon)
qed simp

lemma node_nonempty: "(\<And>x. x \<in> set ls \<Longrightarrow> x \<noteq> []) \<Longrightarrow> node (node_hash h) ls l k \<noteq> []"
proof (cases l)
  case (Suc m)
  have "length (node_hash h a b) = 32" for a b by (simp add: node_hash_def)
  then have "node_hash h a b \<noteq> []" for a b by (metis list.size(3) zero_neq_numeral)
  with Suc show ?thesis by (auto simp: zero32_def)
qed (auto simp: zero32_def)

lemma hex_ints_to_hex:
  "(\<And>x. x \<in> set xs \<Longrightarrow> x \<noteq> []) \<Longrightarrow> hex_ints (map to_hex xs) label = Inr (map (\<lambda>x. int (be_nat x)) xs)"
  by (induction xs) auto

section \<open>Properties\<close>

text \<open>C20. A generated proof can be relayed. Whatever the toolchain, stub or real, a result of the proof service, put
  into a relay request with a valid recipient and token, is decoded by the withdrawal service and
  built into a withdraw instruction, from which the program reads a 256-byte proof, the root the
  witness path leads to and the nullifier hash, both below the field modulus and both equal to
  the first two of the six public inputs of the result.\<close>

theorem proof_feeds_withdraw:
  assumes "generate_withdraw_proof s p w = (Inr r, w')"
    and "decode_recipient sol recipient = Inr rc" and "length rc = 32"
    and "resolve_token_mint sol cfg token = Inr mint" and "zp_amount p < 2 ^ 64"
  shows "\<exists>root_el pb rt nb ix.
       merkle_root_from_path (zk_hasher s)
         (zk_commitment (zk_hasher s) (zp_nullifier p) (zp_secret p) (zp_amount p))
         (zp_merkle_path p) (zp_is_left p) = Inr root_el
     \<and> request_args sol cfg \<lparr>rq_proof = zr_proof_hex r, rq_public_inputs =
          \<lparr>pi_root = zr_root_hex r, pi_nullifier_hash = zr_nullifier_hash_hex r, pi_recipient = recipient,
           pi_amount = zp_amount p, pi_token = token\<rparr>\<rparr> = Inr (pb, rt, nb, rc, mint)
     \<and> build_withdraw_ix_for_pool sol \<lparr>wa_program_id = pid, wa_token_mint = mint, wa_recipient = rc,
          wa_relayer = relayer, wa_proof_bytes = pb, wa_root_bytes = rt, wa_nullifier_bytes = nb,
          wa_amount = zp_amount p\<rparr> = Inr ix
     \<and> dec_withdraw_args (drop 8 (data ix)) = Some ((pb, rt, nb, rc, nat (zp_amount p)), [])
     \<and> length pb = 256
     \<and> int (be_nat rt) = root_el mod BN254_R
     \<and> int (be_nat nb) = zk_nullifier_hash (zk_hasher s) (zp_nullifier p) (zp_leaf_index p)
     \<and> length (zr_public_inputs_hex r) = 6
     \<and> take 2 (zr_public_inputs_hex r) = [zr_root_hex r, zr_nullifier_hash_hex r]"
proof -
  let ?h = "zk_hasher s"
  let ?nh = "zk_nullifier_hash ?h (zp_nullifier p) (zp_leaf_index p)"
  obtain root_el pb where g: "merkle_root_from_path ?h (zk_commitment ?h (zp_nullifier p) (zp_secret p) (zp_amount p))
       (zp_merkle_path p) (zp_is_left p) = Inr root_el"
    and pos: "\<forall>v \<in> set (public_input_vector ?h p root_el). 0 \<le> v"
    and pub: "zr_public_inputs_hex r = map (\<lambda>v. ''0x'' @ to_hex (be32 (v mod BN254_R))) (public_input_vector ?h p root_el)"
    and rt: "zr_root_hex r = ''0x'' @ to_hex (be32 (root_el mod BN254_R))"
    and nh: "zr_nullifier_hash_hex r = ''0x'' @ to_hex (be32 (?nh mod BN254_R))"
    and pb: "length pb = 256" "zr_proof_hex r = ''0x'' @ to_hex pb"
    by (rule generated_parts [OF assms(1)])
  let ?rt = "be32 (root_el mod BN254_R)" and ?nb = "be32 (?nh mod BN254_R)"
  let ?a = "\<lparr>wa_program_id = pid, wa_token_mint = mint, wa_recipient = rc, wa_relayer = relayer,
      wa_proof_bytes = pb, wa_root_bytes = ?rt, wa_nullifier_bytes = ?nb, wa_amount = zp_amount p\<rparr>"
  have amount: "0 \<le> zp_amount p" using pos by (simp add: public_input_vector_def)
  have args: "request_args sol cfg \<lparr>rq_proof = zr_proof_hex r, rq_public_inputs =
          \<lparr>pi_root = zr_root_hex r, pi_nullifier_hash = zr_nullifier_hash_hex r, pi_recipient = recipient,
           pi_amount = zp_amount p, pi_token = token\<rparr>\<rparr> = Inr (pb, ?rt, ?nb, rc, mint)"
    using assms(2,4) by (simp add: request_args_def Let_def rt nh pb(2))
  have fits: "withdraw_fits ?a" using amount assms(5) pb(1) by (simp add: withdraw_fits_def)
  then obtain ix where ix: "build_withdraw_ix_for_pool sol ?a = Inr ix"
    using build_for_pool_total [of ?a sol] amount by auto
  have amt: "nat (zp_amount p) < 2 ^ 64" using amount assms(5) by (simp add: nat_less_iff)
  have plen: "length pb < 2 ^ 32" using pb(1) by simp
  have dec: "dec_withdraw_args (drop 8 (data ix)) = Some ((pb, ?rt, ?nb, rc, nat (zp_amount p)), [])"
    using build_for_pool_Inr [OF ix] dec_withdraw_args_enc [of pb ?rt ?nb rc "nat (zp_amount p)"] plen amt assms(3)
    by (simp add: withdraw_data_def)
  have nhm: "?nh mod BN254_R = ?nh" using poseidon_range by (simp add: zk_nullifier_hash_def)
  show ?thesis
    using g args ix dec pb(1) be32_mod [of root_el] be32_mod [of ?nh] nhm
    by (intro exI [of _ root_el] exI [of _ pb] exI [of _ ?rt] exI [of _ ?nb] exI [of _ ix])
       (simp add: pub rt nh public_input_vector_def)
qed

definition demo_tools :: "unit toolchain" where
  "demo_tools = \<lparr>which = (\<lambda>_. ret False), circuit_exists = ret True, make_scratch = (\<lambda>_. ret ()), drop_scratch = ret (), make_workspace = ret (),
     run_cmd = (\<lambda>_. ret (0, [], [])), proof_exists = ret True, read_proof = ret []\<rparr>"

definition demo_zk :: "unit zk_service" where
  "demo_zk = new_zk_service default_settings
     \<lparr>backend = select_backend (\<lambda>m. m = ''poseidon''), lib = (\<lambda>_ vs. 3 + sum_list vs)\<rparr> demo_tools
     None None None (Some True)"

definition demo_input :: proof_input where
  "demo_input = \<lparr>zp_nullifier = 5, zp_secret = 7, zp_amount = 1000, zp_leaf_index = 0, zp_merkle_path = [],
     zp_is_left = [], zp_recipient = replicate 32 7, zp_relayer = replicate 32 9, zp_fee_bps = 30\<rparr>"

lemma demo_generated: "\<exists>r. generate_withdraw_proof demo_zk demo_input () = (Inr r, ())"
proof -
  have "zp_nullifier demo_input = 5" "zp_secret demo_input = 7" by (simp_all add: demo_input_def)
  have p: "0 \<le> zk_nullifier_hash h a b" "0 \<le> zk_commitment h a b c" for h a b c
    using poseidon_range by (simp_all add: zk_nullifier_hash_def zk_commitment_def)
  have h: "\<exists>s. hex32 v = Inr s" if "0 \<le> v" for v using that by (simp add: hex32_def)
  have hs: "\<exists>ss. hex_all vs = Inr ss" if "\<forall>v \<in> set vs. 0 \<le> v" for vs
    using that by (induction vs) (auto simp: hex32_def)
  let ?h = "zk_hasher demo_zk" and ?c = "zk_commitment (zk_hasher demo_zk) 5 7 1000"
  have "\<forall>v \<in> set (public_input_vector ?h demo_input ?c). 0 \<le> v"
    using p bytes_to_field_range by (auto simp: public_input_vector_def demo_input_def)
  then obtain ss where ss: "hex_all (public_input_vector ?h demo_input ?c) = Inr ss" using hs by blast
  obtain s1 s2 where "hex32 ?c = Inr s1" "hex32 (zk_nullifier_hash ?h 5 0) = Inr s2" using h p by meson
  with ss show ?thesis
    by (simp add: generate_withdraw_proof_def merkle_root_from_path_def produce_proof_bytes_def
        demo_input_def demo_zk_def new_zk_service_def) (simp add: andthen_def)
qed

theorem proof_feeds_withdraw_witness:
  "\<exists>r root_el. generate_withdraw_proof demo_zk demo_input () = (Inr r, ())
     \<and> merkle_root_from_path (zk_hasher demo_zk) (zk_commitment (zk_hasher demo_zk) 5 7 1000) [] [] = Inr root_el
     \<and> length (zr_public_inputs_hex r) = 6"
proof -
  obtain r where r: "generate_withdraw_proof demo_zk demo_input () = (Inr r, ())" using demo_generated by blast
  have 1: "decode_recipient demo_solders (replicate 32 CHR ''r'') = Inr (ascii (replicate 32 CHR ''r''))"
    by (simp add: decode_recipient_def demo_solders_def)
  have 2: "length (ascii (replicate 32 CHR ''r'')) = 32" by simp
  have 3: "resolve_token_mint demo_solders default_settings ''SOL'' = Inr (replicate 32 0)"
    by (simp add: resolve_token_mint_def SOL_TOKEN_SENTINEL_def demo_solders_def)
  have 4: "zp_amount demo_input < 2 ^ 64" by (simp add: demo_input_def)
  have "zp_nullifier demo_input = 5" "zp_secret demo_input = 7" "zp_amount demo_input = 1000"
    "zp_merkle_path demo_input = []" "zp_is_left demo_input = []" by (simp_all add: demo_input_def)
  with proof_feeds_withdraw [OF r 1 2 3 4] r show ?thesis by auto
qed

text \<open>C31. The root the service puts into a proof is the root of the tree. When a request posts, as hex strings,
  the siblings of leaf \<open>i\<close> from the leaf up with the sides of its path, over leaves of which the \<open>i\<close>-th is the
  commitment of the request's nullifier, secret and amount, the router and the service decode them and compute exactly the root of the
  specification tree, under whichever hash backend is installed.\<close>

theorem service_root_is_tree_root:
  assumes "proof_input_of sol q = Inr p" and "i < length ls" and "length ls \<le> 2 ^ tree_depth"
    and "\<forall>x \<in> set ls. length x = 32"
    and "pr_merkle_path q = map (\<lambda>l. to_hex (sibling (node_hash h) ls i l)) [0..<tree_depth]"
    and "pr_is_left q = map (\<lambda>l. if even (i div 2 ^ l) then 1 else 0) [0..<tree_depth]"
    and "ls ! i = be32 (zk_commitment h (zp_nullifier p) (zp_secret p) (zp_amount p))"
  shows "merkle_root_from_path h (zk_commitment h (zp_nullifier p) (zp_secret p) (zp_amount p))
           (zp_merkle_path p) (zp_is_left p)
         = Inr (int (be_nat (tree_root (node_hash h) ls)))"
proof -
  let ?H = "node_hash h" and ?t = "true_path (node_hash h) ls i [0..<tree_depth]"
  have ne: "x \<in> set ls \<Longrightarrow> x \<noteq> []" for x using assms(4) by force
  have "sibling ?H ls i l \<noteq> []" for l using node_nonempty [OF ne] by (simp add: sibling_def Let_def)
  then have "hex_ints (map to_hex (map fst ?t)) label = Inr (map (\<lambda>x. int (be_nat x)) (map fst ?t))" for label
    by (intro hex_ints_to_hex) (auto simp: true_path_def)
  then have path: "zp_merkle_path p = map (\<lambda>x. int (be_nat x)) (map fst ?t)"
    using assms(1) by (auto simp: proof_input_of_def assms(5) true_path_def res_simps comp_def split: if_splits)
  have left: "zp_is_left p = map (\<lambda>x. if snd x then 1 else 0) ?t"
    using assms(1) by (auto simp: proof_input_of_def assms(6) true_path_def res_simps split: if_splits)
  have z: "zip (zp_merkle_path p) (zp_is_left p) = map (\<lambda>(s, b). (int (be_nat s), if b then 1 else 0)) ?t"
    by (auto simp: path left zip_map_map zip_same_conv_map)
  have "i < 2 ^ tree_depth" using assms(2,3) by simp
  then have "fold_path ?H (ls ! i) ?t = tree_root ?H ls"
    using fold_true_path [OF assms(2), of 0 tree_depth ?H] assms(2) by (simp add: tree_root_def)
  then show ?thesis
    using walk_path_fold [of h "ls ! i" ?t]
    by (simp add: merkle_root_from_path_def z) (simp add: path left assms(7) be32_poseidon zk_commitment_def)
qed

definition demo_leaf :: "hasher \<Rightarrow> bytes" where
  "demo_leaf h = be32 (zk_commitment h 5 7 1000)"

definition demo_proof_request :: "hasher \<Rightarrow> proof_request" where
  "demo_proof_request h = \<lparr>pr_nullifier = to_hex [5], pr_secret = to_hex [7], pr_amount = 1000, pr_leaf_index = 0,
     pr_merkle_path = map (\<lambda>l. to_hex (sibling (node_hash h) [demo_leaf h] 0 l)) [0..<tree_depth],
     pr_is_left = map (\<lambda>l. if even ((0::nat) div 2 ^ l) then 1 else 0) [0..<tree_depth],
     pr_recipient = to_hex (replicate 32 7), pr_relayer = to_hex (replicate 32 9), pr_fee_bps = 30\<rparr>"

lemma hex_to_pubkey_to_hex: "length bs = 32 \<Longrightarrow> hex_to_pubkey_bytes sol (to_hex bs) label = Inr bs"
proof -
  assume l: "length bs = 32"
  have st: "strip (to_hex bs) = to_hex bs"
    using to_hex_digits hex_digit_not_special by (intro strip_no_space) blast
  from l obtain b cs where b: "bs = b # cs" by (cases bs) auto
  have "unat b mod 16 < 16" by simp
  from hex_digit_not_special [OF this] have "strip_hex_prefix (to_hex bs) = to_hex bs"
    by (auto simp: strip_hex_prefix_def b startswith_def)
  moreover have "fromhex (to_hex bs) = Some bs" for bs
  proof (induction bs)
    case (Cons b bs)
    have "unat b < 256" by (rule byte_bound)
    then have d: "unat b div 16 < 16" "unat b mod 16 < 16" by auto
    have k: "(of_char (hex_digit n) :: nat) = (if n < 10 then 48 + n else 87 + n)" if "n < 16" for n
      using that by (simp add: hex_digit_def)
    have "\<not> is_space (hex_digit (unat b div 16))" using d by (simp add: is_space_def Let_def k)
    with d Cons show ?case by simp
  qed simp
  ultimately show ?thesis using st l by (simp add: hex_to_pubkey_bytes_def)
qed

lemma demo_request_input:
  "\<exists>p. proof_input_of sol (demo_proof_request h) = Inr p \<and> zp_nullifier p = 5 \<and> zp_secret p = 7 \<and> zp_amount p = 1000"
proof -
  let ?ss = "map (sibling (node_hash h) [demo_leaf h] 0) [0..<tree_depth]"
  have "length (demo_leaf h) = 32" by (simp add: demo_leaf_def)
  then have "demo_leaf h \<noteq> []" by force
  then have "x \<in> set [demo_leaf h] \<Longrightarrow> x \<noteq> []" for x by simp
  from node_nonempty [of "[demo_leaf h]", OF this] have "sibling (node_hash h) [demo_leaf h] 0 l \<noteq> []" for l
    by (simp add: sibling_def Let_def)
  then have "hex_ints (map to_hex ?ss) label = Inr (map (\<lambda>x. int (be_nat x)) ?ss)" for label
    by (intro hex_ints_to_hex) auto
  moreover have "be_nat [b] = unat b" for b by (simp add: be_nat_Cons) (simp add: be_nat_def)
  ultimately show ?thesis
    by (simp add: proof_input_of_def demo_proof_request_def hex_to_pubkey_to_hex comp_def del: to_hex.simps)
qed

theorem service_root_is_tree_root_witness:
  "\<exists>p. proof_input_of demo_solders (demo_proof_request (zk_hasher demo_zk)) = Inr p
     \<and> merkle_root_from_path (zk_hasher demo_zk) (zk_commitment (zk_hasher demo_zk) 5 7 1000)
         (zp_merkle_path p) (zp_is_left p)
       = Inr (int (be_nat (tree_root (node_hash (zk_hasher demo_zk)) [demo_leaf (zk_hasher demo_zk)])))"
proof -
  let ?h = "zk_hasher demo_zk" and ?q = "demo_proof_request (zk_hasher demo_zk)"
  obtain p where p: "proof_input_of demo_solders ?q = Inr p"
    and f: "zp_nullifier p = 5" "zp_secret p = 7" "zp_amount p = 1000" using demo_request_input by blast
  have 1: "0 < length [demo_leaf ?h]" "length [demo_leaf ?h] \<le> 2 ^ tree_depth" "\<forall>x \<in> set [demo_leaf ?h]. length x = 32"
    by (simp_all add: demo_leaf_def)
  have 2: "pr_merkle_path ?q = map (\<lambda>l. to_hex (sibling (node_hash ?h) [demo_leaf ?h] 0 l)) [0..<tree_depth]"
    "pr_is_left ?q = map (\<lambda>l. if even ((0::nat) div 2 ^ l) then 1 else 0) [0..<tree_depth]"
    by (simp_all add: demo_proof_request_def)
  have 3: "[demo_leaf ?h] ! 0 = be32 (zk_commitment ?h (zp_nullifier p) (zp_secret p) (zp_amount p))"
    by (simp add: f demo_leaf_def)
  from service_root_is_tree_root [OF p 1 2 3] p show ?thesis by (auto simp: f)
qed

end
