(* ===== verification/Indexer.thy ===== *)
theory Indexer
  imports Signer SolanaRpc Base64 Models
begin

text \<open>
  \<open>backend/app/services/merkle_indexer.py\<close>, the cache of on-chain Merkle roots, and
  \<open>indexer_worker.py\<close>, the task that keeps it fresh. The node, the database and the
  account decoder are parameters; \<open>now\<close> is what the clock returns during the call.
\<close>

section \<open>int(v)\<close>

definition is_digit :: "char \<Rightarrow> bool" where
  "is_digit c \<longleftrightarrow> 48 \<le> (of_char c :: nat) \<and> (of_char c :: nat) \<le> 57"

text \<open>Digits with single underscores between them, as \<open>int(str)\<close> reads them.\<close>

fun int_digits :: "nat \<Rightarrow> bool \<Rightarrow> string \<Rightarrow> nat option" where
  "int_digits acc ok [] = (if ok then Some acc else None)"
| "int_digits acc ok (c # s) =
     (if is_digit c then int_digits (10 * acc + ((of_char c :: nat) - 48)) True s
      else if c = CHR ''_'' \<and> ok then int_digits acc False s else None)"

definition int_literal :: "string \<Rightarrow> int option" where
  "int_literal s =
     (case strip s of
        [] \<Rightarrow> None
      | c # r \<Rightarrow>
          if c = CHR ''-'' then map_option (\<lambda>n. - int n) (int_digits 0 False r)
          else if c = CHR ''+'' then map_option int (int_digits 0 False r)
          else map_option int (int_digits 0 False (c # r)))"

text \<open>\<open>None\<close> is the \<open>TypeError\<close> or \<open>ValueError\<close> of \<open>int\<close>; a float is cut toward 0.\<close>

definition py_int :: "json \<Rightarrow> int option" where
  "py_int v =
     (case v of
        JInt i \<Rightarrow> Some i
      | JBool b \<Rightarrow> Some (if b then 1 else 0)
      | JFloat r \<Rightarrow> Some (if r < 0 then - \<lfloor>- r\<rfloor> else \<lfloor>r\<rfloor>)
      | JStr s \<Rightarrow> int_literal s
      | _ \<Rightarrow> None)"

section \<open>Decoding the account\<close>

definition MERKLE_PDA_SEED :: bytes where "MERKLE_PDA_SEED = ascii ''merkle_tree''"
definition DISCRIMINATOR_LEN :: nat where "DISCRIMINATOR_LEN = 8"
definition HEADER_LEN :: nat where "HEADER_LEN = DISCRIMINATOR_LEN + 1 + 4"
definition ROOT_LEN :: nat where "ROOT_LEN = 32"

definition derive_merkle_pda :: "solders \<Rightarrow> settings \<Rightarrow> string \<Rightarrow> string + string" where
  "derive_merkle_pda sol cfg program_id_b58 =
     (case pubkey_from_string sol program_id_b58 of
        Inl err \<Rightarrow> Inl err
      | Inr program_id \<Rightarrow>
          let token_mint = (if vault_token_mint cfg \<noteq> []
                            then (case pubkey_from_string sol (vault_token_mint cfg) of
                                    Inr m \<Rightarrow> m | Inl _ \<Rightarrow> replicate 32 0)
                            else replicate 32 0)
          in Inr (pubkey_str sol (fst (find_program_address sol [MERKLE_PDA_SEED, token_mint] program_id))))"

definition extract_b64 :: "json \<Rightarrow> string option" where
  "extract_b64 data_field =
     (case data_field of
        JList (e # enc # _) \<Rightarrow>
          (case e of JStr s \<Rightarrow> if enc = JStr ''base64'' then Some s else None | _ \<Rightarrow> None)
      | _ \<Rightarrow> None)"

definition decode_account_data :: "json \<Rightarrow> bytes option" where
  "decode_account_data data_field =
     (case extract_b64 data_field of None \<Rightarrow> None | Some s \<Rightarrow> py_b64decode s)"

definition decode_state :: "bytes \<Rightarrow> (string \<times> int) option" where
  "decode_state raw =
     (if length raw < HEADER_LEN + ROOT_LEN then None
      else Some (to_hex (take ROOT_LEN (drop HEADER_LEN raw)),
                 int (le_nat (take 4 (drop (DISCRIMINATOR_LEN + 1) raw)))))"

text \<open>A decoded account has JSON fields, or raw bytes for fixed-size arrays.\<close>

datatype field = FBytes bytes | FJson json

type_synonym fields = "(string \<times> field) list"

fun first_field :: "fields \<Rightarrow> string list \<Rightarrow> field option" where
  "first_field d [] = None"
| "first_field d (k # ks) = (case map_of d k of Some v \<Rightarrow> Some v | None \<Rightarrow> first_field d ks)"

text \<open>\<open>bytes(root_value)\<close> on ints out of range raises \<open>ValueError\<close>.\<close>

definition root_text :: "field \<Rightarrow> string option res" where
  "root_text v =
     (case v of
        FBytes bs \<Rightarrow> Inr (Some (to_hex bs))
      | FJson (JStr s) \<Rightarrow> Inr (Some (removeprefix (lower s) ''0x''))
      | FJson (JList xs) \<Rightarrow>
          (case ints_of xs of
             None \<Rightarrow> Inr None
           | Some is \<Rightarrow>
               (case py_bytes is of
                  Some bs \<Rightarrow> Inr (Some (to_hex bs))
                | None \<Rightarrow> Inl (Other ''ValueError'' ''bytes must be in range(0, 256)'')))
      | _ \<Rightarrow> Inr None)"

definition count_of :: "field option \<Rightarrow> int" where
  "count_of v =
     (let n = (case v of
                 None \<Rightarrow> 0
               | Some (FJson j) \<Rightarrow> (case py_int j of Some i \<Rightarrow> i | None \<Rightarrow> 0)
               | Some (FBytes bs) \<Rightarrow>
                   (case int_literal (map (\<lambda>b. char_of (unat b)) bs) of Some i \<Rightarrow> i | None \<Rightarrow> 0))
      in if n < 0 then 0 else n)"

definition state_from_decoded_dict :: "fields \<Rightarrow> (string \<times> int) option res" where
  "state_from_decoded_dict decoded =
     (case first_field decoded [''root'', ''current_root'', ''currentRoot''] of
        None \<Rightarrow> Inr None
      | Some (FJson JNull) \<Rightarrow> Inr None
      | Some v \<Rightarrow>
          rbind (root_text v) (\<lambda>t.
            case t of
              None \<Rightarrow> Inr None
            | Some root_hex \<Rightarrow>
                Inr (Some (root_hex, count_of (first_field decoded
                  [''commitment_count'', ''commitmentCount'', ''next_index'', ''nextIndex'', ''leaf_count''])))))"

section \<open>The indexer\<close>

record 'w decoder =
  decode_available :: "(bool, 'w) io"
  decode_account :: "string \<Rightarrow> string \<Rightarrow> (fields option, 'w) io"

record 'w indexer =
  ix_solders :: solders
  ix_settings :: settings
  ix_pydantic :: pydantic
  ix_rpc :: "'w rpc"
  ix_db :: "'w mongo"
  ix_decoder :: "'w decoder option"
  ix_account_name :: string

definition decode_with_idl :: "'w indexer \<Rightarrow> string \<Rightarrow> ((string \<times> int) option, 'w) io" where
  "decode_with_idl ix b64 =
     (case ix_decoder ix of
        None \<Rightarrow> ret None
      | Some dec \<Rightarrow>
          andthen (decode_available dec) (\<lambda>available.
            if \<not> available then ret None
            else andthen (decode_account dec b64 (ix_account_name ix)) (\<lambda>decoded.
              case decoded of
                None \<Rightarrow> ret None
              | Some d \<Rightarrow> if d = [] then ret None else pure (state_from_decoded_dict d))))"

definition merkle_root_from_doc :: "pydantic \<Rightarrow> int \<Rightarrow> doc \<Rightarrow> merkle_root res" where
  "merkle_root_from_doc py now d =
     rbind (parse_date_field py ''indexed_at'' (strip_id d)) (merkle_root_of_doc py now)"

definition account_record :: "int \<Rightarrow> dict \<Rightarrow> string \<times> int \<Rightarrow> merkle_root" where
  "account_record now account decoded =
     \<lparr>m_root = fst decoded, m_commitment_count = snd decoded,
      m_block_height = json_int (jget account ''rentEpoch''),
      m_indexed_at = now, m_source = Indexed\<rparr>"

text \<open>The insert, with the fallback to the cached row on a duplicate root.\<close>

definition store_root :: "'w indexer \<Rightarrow> int \<Rightarrow> merkle_root \<Rightarrow> (merkle_root, 'w) io" where
  "store_root ix now record =
     catching (andthen (insert_one (ix_db ix) ''merkle_roots'' (merkle_root_to_doc record)) (\<lambda>_. ret record))
       (\<lambda>exc.
          if \<not> is_duplicate exc then throw exc
          else andthen (find_one (ix_db ix) ''merkle_roots'' (field_is ''root'' (JStr (m_root record)))) (\<lambda>existing.
            case existing of
              None \<Rightarrow> ret record
            | Some d \<Rightarrow> pure (merkle_root_from_doc (ix_pydantic ix) now d)))"

definition record_from_account :: "'w indexer \<Rightarrow> int \<Rightarrow> dict \<Rightarrow> (merkle_root option, 'w) io" where
  "record_from_account ix now account =
     (case extract_b64 (jget account ''data'') of
        None \<Rightarrow> ret None
      | Some b64 \<Rightarrow>
          andthen (decode_with_idl ix b64) (\<lambda>first.
            let decoded = (case first of
                             Some d \<Rightarrow> Some d
                           | None \<Rightarrow> (case py_b64decode b64 of None \<Rightarrow> None | Some raw \<Rightarrow> decode_state raw))
            in case decoded of
                 None \<Rightarrow> ret None
               | Some d \<Rightarrow> andthen (store_root ix now (account_record now account d)) (\<lambda>r. ret (Some r))))"

text \<open>The flag that limits the warning to one line has no other effect.\<close>

definition sync_now :: "'w indexer \<Rightarrow> int \<Rightarrow> (merkle_root option, 'w) io" where
  "sync_now ix now =
     (if bagsvault_program_id (ix_settings ix) = [] then ret None
      else case derive_merkle_pda (ix_solders ix) (ix_settings ix) (bagsvault_program_id (ix_settings ix)) of
             Inl err \<Rightarrow> ret None
           | Inr pda \<Rightarrow>
               andthen (account_info (ix_rpc ix) pda ''base64'') (\<lambda>account.
                 case account of
                   None \<Rightarrow> ret None
                 | Some a \<Rightarrow> record_from_account ix now a))"

section \<open>Notifications\<close>

definition as_dict :: "json \<Rightarrow> dict option" where
  "as_dict j = (case j of JObj d \<Rightarrow> Some d | _ \<Rightarrow> None)"

fun with_dict :: "json \<Rightarrow> (dict \<Rightarrow> dict list) \<Rightarrow> dict list" where
  "with_dict (JObj d) k = d # k d"
| "with_dict _ k = []"

text \<open>The candidates in the order they are tried.\<close>

definition notification_candidates :: "dict \<Rightarrow> dict list" where
  "notification_candidates n =
     n # with_dict (jget n ''result'') (\<lambda>result.
           with_dict (jget result ''value'') (\<lambda>value.
             with_dict (jget value ''account'') (\<lambda>_. [])))
       @ (case as_dict (jget n ''params'') of
            None \<Rightarrow> []
          | Some params \<Rightarrow>
              with_dict (jget params ''result'') (\<lambda>inner.
                with_dict (jget inner ''value'') (\<lambda>_. [])))"

definition has_data :: "dict \<Rightarrow> bool" where
  "has_data c = (case jget c ''data'' of JList xs \<Rightarrow> 2 \<le> length xs | _ \<Rightarrow> False)"

definition extract_account :: "dict \<Rightarrow> dict option" where
  "extract_account n = List.find has_data (notification_candidates n)"

text \<open>
  \<open>subscribe_root_updates\<close> as the records it yields for the notifications received,
  with the exception that ends it, if one does. \<open>times\<close> are the clock readings.
\<close>

fun root_updates :: "'w indexer \<Rightarrow> (int \<times> dict) list \<Rightarrow> 'w \<Rightarrow> merkle_root list \<times> exn option \<times> 'w" where
  "root_updates ix [] w = ([], None, w)"
| "root_updates ix ((now, n) # ns) w =
     (case extract_account n of
        None \<Rightarrow> root_updates ix ns w
      | Some account \<Rightarrow>
          (case record_from_account ix now account w of
             (Inl e, w1) \<Rightarrow> ([], Some e, w1)
           | (Inr None, w1) \<Rightarrow> root_updates ix ns w1
           | (Inr (Some r), w1) \<Rightarrow>
               (case root_updates ix ns w1 of (rs, e, w2) \<Rightarrow> (r # rs, e, w2))))"

definition subscribe_root_updates ::
  "'w indexer \<Rightarrow> (string \<Rightarrow> (int \<times> dict) list) \<Rightarrow> 'w \<Rightarrow> merkle_root list \<times> exn option \<times> 'w" where
  "subscribe_root_updates ix received w =
     (if bagsvault_program_id (ix_settings ix) = [] then ([], None, w)
      else case derive_merkle_pda (ix_solders ix) (ix_settings ix) (bagsvault_program_id (ix_settings ix)) of
             Inl err \<Rightarrow> ([], None, w)
           | Inr pda \<Rightarrow> root_updates ix (received pda) w)"

section \<open>Reading the cache\<close>

fun all_roots :: "pydantic \<Rightarrow> int \<Rightarrow> doc list \<Rightarrow> merkle_root list res" where
  "all_roots py now [] = Inr []"
| "all_roots py now (d # ds) =
     rbind (merkle_root_from_doc py now d) (\<lambda>r. rbind (all_roots py now ds) (\<lambda>rs. Inr (r # rs)))"

definition get_recent_roots :: "'w indexer \<Rightarrow> int \<Rightarrow> nat \<Rightarrow> (merkle_root list, 'w) io" where
  "get_recent_roots ix now limit =
     andthen (find_many (ix_db ix) ''merkle_roots'' (\<lambda>_. True) ''indexed_at'' (-1) limit) (\<lambda>ds.
     pure (all_roots (ix_pydantic ix) now ds))"

text \<open>\<open>find_one\<close> with a sort is the first document of the sorted query.\<close>

definition get_current_root :: "'w indexer \<Rightarrow> int \<Rightarrow> (merkle_root option, 'w) io" where
  "get_current_root ix now =
     andthen (find_many (ix_db ix) ''merkle_roots'' (\<lambda>_. True) ''indexed_at'' (-1) 1) (\<lambda>ds.
       case ds of
         [] \<Rightarrow> ret None
       | d # _ \<Rightarrow> pure (rbind (merkle_root_from_doc (ix_pydantic ix) now d) (\<lambda>r. Inr (Some r))))"

section \<open>The worker\<close>

text \<open>The asyncio task is alive until it has ended; nothing else of it is looked at.\<close>

datatype task = Live | Ended

record worker =
  wk_interval :: int
  wk_task :: "task option"
  wk_last_sync_at :: "int option"
  wk_last_sync_error :: "string option"

definition new_worker :: "int \<Rightarrow> worker res" where
  "new_worker interval_seconds =
     (if interval_seconds \<le> 0 then Inl (Other ''ValueError'' ''interval_seconds must be positive'')
      else Inr \<lparr>wk_interval = interval_seconds, wk_task = None, wk_last_sync_at = None,
                wk_last_sync_error = None\<rparr>)"

definition is_running :: "worker \<Rightarrow> bool" where
  "is_running k \<longleftrightarrow> wk_task k = Some Live"

definition start :: "worker \<Rightarrow> worker" where
  "start k = (if is_running k then k else k\<lparr>wk_task := Some Live\<rparr>)"

definition stop :: "worker \<Rightarrow> worker" where
  "stop k = k\<lparr>wk_task := None\<rparr>"

definition tick :: "'w indexer \<Rightarrow> int \<Rightarrow> worker \<times> 'w \<Rightarrow> worker \<times> 'w" where
  "tick ix now p =
     (case sync_now ix now (snd p) of
        (Inl e, w) \<Rightarrow> ((fst p)\<lparr>wk_last_sync_error := Some (exn_str e)\<rparr>, w)
      | (Inr _, w) \<Rightarrow> ((fst p)\<lparr>wk_last_sync_at := Some now, wk_last_sync_error := None\<rparr>, w))"

text \<open>\<open>run_with_ws\<close> until the stream ends; \<open>stamp r\<close> is the clock when \<open>r\<close> arrived.\<close>

definition run_with_ws ::
  "'w indexer \<Rightarrow> (string \<Rightarrow> (int \<times> dict) list) \<Rightarrow> (merkle_root \<Rightarrow> int) \<Rightarrow> worker \<times> 'w \<Rightarrow> worker \<times> 'w" where
  "run_with_ws ix received stamp p =
     (case subscribe_root_updates ix received (snd p) of
        (rs, e, w) \<Rightarrow>
          (let k = fold (\<lambda>r k. k\<lparr>wk_last_sync_at := Some (stamp r), wk_last_sync_error := None\<rparr>) rs (fst p)
           in (case e of None \<Rightarrow> k | Some exc \<Rightarrow> k\<lparr>wk_last_sync_error := Some (exn_str exc)\<rparr>, w)))"

definition get_indexer_worker :: "settings \<Rightarrow> worker option \<Rightarrow> int option \<Rightarrow> worker res" where
  "get_indexer_worker cfg cached interval_seconds =
     (case cached of
        Some k \<Rightarrow> Inr k
      | None \<Rightarrow> new_worker (case interval_seconds of Some i \<Rightarrow> i | None \<Rightarrow> indexer_interval_seconds cfg))"

definition status_snapshot :: "(int \<Rightarrow> string) \<Rightarrow> worker option \<Rightarrow> dict" where
  "status_snapshot iso_text cached =
     (case cached of
        None \<Rightarrow> [(''running'', JBool False), (''last_sync_at'', JNull), (''last_sync_error'', JNull)]
      | Some k \<Rightarrow> [(''running'', JBool (is_running k)),
          (''last_sync_at'', json_opt (\<lambda>t. JStr (iso_text t)) (wk_last_sync_at k)),
          (''last_sync_error'', json_opt JStr (wk_last_sync_error k))])"

text \<open>
  What can happen to a worker: the lifecycle calls, a turn of the polling loop while the
  task is alive, and the end of the task. The trace lists the turns, newest first, each
  with its time and the exception it met.
\<close>

type_synonym turns = "(int \<times> exn option) list"

inductive worker_run :: "'w indexer \<Rightarrow> worker \<Rightarrow> turns \<Rightarrow> 'w \<Rightarrow> bool" for ix where
  created: "new_worker n = Inr k \<Longrightarrow> worker_run ix k [] w"
| started: "worker_run ix k tr w \<Longrightarrow> worker_run ix (start k) tr w"
| stopped: "worker_run ix k tr w \<Longrightarrow> worker_run ix (stop k) tr w"
| ended: "worker_run ix k tr w \<Longrightarrow> is_running k \<Longrightarrow> worker_run ix (k\<lparr>wk_task := Some Ended\<rparr>) tr w"
| other: "worker_run ix k tr w \<Longrightarrow> worker_run ix k tr w'"
| turn: "worker_run ix k tr w \<Longrightarrow> is_running k \<Longrightarrow> tick ix now (k, w) = (k', w') \<Longrightarrow>
    worker_run ix k' ((now, case fst (sync_now ix now w) of Inl e \<Rightarrow> Some e | Inr _ \<Rightarrow> None) # tr) w'"

section \<open>Lemmas\<close>

lemma decode_state_parts:
  assumes "length a = 9" "length n = 4" "length r = 32"
  shows "decode_state (a @ n @ r @ rest) = Some (to_hex r, int (le_nat n))"
  using assms by (simp add: decode_state_def HEADER_LEN_def DISCRIMINATOR_LEN_def ROOT_LEN_def)

lemma decode_state_split:
  assumes "45 \<le> length raw"
  shows "\<exists>a n r rest. raw = a @ n @ r @ rest \<and> length a = 9 \<and> length n = 4 \<and> length r = 32"
proof (intro exI conjI)
  show "raw = take 9 raw @ take 4 (drop 9 raw) @ take 32 (drop 13 raw) @ drop 45 raw"
  proof -
    have "drop 9 raw = take 4 (drop 9 raw) @ drop 13 raw"
      using append_take_drop_id [of 4 "drop 9 raw"] by simp
    moreover have "drop 13 raw = take 32 (drop 13 raw) @ drop 45 raw"
      using append_take_drop_id [of 32 "drop 13 raw"] by simp
    ultimately show ?thesis by (metis append_take_drop_id)
  qed
qed (use assms in simp_all)

lemma jget_merkle_root [simp, model_simps]: "jget (merkle_root_to_doc m) ''root'' = JStr (m_root m)"
  by (simp add: merkle_root_to_doc_def jget_def)

lemma roots_key [simp]: "clashes ''merkle_roots'' d e \<longleftrightarrow> jget d ''root'' = jget e ''root''"
  by (simp add: clashes_def unique_keys_def)

text \<open>Storing a root, under the contract of the database.\<close>

lemma root_doc_found:
  assumes "pydantic_laws py" "merkle_root_from_doc py now d = Inr r" "jget d ''root'' = JStr x"
  shows "m_root r = x"
proof -
  obtain d1 where d1: "parse_date_field py ''indexed_at'' (strip_id d) = Inr d1" "merkle_root_of_doc py now d1 = Inr r"
    using assms(2) by (auto simp: merkle_root_from_doc_def res_simps)
  have "map_of d1 ''root'' = map_of (strip_id d) ''root''"
    using d1(1) by (auto simp: parse_date_field_def map_of_set_field split: json.splits option.splits)
  then have "map_of d1 ''root'' = Some (JStr x)"
    using assms(3) by (auto simp: jget_def map_of_strip_id split: option.splits)
  then show ?thesis using d1(2) pydantic_laws.to_str_str [OF assms(1)]
    by (auto simp: merkle_root_of_doc_def field_req_def res_simps)
qed

definition roots_of :: "doc list \<Rightarrow> json list" where
  "roots_of ds = map (\<lambda>d. jget d ''root'') ds"

text \<open>
  The effect of one sync on the cache: the root of the record is in it, other collections are
  untouched, nothing is added when the root was there, and no root is there twice.
\<close>

definition root_cached :: "string \<Rightarrow> doc list \<Rightarrow> doc list \<Rightarrow> bool" where
  "root_cached x old new \<longleftrightarrow>
     JStr x \<in> set (roots_of new) \<and>
     (JStr x \<in> set (roots_of old) \<longrightarrow> new = old) \<and>
     (JStr x \<notin> set (roots_of old) \<longrightarrow> (\<exists>d. new = old @ [d] \<and> jget d ''root'' = JStr x)) \<and>
     (distinct (roots_of old) \<longrightarrow> distinct (roots_of new))"

lemma root_cached_empty:
  assumes "root_cached x [] new"
  shows "length new = 1"
proof -
  from assms have "JStr x \<notin> set (roots_of []) \<longrightarrow> (\<exists>d. new = [] @ [d] \<and> jget d ''root'' = JStr x)"
    unfolding root_cached_def by (elim conjE)
  then show ?thesis by (simp add: roots_of_def) (elim exE conjE, simp)
qed

lemma store_root_caches:
  assumes "mongo (ix_db ix) docs le" "pydantic_laws (ix_pydantic ix)"
    and "store_root ix now rec w = (Inr r, w')"
  shows "m_root r = m_root rec \<and> root_cached (m_root rec) (docs w ''merkle_roots'') (docs w' ''merkle_roots'')
         \<and> (\<forall>c. c \<noteq> ''merkle_roots'' \<longrightarrow> docs w' c = docs w c)"
proof -
  obtain o1 w1 where i: "insert_one (ix_db ix) ''merkle_roots'' (merkle_root_to_doc rec) w = (o1, w1)" by (rule prod.exhaust)
  show ?thesis
  proof (cases o1)
    case (Inr u)
    with assms(3) i have "r = rec" "w' = w1" by (auto simp: store_root_def catching_def andthen_def)
    with mongo.insert_law [OF assms(1), OF i [unfolded Inr]] show ?thesis
      by (auto simp: root_cached_def roots_of_def)
  next
    case (Inl e)
    with assms(3) i have dup: "is_duplicate e" by (auto simp: store_root_def catching_def andthen_def split: if_splits)
    from mongo.insert_duplicate [OF assms(1), OF i [unfolded Inl] dup] obtain f where
      f: "docs w1 = docs w" "f \<in> set (docs w ''merkle_roots'')" "jget f ''root'' = JStr (m_root rec)" by auto
    obtain o2 w2 where q: "find_one (ix_db ix) ''merkle_roots'' (field_is ''root'' (JStr (m_root rec))) w1 = (o2, w2)"
      by (rule prod.exhaust)
    obtain x where o2: "o2 = Inr x"
      using assms(3) i Inl dup q by (cases o2) (auto simp: store_root_def catching_def andthen_def)
    note fl = mongo.find_one_law [OF assms(1), OF q [unfolded o2]]
    obtain d where d: "x = Some d" "jget d ''root'' = JStr (m_root rec)"
      using fl f by (cases x) (auto simp: field_is_def)
    have "merkle_root_from_doc (ix_pydantic ix) now d = Inr r" "w' = w2"
      using assms(3) i Inl dup q o2 d(1) by (auto simp: store_root_def catching_def andthen_def)
    with root_doc_found [OF assms(2) _ d(2)] fl f show ?thesis
      by (auto simp: root_cached_def roots_of_def image_iff intro!: bexI [of _ f])
  qed
qed

definition indexer_keeps :: "('w \<Rightarrow> bool) \<Rightarrow> 'w indexer \<Rightarrow> bool" where
  "indexer_keeps I ix \<longleftrightarrow>
     (\<forall>p e. keeps I (account_info (ix_rpc ix) p e)) \<and>
     (\<forall>dec. ix_decoder ix = Some dec \<longrightarrow>
        keeps I (decode_available dec) \<and> (\<forall>b n. keeps I (decode_account dec b n)))"

lemma keeps_decode_with_idl: "indexer_keeps I ix \<Longrightarrow> keeps I (decode_with_idl ix b64)"
  unfolding decode_with_idl_def indexer_keeps_def
  by (cases "ix_decoder ix") (auto intro!: keeps_rules)

text \<open>A record that is returned was stored.\<close>

lemma record_from_account_stored:
  assumes "record_from_account ix now account w = (Inr (Some r), w')"
  obtains b64 first w1 d where "extract_b64 (jget account ''data'') = Some b64"
    "decode_with_idl ix b64 w = (Inr first, w1)"
    "Some d = (case first of Some x \<Rightarrow> Some x
       | None \<Rightarrow> (case py_b64decode b64 of None \<Rightarrow> None | Some raw \<Rightarrow> decode_state raw))"
    "store_root ix now (account_record now account d) w1 = (Inr r, w')"
proof -
  obtain b64 where b: "extract_b64 (jget account ''data'') = Some b64"
    using assms by (cases "extract_b64 (jget account ''data'')") (auto simp: record_from_account_def)
  with assms obtain first w1 where f: "decode_with_idl ix b64 w = (Inr first, w1)"
    by (auto simp: record_from_account_def elim!: andthen_InrE)
  let ?d = "case first of Some x \<Rightarrow> Some x
       | None \<Rightarrow> (case py_b64decode b64 of None \<Rightarrow> None | Some raw \<Rightarrow> decode_state raw)"
  obtain d where d: "?d = Some d"
    using assms b f by (cases ?d) (auto simp: record_from_account_def andthen_def Let_def)
  have "store_root ix now (account_record now account d) w1 = (Inr r, w')"
    using assms b f d by (auto simp: record_from_account_def andthen_def Let_def split: prod.splits sum.splits)
  with b f d show ?thesis by (intro that) auto
qed

lemma sync_now_stored:
  assumes "sync_now ix now w = (Inr (Some r), w')"
  obtains pda account w1 where "account_info (ix_rpc ix) pda ''base64'' w = (Inr (Some account), w1)"
    "record_from_account ix now account w1 = (Inr (Some r), w')"
  using assms
  by (auto simp: sync_now_def elim!: andthen_InrE split: if_splits sum.splits option.splits)

section \<open>The account on chain\<close>

text \<open>
  \<open>MerkleTreeState\<close> of \<open>programs/bagsvault/src/state.rs\<close> and its Borsh encoding:
  the fields in order, arrays without a length, after the 8-byte discriminator.
\<close>

record tree_state =
  ts_authority :: bytes
  ts_token_mint :: bytes
  ts_denomination :: nat
  ts_commitment_count :: nat
  ts_relayer_fee_bps :: nat
  ts_root_cursor :: byte
  ts_paused :: bool
  ts_filled_subtrees :: "bytes list"
  ts_roots :: "bytes list"
  ts_bump :: byte

definition tree_state_bytes :: "tree_state \<Rightarrow> bytes" where
  "tree_state_bytes st =
     ts_authority st @ ts_token_mint st @ le_bytes 8 (ts_denomination st) @
     le_bytes 8 (ts_commitment_count st) @ le_bytes 2 (ts_relayer_fee_bps st) @
     [ts_root_cursor st] @ [if ts_paused st then 1 else 0] @
     concat (ts_filled_subtrees st) @ concat (ts_roots st) @ [ts_bump st]"

definition account_of :: "bytes \<Rightarrow> tree_state \<Rightarrow> dict" where
  "account_of disc st = [(''data'', JList [JStr (b64encode (disc @ tree_state_bytes st)), JStr ''base64''])]"

lemma decode_tree_state:
  assumes "length disc = 8" "length (ts_authority st) = 32" "length (ts_token_mint st) = 32"
  shows "decode_state (disc @ tree_state_bytes st) =
     Some (to_hex (drop 5 (ts_authority st) @ take 5 (ts_token_mint st)),
           int (le_nat (take 4 (drop 1 (ts_authority st)))))"
proof -
  let ?a = "ts_authority st" and ?m = "ts_token_mint st"
  have a: "?a = take 1 ?a @ take 4 (drop 1 ?a) @ drop 5 ?a"
    using append_take_drop_id [of 4 "drop 1 ?a"] append_take_drop_id [of 1 ?a] by simp
  obtain x where x: "tree_state_bytes st = ?a @ ?m @ x" unfolding tree_state_bytes_def by blast
  have "?a @ y = (take 1 ?a @ take 4 (drop 1 ?a) @ drop 5 ?a) @ y" for y using a by simp
  then have t: "disc @ tree_state_bytes st =
      (disc @ take 1 ?a) @ take 4 (drop 1 ?a) @ (drop 5 ?a @ take 5 ?m) @ (drop 5 ?m @ x)"
    unfolding x by (metis append_assoc append_take_drop_id)
  show ?thesis unfolding t by (rule decode_state_parts) (use assms in simp_all)
qed

section \<open>Properties\<close>

text \<open>The manual decoder. An account shorter than 45 bytes is refused; any longer one is read as 9 bytes that do not
  matter, a 32-bit little-endian count and 32 bytes of root: the count and root that were
  written in that layout come back, the count fits 32 bits and the text of the root has 64 digits.\<close>

theorem decode_state_layout:
  shows "(decode_state raw = None \<longleftrightarrow> length raw < 45)
     \<and> (\<forall>root n. decode_state raw = Some (root, n) \<longrightarrow> 0 \<le> n \<and> n < 2 ^ 32 \<and> length root = 64)
     \<and> (\<forall>disc bump count root rest. length disc = 8 \<longrightarrow> length root = 32 \<longrightarrow> count < 2 ^ 32 \<longrightarrow>
          decode_state (disc @ [bump] @ le_bytes 4 count @ root @ rest) = Some (to_hex root, int count))"
proof (intro conjI allI impI)
  show "decode_state raw = None \<longleftrightarrow> length raw < 45"
    by (simp add: decode_state_def HEADER_LEN_def DISCRIMINATOR_LEN_def ROOT_LEN_def)
next
  fix root n assume d: "decode_state raw = Some (root, n)"
  then have "45 \<le> length raw"
    by (simp add: decode_state_def HEADER_LEN_def DISCRIMINATOR_LEN_def ROOT_LEN_def split: if_splits)
  from decode_state_split [OF this] obtain a c r rest where
    p: "raw = a @ c @ r @ rest" "length a = 9" "length c = 4" "length r = 32" by blast
  from decode_state_parts [OF p(2-4)] p(1) d have e: "root = to_hex r" "n = int (le_nat c)" by auto
  then show "0 \<le> n" "length root = 64" using p(4) by simp_all
  have "le_nat c < 256 ^ 4" using le_nat_bound [of c] p(3) by simp
  then show "n < 2 ^ 32" using e(2) by simp
next
  fix disc root rest :: bytes and bump count
  assume "length disc = 8" "length root = 32" "count < (2::nat) ^ 32"
  then show "decode_state (disc @ [bump] @ le_bytes 4 count @ root @ rest) = Some (to_hex root, int count)"
    using decode_state_parts [of "disc @ [bump]" "le_bytes 4 count" root rest]
    by (simp add: le_nat_le_bytes_id)
qed

theorem decode_state_layout_witness:
  "decode_state (replicate 8 0 @ [255] @ le_bytes 4 7 @ replicate 32 9 @ []) = Some (to_hex (replicate 32 9), 7)"
  using conjunct2 [OF conjunct2 [OF decode_state_layout [of "[]"]], rule_format,
    of "replicate 8 0" "replicate 32 9" 7 255 "[]"] by simp

text \<open>C33. The cache does not hold the pool's root. For every pool account as \<open>state.rs\<close> lays it out - any roots, any count -
  the sync without an IDL decoder returns as root the last 27 bytes of the authority's key
  followed by 5 bytes of the mint, and as count 4 bytes of that key; neither the root history nor
  the commitment count of the pool has any influence.\<close>

theorem indexer_misreads_account:
  assumes "mongo (ix_db ix) docs le" and "pydantic_laws (ix_pydantic ix)" and "ix_decoder ix = None"
    and "length disc = 8" and "length (ts_authority st) = 32" and "length (ts_token_mint st) = 32"
    and "record_from_account ix now (account_of disc st) w = (Inr (Some r), w')"
  shows "m_root r = to_hex (drop 5 (ts_authority st) @ take 5 (ts_token_mint st))
     \<and> record_from_account ix now (account_of disc (st\<lparr>ts_commitment_count := n, ts_roots := roots,
            ts_filled_subtrees := subtrees, ts_root_cursor := cursor\<rparr>)) w = (Inr (Some r), w')"
proof -
  let ?st = "st\<lparr>ts_commitment_count := n, ts_roots := roots, ts_filled_subtrees := subtrees, ts_root_cursor := cursor\<rparr>"
  have x: "extract_b64 (jget (account_of disc s) ''data'') = Some (b64encode (disc @ tree_state_bytes s))" for s
    by (simp add: account_of_def jget_def extract_b64_def)
  have rf: "json_int (jget (account_of disc s) ''rentEpoch'') = None" for s
    by (simp add: account_of_def jget_def)
  have run: "record_from_account ix now (account_of disc s) w =
      (case decode_state (disc @ tree_state_bytes s) of None \<Rightarrow> (Inr None, w)
       | Some d \<Rightarrow> andthen (store_root ix now \<lparr>m_root = fst d, m_commitment_count = snd d, m_block_height = None,
                     m_indexed_at = now, m_source = Indexed\<rparr>) (\<lambda>r. ret (Some r)) w)" for s
    by (simp add: record_from_account_def x decode_with_idl_def assms(3) account_record_def rf split: option.split)
  have same: "decode_state (disc @ tree_state_bytes ?st) = decode_state (disc @ tree_state_bytes st)"
    using decode_tree_state [of disc ?st] decode_tree_state [of disc st] assms(4-6) by simp
  show ?thesis
    using assms(7) run [of st] run [of ?st] same decode_tree_state [OF assms(4-6)]
    by (auto elim!: andthen_InrE dest: store_root_caches [OF assms(1,2)])
qed

definition demo_indexer :: "store indexer" where
  "demo_indexer = \<lparr>ix_solders = demo_solders, ix_settings = default_settings, ix_pydantic = strict_pydantic,
     ix_rpc = \<lparr>latest_blockhash = ret JNull, send_tx = (\<lambda>tx b. ret []), simulate_tx = (\<lambda>tx b. ret []),
       signature_statuses = (\<lambda>sigs h. ret []), transaction = (\<lambda>x. ret None), account_info = (\<lambda>p e. ret None)\<rparr>,
     ix_db = list_store, ix_decoder = None, ix_account_name = ''MerkleTreeState''\<rparr>"

definition demo_tree_state :: tree_state where
  "demo_tree_state = \<lparr>ts_authority = replicate 32 1, ts_token_mint = replicate 32 0, ts_denomination = 5,
     ts_commitment_count = 3, ts_relayer_fee_bps = 15, ts_root_cursor = 0, ts_paused = False,
     ts_filled_subtrees = replicate 20 (replicate 32 4), ts_roots = replicate 10 (replicate 32 6), ts_bump = 255\<rparr>"

lemma demo_store_root:
  "\<exists>r. store_root demo_indexer now rec (\<lambda>_. []) = (Inr r, (\<lambda>_. [])(''merkle_roots'' := [merkle_root_to_doc rec]))"
  by (simp add: store_root_def demo_indexer_def list_store_def ls_insert_def catching_def andthen_def)

lemma demo_record:
  "\<exists>r w'. record_from_account demo_indexer 9 (account_of (replicate 8 0) demo_tree_state) (\<lambda>_. []) = (Inr (Some r), w')"
proof -
  have "decode_with_idl demo_indexer b w = (Inr None, w)" for b w by (simp add: decode_with_idl_def demo_indexer_def)
  moreover have "extract_b64 (jget (account_of (replicate 8 0) demo_tree_state) ''data'')
      = Some (b64encode (replicate 8 0 @ tree_state_bytes demo_tree_state))"
    by (simp add: account_of_def jget_def extract_b64_def)
  moreover obtain d where "decode_state (replicate 8 0 @ tree_state_bytes demo_tree_state) = Some d"
    using decode_tree_state [of "replicate 8 0" demo_tree_state] by (simp add: demo_tree_state_def)
  ultimately show ?thesis
    using demo_store_root [of 9 "account_record 9 (account_of (replicate 8 0) demo_tree_state) d"]
    by (auto simp: record_from_account_def andthen_def)
qed

theorem indexer_misreads_account_witness:
  "\<exists>r w'. record_from_account demo_indexer 9 (account_of (replicate 8 0) demo_tree_state) (\<lambda>_. []) = (Inr (Some r), w')
     \<and> m_root r = to_hex (replicate 27 1 @ replicate 5 0)"
proof -
  obtain r w' where r: "record_from_account demo_indexer 9 (account_of (replicate 8 0) demo_tree_state) (\<lambda>_. []) = (Inr (Some r), w')"
    using demo_record by blast
  have "mongo (ix_db demo_indexer) (\<lambda>s. s) json_le" "pydantic_laws (ix_pydantic demo_indexer)" "ix_decoder demo_indexer = None"
    using lists.mongo_axioms strict.pydantic_laws_axioms by (simp_all add: demo_indexer_def)
  from indexer_misreads_account [OF this _ _ _ r] r show ?thesis
    by (auto simp: demo_tree_state_def)
qed

text \<open>C32. A sync caches the root it returns, once. When \<open>sync_now\<close> returns a root, that root is in the cache; if it was
  there before, the cache has not changed, and else it is longer by one document; roots that were
  distinct stay distinct, and no other collection is touched.\<close>

theorem sync_caches_root:
  assumes "mongo (ix_db ix) docs le" and "pydantic_laws (ix_pydantic ix)"
    and "indexer_keeps (\<lambda>w1. docs w1 = docs w) ix"
    and "sync_now ix now w = (Inr (Some r), w')"
  shows "root_cached (m_root r) (docs w ''merkle_roots'') (docs w' ''merkle_roots'')
     \<and> (\<forall>c. c \<noteq> ''merkle_roots'' \<longrightarrow> docs w' c = docs w c)"
proof -
  from assms(4) obtain pda account w1 where a: "account_info (ix_rpc ix) pda ''base64'' w = (Inr (Some account), w1)"
    and rec: "record_from_account ix now account w1 = (Inr (Some r), w')" by (rule sync_now_stored)
  have "keeps (\<lambda>w1. docs w1 = docs w) (account_info (ix_rpc ix) pda ''base64'')"
    using assms(3) by (simp add: indexer_keeps_def)
  from keepsD [OF this refl a] have 1: "docs w1 = docs w" .
  from rec obtain b64 first w2 d where i: "decode_with_idl ix b64 w1 = (Inr first, w2)"
    and st: "store_root ix now (account_record now account d) w2 = (Inr r, w')" by (rule record_from_account_stored)
  from keepsD [OF keeps_decode_with_idl [OF assms(3)] 1 i] have 2: "docs w2 = docs w" .
  from store_root_caches [OF assms(1,2) st] 2 show ?thesis by simp
qed

definition demo_live_indexer :: "store indexer" where
  "demo_live_indexer = demo_indexer\<lparr>
     ix_settings := default_settings\<lparr>bagsvault_program_id := replicate 32 CHR ''p''\<rparr>,
     ix_rpc := (ix_rpc demo_indexer)\<lparr>account_info := (\<lambda>p e. ret (Some (account_of (replicate 8 0) demo_tree_state)))\<rparr>\<rparr>"

theorem sync_caches_root_witness:
  "\<exists>r w'. sync_now demo_live_indexer 9 (\<lambda>_. []) = (Inr (Some r), w') \<and> length (w' ''merkle_roots'') = 1"
proof -
  obtain r w' where r: "record_from_account demo_indexer 9 (account_of (replicate 8 0) demo_tree_state) (\<lambda>_. []) = (Inr (Some r), w')"
    using demo_record by blast
  have rec: "record_from_account demo_live_indexer = record_from_account demo_indexer"
  proof -
    have f: "ix_decoder demo_live_indexer = ix_decoder demo_indexer" "ix_db demo_live_indexer = ix_db demo_indexer"
      "ix_account_name demo_live_indexer = ix_account_name demo_indexer"
      "ix_pydantic demo_live_indexer = ix_pydantic demo_indexer"
      by (simp_all add: demo_live_indexer_def)
    show ?thesis by (intro ext) (simp only: record_from_account_def decode_with_idl_def store_root_def f)
  qed
  have "derive_merkle_pda demo_solders (ix_settings demo_live_indexer) (replicate 32 CHR ''p'')
      = Inr (pubkey_str demo_solders (fst (find_program_address demo_solders [MERKLE_PDA_SEED, replicate 32 0] (ascii (replicate 32 CHR ''p'')))))"
    by (simp add: derive_merkle_pda_def demo_live_indexer_def default_settings_def) (simp add: demo_solders_def)
  then have s: "sync_now demo_live_indexer 9 (\<lambda>_. []) = (Inr (Some r), w')"
    using r rec by (simp add: sync_now_def) (simp add: demo_live_indexer_def andthen_def demo_indexer_def)
  have m: "mongo (ix_db demo_live_indexer) (\<lambda>s. s) json_le" "pydantic_laws (ix_pydantic demo_live_indexer)"
    using lists.mongo_axioms strict.pydantic_laws_axioms by (simp_all add: demo_live_indexer_def demo_indexer_def)
  have k: "indexer_keeps (\<lambda>w1. w1 = (\<lambda>_. [])) demo_live_indexer"
    by (simp add: indexer_keeps_def demo_live_indexer_def demo_indexer_def keeps_ret)
  have "root_cached (m_root r) [] (w' ''merkle_roots'')"
    using conjunct1 [OF sync_caches_root [OF m k s]] by simp
  from root_cached_empty [OF this] have "length (w' ''merkle_roots'') = 1" .
  with s show ?thesis by blast
qed

text \<open>The worker's health is that of its last turn. In every run of starts, stops, task ends and turns,
  the interval stays positive, the time reported is that of the most recent turn that did
  not raise, and the error is that of the most recent turn if it raised and else none: a failed turn
  keeps the old time, a later success clears the error, and starting or stopping changes neither.\<close>

theorem worker_reports_last_turn:
  assumes "worker_run ix k tr w"
  shows "0 < wk_interval k
     \<and> wk_last_sync_at k = map_option fst (List.find (\<lambda>t. snd t = None) tr)
     \<and> wk_last_sync_error k = (case tr of [] \<Rightarrow> None | t # _ \<Rightarrow> map_option exn_str (snd t))
     \<and> start (start k) = start k \<and> is_running (start k) \<and> \<not> is_running (stop k)"
  using assms
proof (induction rule: worker_run.induct)
  case (created n k w)
  then show ?case by (auto simp: new_worker_def start_def stop_def is_running_def split: if_splits)
next
  case (turn k tr w now k' w')
  then show ?case
    by (auto simp: tick_def start_def stop_def is_running_def split: prod.splits sum.splits)
qed (auto simp: start_def stop_def is_running_def)

theorem worker_reports_last_turn_witness:
  "\<exists>k. worker_run demo_indexer k [(7, None)] (\<lambda>_. []) \<and> wk_last_sync_at k = Some 7"
proof -
  let ?k = "\<lparr>wk_interval = 15, wk_task = None, wk_last_sync_at = None, wk_last_sync_error = None\<rparr>"
  have "worker_run demo_indexer ?k [] (\<lambda>_. [])" by (rule worker_run.created [of 15]) (simp add: new_worker_def)
  from worker_run.started [OF this] have 1: "worker_run demo_indexer (start ?k) [] (\<lambda>_. [])" .
  have sn: "sync_now demo_indexer 7 (\<lambda>_. []) = (Inr None, \<lambda>_. [])"
    by (simp add: sync_now_def demo_indexer_def default_settings_def)
  have run: "is_running (start ?k)" by (simp add: start_def is_running_def)
  obtain k' w' where t: "tick demo_indexer 7 (start ?k, \<lambda>_. []) = (k', w')" by (rule prod.exhaust)
  then have "w' = (\<lambda>_. [])" using sn by (simp add: tick_def)
  with worker_run.turn [OF 1 run t] sn have w: "worker_run demo_indexer k' [(7, None)] (\<lambda>_. [])" by simp
  with worker_reports_last_turn [OF w] show ?thesis by auto
qed

end
