(* ===== verification/ChainTree.thy ===== *)
theory ChainTree
  imports Indexer MerkleTree
begin

text \<open>
  \<open>programs/bagsvault/src/merkle.rs\<close> and the state methods of \<open>state.rs\<close>: the incremental
  tree of the on-chain program with its window of recent roots. The hash is
  \<open>hash_bytes_be\<close> of light-poseidon on two inputs, an argument that may refuse its
  inputs. \<open>u64\<close> and \<open>u128\<close> values are naturals with the checks of the source written out.
\<close>

section \<open>Errors\<close>

text \<open>\<open>errors.rs\<close>; a refused account constraint of Anchor, a panic and a refusal of the runtime beside it.\<close>

datatype pool_error =
    TreeFull | UnknownRoot | DoubleSpend | InvalidProof | DenominationMismatch
  | PoolPaused | Unauthorized | FeeBpsTooHigh

datatype chain_error = Pool pool_error | Anchor string | Panic string | Runtime string

type_synonym 'a chain = "chain_error + 'a"

section \<open>The tree\<close>

type_synonym node_hash = "bytes \<Rightarrow> bytes \<Rightarrow> bytes option"

definition MERKLE_TREE_DEPTH :: nat where
  "MERKLE_TREE_DEPTH = 20"

definition ROOT_HISTORY_SIZE :: nat where
  "ROOT_HISTORY_SIZE = 10"

text \<open>\<open>zero_values\<close>: the level before it is hashed; the hash of the last level is computed and dropped.\<close>

fun zero_levels :: "node_hash \<Rightarrow> nat \<Rightarrow> bytes \<Rightarrow> bytes list option" where
  "zero_levels P 0 current = Some []"
| "zero_levels P (Suc n) current =
     (case P current current of
        None \<Rightarrow> None
      | Some next_hash \<Rightarrow> map_option ((#) current) (zero_levels P n next_hash))"

definition zero_values :: "node_hash \<Rightarrow> bytes list chain" where
  "zero_values P =
     (case zero_levels P MERKLE_TREE_DEPTH zero32 of
        Some levels \<Rightarrow> Inr levels | None \<Rightarrow> Inl (Panic ''zero-leaf poseidon hash''))"

fun hash_up :: "node_hash \<Rightarrow> nat \<Rightarrow> bytes \<Rightarrow> bytes option" where
  "hash_up P 0 current = Some current"
| "hash_up P (Suc n) current =
     (case P current current of None \<Rightarrow> None | Some next_hash \<Rightarrow> hash_up P n next_hash)"

definition empty_root :: "node_hash \<Rightarrow> bytes chain" where
  "empty_root P =
     (case hash_up P MERKLE_TREE_DEPTH zero32 of
        Some h \<Rightarrow> Inr h | None \<Rightarrow> Inl (Panic ''zero-tree poseidon hash''))"

text \<open>The loop of \<open>insert\<close> over the levels that are left.\<close>

fun insert_levels ::
  "node_hash \<Rightarrow> bytes list \<Rightarrow> nat list \<Rightarrow> nat \<Rightarrow> bytes \<Rightarrow> bytes list \<Rightarrow> (bytes \<times> bytes list) option" where
  "insert_levels P zvals [] current_index current_hash subtrees = Some (current_hash, subtrees)"
| "insert_levels P zvals (level # levels) current_index current_hash subtrees =
     (let (lhs, rhs, subtrees') =
            (if current_index mod 2 = 0
             then (current_hash, zvals ! level, subtrees[level := current_hash])
             else (subtrees ! level, current_hash, subtrees))
      in case P lhs rhs of
           None \<Rightarrow> None
         | Some h \<Rightarrow> insert_levels P zvals levels (current_index div 2) h subtrees')"

definition tree_insert :: "node_hash \<Rightarrow> tree_state \<Rightarrow> bytes \<Rightarrow> (bytes \<times> tree_state) chain" where
  "tree_insert P st leaf =
     (let index = ts_commitment_count st in
      if 2 ^ MERKLE_TREE_DEPTH \<le> index then Inl (Pool TreeFull)
      else case zero_values P of
        Inl e \<Rightarrow> Inl e
      | Inr zvals \<Rightarrow>
          (case insert_levels P zvals [0..<MERKLE_TREE_DEPTH] index leaf (ts_filled_subtrees st) of
             None \<Rightarrow> Inl (Pool TreeFull)
           | Some (new_root, subtrees) \<Rightarrow>
               let cursor = unat (ts_root_cursor st) mod ROOT_HISTORY_SIZE in
               if 2 ^ 64 \<le> index + 1 then Inl (Pool TreeFull)
               else Inr (new_root, st\<lparr>ts_filled_subtrees := subtrees, ts_roots := (ts_roots st)[cursor := new_root],
                                ts_root_cursor := of_nat ((cursor + 1) mod ROOT_HISTORY_SIZE),
                                ts_commitment_count := index + 1\<rparr>)))"

definition root_is_known :: "tree_state \<Rightarrow> bytes \<Rightarrow> bool" where
  "root_is_known st candidate_root \<longleftrightarrow>
     (if candidate_root = zero32 then False else candidate_root \<in> set (ts_roots st))"

text \<open>The handler of \<open>initialize\<close> on the account that Anchor has just created.\<close>

definition MAX_RELAYER_FEE_BPS :: nat where
  "MAX_RELAYER_FEE_BPS = 1000"

definition init_tree ::
  "node_hash \<Rightarrow> bytes \<Rightarrow> bytes \<Rightarrow> byte \<Rightarrow> nat \<Rightarrow> nat \<Rightarrow> tree_state chain" where
  "init_tree P authority token_mint bump denomination fee_bps =
     (if MAX_RELAYER_FEE_BPS < fee_bps then Inl (Pool FeeBpsTooHigh)
      else case zero_values P of
        Inl e \<Rightarrow> Inl e
      | Inr subtrees \<Rightarrow>
          (case empty_root P of
             Inl e \<Rightarrow> Inl e
           | Inr initial \<Rightarrow>
               Inr \<lparr>ts_authority = authority, ts_token_mint = token_mint, ts_denomination = denomination,
                    ts_commitment_count = 0, ts_relayer_fee_bps = fee_bps, ts_root_cursor = 0,
                    ts_paused = False, ts_filled_subtrees = subtrees,
                    ts_roots = (replicate ROOT_HISTORY_SIZE zero32)[0 := initial], ts_bump = bump\<rparr>))"

section \<open>The specification tree\<close>

text \<open>
  The hash accepts some inputs (\<open>ok\<close>), its own values and the zero leaf among them, and is a total function \<open>H\<close> on these.
\<close>

definition hash_is :: "node_hash \<Rightarrow> (bytes \<Rightarrow> bool) \<Rightarrow> (bytes \<Rightarrow> bytes \<Rightarrow> bytes) \<Rightarrow> bool" where
  "hash_is P ok H \<longleftrightarrow>
     (\<forall>a b. P a b = (if ok a \<and> ok b then Some (H a b) else None)) \<and> (\<forall>a b. ok (H a b)) \<and> ok zero32"

text \<open>
  \<open>pnode H ls l k\<close> is node \<open>k\<close> of level \<open>l\<close> of the tree whose leaves are \<open>ls\<close> followed by
  zero leaves without end.
\<close>

fun pnode :: "(bytes \<Rightarrow> bytes \<Rightarrow> bytes) \<Rightarrow> bytes list \<Rightarrow> nat \<Rightarrow> nat \<Rightarrow> bytes" where
  "pnode H ls 0 k = (if k < length ls then ls ! k else zero32)"
| "pnode H ls (Suc l) k = H (pnode H ls l (2 * k)) (pnode H ls l (2 * k + 1))"

definition pool_root :: "(bytes \<Rightarrow> bytes \<Rightarrow> bytes) \<Rightarrow> bytes list \<Rightarrow> bytes" where
  "pool_root H ls = pnode H ls MERKLE_TREE_DEPTH 0"

lemma hash_isD:
  assumes "hash_is P ok H"
  shows "ok a \<Longrightarrow> ok b \<Longrightarrow> P a b = Some (H a b)" "\<not> ok a \<or> \<not> ok b \<Longrightarrow> P a b = None" "ok (H a b)" "ok zero32"
  using assms by (auto simp: hash_is_def)

lemma pnode_ok: "hash_is P ok H \<Longrightarrow> \<forall>x \<in> set ls. ok x \<Longrightarrow> ok (pnode H ls l k)"
  by (cases l) (auto simp: hash_is_def)

text \<open>A subtree without leaves is the same at every position.\<close>

lemma pnode_nil: "pnode H [] l j = pnode H [] l 0"
proof (induction l arbitrary: j)
  case (Suc l)
  then show ?case by (metis pnode.simps(2))
qed simp

lemma pnode_beyond: "length ls \<le> k * 2 ^ l \<Longrightarrow> pnode H ls l k = pnode H [] l 0"
proof (induction l arbitrary: k)
  case (Suc l)
  have "length ls \<le> 2 * k * 2 ^ l" "length ls \<le> (2 * k + 1) * 2 ^ l"
    using Suc.prems by (simp_all add: algebra_simps)
  then have "pnode H ls l (2 * k) = pnode H [] l 0" "pnode H ls l (2 * k + 1) = pnode H [] l 0"
    using Suc.IH by blast+
  moreover have "pnode H [] l 1 = pnode H [] l 0" by (rule pnode_nil)
  ultimately show ?case by simp
qed simp

text \<open>A full subtree does not change when leaves follow it.\<close>

lemma pnode_full: "(k + 1) * 2 ^ l \<le> length ls \<Longrightarrow> pnode H (ls @ xs) l k = pnode H ls l k"
proof (induction l arbitrary: k)
  case 0
  then show ?case by (simp add: nth_append)
next
  case (Suc l)
  have "(2 * k + 1) * 2 ^ l \<le> length ls" "(2 * k + 1 + 1) * 2 ^ l \<le> length ls"
    using Suc.prems by (simp_all add: algebra_simps)
  with Suc.IH [of "2 * k"] Suc.IH [of "2 * k + 1"] show ?case by simp
qed

lemma zero_levels_Some:
  "hash_is P ok H \<Longrightarrow> zero_levels P n (pnode H [] l 0) = Some (map (\<lambda>j. pnode H [] j 0) [l..<l + n])"
proof (induction n arbitrary: l)
  case (Suc n)
  have "pnode H [] l 1 = pnode H [] l 0" by (rule pnode_beyond) simp
  then have s: "P (pnode H [] l 0) (pnode H [] l 0) = Some (pnode H [] (Suc l) 0)"
    using hash_isD(1) [OF Suc.prems] pnode_ok [OF Suc.prems, of "[]"] by simp
  have "[l..<l + Suc n] = l # [Suc l..<Suc l + n]" by (simp add: upt_rec)
  with s Suc.IH [OF Suc.prems, of "Suc l"] show ?case by (simp del: pnode.simps)
qed simp

lemma zero_values_Inr:
  assumes "hash_is P ok H"
  shows "zero_values P = Inr (map (\<lambda>j. pnode H [] j 0) [0..<MERKLE_TREE_DEPTH])"
  using zero_levels_Some [OF assms, of MERKLE_TREE_DEPTH 0] by (simp add: zero_values_def)

lemma hash_up_Some: "hash_is P ok H \<Longrightarrow> hash_up P n (pnode H [] l 0) = Some (pnode H [] (l + n) 0)"
proof (induction n arbitrary: l)
  case (Suc n)
  have "pnode H [] l 1 = pnode H [] l 0" by (rule pnode_beyond) simp
  then have "P (pnode H [] l 0) (pnode H [] l 0) = Some (pnode H [] (Suc l) 0)"
    using hash_isD(1) [OF Suc.prems] pnode_ok [OF Suc.prems, of "[]"] by simp
  with Suc.IH [OF Suc.prems, of "Suc l"] show ?case by (simp del: pnode.simps)
qed simp

lemma empty_root_Inr: "hash_is P ok H \<Longrightarrow> empty_root P = Inr (pool_root H [])"
  using hash_up_Some [of P ok H MERKLE_TREE_DEPTH 0] by (simp add: empty_root_def pool_root_def)

section \<open>The loop of an insertion\<close>

text \<open>Before an insertion the cached node left of a right position is that of the tree.\<close>

definition subtrees_ok :: "(bytes \<Rightarrow> bytes \<Rightarrow> bytes) \<Rightarrow> bytes list \<Rightarrow> bytes list \<Rightarrow> bool" where
  "subtrees_ok H ls ss \<longleftrightarrow> length ss = MERKLE_TREE_DEPTH \<and>
     (\<forall>l < MERKLE_TREE_DEPTH. odd (length ls div 2 ^ l) \<longrightarrow> ss ! l = pnode H ls l (length ls div 2 ^ l - 1))"

definition after_level :: "(bytes \<Rightarrow> bytes \<Rightarrow> bytes) \<Rightarrow> bytes list \<Rightarrow> nat \<Rightarrow> bytes list \<Rightarrow> nat \<Rightarrow> bytes list" where
  "after_level H ls' n ss l = (if even (n div 2 ^ l) then ss[l := pnode H ls' l (n div 2 ^ l)] else ss)"

lemma half: "n div 2 ^ l div 2 = n div 2 ^ Suc (l::nat)" for n :: nat
  by (simp only: div_mult2_eq [symmetric] power_Suc2)

lemma next_node:
  assumes "hash_is P ok H" "\<forall>y \<in> set (ls @ [x]). ok y" "l < MERKLE_TREE_DEPTH"
    and "odd (length ls div 2 ^ l) \<Longrightarrow> ss ! l = pnode H ls l (length ls div 2 ^ l - 1)"
  shows "insert_levels P (map (\<lambda>j. pnode H [] j 0) [0..<MERKLE_TREE_DEPTH]) (l # levels)
           (length ls div 2 ^ l) (pnode H (ls @ [x]) l (length ls div 2 ^ l)) ss
       = insert_levels P (map (\<lambda>j. pnode H [] j 0) [0..<MERKLE_TREE_DEPTH]) levels
           (length ls div 2 ^ Suc l) (pnode H (ls @ [x]) (Suc l) (length ls div 2 ^ Suc l))
           (after_level H (ls @ [x]) (length ls) ss l)"
proof -
  let ?n = "length ls" and ?ls' = "ls @ [x]"
  let ?k = "?n div 2 ^ l"
  have h: "?n div 2 ^ Suc l = ?k div 2" by (simp only: half)
  have okn: "ok (pnode H ?ls' j k)" "ok (pnode H [] j k)" for j k
    using pnode_ok [OF assms(1,2)] pnode_ok [OF assms(1), of "[]"] by auto
  show ?thesis
  proof (cases "even ?k")
    case True
    have "?n < (?k + 1) * 2 ^ l" by (simp add: dividend_less_div_times)
    then have "pnode H ?ls' l (?k + 1) = pnode H [] l 0" by (intro pnode_beyond) simp
    moreover have "2 * (?k div 2) = ?k" using True by simp
    ultimately have "pnode H ?ls' (Suc l) (?k div 2) = H (pnode H ?ls' l ?k) (pnode H [] l 0)" by simp
    with True assms(3) hash_isD(1) [OF assms(1) okn(1) okn(2)] show ?thesis
      unfolding h after_level_def by (simp del: pnode.simps add: even_iff_mod_2_eq_zero)
  next
    case False
    have "?k \<ge> 1" using False by (cases "?k = 0") simp_all
    from False have "2 * (?k div 2) + 1 = ?k" by (rule odd_two_times_div_two_succ)
    then have k: "2 * (?k div 2) = ?k - 1" "2 * (?k div 2) + 1 = ?k" by linarith+
    have "(?k - 1 + 1) * 2 ^ l \<le> ?n" using \<open>?k \<ge> 1\<close> by (simp add: div_times_less_eq_dividend)
    then have f: "ss ! l = pnode H ?ls' l (?k - 1)" using assms(4) False by (simp add: pnode_full)
    have "pnode H ?ls' (Suc l) (?k div 2) = H (pnode H ?ls' l (?k - 1)) (pnode H ?ls' l ?k)"
      using k by simp
    moreover have "?k mod 2 \<noteq> 0" using False by (simp add: even_iff_mod_2_eq_zero)
    ultimately show ?thesis using False f hash_isD(1) [OF assms(1) okn(1) okn(1)]
      unfolding h after_level_def by (simp del: pnode.simps)
  qed
qed

lemma after_level_other: "j \<noteq> l \<Longrightarrow> after_level H ls' n ss l ! j = ss ! j"
  by (simp add: after_level_def)

lemma insert_loop:
  assumes "hash_is P ok H" "\<forall>y \<in> set (ls @ [x]). ok y"
  shows "l + d \<le> MERKLE_TREE_DEPTH \<Longrightarrow>
     (\<forall>j. l \<le> j \<and> j < l + d \<and> odd (length ls div 2 ^ j) \<longrightarrow> ss ! j = pnode H ls j (length ls div 2 ^ j - 1)) \<Longrightarrow>
     insert_levels P (map (\<lambda>j. pnode H [] j 0) [0..<MERKLE_TREE_DEPTH]) [l..<l + d]
         (length ls div 2 ^ l) (pnode H (ls @ [x]) l (length ls div 2 ^ l)) ss
     = Some (pnode H (ls @ [x]) (l + d) (length ls div 2 ^ (l + d)),
             foldl (after_level H (ls @ [x]) (length ls)) ss [l..<l + d])"
proof (induction d arbitrary: l ss)
  case (Suc d)
  have up: "[l..<l + Suc d] = l # [Suc l..<Suc l + d]" by (simp add: upt_rec)
  let ?ss = "after_level H (ls @ [x]) (length ls) ss l"
  have "\<forall>j. Suc l \<le> j \<and> j < Suc l + d \<and> odd (length ls div 2 ^ j) \<longrightarrow> ?ss ! j = pnode H ls j (length ls div 2 ^ j - 1)"
    using Suc.prems(2) by (auto simp: after_level_other)
  from Suc.IH [OF _ this] next_node [OF assms, of l ss "[Suc l..<Suc l + d]"] Suc.prems show ?case
    unfolding up by (simp del: pnode.simps insert_levels.simps upt_Suc)
qed simp

lemma after_levels_nth:
  "j < length ss \<Longrightarrow> foldl (after_level H ls' n) ss [0..<d] ! j =
     (if j < d \<and> even (n div 2 ^ j) then pnode H ls' j (n div 2 ^ j) else ss ! j)
   \<and> length (foldl (after_level H ls' n) ss [0..<d]) = length ss"
proof (induction d)
  case (Suc d)
  then show ?case by (cases "j = d") (auto simp: after_level_def nth_list_update simp del: pnode.simps)
qed simp

lemma subtrees_ok_after:
  assumes "subtrees_ok H ls ss"
  shows "subtrees_ok H (ls @ [x]) (foldl (after_level H (ls @ [x]) (length ls)) ss [0..<MERKLE_TREE_DEPTH])"
  unfolding subtrees_ok_def
proof (intro conjI allI impI)
  let ?n = "length ls" and ?ss = "foldl (after_level H (ls @ [x]) (length ls)) ss [0..<MERKLE_TREE_DEPTH]"
  have len: "length ss = MERKLE_TREE_DEPTH" using assms by (simp add: subtrees_ok_def)
  show "length ?ss = MERKLE_TREE_DEPTH" using after_levels_nth [of 0 ss] len by (simp add: MERKLE_TREE_DEPTH_def)
  fix l assume l: "l < MERKLE_TREE_DEPTH" and o: "odd (length (ls @ [x]) div 2 ^ l)"
  have nth: "?ss ! l = (if even (?n div 2 ^ l) then pnode H (ls @ [x]) l (?n div 2 ^ l) else ss ! l)"
    using after_levels_nth [of l ss H "ls @ [x]" ?n MERKLE_TREE_DEPTH] l len by simp
  have step: "Suc ?n div 2 ^ l = ?n div 2 ^ l \<or> Suc ?n div 2 ^ l = Suc (?n div 2 ^ l)" by (metis div_Suc)
  show "?ss ! l = pnode H (ls @ [x]) l (length (ls @ [x]) div 2 ^ l - 1)"
  proof (cases "even (?n div 2 ^ l)")
    case True
    with o step have "Suc ?n div 2 ^ l = Suc (?n div 2 ^ l)" by auto
    with True nth show ?thesis by simp
  next
    case False
    with o step have s: "Suc ?n div 2 ^ l = ?n div 2 ^ l" by auto
    have "?n div 2 ^ l \<ge> 1" using False by (cases "?n div 2 ^ l = 0") simp_all
    then have "(?n div 2 ^ l - 1 + 1) * 2 ^ l \<le> ?n" by (simp add: div_times_less_eq_dividend)
    then have "pnode H (ls @ [x]) l (?n div 2 ^ l - 1) = pnode H ls l (?n div 2 ^ l - 1)" by (rule pnode_full)
    with False nth l s assms show ?thesis by (simp add: subtrees_ok_def)
  qed
qed

section \<open>The state of a pool\<close>

text \<open>
  What the account holds after the leaves \<open>ls\<close>: their number, the cached nodes, and in
  slot \<open>(j - 1) mod 10\<close> the root after the \<open>j\<close>-th of them, for the last ten.
\<close>

definition pool_tree :: "(bytes \<Rightarrow> bytes \<Rightarrow> bytes) \<Rightarrow> bytes list \<Rightarrow> tree_state \<Rightarrow> bool" where
  "pool_tree H ls st \<longleftrightarrow>
     ts_commitment_count st = length ls \<and> subtrees_ok H ls (ts_filled_subtrees st)
   \<and> length (ts_roots st) = ROOT_HISTORY_SIZE \<and> unat (ts_root_cursor st) mod ROOT_HISTORY_SIZE = length ls mod ROOT_HISTORY_SIZE
   \<and> (ls = [] \<longrightarrow> ts_roots st ! 0 = pool_root H [])
   \<and> (\<forall>j. 1 \<le> j \<and> j \<le> length ls \<and> length ls < j + ROOT_HISTORY_SIZE \<longrightarrow>
        ts_roots st ! ((j - 1) mod ROOT_HISTORY_SIZE) = pool_root H (take j ls))
   \<and> (\<forall>i < ROOT_HISTORY_SIZE. 1 \<le> i \<and> length ls \<le> i \<longrightarrow> ts_roots st ! i = zero32)"

lemma init_tree_pool:
  assumes "hash_is P ok H" "fee \<le> MAX_RELAYER_FEE_BPS"
  obtains st where "init_tree P a m b d fee = Inr st" "pool_tree H [] st" "ts_denomination st = d"
    "ts_relayer_fee_bps st = fee" "ts_token_mint st = m" "\<not> ts_paused st" "ts_authority st = a"
proof -
  let ?st = "\<lparr>ts_authority = a, ts_token_mint = m, ts_denomination = d, ts_commitment_count = 0,
      ts_relayer_fee_bps = fee, ts_root_cursor = 0, ts_paused = False,
      ts_filled_subtrees = map (\<lambda>j. pnode H [] j 0) [0..<MERKLE_TREE_DEPTH],
      ts_roots = (replicate ROOT_HISTORY_SIZE zero32)[0 := pool_root H []], ts_bump = b\<rparr>"
  have "init_tree P a m b d fee = Inr ?st"
    using assms by (simp add: init_tree_def zero_values_Inr [OF assms(1)] empty_root_Inr [OF assms(1)])
  moreover have "pool_tree H [] ?st"
    by (auto simp: pool_tree_def subtrees_ok_def ROOT_HISTORY_SIZE_def)
  moreover have "ts_denomination ?st = d" "ts_relayer_fee_bps ?st = fee" "ts_token_mint ?st = m"
    "\<not> ts_paused ?st" "ts_authority ?st = a" by simp_all
  ultimately show ?thesis by (rule that)
qed

lemma slot_differs: "1 \<le> j \<Longrightarrow> j \<le> n \<Longrightarrow> n + 1 < j + 10 \<Longrightarrow> (j - 1) mod 10 \<noteq> n mod (10::nat)"
proof
  assume j: "1 \<le> j" "j \<le> n" "n + 1 < j + 10" and eq: "(j - 1) mod 10 = n mod 10"
  have "j - 1 \<le> n" using j by simp
  from mod_eq_dvd_iff_nat [OF this, of 10] eq have "10 dvd n - (j - 1)" by simp
  moreover have "0 < n - (j - 1)" "n - (j - 1) < 10" using j by auto
  ultimately show False by (auto dest!: dvd_imp_le)
qed

lemma tree_insert_exact:
  assumes "hash_is P ok H" "pool_tree H ls st" "\<forall>x \<in> set ls. ok x" "ok leaf" "length ls < 2 ^ MERKLE_TREE_DEPTH"
  obtains st' where "tree_insert P st leaf = Inr (pool_root H (ls @ [leaf]), st')" "pool_tree H (ls @ [leaf]) st'"
    "ts_denomination st' = ts_denomination st" "ts_relayer_fee_bps st' = ts_relayer_fee_bps st"
    "ts_token_mint st' = ts_token_mint st" "ts_paused st' = ts_paused st" "ts_authority st' = ts_authority st"
proof -
  let ?n = "length ls" and ?root = "pool_root H (ls @ [leaf])"
  let ?ss = "foldl (after_level H (ls @ [leaf]) ?n) (ts_filled_subtrees st) [0..<MERKLE_TREE_DEPTH]"
  let ?st = "st\<lparr>ts_filled_subtrees := ?ss, ts_roots := (ts_roots st)[?n mod ROOT_HISTORY_SIZE := ?root],
       ts_root_cursor := of_nat ((?n mod ROOT_HISTORY_SIZE + 1) mod ROOT_HISTORY_SIZE),
       ts_commitment_count := ?n + 1\<rparr>"
  have st: "ts_commitment_count st = ?n" "subtrees_ok H ls (ts_filled_subtrees st)"
    "unat (ts_root_cursor st) mod ROOT_HISTORY_SIZE = ?n mod ROOT_HISTORY_SIZE"
    "length (ts_roots st) = ROOT_HISTORY_SIZE"
    using assms(2) by (simp_all add: pool_tree_def)
  have "\<forall>y \<in> set (ls @ [leaf]). ok y" using assms(3,4) by auto
  from insert_loop [OF assms(1) this, of 0 MERKLE_TREE_DEPTH "ts_filled_subtrees st"] st(2) assms(5)
  have loop: "insert_levels P (map (\<lambda>j. pnode H [] j 0) [0..<MERKLE_TREE_DEPTH]) [0..<MERKLE_TREE_DEPTH] ?n leaf
      (ts_filled_subtrees st) = Some (?root, ?ss)"
    by (simp add: subtrees_ok_def pool_root_def del: insert_levels.simps)
  have small: "\<not> 2 ^ 64 \<le> ?n + 1" using assms(5) by (simp add: MERKLE_TREE_DEPTH_def)
  have ins: "tree_insert P st leaf = Inr (?root, ?st)"
    using assms(5) loop small by (simp add: tree_insert_def Let_def st zero_values_Inr [OF assms(1)] del: insert_levels.simps)
  have cur: "unat (of_nat ((?n mod 10 + 1) mod 10) :: byte) mod 10 = (?n + 1) mod 10"
  proof -
    have "(?n mod 10 + 1) mod 10 < 256" by (rule less_trans [of _ 10]) simp_all
    then have "unat (of_nat ((?n mod 10 + 1) mod 10) :: byte) = (?n mod 10 + 1) mod 10"
      by (simp add: unat_of_nat)
    then show ?thesis by (simp add: mod_simps)
  qed
  have "pool_tree H (ls @ [leaf]) ?st"
    unfolding pool_tree_def
  proof (intro conjI allI impI)
    fix j assume j: "1 \<le> j \<and> j \<le> length (ls @ [leaf]) \<and> length (ls @ [leaf]) < j + ROOT_HISTORY_SIZE"
    show "ts_roots ?st ! ((j - 1) mod ROOT_HISTORY_SIZE) = pool_root H (take j (ls @ [leaf]))"
    proof (cases "j = ?n + 1")
      case True
      then show ?thesis using st(4) by (simp add: ROOT_HISTORY_SIZE_def)
    next
      case False
      with j have "j \<le> ?n" by simp
      with j assms(2) slot_differs [of j ?n] show ?thesis by (simp add: pool_tree_def ROOT_HISTORY_SIZE_def)
    qed
  next
    fix i assume i: "i < ROOT_HISTORY_SIZE" "1 \<le> i \<and> length (ls @ [leaf]) \<le> i"
    then have "i \<noteq> ?n mod ROOT_HISTORY_SIZE" by (simp add: ROOT_HISTORY_SIZE_def)
    with i assms(2) show "ts_roots ?st ! i = zero32" by (simp add: pool_tree_def)
  qed (use subtrees_ok_after [OF st(2), of leaf] st(4) cur in \<open>simp_all add: ROOT_HISTORY_SIZE_def\<close>)
  note ins this
  moreover have "ts_denomination ?st = ts_denomination st" "ts_relayer_fee_bps ?st = ts_relayer_fee_bps st"
    "ts_token_mint ?st = ts_token_mint st" "ts_paused ?st = ts_paused st" "ts_authority ?st = ts_authority st" by simp_all
  ultimately show ?thesis by (rule that)
qed

lemma roots_window:
  assumes "pool_tree H ls st"
  shows "root_is_known st r \<longleftrightarrow> r \<noteq> zero32 \<and>
     (if ls = [] then r = pool_root H []
      else \<exists>j. 1 \<le> j \<and> j \<le> length ls \<and> length ls < j + ROOT_HISTORY_SIZE \<and> r = pool_root H (take j ls))"
proof -
  let ?n = "length ls"
  have len: "length (ts_roots st) = 10" using assms by (simp add: pool_tree_def ROOT_HISTORY_SIZE_def)
  have slot: "ts_roots st ! i = zero32 \<or> (if ls = [] then ts_roots st ! i = pool_root H []
      else \<exists>j. 1 \<le> j \<and> j \<le> ?n \<and> ?n < j + 10 \<and> ts_roots st ! i = pool_root H (take j ls))" if i: "i < 10" for i
  proof (cases "i < ?n")
    case True
    let ?j = "i + 1 + 10 * ((?n - 1 - i) div 10)"
    have d: "10 * ((?n - 1 - i) div 10) \<le> ?n - 1 - i" "?n - 1 - i < 10 * ((?n - 1 - i) div 10) + 10"
      by (simp_all add: dividend_less_times_div [of 10 "?n - 1 - i", simplified] algebra_simps)
    have j: "1 \<le> ?j" "?j \<le> ?n" "?n < ?j + 10" "(?j - 1) mod 10 = i" using d True i by simp_all
    with assms have "ts_roots st ! i = pool_root H (take ?j ls)"
      unfolding pool_tree_def ROOT_HISTORY_SIZE_def by metis
    with j True show ?thesis by (intro disjI2) auto
  next
    case False
    show ?thesis
    proof (cases "i = 0")
      case True
      with False assms show ?thesis by (simp add: pool_tree_def)
    next
      case False
      with \<open>\<not> i < ?n\<close> i assms show ?thesis by (simp add: pool_tree_def ROOT_HISTORY_SIZE_def)
    qed
  qed
  show ?thesis
  proof (cases "r = zero32")
    case True
    then show ?thesis by (simp add: root_is_known_def)
  next
    case False
    have "r \<in> set (ts_roots st) \<longleftrightarrow> (if ls = [] then r = pool_root H []
      else \<exists>j. 1 \<le> j \<and> j \<le> ?n \<and> ?n < j + 10 \<and> r = pool_root H (take j ls))" (is "_ \<longleftrightarrow> ?known")
    proof
      assume "r \<in> set (ts_roots st)"
      then obtain i where "i < 10" "r = ts_roots st ! i" using len by (auto simp: in_set_conv_nth)
      with slot [of i] False show ?known by auto
    next
      assume k: ?known
      show "r \<in> set (ts_roots st)"
      proof (cases "ls = []")
        case True
        with k assms have "r = ts_roots st ! 0" by (simp add: pool_tree_def)
        with len show ?thesis by simp
      next
        case False
        with k obtain j where "1 \<le> j" "j \<le> ?n" "?n < j + 10" "r = pool_root H (take j ls)" by auto
        with assms have "r = ts_roots st ! ((j - 1) mod 10)" by (simp add: pool_tree_def ROOT_HISTORY_SIZE_def)
        with len show ?thesis by simp
      qed
    qed
    with False show ?thesis by (simp add: root_is_known_def ROOT_HISTORY_SIZE_def)
  qed
qed

text \<open>A sequence of insertions, with the roots they return.\<close>

fun tree_inserts :: "node_hash \<Rightarrow> tree_state \<Rightarrow> bytes list \<Rightarrow> (bytes list \<times> tree_state) chain" where
  "tree_inserts P st [] = Inr ([], st)"
| "tree_inserts P st (x # xs) =
     (case tree_insert P st x of
        Inl e \<Rightarrow> Inl e
      | Inr (r, st1) \<Rightarrow>
          (case tree_inserts P st1 xs of Inl e \<Rightarrow> Inl e | Inr (rs, st2) \<Rightarrow> Inr (r # rs, st2)))"

lemma tree_inserts_exact:
  assumes "hash_is P ok H"
  shows "pool_tree H ls st \<Longrightarrow> \<forall>x \<in> set (ls @ xs). ok x \<Longrightarrow> length (ls @ xs) \<le> 2 ^ MERKLE_TREE_DEPTH \<Longrightarrow>
     \<exists>st'. tree_inserts P st xs = Inr (map (\<lambda>j. pool_root H (ls @ take (Suc j) xs)) [0..<length xs], st')
        \<and> pool_tree H (ls @ xs) st'"
proof (induction xs arbitrary: ls st)
  case (Cons x xs)
  have "\<forall>y \<in> set ls. ok y" "ok x" "length ls < 2 ^ MERKLE_TREE_DEPTH" using Cons.prems by auto
  from tree_insert_exact [OF assms Cons.prems(1) this] obtain st1 where
    st1: "tree_insert P st x = Inr (pool_root H (ls @ [x]), st1)" "pool_tree H (ls @ [x]) st1" .
  from Cons.IH [OF st1(2)] Cons.prems obtain st' where
    "tree_inserts P st1 xs = Inr (map (\<lambda>j. pool_root H ((ls @ [x]) @ take (Suc j) xs)) [0..<length xs], st')"
    "pool_tree H ((ls @ [x]) @ xs) st'" by auto
  with st1 show ?case by (simp add: map_upt_Suc del: upt_Suc)
qed simp

lemma tree_insert_refuses:
  assumes "hash_is P ok H" "pool_tree H ls st"
  shows "length ls = 2 ^ MERKLE_TREE_DEPTH \<or> \<not> ok leaf \<Longrightarrow> tree_insert P st leaf = Inl (Pool TreeFull)"
proof -
  have n: "ts_commitment_count st = length ls" using assms(2) by (simp add: pool_tree_def)
  have up: "[0..<MERKLE_TREE_DEPTH] = 0 # [1..<MERKLE_TREE_DEPTH]" by (simp add: upt_rec MERKLE_TREE_DEPTH_def)
  have "insert_levels P zs [0..<MERKLE_TREE_DEPTH] (length ls) leaf ss = None" if "\<not> ok leaf" for zs ss
    unfolding up using that hash_isD(2) [OF assms(1)] by (simp add: Let_def)
  then show "length ls = 2 ^ MERKLE_TREE_DEPTH \<or> \<not> ok leaf \<Longrightarrow> tree_insert P st leaf = Inl (Pool TreeFull)"
    by (auto simp: tree_insert_def Let_def n zero_values_Inr [OF assms(1)])
qed

text \<open>The path of the first leaf of the on-chain tree.\<close>

lemma first_path_root:
  "l + d = m \<Longrightarrow> fold_path H (pnode H [x] l 0) (zip (map (\<lambda>j. pnode H [] j 0) [l..<m]) (replicate d True)) = pnode H [x] m 0"
proof (induction d arbitrary: l)
  case (Suc d)
  have up: "[l..<m] = l # [Suc l..<m]" using Suc.prems by (simp add: upt_rec)
  have "pnode H [x] l 1 = pnode H [] l 0" by (rule pnode_beyond) simp
  then have "pnode H [x] (Suc l) 0 = H (pnode H [x] l 0) (pnode H [] l 0)" by simp
  with Suc.IH [of "Suc l"] Suc.prems show ?case unfolding up by (simp del: pnode.simps)
qed simp

section \<open>A hash for the examples\<close>

definition demo_ok :: "bytes \<Rightarrow> bool" where
  "demo_ok b \<longleftrightarrow> length b = 32 \<and> hd b < 48"

definition demo_hash :: node_hash where
  "demo_hash a b = (if demo_ok a \<and> demo_ok b then Some (mix_hash a b) else None)"

lemma demo_ok_byte32 [simp]: "demo_ok (byte32 x)" "demo_ok (replicate 32 6)"
  by (simp_all add: demo_ok_def) (simp add: byte32_def hd_append)

lemma demo_hash_is: "hash_is demo_hash demo_ok mix_hash"
  by (simp add: hash_is_def demo_hash_def zero_byte32) (simp add: mix_hash_def)

text \<open>The same for a hash that reduces its inputs instead of refusing some.\<close>

lemma total_hash_is: "hash_is (\<lambda>a b. Some (mix_hash a b)) (\<lambda>b. True) mix_hash"
  by (simp add: hash_is_def)

section \<open>Properties\<close>

text \<open>C9. The on-chain tree. Over a hash that is total on the inputs it accepts (\<open>ok\<close>: for light-poseidon the
  canonical field elements, for a hash that reduces its inputs all of them), a pool that is initialised with
  a fee of at most ten percent takes any sequence of up to \<open>2 ^ 20\<close> accepted commitments. Each insertion returns the
  root of the tree over all leaves so far, padded with zero leaves; the count is theirs; the roots the pool knows afterwards are exactly the
  roots after the last ten insertions, without the zero root. A full pool refuses, and so does a pool given a
  commitment that the hash refuses, with the error that says it is full. Three tests of \<open>tests/integration.rs\<close> deposit
  commitments above the modulus and expect them to land: that holds for a hash that reduces, and fails with \<open>TreeFull\<close>
  for one that refuses them; the program itself makes no check.\<close>

theorem pool_tree_exact:
  assumes "hash_is P ok H" and "fee \<le> 1000" and "\<forall>x \<in> set leaves. ok x" and "length leaves \<le> 2 ^ 20"
  shows "\<exists>st0 st. init_tree P auth mint bump denom fee = Inr st0
     \<and> tree_inserts P st0 leaves = Inr (map (\<lambda>j. pool_root H (take (Suc j) leaves)) [0..<length leaves], st)
     \<and> ts_commitment_count st = length leaves
     \<and> (\<forall>r. root_is_known st r \<longleftrightarrow> r \<noteq> zero32 \<and>
          (if leaves = [] then r = pool_root H []
           else \<exists>j. 1 \<le> j \<and> j \<le> length leaves \<and> length leaves < j + 10 \<and> r = pool_root H (take j leaves)))
     \<and> (\<forall>leaf. length leaves = 2 ^ 20 \<or> \<not> ok leaf \<longrightarrow> tree_insert P st leaf = Inl (Pool TreeFull))"
proof -
  have "fee \<le> MAX_RELAYER_FEE_BPS" using assms(2) by (simp add: MAX_RELAYER_FEE_BPS_def)
  from init_tree_pool [OF assms(1) this] obtain st0 where
    st0: "init_tree P auth mint bump denom fee = Inr st0" "pool_tree H [] st0" .
  have "\<forall>x \<in> set ([] @ leaves). ok x" "length ([] @ leaves) \<le> 2 ^ MERKLE_TREE_DEPTH"
    using assms(3,4) by (simp_all add: MERKLE_TREE_DEPTH_def)
  from tree_inserts_exact [OF assms(1) st0(2) this] obtain st where
    st: "tree_inserts P st0 leaves = Inr (map (\<lambda>j. pool_root H (take (Suc j) leaves)) [0..<length leaves], st)"
        "pool_tree H leaves st" by auto
  have "ts_commitment_count st = length leaves" using st(2) by (simp add: pool_tree_def)
  moreover have "tree_insert P st leaf = Inl (Pool TreeFull)" if "length leaves = 2 ^ 20 \<or> \<not> ok leaf" for leaf
    using tree_insert_refuses [OF assms(1) st(2)] that by (simp add: MERKLE_TREE_DEPTH_def)
  ultimately show ?thesis using st0 st roots_window [OF st(2)]
    by (intro exI [of _ st0] exI [of _ st] conjI) (simp_all add: ROOT_HISTORY_SIZE_def)
qed

theorem pool_tree_exact_witness:
  "(\<exists>st0 st. init_tree demo_hash (replicate 32 1) (replicate 32 0) 255 1000000 15 = Inr st0
     \<and> (\<exists>rs. tree_inserts demo_hash st0 [byte32 5, byte32 6] = Inr (rs, st) \<and> length rs = 2)
     \<and> tree_insert demo_hash st (replicate 32 0xAA) = Inl (Pool TreeFull))
   \<and> (\<exists>st0 st. init_tree (\<lambda>a b. Some (mix_hash a b)) (replicate 32 1) (replicate 32 0) 255 1000000 15 = Inr st0
     \<and> (\<exists>rs. tree_inserts (\<lambda>a b. Some (mix_hash a b)) st0 [byte32 5, replicate 32 0xAA] = Inr (rs, st) \<and> length rs = 2))"
proof (rule conjI)
  have ok: "\<forall>x \<in> set [byte32 5, byte32 6]. demo_ok x" "length [byte32 5, byte32 6] \<le> 2 ^ 20" by simp_all
  have "(15::nat) \<le> 1000" "\<not> demo_ok (replicate 32 0xAA)" by (simp_all add: demo_ok_def)
  with pool_tree_exact [OF demo_hash_is _ ok, of 15 "replicate 32 1" "replicate 32 0" 255 1000000]
  show "\<exists>st0 st. init_tree demo_hash (replicate 32 1) (replicate 32 0) 255 1000000 15 = Inr st0
     \<and> (\<exists>rs. tree_inserts demo_hash st0 [byte32 5, byte32 6] = Inr (rs, st) \<and> length rs = 2)
     \<and> tree_insert demo_hash st (replicate 32 0xAA) = Inl (Pool TreeFull)"
    by fastforce
  have all: "\<forall>x \<in> set [byte32 5, replicate 32 0xAA]. True" "length [byte32 5, replicate 32 0xAA] \<le> 2 ^ 20" by simp_all
  have "(15::nat) \<le> 1000" by simp
  from pool_tree_exact [OF total_hash_is this all, of "replicate 32 1" "replicate 32 0" 255 1000000]
  show "\<exists>st0 st. init_tree (\<lambda>a b. Some (mix_hash a b)) (replicate 32 1) (replicate 32 0) 255 1000000 15 = Inr st0
     \<and> (\<exists>rs. tree_inserts (\<lambda>a b. Some (mix_hash a b)) st0 [byte32 5, replicate 32 0xAA] = Inr (rs, st) \<and> length rs = 2)"
    by fastforce
qed

text \<open>C16. The path endpoint does not follow the on-chain tree. Even over the hash of the program, the path that the
  endpoint returns for the very first deposit, the one case its documentation calls sound, leads to another root than
  the one the program holds: the endpoint pads with the zero leaf at every level, the program with the roots of empty subtrees. So
  a pool with this one deposit does not know the root that the path proves. The one way out is that the nodes of the returned path and
  those of the pool's own path collide under the hash on the way. Of the hash it is needed that two zero leaves do not hash to the zero leaf.\<close>

theorem first_path_not_on_chain:
  assumes "hash_is P ok H" and "ok (commitment_leaf s)" and "H zero32 zero32 \<noteq> zero32"
    and "pool_tree H [commitment_leaf s] st"
  shows "\<exists>r sibs. get_merkle_path H [path_doc (0, s)] 0 = Inr r \<and> resp_siblings r = map to_hex sibs
     \<and> (fold_path H (commitment_leaf s) (zip sibs (resp_is_left r)) \<noteq> pool_root H [commitment_leaf s]
          \<and> \<not> root_is_known st (fold_path H (commitment_leaf s) (zip sibs (resp_is_left r)))
        \<or> walks_collide H (commitment_leaf s) (zip sibs (resp_is_left r))
            (commitment_leaf s) (map (\<lambda>l. (pnode H [] l 0, True)) [0..<20]))"
proof -
  let ?x = "commitment_leaf s"
  have "load_docs 0 [path_doc (0, s)] = ([?x], True)" by (simp add: load_docs_def)
  note resp = get_merkle_path_found [OF this, of H]
  let ?sibs = "map (path_sibling H [?x] 0) [0..<tree_depth]" and ?left = "map (\<lambda>l. even ((0::nat) div 2 ^ l)) [0..<tree_depth]"
  let ?pool = "map (\<lambda>l. (pnode H [] l 0, True)) [0..<20]"
  have "zip (map (\<lambda>j. pnode H [] j 0) [0..<20]) (replicate 20 True) = ?pool"
    by (simp add: zip_replicate2 comp_def)
  then have chain: "pool_root H [?x] = fold_path H ?x ?pool"
    using first_path_root [of 0 20 20 H ?x] by (simp add: pool_root_def MERKLE_TREE_DEPTH_def)
  have "map snd (zip ?sibs ?left) = map snd ?pool" by (simp add: tree_depth_def comp_def)
  moreover have "zip ?sibs ?left \<noteq> ?pool"
  proof
    assume "zip ?sibs ?left = ?pool"
    then have "fst (zip ?sibs ?left ! 1) = fst (?pool ! 1)" by (simp only:)
    then show False using assms(3) by (simp add: tree_depth_def path_sibling_def)
  qed
  ultimately have "fold_path H ?x (zip ?sibs ?left) \<noteq> pool_root H [?x] \<or> walks_collide H ?x (zip ?sibs ?left) ?x ?pool"
    unfolding chain using fold_path_collision by blast
  moreover have "\<not> root_is_known st (fold_path H ?x (zip ?sibs ?left))" if "fold_path H ?x (zip ?sibs ?left) \<noteq> pool_root H [?x]"
    using roots_window [OF assms(4)] that by (auto simp: take_Cons')
  ultimately show ?thesis
    by (intro exI [of _ ?sibs] exI conjI) (rule resp, auto simp: comp_def)
qed

text \<open>The empty subtrees over \<open>mix_hash\<close>, and the two walks, which do not collide.\<close>

fun mix_chain :: "byte list \<Rightarrow> bool" where
  "mix_chain (x # y # zs) \<longleftrightarrow> y = 3 * x + 1 \<and> mix_chain (y # zs)"
| "mix_chain zs \<longleftrightarrow> True"

lemma mix_chain_tl: "mix_chain (x # y # zs) \<Longrightarrow> mix_chain (y # zs)"
  unfolding mix_chain.simps by (rule conjunct2)

lemma mix_empties:
  "mix_chain (x # zs) \<Longrightarrow> pnode mix_hash [] l 0 = byte32 x \<Longrightarrow>
   map (\<lambda>j. (pnode mix_hash [] j 0, True)) [l..<l + length (x # zs)] = map (\<lambda>y. (byte32 y, True)) (x # zs)"
proof (induction zs arbitrary: x l)
  case (Cons y zs)
  have "pnode mix_hash [] l 1 = byte32 x" using pnode_nil [of mix_hash l 1] Cons.prems(2) by simp
  then have "pnode mix_hash [] (Suc l) 0 = byte32 y" using Cons.prems by simp
  moreover have "mix_chain (y # zs)" using Cons.prems(1) by (rule mix_chain_tl)
  ultimately have "map (\<lambda>j. (pnode mix_hash [] j 0, True)) [Suc l..<Suc l + length (y # zs)] = map (\<lambda>y. (byte32 y, True)) (y # zs)"
    by (rule Cons.IH [rotated])
  moreover have "[l..<l + length (x # y # zs)] = l # [Suc l..<Suc l + length (y # zs)]"
    by (subst upt_conv_Cons) (simp_all del: upt_Suc)
  ultimately show ?case using Cons.prems(2) by (simp only: list.map)
qed (simp del: pnode.simps)

definition mix_zeros :: "byte list" where
  "mix_zeros = [0, 1, 4, 13, 40, 121, 108, 69, 208, 113, 84, 253, 248, 233, 188, 53, 160, 225, 164, 237]"

lemma mix_pool_walk: "map (\<lambda>l. (pnode mix_hash [] l 0, True)) [0..<20] = map (\<lambda>x. (byte32 x, True)) mix_zeros"
proof -
  have "mix_chain (hd mix_zeros # tl mix_zeros)" "pnode mix_hash [] 0 0 = byte32 (hd mix_zeros)"
    "0 + length (hd mix_zeros # tl mix_zeros) = 20" "hd mix_zeros # tl mix_zeros = mix_zeros"
    by (simp_all add: mix_zeros_def zero_byte32)
  with mix_empties [of "hd mix_zeros" "tl mix_zeros" 0] show ?thesis by (simp only:)
qed

lemma mix_first_walks:
  "\<not> walks_collide mix_hash (byte32 1) (zip (map (path_sibling mix_hash [byte32 1] 0) [0..<20]) (map (\<lambda>l. even ((0::nat) div 2 ^ l)) [0..<20]))
     (byte32 1) (map (\<lambda>l. (pnode mix_hash [] l 0, True)) [0..<20])"
proof -
  have "zip (map (path_sibling mix_hash [byte32 1] 0) [0..<20]) (map (\<lambda>l. even ((0::nat) div 2 ^ l)) [0..<20]) =
      map (\<lambda>x. (byte32 x, True)) [0, 0, 0, 0, 0, 0, 0, 0, 0, 0, 0, 0, 0, 0, 0, 0, 0, 0, 0, 0]"
    by (simp add: path_sibling_def zero_byte32 upt_rec)
  then show ?thesis unfolding mix_pool_walk by (simp add: mix_zeros_def ordered_pair_def)
qed

theorem first_path_not_on_chain_witness:
  "\<exists>st. tree_insert demo_hash st (commitment_leaf ''01'') \<noteq> Inl (Pool TreeFull)
     \<and> (\<exists>r sibs. get_merkle_path mix_hash [path_doc (0, ''01'')] 0 = Inr r \<and> resp_siblings r = map to_hex sibs
          \<and> \<not> root_is_known st (fold_path mix_hash (commitment_leaf ''01'') (zip sibs (resp_is_left r))))"
proof -
  let ?x = "commitment_leaf ''01''"
  have ok: "demo_ok ?x" and nz: "mix_hash zero32 zero32 \<noteq> zero32" by (simp_all add: leaf_bytes zero_byte32)
  from init_tree_pool [OF demo_hash_is, of 0 "[]" "[]" 0 1] obtain st0 where st0: "pool_tree mix_hash [] st0" by auto
  have lt: "length [] < (2::nat) ^ MERKLE_TREE_DEPTH" by simp
  have all: "\<forall>x \<in> set []. demo_ok x" by simp
  from tree_insert_exact [OF demo_hash_is st0 all ok lt] obtain st where st: "pool_tree mix_hash [?x] st" by auto
  have "\<forall>x \<in> set [?x]. demo_ok x" "length [?x] < (2::nat) ^ MERKLE_TREE_DEPTH" using ok by (simp_all add: MERKLE_TREE_DEPTH_def)
  then obtain rt st2 where "tree_insert demo_hash st ?x = Inr (rt, st2)"
    using tree_insert_exact [OF demo_hash_is st _ ok] by metis
  then have inserts: "tree_insert demo_hash st ?x \<noteq> Inl (Pool TreeFull)" by (simp only:) simp
  obtain r sibs where r: "get_merkle_path mix_hash [path_doc (0, ''01'')] 0 = Inr r" "resp_siblings r = map to_hex sibs"
    "\<not> root_is_known st (fold_path mix_hash ?x (zip sibs (resp_is_left r)))
     \<or> walks_collide mix_hash ?x (zip sibs (resp_is_left r)) ?x (map (\<lambda>l. (pnode mix_hash [] l 0, True)) [0..<20])"
    using first_path_not_on_chain [OF demo_hash_is ok nz st] by blast
  have "load_docs 0 [path_doc (0, ''01'')] = ([byte32 1], True)" by (simp add: load_docs_def leaf_bytes)
  from get_merkle_path_found [OF this, of mix_hash] r(1,2)
  have "map to_hex sibs = map to_hex (map (path_sibling mix_hash [byte32 1] 0) [0..<20])"
    "resp_is_left r = map (\<lambda>l. even ((0::nat) div 2 ^ l)) [0..<20]"
    by (auto simp: comp_def tree_depth_def)
  moreover have "inj to_hex" by (simp add: inj_def)
  ultimately have "sibs = map (path_sibling mix_hash [byte32 1] 0) [0..<20]"
    "resp_is_left r = map (\<lambda>l. even ((0::nat) div 2 ^ l)) [0..<20]" by (simp_all only: inj_map_eq_map)
  with mix_first_walks have "\<not> walks_collide mix_hash ?x (zip sibs (resp_is_left r)) ?x (map (\<lambda>l. (pnode mix_hash [] l 0, True)) [0..<20])"
    by (simp only: leaf_bytes) simp
  with r inserts show ?thesis by blast
qed

end
