(* ===== verification/Chain.thy ===== *)
theory Chain
  imports ChainTree
begin

text \<open>
  The instructions of the on-chain program: \<open>programs/bagsvault/src/instructions\<close>,
  \<open>verifier.rs\<close>, \<open>sunspot.rs\<close> and \<open>fee_share.rs\<close>. The ledger has the accounts the program
  touches; a pool account is named by its mint, which its address is derived from, and
  a nullifier account by its hash. What is not in the repository is the record
  \<open>vm\<close>: the programs it calls, the pairing check, address derivation and the runtime's
  own check of the balances an instruction leaves. An instruction that fails leaves the ledger as
  it was, so a handler returns the new ledger with its events or an error. Where several accounts of
  an instruction are wrong, the model reports the pool's constraints first; Anchor may report another of them.
\<close>

section \<open>Sequencing\<close>

definition chain_then :: "'a chain \<Rightarrow> ('a \<Rightarrow> 'b chain) \<Rightarrow> 'b chain" where
  "chain_then r k = (case r of Inl e \<Rightarrow> Inl e | Inr x \<Rightarrow> k x)"

definition require :: "bool \<Rightarrow> chain_error \<Rightarrow> unit chain" where
  "require b e = (if b then Inr () else Inl e)"

definition some_or :: "'a option \<Rightarrow> chain_error \<Rightarrow> 'a chain" where
  "some_or x e = (case x of None \<Rightarrow> Inl e | Some y \<Rightarrow> Inr y)"

named_theorems chain_simps \<open>outcomes of composed instructions\<close>

lemma chain_then_simps [simp]: "chain_then (Inl e) k = Inl e" "chain_then (Inr x) k = k x"
  by (simp_all add: chain_then_def)

lemma chain_then_Inr [chain_simps]: "chain_then r k = Inr y \<longleftrightarrow> (\<exists>x. r = Inr x \<and> k x = Inr y)"
  by (cases r) simp_all

lemma require_Inr [chain_simps]: "require b e = Inr u \<longleftrightarrow> b"
  by (simp add: require_def)

lemma some_or_Inr [chain_simps]: "some_or x e = Inr y \<longleftrightarrow> x = Some y"
  by (cases x) (simp_all add: some_or_def)

section \<open>The ledger\<close>

record token_account =
  ta_mint :: pubkey
  ta_owner :: pubkey
  ta_amount :: nat

record ledger =
  lg_lamports :: "pubkey \<Rightarrow> nat"
  lg_owner :: "pubkey \<Rightarrow> pubkey"
  lg_tokens :: "pubkey \<Rightarrow> token_account option"
  lg_pools :: "pubkey \<Rightarrow> tree_state option"
  lg_nullifiers :: "bytes \<Rightarrow> bool"

text \<open>The events of \<open>state.rs\<close>.\<close>

datatype event =
    DepositEvent bytes nat int
  | WithdrawEvent bytes pubkey nat int
  | RootUpdatedEvent bytes nat

text \<open>
  \<open>vm_transfer\<close> is the system program's transfer on lamports, \<open>vm_token_transfer\<close> the token
  program's with the authority that signs, \<open>vm_invoke\<close> whether a call of another program with
  no account but itself returns \<open>Ok\<close>, \<open>vm_settles\<close> what the runtime checks
  of the lamports before and after a program's own writes.
\<close>

record vm =
  vm_program :: pubkey
  vm_vault :: "pubkey \<Rightarrow> pubkey"
  vm_nullifier :: "bytes \<Rightarrow> pubkey"
  vm_state :: "pubkey \<Rightarrow> pubkey"
  vm_hash :: node_hash
  vm_groth16 :: "bytes \<Rightarrow> bytes \<Rightarrow> bytes \<Rightarrow> bytes list \<Rightarrow> bool"
  vm_invoke :: "pubkey \<Rightarrow> bytes \<Rightarrow> bool"
  vm_fee_share :: pubkey
  vm_transfer :: "(pubkey \<Rightarrow> nat) \<Rightarrow> pubkey \<Rightarrow> pubkey \<Rightarrow> nat \<Rightarrow> (pubkey \<Rightarrow> nat) option"
  vm_token_transfer :: "(pubkey \<Rightarrow> token_account option) \<Rightarrow> pubkey \<Rightarrow> pubkey \<Rightarrow> pubkey \<Rightarrow> nat
    \<Rightarrow> (pubkey \<Rightarrow> token_account option) option"
  vm_settles :: "pubkey \<Rightarrow> (pubkey \<Rightarrow> pubkey) \<Rightarrow> (pubkey \<Rightarrow> nat) \<Rightarrow> (pubkey \<Rightarrow> nat) \<Rightarrow> bool"
  vm_rent :: "nat \<Rightarrow> nat"
  vm_bump :: byte
  vm_clock :: int

text \<open>The id of the system program, which stands for native SOL as a mint: 32 zero bytes.\<close>

definition SYSTEM_ID :: pubkey where
  "SYSTEM_ID = replicate 32 0"

text \<open>
  Anchor's \<open>init\<close>: the account must not exist, and the payer funds its rent. An address that already holds
  lamports is only topped up to the rent, at least to one lamport.
\<close>

definition pay_rent :: "vm \<Rightarrow> (pubkey \<Rightarrow> nat) \<Rightarrow> pubkey \<Rightarrow> pubkey \<Rightarrow> nat \<Rightarrow> (pubkey \<Rightarrow> nat) option" where
  "pay_rent v l payer account space =
     (if l account = 0 then vm_transfer v l payer account (vm_rent v space)
      else let missing = max 1 (vm_rent v space) - l account
           in if missing = 0 then Some l else vm_transfer v l payer account missing)"

definition init_account :: "vm \<Rightarrow> ledger \<Rightarrow> bool \<Rightarrow> pubkey \<Rightarrow> pubkey \<Rightarrow> nat \<Rightarrow> ledger chain" where
  "init_account v lg exists payer account space =
     chain_then (require (\<not> exists) (Runtime ''account already in use'')) (\<lambda>_.
     chain_then (some_or (pay_rent v (lg_lamports lg) payer account space) (Runtime ''insufficient funds for rent''))
       (\<lambda>l. Inr (lg\<lparr>lg_lamports := l, lg_owner := (lg_owner lg)(account := vm_program v)\<rparr>)))"

section \<open>initialize and the admin instructions\<close>

text \<open>The size of a pool account after its discriminator, and that of a nullifier.\<close>

definition TREE_STATE_SIZE :: nat where
  "TREE_STATE_SIZE = 32 + 32 + 8 + 8 + 2 + 1 + 1 + 32 * MERKLE_TREE_DEPTH + 32 * ROOT_HISTORY_SIZE + 1"

definition NULLIFIER_SIZE :: nat where
  "NULLIFIER_SIZE = 1"

definition initialize :: "vm \<Rightarrow> ledger \<Rightarrow> pubkey \<Rightarrow> pubkey \<Rightarrow> nat \<Rightarrow> nat \<Rightarrow> (ledger \<times> event list) chain" where
  "initialize v lg authority mint denomination fee_bps =
     chain_then (init_account v lg (lg_pools lg mint \<noteq> None) authority (vm_state v mint) (8 + TREE_STATE_SIZE)) (\<lambda>lg1.
     chain_then (init_tree (vm_hash v) authority mint (vm_bump v) denomination fee_bps) (\<lambda>st.
     Inr (lg1\<lparr>lg_pools := (lg_pools lg1)(mint \<mapsto> st)\<rparr>,
          [RootUpdatedEvent (ts_roots st ! 0) 0])))"

text \<open>The constraint \<open>has_one = authority\<close> on an existing pool.\<close>

definition admin_pool :: "ledger \<Rightarrow> pubkey \<Rightarrow> pubkey \<Rightarrow> tree_state chain" where
  "admin_pool lg authority mint =
     chain_then (some_or (lg_pools lg mint) (Anchor ''AccountNotInitialized'')) (\<lambda>st.
     chain_then (require (ts_authority st = authority) (Pool Unauthorized)) (\<lambda>_. Inr st))"

definition put_pool :: "ledger \<Rightarrow> pubkey \<Rightarrow> tree_state \<Rightarrow> ledger" where
  "put_pool lg mint st = lg\<lparr>lg_pools := (lg_pools lg)(mint \<mapsto> st)\<rparr>"

definition pause :: "ledger \<Rightarrow> pubkey \<Rightarrow> pubkey \<Rightarrow> (ledger \<times> event list) chain" where
  "pause lg authority mint =
     chain_then (admin_pool lg authority mint) (\<lambda>st. Inr (put_pool lg mint (st\<lparr>ts_paused := True\<rparr>), []))"

definition unpause :: "ledger \<Rightarrow> pubkey \<Rightarrow> pubkey \<Rightarrow> (ledger \<times> event list) chain" where
  "unpause lg authority mint =
     chain_then (admin_pool lg authority mint) (\<lambda>st. Inr (put_pool lg mint (st\<lparr>ts_paused := False\<rparr>), []))"

definition rotate_authority ::
  "ledger \<Rightarrow> pubkey \<Rightarrow> pubkey \<Rightarrow> pubkey \<Rightarrow> (ledger \<times> event list) chain" where
  "rotate_authority lg authority mint new_authority =
     chain_then (admin_pool lg authority mint) (\<lambda>st.
     Inr (put_pool lg mint (st\<lparr>ts_authority := new_authority\<rparr>), []))"

text \<open>\<open>register_fee_share\<close>: both checks of the share, then the call, whose data is made here.\<close>

definition REGISTER_RECIPIENT_DISCRIMINATOR :: bytes where
  "REGISTER_RECIPIENT_DISCRIMINATOR = [0xc1, 0x4f, 0x40, 0x95, 0xa3, 0x4c, 0x37, 0x21]"

definition register_fee_share_recipient :: "vm \<Rightarrow> pubkey \<Rightarrow> pubkey \<Rightarrow> nat \<Rightarrow> unit chain" where
  "register_fee_share_recipient v fee_share_program recipient bps =
     chain_then (require (bps \<le> 10000) (Pool DenominationMismatch)) (\<lambda>_.
     require (vm_invoke v fee_share_program (REGISTER_RECIPIENT_DISCRIMINATOR @ recipient @ le_bytes 2 bps))
       (Pool InvalidProof))"

definition register_fee_share :: "vm \<Rightarrow> ledger \<Rightarrow> pubkey \<Rightarrow> pubkey \<Rightarrow> nat \<Rightarrow> (ledger \<times> event list) chain" where
  "register_fee_share v lg authority mint bps =
     chain_then (admin_pool lg authority mint) (\<lambda>st.
     chain_then (require (\<not> ts_paused st) (Pool PoolPaused)) (\<lambda>_.
     chain_then (require (bps \<le> 10000) (Pool DenominationMismatch)) (\<lambda>_.
     chain_then (register_fee_share_recipient v (vm_fee_share v) (vm_vault v (ts_token_mint st)) bps) (\<lambda>_.
     Inr (lg, [])))))"

section \<open>Deposits\<close>

text \<open>The pool of an instruction that moves SOL, or tokens of the pool's mint.\<close>

definition open_pool :: "ledger \<Rightarrow> pubkey \<Rightarrow> bool \<Rightarrow> tree_state chain" where
  "open_pool lg mint native =
     chain_then (some_or (lg_pools lg mint) (Anchor ''AccountNotInitialized'')) (\<lambda>st.
     chain_then (require (\<not> ts_paused st) (Pool PoolPaused)) (\<lambda>_.
     chain_then (require ((ts_token_mint st = SYSTEM_ID) = native) (Pool DenominationMismatch)) (\<lambda>_.
     Inr st)))"

definition handle_deposit ::
  "vm \<Rightarrow> ledger \<Rightarrow> pubkey \<Rightarrow> tree_state \<Rightarrow> bytes \<Rightarrow> (ledger \<times> event list) chain" where
  "handle_deposit v lg mint st commitment =
     chain_then (tree_insert (vm_hash v) st commitment) (\<lambda>(new_root, st').
     Inr (put_pool lg mint st',
          [DepositEvent commitment (ts_commitment_count st) (vm_clock v),
           RootUpdatedEvent new_root (ts_commitment_count st')]))"

definition deposit_sol :: "vm \<Rightarrow> ledger \<Rightarrow> pubkey \<Rightarrow> pubkey \<Rightarrow> bytes \<Rightarrow> (ledger \<times> event list) chain" where
  "deposit_sol v lg depositor mint commitment =
     chain_then (open_pool lg mint True) (\<lambda>st.
     chain_then (some_or (vm_transfer v (lg_lamports lg) depositor (vm_vault v (ts_token_mint st)) (ts_denomination st))
                   (Runtime ''transfer failed'')) (\<lambda>l.
     handle_deposit v (lg\<lparr>lg_lamports := l\<rparr>) mint st commitment))"

text \<open>The constraints on a token account: its mint, then its owner.\<close>

definition token_account_of :: "ledger \<Rightarrow> pubkey \<Rightarrow> pubkey \<Rightarrow> pubkey \<Rightarrow> token_account chain" where
  "token_account_of lg key mint owner =
     chain_then (some_or (lg_tokens lg key) (Anchor ''AccountNotInitialized'')) (\<lambda>t.
     chain_then (require (ta_mint t = mint) (Pool DenominationMismatch)) (\<lambda>_.
     chain_then (require (ta_owner t = owner) (Pool Unauthorized)) (\<lambda>_.
     Inr t)))"

definition move_tokens :: "vm \<Rightarrow> ledger \<Rightarrow> pubkey \<Rightarrow> pubkey \<Rightarrow> pubkey \<Rightarrow> nat \<Rightarrow> ledger chain" where
  "move_tokens v lg source target authority amount =
     chain_then (some_or (vm_token_transfer v (lg_tokens lg) source target authority amount)
                   (Runtime ''token transfer failed'')) (\<lambda>t.
     Inr (lg\<lparr>lg_tokens := t\<rparr>))"

definition deposit_spl ::
  "vm \<Rightarrow> ledger \<Rightarrow> pubkey \<Rightarrow> pubkey \<Rightarrow> pubkey \<Rightarrow> pubkey \<Rightarrow> bytes \<Rightarrow> (ledger \<times> event list) chain" where
  "deposit_spl v lg depositor mint depositor_ta vault_ta commitment =
     chain_then (open_pool lg mint False) (\<lambda>st.
     chain_then (token_account_of lg depositor_ta (ts_token_mint st) depositor) (\<lambda>_.
     chain_then (token_account_of lg vault_ta (ts_token_mint st) (vm_vault v (ts_token_mint st))) (\<lambda>_.
     chain_then (move_tokens v lg depositor_ta vault_ta depositor (ts_denomination st)) (\<lambda>lg1.
     handle_deposit v lg1 mint st commitment))))"

section \<open>Withdrawals\<close>

text \<open>
  \<open>split_payout\<close>: the product is taken in 128 bits, where it always fits; the
  quotient is cut to 64.
\<close>

definition split_payout :: "nat \<Rightarrow> nat \<Rightarrow> (nat \<times> nat) chain" where
  "split_payout amount fee_bps =
     (if 2 ^ 128 \<le> amount * fee_bps then Inl (Pool InvalidProof)
      else let relayer_cut = (amount * fee_bps div 10000) mod 2 ^ 64 in
        if amount < relayer_cut then Inl (Pool InvalidProof)
        else Inr (amount - relayer_cut, relayer_cut))"

definition pubkey_to_field :: "pubkey \<Rightarrow> bytes" where
  "pubkey_to_field key = key"

definition u64_to_field :: "nat \<Rightarrow> bytes" where
  "u64_to_field n = replicate 24 0 @ rev (le_bytes 8 n)"

definition public_inputs_of :: "tree_state \<Rightarrow> bytes \<Rightarrow> bytes \<Rightarrow> pubkey \<Rightarrow> nat \<Rightarrow> pubkey \<Rightarrow> bytes list" where
  "public_inputs_of st root_bytes nullifier_hash recipient amount relayer =
     [root_bytes, nullifier_hash, pubkey_to_field recipient, u64_to_field amount,
      pubkey_to_field relayer, u64_to_field (ts_relayer_fee_bps st)]"

definition verify_withdraw_proof :: "vm \<Rightarrow> bytes \<Rightarrow> bytes list \<Rightarrow> unit chain" where
  "verify_withdraw_proof v proof_bytes inputs =
     chain_then (require (length proof_bytes = 256) (Pool InvalidProof)) (\<lambda>_.
     require (vm_groth16 v (take 64 proof_bytes) (take 128 (drop 64 proof_bytes)) (drop 192 proof_bytes) inputs)
       (Pool InvalidProof))"

definition SUNSPOT_VERIFY_DISCRIMINATOR :: bytes where
  "SUNSPOT_VERIFY_DISCRIMINATOR = replicate 8 0"

definition verify_via_sunspot :: "vm \<Rightarrow> pubkey \<Rightarrow> bytes \<Rightarrow> bytes list \<Rightarrow> unit chain" where
  "verify_via_sunspot v verifier_program proof_bytes inputs =
     require (vm_invoke v verifier_program
                (SUNSPOT_VERIFY_DISCRIMINATOR @ le_bytes 4 (length proof_bytes mod 2 ^ 32) @ proof_bytes @ concat inputs))
       (Pool InvalidProof)"

text \<open>A call of a withdrawal: the accounts it names and its arguments.\<close>

record withdrawal_call =
  wc_relayer :: pubkey
  wc_mint :: pubkey
  wc_proof :: bytes
  wc_root :: bytes
  wc_nullifier_hash :: bytes
  wc_recipient :: pubkey
  wc_amount :: nat
  wc_verifier :: "pubkey option"

definition verify_and_record :: "vm \<Rightarrow> ledger \<Rightarrow> tree_state \<Rightarrow> withdrawal_call \<Rightarrow> (ledger \<times> event list) chain" where
  "verify_and_record v lg st c =
     (let inputs = public_inputs_of st (wc_root c) (wc_nullifier_hash c) (wc_recipient c) (wc_amount c) (wc_relayer c) in
      chain_then (require (root_is_known st (wc_root c)) (Pool UnknownRoot)) (\<lambda>_.
      chain_then (require (wc_amount c = ts_denomination st) (Pool DenominationMismatch)) (\<lambda>_.
      chain_then (case wc_verifier c of
                    Some p \<Rightarrow> verify_via_sunspot v p (wc_proof c) inputs
                  | None \<Rightarrow> verify_withdraw_proof v (wc_proof c) inputs) (\<lambda>_.
      Inr (lg\<lparr>lg_nullifiers := (lg_nullifiers lg)(wc_nullifier_hash c := True)\<rparr>,
           [WithdrawEvent (wc_nullifier_hash c) (wc_recipient c) (wc_amount c) (vm_clock v)])))))"

text \<open>Accounts of a withdrawal up to the payout: the pool, the new nullifier account, the proof.\<close>

definition open_withdrawal :: "vm \<Rightarrow> ledger \<Rightarrow> bool \<Rightarrow> withdrawal_call \<Rightarrow> (ledger \<times> event list \<times> tree_state) chain" where
  "open_withdrawal v lg native c =
     chain_then (open_pool lg (wc_mint c) native) (\<lambda>st.
     chain_then (init_account v lg (lg_nullifiers lg (wc_nullifier_hash c)) (wc_relayer c)
                   (vm_nullifier v (wc_nullifier_hash c)) (8 + NULLIFIER_SIZE)) (\<lambda>lg1.
     chain_then (verify_and_record v lg1 st c) (\<lambda>(lg2, events).
     Inr (lg2, events, st))))"

text \<open>Checked writes of lamports, each on the balances the writes before it left.\<close>

definition sub_lamports :: "(pubkey \<Rightarrow> nat) \<Rightarrow> pubkey \<Rightarrow> nat \<Rightarrow> (pubkey \<Rightarrow> nat) chain" where
  "sub_lamports l k n = (if l k < n then Inl (Pool InvalidProof) else Inr (l(k := l k - n)))"

definition add_lamports :: "(pubkey \<Rightarrow> nat) \<Rightarrow> pubkey \<Rightarrow> nat \<Rightarrow> (pubkey \<Rightarrow> nat) chain" where
  "add_lamports l k n = (if 2 ^ 64 \<le> l k + n then Inl (Pool InvalidProof) else Inr (l(k := l k + n)))"

definition withdraw_sol :: "vm \<Rightarrow> ledger \<Rightarrow> withdrawal_call \<Rightarrow> (ledger \<times> event list) chain" where
  "withdraw_sol v lg c =
     chain_then (open_withdrawal v lg True c) (\<lambda>(lg1, events, st).
     chain_then (split_payout (wc_amount c) (ts_relayer_fee_bps st)) (\<lambda>(recipient_amount, relayer_cut).
     chain_then (sub_lamports (lg_lamports lg1) (vm_vault v (ts_token_mint st)) (wc_amount c)) (\<lambda>l1.
     chain_then (add_lamports l1 (wc_recipient c) recipient_amount) (\<lambda>l2.
     chain_then (if 0 < relayer_cut then add_lamports l2 (wc_relayer c) relayer_cut else Inr l2) (\<lambda>l3.
     chain_then (require (vm_settles v (vm_program v) (lg_owner lg1) (lg_lamports lg1) l3)
                   (Runtime ''instruction spent from the balance of an account it does not own'')) (\<lambda>_.
     Inr (lg1\<lparr>lg_lamports := l3\<rparr>, events)))))))"

text \<open>The token accounts of the relayer, the vault and the recipient, in the order they are checked.\<close>

definition withdraw_spl ::
  "vm \<Rightarrow> ledger \<Rightarrow> withdrawal_call \<Rightarrow> pubkey \<Rightarrow> pubkey \<Rightarrow> pubkey \<Rightarrow> (ledger \<times> event list) chain" where
  "withdraw_spl v lg c relayer_ta vault_ta recipient_ta =
     chain_then (open_pool lg (wc_mint c) False) (\<lambda>st.
     chain_then (token_account_of lg relayer_ta (ts_token_mint st) (wc_relayer c)) (\<lambda>_.
     chain_then (token_account_of lg vault_ta (ts_token_mint st) (vm_vault v (ts_token_mint st))) (\<lambda>_.
     chain_then (token_account_of lg recipient_ta (ts_token_mint st) (wc_recipient c)) (\<lambda>_.
     chain_then (open_withdrawal v lg False c) (\<lambda>(lg1, events, _).
     chain_then (split_payout (wc_amount c) (ts_relayer_fee_bps st)) (\<lambda>(recipient_amount, relayer_cut).
     chain_then (move_tokens v lg1 vault_ta recipient_ta (vm_vault v (ts_token_mint st)) recipient_amount) (\<lambda>lg2.
     chain_then (if 0 < relayer_cut
                 then move_tokens v lg2 vault_ta relayer_ta (vm_vault v (ts_token_mint st)) relayer_cut
                 else Inr lg2) (\<lambda>lg3.
     Inr (lg3, events)))))))))"

section \<open>Transactions and runs\<close>

text \<open>The instructions of \<open>lib.rs\<close>; \<open>deposit\<close> and \<open>withdraw\<close> are other names of the SOL ones.\<close>

datatype tx =
    Initialize pubkey pubkey nat nat
  | DepositSol pubkey pubkey bytes
  | DepositSpl pubkey pubkey pubkey pubkey bytes
  | WithdrawSol withdrawal_call
  | WithdrawSpl withdrawal_call pubkey pubkey pubkey
  | RegisterFeeShare pubkey pubkey nat
  | Pause pubkey pubkey
  | Unpause pubkey pubkey
  | RotateAuthority pubkey pubkey pubkey

definition process :: "vm \<Rightarrow> ledger \<Rightarrow> tx \<Rightarrow> (ledger \<times> event list) chain" where
  "process v lg t =
     (case t of
        Initialize authority mint denomination fee_bps \<Rightarrow> initialize v lg authority mint denomination fee_bps
      | DepositSol depositor mint commitment \<Rightarrow> deposit_sol v lg depositor mint commitment
      | DepositSpl depositor mint source_ta vault_ta commitment \<Rightarrow> deposit_spl v lg depositor mint source_ta vault_ta commitment
      | WithdrawSol c \<Rightarrow> withdraw_sol v lg c
      | WithdrawSpl c relayer_ta vault_ta recipient_ta \<Rightarrow> withdraw_spl v lg c relayer_ta vault_ta recipient_ta
      | RegisterFeeShare authority mint bps \<Rightarrow> register_fee_share v lg authority mint bps
      | Pause authority mint \<Rightarrow> pause lg authority mint
      | Unpause authority mint \<Rightarrow> unpause lg authority mint
      | RotateAuthority authority mint new_authority \<Rightarrow> rotate_authority lg authority mint new_authority)"

text \<open>Who signs a transaction.\<close>

fun signer_of :: "tx \<Rightarrow> pubkey" where
  "signer_of (Initialize a _ _ _) = a"
| "signer_of (DepositSol d _ _) = d"
| "signer_of (DepositSpl d _ _ _ _) = d"
| "signer_of (WithdrawSol c) = wc_relayer c"
| "signer_of (WithdrawSpl c _ _ _) = wc_relayer c"
| "signer_of (RegisterFeeShare a _ _) = a"
| "signer_of (Pause a _) = a"
| "signer_of (Unpause a _) = a"
| "signer_of (RotateAuthority a _ _) = a"

fun spends :: "tx \<Rightarrow> bytes option" where
  "spends (WithdrawSol c) = Some (wc_nullifier_hash c)"
| "spends (WithdrawSpl c _ _ _) = Some (wc_nullifier_hash c)"
| "spends _ = None"

text \<open>
  What other programs can do between two instructions: anything but touch the accounts of this
  program, or take from or reassign a vault, whose address no key signs for.
\<close>

definition outside :: "vm \<Rightarrow> ledger \<Rightarrow> ledger \<Rightarrow> bool" where
  "outside v lg lg' \<longleftrightarrow>
     lg_pools lg' = lg_pools lg \<and> lg_nullifiers lg' = lg_nullifiers lg \<and>
     (\<forall>m. lg_owner lg' (vm_vault v m) = lg_owner lg (vm_vault v m)
        \<and> lg_lamports lg (vm_vault v m) \<le> lg_lamports lg' (vm_vault v m))"

inductive chain_run :: "vm \<Rightarrow> ledger \<Rightarrow> tx list \<Rightarrow> ledger \<Rightarrow> bool" for v lg0 where
  start: "chain_run v lg0 [] lg0"
| call: "chain_run v lg0 ts lg \<Longrightarrow> process v lg t = Inr (lg', events) \<Longrightarrow> chain_run v lg0 (ts @ [t]) lg'"
| other: "chain_run v lg0 ts lg \<Longrightarrow> outside v lg lg' \<Longrightarrow> chain_run v lg0 ts lg'"

definition spent :: "tx list \<Rightarrow> bytes list" where
  "spent ts = List.map_filter spends ts"

section \<open>Lemmas\<close>

lemmas instruction_defs = initialize_def pause_def unpause_def rotate_authority_def register_fee_share_def
  register_fee_share_recipient_def   admin_pool_def open_pool_def handle_deposit_def deposit_sol_def deposit_spl_def move_tokens_def token_account_of_def

lemma init_account_Inr [chain_simps]:
  "init_account v lg ex payer k space = Inr lg' \<longleftrightarrow> \<not> ex \<and>
     (\<exists>l. pay_rent v (lg_lamports lg) payer k space = Some l \<and>
        lg' = lg\<lparr>lg_lamports := l, lg_owner := (lg_owner lg)(k := vm_program v)\<rparr>)"
  by (auto simp: init_account_def chain_simps)

lemma open_pool_Inr [chain_simps]:
  "open_pool lg mint native = Inr st \<longleftrightarrow>
     lg_pools lg mint = Some st \<and> \<not> ts_paused st \<and> (ts_token_mint st = SYSTEM_ID) = native"
  by (auto simp: open_pool_def chain_simps)

lemma token_account_of_Inr [chain_simps]:
  "token_account_of lg k mint owner = Inr t \<longleftrightarrow> lg_tokens lg k = Some t \<and> ta_mint t = mint \<and> ta_owner t = owner"
  by (auto simp: token_account_of_def chain_simps)

lemma move_tokens_Inr [chain_simps]:
  "move_tokens v lg a b auth n = Inr lg' \<longleftrightarrow>
     (\<exists>t. vm_token_transfer v (lg_tokens lg) a b auth n = Some t \<and> lg' = lg\<lparr>lg_tokens := t\<rparr>)"
  by (auto simp: move_tokens_def chain_simps)

text \<open>The proof as the program checks it: by its own verifier, or by the program that the caller names.\<close>

definition proof_accepted :: "vm \<Rightarrow> tree_state \<Rightarrow> withdrawal_call \<Rightarrow> bool" where
  "proof_accepted v st c \<longleftrightarrow>
     (let inputs = public_inputs_of st (wc_root c) (wc_nullifier_hash c) (wc_recipient c) (wc_amount c) (wc_relayer c) in
      case wc_verifier c of
        Some p \<Rightarrow> verify_via_sunspot v p (wc_proof c) inputs = Inr ()
      | None \<Rightarrow> verify_withdraw_proof v (wc_proof c) inputs = Inr ())"

lemma open_withdrawal_Inr [chain_simps]:
  "open_withdrawal v lg native c = Inr (lg', events, st) \<longleftrightarrow>
     open_pool lg (wc_mint c) native = Inr st \<and> \<not> lg_nullifiers lg (wc_nullifier_hash c)
   \<and> root_is_known st (wc_root c) \<and> wc_amount c = ts_denomination st \<and> proof_accepted v st c
   \<and> events = [WithdrawEvent (wc_nullifier_hash c) (wc_recipient c) (wc_amount c) (vm_clock v)]
   \<and> (\<exists>l. pay_rent v (lg_lamports lg) (wc_relayer c) (vm_nullifier v (wc_nullifier_hash c)) (8 + NULLIFIER_SIZE) = Some l
        \<and> lg' = lg\<lparr>lg_lamports := l, lg_owner := (lg_owner lg)(vm_nullifier v (wc_nullifier_hash c) := vm_program v),
                   lg_nullifiers := (lg_nullifiers lg)(wc_nullifier_hash c := True)\<rparr>)"
  by (cases "wc_verifier c")
     (auto simp: open_withdrawal_def verify_and_record_def proof_accepted_def Let_def chain_simps)

lemma withdraw_solE:
  assumes "withdraw_sol v lg c = Inr (lg', events)"
  obtains lg1 evs st ra cut l1 l2 l3 where "open_withdrawal v lg True c = Inr (lg1, evs, st)"
    "split_payout (wc_amount c) (ts_relayer_fee_bps st) = Inr (ra, cut)"
    "sub_lamports (lg_lamports lg1) (vm_vault v (ts_token_mint st)) (wc_amount c) = Inr l1"
    "add_lamports l1 (wc_recipient c) ra = Inr l2"
    "(if 0 < cut then add_lamports l2 (wc_relayer c) cut else Inr l2) = Inr l3"
    "vm_settles v (vm_program v) (lg_owner lg1) (lg_lamports lg1) l3" "lg1\<lparr>lg_lamports := l3\<rparr> = lg'" "evs = events"
  using assms unfolding withdraw_sol_def
  by (simp only: chain_then_Inr require_Inr split_paired_Ex prod.case sum.inject prod.inject)
     (elim exE conjE, rule that, assumption+)

lemma withdraw_splE:
  assumes "withdraw_spl v lg c rta vta cta = Inr (lg', events)"
  obtains st tr tv tc lg1 evs st' ra cut lg2 lg3 where "open_pool lg (wc_mint c) False = Inr st"
    "token_account_of lg rta (ts_token_mint st) (wc_relayer c) = Inr tr"
    "token_account_of lg vta (ts_token_mint st) (vm_vault v (ts_token_mint st)) = Inr tv"
    "token_account_of lg cta (ts_token_mint st) (wc_recipient c) = Inr tc"
    "open_withdrawal v lg False c = Inr (lg1, evs, st')"
    "split_payout (wc_amount c) (ts_relayer_fee_bps st) = Inr (ra, cut)"
    "move_tokens v lg1 vta cta (vm_vault v (ts_token_mint st)) ra = Inr lg2"
    "(if 0 < cut then move_tokens v lg2 vta rta (vm_vault v (ts_token_mint st)) cut else Inr lg2) = Inr lg3"
    "lg3 = lg'" "evs = events"
  using assms unfolding withdraw_spl_def
  by (simp only: chain_then_Inr require_Inr split_paired_Ex prod.case sum.inject prod.inject)
     (elim exE conjE, rule that, assumption+)

lemma process_nullifiers:
  assumes "process v lg t = Inr (lg', events)"
  shows "case spends t of
           None \<Rightarrow> lg_nullifiers lg' = lg_nullifiers lg
         | Some h \<Rightarrow> \<not> lg_nullifiers lg h \<and> lg_nullifiers lg' = (lg_nullifiers lg)(h := True)"
  using assms
  by (cases t)
     (auto simp: process_def instruction_defs put_pool_def chain_simps elim!: withdraw_solE withdraw_splE split: if_splits)

lemma split_payout_exact:
  assumes "amount < 2 ^ 64" "fee \<le> 10000"
  shows "split_payout amount fee = Inr (amount - amount * fee div 10000, amount * fee div 10000)"
proof -
  have le: "amount * fee \<le> amount * 10000" using assms(2) by simp
  then have d: "amount * fee div 10000 \<le> amount" using div_le_mono [OF le, of 10000] by simp
  have "amount * 10000 < 2 ^ 64 * 10000" using assms(1) by simp
  moreover have "(2 :: nat) ^ 64 * 10000 < 2 ^ 128" by simp
  ultimately have "amount * fee < 2 ^ 128" using le by linarith
  moreover have "(amount * fee div 10000) mod 2 ^ 64 = amount * fee div 10000" using d assms(1) by simp
  ultimately show ?thesis using d by (simp add: split_payout_def Let_def)
qed

text \<open>
  The documented behaviour of what the program runs on: a transfer takes from its payer only;
  the runtime rejects an instruction whose program lowers the balance of an account that it does not own; derived
  addresses of different seeds differ.
\<close>

definition transfer_law :: "vm \<Rightarrow> bool" where
  "transfer_law v \<longleftrightarrow> (\<forall>l a b n l' k. vm_transfer v l a b n = Some l' \<longrightarrow> k \<noteq> a \<longrightarrow> l k \<le> l' k)"

definition runtime_law :: "vm \<Rightarrow> bool" where
  "runtime_law v \<longleftrightarrow> (\<forall>own before after k. vm_settles v (vm_program v) own before after \<longrightarrow>
     after k < before k \<longrightarrow> own k = vm_program v)"

definition addresses_apart :: "vm \<Rightarrow> bool" where
  "addresses_apart v \<longleftrightarrow> (\<forall>m m' h. vm_vault v m \<noteq> vm_nullifier v h \<and> vm_vault v m \<noteq> vm_state v m')"

definition vault_kept :: "vm \<Rightarrow> pubkey \<Rightarrow> ledger \<Rightarrow> ledger \<Rightarrow> bool" where
  "vault_kept v m lg lg' \<longleftrightarrow>
     lg_owner lg' (vm_vault v m) = lg_owner lg (vm_vault v m)
   \<and> lg_lamports lg (vm_vault v m) \<le> lg_lamports lg' (vm_vault v m)"

lemma rent_from_payer:
  "transfer_law v \<Longrightarrow> pay_rent v l payer k space = Some l' \<Longrightarrow> j \<noteq> payer \<Longrightarrow> l j \<le> l' j"
  unfolding pay_rent_def transfer_law_def Let_def by (auto split: if_splits)

lemma init_keeps_vault:
  assumes "transfer_law v" "addresses_apart v" "init_account v lg ex payer k space = Inr lg'"
    and "payer \<noteq> vm_vault v m" "k = vm_state v m' \<or> k = vm_nullifier v h"
  shows "vault_kept v m lg lg'"
  using assms rent_from_payer [OF assms(1)] unfolding addresses_apart_def
  by (fastforce simp: init_account_Inr vault_kept_def)

lemma open_keeps_vault:
  assumes "transfer_law v" "addresses_apart v" "open_withdrawal v lg native c = Inr (lg', evs, st)"
    and "wc_relayer c \<noteq> vm_vault v m"
  shows "vault_kept v m lg lg'"
  using assms rent_from_payer [OF assms(1)] unfolding addresses_apart_def
  by (fastforce simp: open_withdrawal_Inr vault_kept_def)

lemma process_keeps_vault:
  assumes laws: "transfer_law v" "runtime_law v" "addresses_apart v"
    and "process v lg t = Inr (lg', evs)" "signer_of t \<noteq> vm_vault v m" "lg_owner lg (vm_vault v m) \<noteq> vm_program v"
  shows "vault_kept v m lg lg'"
proof (cases t)
  case (Initialize a mint d f)
  with assms(4) obtain lg1 where "init_account v lg (lg_pools lg mint \<noteq> None) a (vm_state v mint) (8 + TREE_STATE_SIZE) = Inr lg1"
    "lg_lamports lg' = lg_lamports lg1" "lg_owner lg' = lg_owner lg1"
    by (auto simp: process_def initialize_def chain_then_Inr)
  with init_keeps_vault [OF laws(1,3)] assms(5) Initialize show ?thesis by (fastforce simp: vault_kept_def)
next
  case (DepositSol d mint x)
  with assms(4) obtain k n l where "vm_transfer v (lg_lamports lg) d k n = Some l"
    "lg_lamports lg' = l" "lg_owner lg' = lg_owner lg"
    by (auto simp: process_def deposit_sol_def handle_deposit_def put_pool_def chain_simps)
  with laws(1) assms(5) DepositSol show ?thesis unfolding transfer_law_def vault_kept_def by fastforce
next
  case (WithdrawSol c)
  from assms(4) WithdrawSol have "withdraw_sol v lg c = Inr (lg', evs)" by (simp add: process_def)
  then obtain lg1 st l3 evs1 where o: "open_withdrawal v lg True c = Inr (lg1, evs1, st)"
    and s: "vm_settles v (vm_program v) (lg_owner lg1) (lg_lamports lg1) l3" "lg1\<lparr>lg_lamports := l3\<rparr> = lg'"
    by (rule withdraw_solE)
  have k: "vault_kept v m lg lg1" using open_keeps_vault [OF laws(1,3) o] assms(5) WithdrawSol by simp
  then have "lg_owner lg1 (vm_vault v m) \<noteq> vm_program v" using assms(6) by (simp add: vault_kept_def)
  with laws(2) s(1) have "lg_lamports lg1 (vm_vault v m) \<le> l3 (vm_vault v m)"
    unfolding runtime_law_def by (meson not_le)
  with k s(2) show ?thesis by (auto simp: vault_kept_def)
next
  case (WithdrawSpl c rta vta cta)
  from assms(4) WithdrawSpl have "withdraw_spl v lg c rta vta cta = Inr (lg', evs)" by (simp add: process_def)
  then show ?thesis
  proof (rule withdraw_splE)
    fix st lg1 evs1 st' ra cut lg2 lg3
    assume o: "open_withdrawal v lg False c = Inr (lg1, evs1, st')"
      and m: "move_tokens v lg1 vta cta (vm_vault v (ts_token_mint st)) ra = Inr lg2"
        "(if 0 < cut then move_tokens v lg2 vta rta (vm_vault v (ts_token_mint st)) cut else Inr lg2) = Inr lg3" "lg3 = lg'"
    have "lg_owner lg' = lg_owner lg1 \<and> lg_lamports lg' = lg_lamports lg1"
      using m by (auto simp: move_tokens_Inr split: if_splits)
    with open_keeps_vault [OF laws(1,3) o] assms(5) WithdrawSpl show ?thesis by (simp add: vault_kept_def)
  qed
qed (use assms(4) in \<open>auto simp: process_def instruction_defs put_pool_def chain_simps vault_kept_def\<close>)

lemma run_keeps_vault:
  assumes laws: "transfer_law v" "runtime_law v" "addresses_apart v"
    and "\<forall>t \<in> set ts. signer_of t \<noteq> vm_vault v m" "lg_owner lg0 (vm_vault v m) \<noteq> vm_program v" "chain_run v lg0 ts lg"
  shows "vault_kept v m lg0 lg"
  using assms(6,4)
proof (induction rule: chain_run.induct)
  case start
  then show ?case by (simp add: vault_kept_def)
next
  case (call ts lg t lg' events)
  then have k: "vault_kept v m lg0 lg" by simp
  then have "lg_owner lg (vm_vault v m) \<noteq> vm_program v" using assms(5) by (simp add: vault_kept_def)
  from process_keeps_vault [OF laws call.hyps(2) _ this] call.prems k show ?case by (simp add: vault_kept_def)
next
  case (other ts lg lg')
  then have "vault_kept v m lg0 lg" by simp
  with other.hyps(2) show ?case unfolding outside_def vault_kept_def by (metis le_trans)
qed

lemma sol_payout_lowers_vault:
  assumes "withdraw_sol v lg c = Inr (lg', evs)" "wc_recipient c \<noteq> vm_vault v SYSTEM_ID"
    and "wc_relayer c \<noteq> vm_vault v SYSTEM_ID" "0 < wc_amount c"
  obtains lg1 evs1 st where "open_withdrawal v lg True c = Inr (lg1, evs1, st)"
    "vm_settles v (vm_program v) (lg_owner lg1) (lg_lamports lg1) (lg_lamports lg')"
    "lg_lamports lg' (vm_vault v SYSTEM_ID) < lg_lamports lg1 (vm_vault v SYSTEM_ID)"
proof -
  from assms(1) obtain lg1 evs1 st ra cut l1 l2 l3 where o: "open_withdrawal v lg True c = Inr (lg1, evs1, st)"
    and l: "sub_lamports (lg_lamports lg1) (vm_vault v (ts_token_mint st)) (wc_amount c) = Inr l1"
      "add_lamports l1 (wc_recipient c) ra = Inr l2"
      "(if 0 < cut then add_lamports l2 (wc_relayer c) cut else Inr l2) = Inr l3"
    and s: "vm_settles v (vm_program v) (lg_owner lg1) (lg_lamports lg1) l3" "lg1\<lparr>lg_lamports := l3\<rparr> = lg'"
    by (rule withdraw_solE)
  have m: "ts_token_mint st = SYSTEM_ID" using o by (simp add: open_withdrawal_Inr open_pool_Inr)
  have "l3 (vm_vault v SYSTEM_ID) < lg_lamports lg1 (vm_vault v SYSTEM_ID)"
    using l assms(2-4) m by (auto simp: sub_lamports_def add_lamports_def split: if_splits)
  with o s that show ?thesis by auto
qed

lemma locked_sol_payout:
  assumes laws: "transfer_law v" "runtime_law v" "addresses_apart v"
    and run: "chain_run v lg0 ts lg" "\<forall>t \<in> set ts. signer_of t \<noteq> vm_vault v SYSTEM_ID"
      "lg_owner lg0 (vm_vault v SYSTEM_ID) \<noteq> vm_program v"
    and c: "0 < wc_amount c" "wc_recipient c \<noteq> vm_vault v SYSTEM_ID" "wc_relayer c \<noteq> vm_vault v SYSTEM_ID"
  shows "\<exists>e. withdraw_sol v lg c = Inl e"
proof (cases "withdraw_sol v lg c")
  case (Inr p)
  have kept: "lg_owner lg (vm_vault v SYSTEM_ID) = lg_owner lg0 (vm_vault v SYSTEM_ID)"
    using run_keeps_vault [OF laws run(2,3,1)] by (simp add: vault_kept_def)
  from Inr have "withdraw_sol v lg c = Inr (fst p, snd p)" by simp
  from sol_payout_lowers_vault [OF this c(2,3,1)] obtain lg1 evs1 st where
    o: "open_withdrawal v lg True c = Inr (lg1, evs1, st)"
    and s: "vm_settles v (vm_program v) (lg_owner lg1) (lg_lamports lg1) (lg_lamports (fst p))"
    and less: "lg_lamports (fst p) (vm_vault v SYSTEM_ID) < lg_lamports lg1 (vm_vault v SYSTEM_ID)" .
  from laws(2) s less have "lg_owner lg1 (vm_vault v SYSTEM_ID) = vm_program v" unfolding runtime_law_def by blast
  with open_keeps_vault [OF laws(1,3) o c(3)] kept run(3) show ?thesis by (simp add: vault_kept_def)
qed simp

lemma spent_snoc: "spent (ts @ [t]) = spent ts @ (case spends t of None \<Rightarrow> [] | Some h \<Rightarrow> [h])"
  by (simp add: spent_def map_filter_def split: option.split)

lemma run_nullifiers:
  "chain_run v lg0 ts lg \<Longrightarrow> distinct (spent ts) \<and> (\<forall>h \<in> set (spent ts). \<not> lg_nullifiers lg0 h)
     \<and> (\<forall>h. lg_nullifiers lg h \<longleftrightarrow> lg_nullifiers lg0 h \<or> h \<in> set (spent ts))"
proof (induction rule: chain_run.induct)
  case start
  then show ?case by (simp add: spent_def map_filter_def)
next
  case (call ts lg t lg' events)
  show ?case
  proof (cases "spends t")
    case None
    with process_nullifiers [OF call.hyps(2)] call.IH show ?thesis by (simp add: spent_snoc)
  next
    case (Some h)
    with process_nullifiers [OF call.hyps(2)] have n: "\<not> lg_nullifiers lg h" "lg_nullifiers lg' = (lg_nullifiers lg)(h := True)"
      by simp_all
    then have "h \<notin> set (spent ts)" "\<not> lg_nullifiers lg0 h" using call.IH by auto
    with n call.IH Some show ?thesis by (auto simp: spent_snoc)
  qed
next
  case (other ts lg lg')
  then show ?case by (simp add: outside_def)
qed

text \<open>The token program moves what the source holds, when its owner signs.\<close>

definition token_law :: "vm \<Rightarrow> bool" where
  "token_law v \<longleftrightarrow> (\<forall>t a b auth n x y. a \<noteq> b \<longrightarrow> t a = Some x \<longrightarrow> t b = Some y \<longrightarrow>
     ta_mint x = ta_mint y \<longrightarrow> ta_owner x = auth \<longrightarrow>
     vm_token_transfer v t a b auth n =
       (if n \<le> ta_amount x \<and> ta_amount y + n < 2 ^ 64
        then Some (t(a \<mapsto> x\<lparr>ta_amount := ta_amount x - n\<rparr>, b \<mapsto> y\<lparr>ta_amount := ta_amount y + n\<rparr>)) else None))"

lemma move_tokens_exact:
  assumes "token_law v" "a \<noteq> b" "lg_tokens lg a = Some x" "lg_tokens lg b = Some y" "ta_mint x = ta_mint y" "ta_owner x = auth"
  shows "move_tokens v lg a b auth n =
     (if n \<le> ta_amount x \<and> ta_amount y + n < 2 ^ 64
      then Inr (lg\<lparr>lg_tokens := (lg_tokens lg)(a \<mapsto> x\<lparr>ta_amount := ta_amount x - n\<rparr>, b \<mapsto> y\<lparr>ta_amount := ta_amount y + n\<rparr>)\<rparr>)
      else Inl (Runtime ''token transfer failed''))"
proof -
  have "vm_token_transfer v (lg_tokens lg) a b auth n =
       (if n \<le> ta_amount x \<and> ta_amount y + n < 2 ^ 64
        then Some ((lg_tokens lg)(a \<mapsto> x\<lparr>ta_amount := ta_amount x - n\<rparr>, b \<mapsto> y\<lparr>ta_amount := ta_amount y + n\<rparr>)) else None)"
    using assms unfolding token_law_def by blast
  then show ?thesis by (simp add: move_tokens_def some_or_def)
qed

text \<open>The two transfers of a payout, from the vault's account to the recipient's and the relayer's.\<close>

definition pay_tokens :: "(pubkey \<Rightarrow> token_account option) \<Rightarrow> pubkey \<Rightarrow> pubkey \<Rightarrow> pubkey \<Rightarrow> token_account \<Rightarrow> token_account
    \<Rightarrow> token_account \<Rightarrow> nat \<Rightarrow> nat \<Rightarrow> pubkey \<Rightarrow> token_account option" where
  "pay_tokens t vta cta rta x y r amount part =
     t(vta \<mapsto> x\<lparr>ta_amount := ta_amount x - amount\<rparr>, cta \<mapsto> y\<lparr>ta_amount := ta_amount y + (amount - part)\<rparr>,
       rta \<mapsto> r\<lparr>ta_amount := ta_amount r + part\<rparr>)"

lemma payout_moves:
  assumes "token_law v" "distinct [vta, cta, rta]"
    and t: "lg_tokens lg vta = Some x" "lg_tokens lg cta = Some y" "lg_tokens lg rta = Some r"
    and m: "ta_mint x = ta_mint y" "ta_mint x = ta_mint r" "ta_owner x = auth" and part: "part \<le> amount"
  shows "chain_then (move_tokens v lg vta cta auth (amount - part)) (\<lambda>lg2.
           if 0 < part then move_tokens v lg2 vta rta auth part else Inr lg2) =
     (if amount - part \<le> ta_amount x \<and> ta_amount y + (amount - part) < 2 ^ 64
         \<and> (0 < part \<longrightarrow> amount \<le> ta_amount x \<and> ta_amount r + part < 2 ^ 64)
      then Inr (lg\<lparr>lg_tokens := pay_tokens (lg_tokens lg) vta cta rta x y r amount part\<rparr>)
      else Inl (Runtime ''token transfer failed''))"
proof -
  have ne: "vta \<noteq> cta" "vta \<noteq> rta" "cta \<noteq> rta" using assms(2) by auto
  let ?lg2 = "lg\<lparr>lg_tokens := (lg_tokens lg)(vta \<mapsto> x\<lparr>ta_amount := ta_amount x - (amount - part)\<rparr>,
      cta \<mapsto> y\<lparr>ta_amount := ta_amount y + (amount - part)\<rparr>)\<rparr>"
  have 1: "move_tokens v lg vta cta auth (amount - part) =
      (if amount - part \<le> ta_amount x \<and> ta_amount y + (amount - part) < 2 ^ 64 then Inr ?lg2
       else Inl (Runtime ''token transfer failed''))"
    by (rule move_tokens_exact [OF assms(1) ne(1) t(1,2) m(1,3)])
  have "lg_tokens ?lg2 vta = Some (x\<lparr>ta_amount := ta_amount x - (amount - part)\<rparr>)" "lg_tokens ?lg2 rta = Some r"
    using ne t by simp_all
  note 2 = move_tokens_exact [OF assms(1) ne(2) this, of auth part]
  show ?thesis
  proof (cases "part = 0")
    case True
    then show ?thesis using t(3) ne 1 by (simp add: pay_tokens_def fun_upd_idem)
  next
    case False
    with 2 m part ne show ?thesis
      by (auto simp: 1 pay_tokens_def fun_upd_twist intro!: ledger.equality ext)
  qed
qed

lemma withdraw_spl_refused:
  assumes "lg_pools lg (wc_mint c) = Some st" "\<not> proof_accepted v st c"
  shows "\<exists>e. withdraw_spl v lg c rta vta cta = Inl e"
proof (cases "withdraw_spl v lg c rta vta cta")
  case (Inr q)
  then have "withdraw_spl v lg c rta vta cta = Inr (fst q, snd q)" by simp
  then obtain lg1 evs st' where "open_withdrawal v lg False c = Inr (lg1, evs, st')"
    by (rule withdraw_splE)
  with assms show ?thesis by (simp add: open_withdrawal_Inr open_pool_Inr)
qed simp

text \<open>
  The system program pays when the payer, a wallet that signs, has the lamports and the sum of the
  receiver still is a \<open>u64\<close>. Then a wallet with the rent can open an account, whether or not its
  address already holds something.
\<close>

definition lamport_law :: "vm \<Rightarrow> bool" where
  "lamport_law v \<longleftrightarrow> (\<forall>l a b n. a \<noteq> b \<longrightarrow> n \<le> l a \<longrightarrow> l b + n < 2 ^ 64 \<longrightarrow>
     vm_transfer v l a b n = Some (l(a := l a - n, b := l b + n)))"

lemma pay_rent_possible:
  assumes "lamport_law v" "payer \<noteq> k" "vm_rent v space \<le> l payer" "l payer < 2 ^ 64"
  obtains l' where "pay_rent v l payer k space = Some l'" "l payer - vm_rent v space \<le> l' payer" "l' payer \<le> l payer"
proof -
  let ?missing = "max 1 (vm_rent v space) - l k"
  note law = assms(1) [unfolded lamport_law_def, rule_format, OF assms(2)]
  consider "l k = 0" | "l k \<noteq> 0" "?missing = 0" | "l k \<noteq> 0" "?missing \<noteq> 0" by blast
  then show ?thesis
  proof cases
    case 1
    with law [of "vm_rent v space" l] assms
    have "pay_rent v l payer k space = Some (l(payer := l payer - vm_rent v space, k := l k + vm_rent v space))"
      by (simp add: pay_rent_def)
    then show ?thesis by (rule that) (use assms(2) in simp_all)
  next
    case 2
    then show ?thesis by (intro that [of l]) (simp_all add: pay_rent_def)
  next
    case 3
    then have "?missing \<le> vm_rent v space" "l k + ?missing < 2 ^ 64" using assms(3,4) by (simp_all add: max_def split: if_splits)
    with law [of ?missing l] assms(3) 3
    have "pay_rent v l payer k space = Some (l(payer := l payer - ?missing, k := l k + ?missing))"
      by (simp add: pay_rent_def Let_def)
    then show ?thesis by (rule that) (use assms(2) \<open>?missing \<le> vm_rent v space\<close> in simp_all)
  qed
qed

text \<open>A withdrawal that meets every check is paid.\<close>

lemma withdraw_spl_pays:
  assumes "token_law v"
    and pool: "lg_pools lg (wc_mint c) = Some st" "\<not> ts_paused st" "ts_token_mint st = wc_mint c" "wc_mint c \<noteq> SYSTEM_ID"
      "root_is_known st (wc_root c)" "wc_amount c = ts_denomination st" "ts_relayer_fee_bps st \<le> MAX_RELAYER_FEE_BPS"
    and pa: "proof_accepted v st c"
    and nullifier: "\<not> lg_nullifiers lg (wc_nullifier_hash c)"
      "pay_rent v (lg_lamports lg) (wc_relayer c) (vm_nullifier v (wc_nullifier_hash c)) (8 + NULLIFIER_SIZE) \<noteq> None"
    and accounts: "distinct [vta, cta, rta]" "token_account_of lg vta (wc_mint c) (vm_vault v (wc_mint c)) = Inr x"
      "token_account_of lg cta (wc_mint c) (wc_recipient c) = Inr y" "token_account_of lg rta (wc_mint c) (wc_relayer c) = Inr r"
    and funds: "wc_amount c \<le> ta_amount x" "ta_amount y + wc_amount c < 2 ^ 64" "ta_amount r + wc_amount c < 2 ^ 64"
  shows "\<exists>lg' events. withdraw_spl v lg c rta vta cta = Inr (lg', events)
          \<and> lg_tokens lg' = pay_tokens (lg_tokens lg) vta cta rta x y r (wc_amount c)
              (wc_amount c * ts_relayer_fee_bps st div 10000)
          \<and> lg_pools lg' = lg_pools lg \<and> lg_nullifiers lg' = (lg_nullifiers lg)(wc_nullifier_hash c := True)
          \<and> pay_rent v (lg_lamports lg) (wc_relayer c) (vm_nullifier v (wc_nullifier_hash c)) (8 + NULLIFIER_SIZE) = Some (lg_lamports lg')"
proof -
  let ?part = "wc_amount c * ts_relayer_fee_bps st div 10000"
  obtain l where l: "pay_rent v (lg_lamports lg) (wc_relayer c) (vm_nullifier v (wc_nullifier_hash c))
      (8 + NULLIFIER_SIZE) = Some l" using nullifier(2) by blast
  define lg1 where "lg1 = lg\<lparr>lg_lamports := l, lg_owner := (lg_owner lg)(vm_nullifier v (wc_nullifier_hash c) := vm_program v),
                   lg_nullifiers := (lg_nullifiers lg)(wc_nullifier_hash c := True)\<rparr>"
  have o: "open_pool lg (wc_mint c) False = Inr st" using pool by (simp add: open_pool_Inr)
  have w: "open_withdrawal v lg False c = Inr (lg1, [WithdrawEvent (wc_nullifier_hash c) (wc_recipient c) (wc_amount c) (vm_clock v)], st)"
    using pool nullifier pa l o by (simp add: open_withdrawal_Inr lg1_def)
  have fee: "ts_relayer_fee_bps st \<le> 10000" using pool(7) by (simp add: MAX_RELAYER_FEE_BPS_def)
  from div_le_mono [OF mult_le_mono2 [OF this], of "wc_amount c" 10000] have le: "?part \<le> wc_amount c" by simp
  have t: "lg_tokens lg1 = lg_tokens lg" by (simp add: lg1_def)
  have s: "split_payout (wc_amount c) (ts_relayer_fee_bps st) = Inr (wc_amount c - ?part, ?part)"
    using funds(2) by (intro split_payout_exact fee) simp
  have "chain_then (move_tokens v lg1 vta cta (vm_vault v (wc_mint c)) (wc_amount c - ?part)) (\<lambda>lg2.
           if 0 < ?part then move_tokens v lg2 vta rta (vm_vault v (wc_mint c)) ?part else Inr lg2) =
     (if wc_amount c - ?part \<le> ta_amount x \<and> ta_amount y + (wc_amount c - ?part) < 2 ^ 64
         \<and> (0 < ?part \<longrightarrow> wc_amount c \<le> ta_amount x \<and> ta_amount r + ?part < 2 ^ 64)
      then Inr (lg1\<lparr>lg_tokens := pay_tokens (lg_tokens lg1) vta cta rta x y r (wc_amount c) ?part\<rparr>)
      else Inl (Runtime ''token transfer failed''))"
    using accounts t by (intro payout_moves [OF assms(1) accounts(1) _ _ _ _ _ _ le]) (auto simp: token_account_of_Inr)
  also have "\<dots> = Inr (lg1\<lparr>lg_tokens := pay_tokens (lg_tokens lg1) vta cta rta x y r (wc_amount c) ?part\<rparr>)"
    using funds le by auto
  finally obtain lg2 where "move_tokens v lg1 vta cta (vm_vault v (wc_mint c)) (wc_amount c - ?part) = Inr lg2"
    "(if 0 < ?part then move_tokens v lg2 vta rta (vm_vault v (wc_mint c)) ?part else Inr lg2) =
       Inr (lg1\<lparr>lg_tokens := pay_tokens (lg_tokens lg1) vta cta rta x y r (wc_amount c) ?part\<rparr>)"
    by (auto simp: chain_then_Inr)
  moreover have "lg_pools lg1 = lg_pools lg" "lg_nullifiers lg1 = (lg_nullifiers lg)(wc_nullifier_hash c := True)" "lg_lamports lg1 = l"
    by (simp_all add: lg1_def)
  ultimately show ?thesis using l o w s accounts pool(3) t
    by (cases "0 < ?part") (simp_all add: withdraw_spl_def)
qed

text \<open>Two accepted withdrawals of different nullifiers, one after the other.\<close>

lemma two_payouts:
  assumes law: "token_law v" "lamport_law v" and run: "chain_run v lg0 ts lg"
    and pool: "lg_pools lg mint = Some st" "\<not> ts_paused st" "ts_token_mint st = mint" "mint \<noteq> SYSTEM_ID"
      "ts_relayer_fee_bps st \<le> MAX_RELAYER_FEE_BPS"
    and calls: "\<forall>c \<in> {c1, c2}. wc_mint c = mint \<and> root_is_known st (wc_root c) \<and> wc_amount c = ts_denomination st
      \<and> proof_accepted v st c \<and> \<not> lg_nullifiers lg (wc_nullifier_hash c) \<and> wc_relayer c = relayer \<and> wc_recipient c = recipient"
      "wc_nullifier_hash c1 \<noteq> wc_nullifier_hash c2"
    and rent: "relayer \<noteq> vm_nullifier v (wc_nullifier_hash c1)" "relayer \<noteq> vm_nullifier v (wc_nullifier_hash c2)"
      "2 * vm_rent v (8 + NULLIFIER_SIZE) \<le> lg_lamports lg relayer" "lg_lamports lg relayer < 2 ^ 64"
    and accounts: "distinct [vta, cta, rta]" "token_account_of lg vta mint (vm_vault v mint) = Inr x"
      "token_account_of lg cta mint recipient = Inr y" "token_account_of lg rta mint relayer = Inr r"
    and funds: "2 * ts_denomination st \<le> ta_amount x" "ta_amount y + 2 * ts_denomination st < 2 ^ 64"
      "ta_amount r + 2 * ts_denomination st < 2 ^ 64"
  shows "\<exists>lg2. chain_run v lg0 (ts @ [WithdrawSpl c1 rta vta cta, WithdrawSpl c2 rta vta cta]) lg2
     \<and> lg_tokens lg2 vta = Some (x\<lparr>ta_amount := ta_amount x - 2 * ts_denomination st\<rparr>)"
proof -
  let ?d = "ts_denomination st" and ?part = "ts_denomination st * ts_relayer_fee_bps st div 10000"
  have "?d * ts_relayer_fee_bps st \<le> ?d * 10000" using pool(5) by (intro mult_le_mono2) (simp add: MAX_RELAYER_FEE_BPS_def)
  from div_le_mono [OF this, of 10000] have part: "?part \<le> ?d" by simp
  have c: "wc_mint c1 = mint" "wc_amount c1 = ?d" "wc_relayer c1 = relayer" "wc_recipient c1 = recipient"
    "wc_mint c2 = mint" "wc_amount c2 = ?d" "wc_relayer c2 = relayer" "wc_recipient c2 = recipient"
    using calls(1) by simp_all
  have k: "root_is_known st (wc_root c1)" "proof_accepted v st c1" "\<not> lg_nullifiers lg (wc_nullifier_hash c1)"
    "root_is_known st (wc_root c2)" "proof_accepted v st c2" "\<not> lg_nullifiers lg (wc_nullifier_hash c2)"
    using calls(1) by simp_all
  have one: "?d \<le> ta_amount x" "ta_amount y + ?d < 2 ^ 64" "ta_amount r + ?d < 2 ^ 64" using funds by simp_all
  let ?rent = "vm_rent v (8 + NULLIFIER_SIZE)"
  have "?rent \<le> lg_lamports lg relayer" using rent(3) by simp
  from pay_rent_possible [OF law(2) rent(1), where l = "lg_lamports lg", OF this rent(4)] obtain l1 where
    l1: "pay_rent v (lg_lamports lg) relayer (vm_nullifier v (wc_nullifier_hash c1)) (8 + NULLIFIER_SIZE) = Some l1"
      "?rent \<le> l1 relayer" "l1 relayer < 2 ^ 64"
    using rent(3,4) by (metis add_le_imp_le_diff le_trans le_less_trans mult_2)
  have pays: "pay_rent v (lg_lamports lg) relayer (vm_nullifier v (wc_nullifier_hash c1)) (8 + NULLIFIER_SIZE) \<noteq> None" using l1(1) by simp
  obtain lg1 ev1 where 1: "withdraw_spl v lg c1 rta vta cta = Inr (lg1, ev1)"
    "lg_tokens lg1 = pay_tokens (lg_tokens lg) vta cta rta x y r ?d ?part" "lg_pools lg1 = lg_pools lg"
    "lg_nullifiers lg1 = (lg_nullifiers lg)(wc_nullifier_hash c1 := True)" "lg_lamports lg1 = l1"
    using withdraw_spl_pays [OF law(1), of lg c1 st vta cta rta x y r, unfolded c(1-4), OF pool(1-4) k(1) refl pool(5) k(2,3) pays accounts one]
    unfolding l1(1) by blast
  obtain l2 where "pay_rent v l1 relayer (vm_nullifier v (wc_nullifier_hash c2)) (8 + NULLIFIER_SIZE) = Some l2"
    using pay_rent_possible [OF law(2) rent(2), where l = l1, OF l1(2,3)] by blast
  then have pays2: "pay_rent v (lg_lamports lg1) relayer (vm_nullifier v (wc_nullifier_hash c2)) (8 + NULLIFIER_SIZE) \<noteq> None"
    by (simp add: 1(5))
  let ?x = "x\<lparr>ta_amount := ta_amount x - ?d\<rparr>" and ?y = "y\<lparr>ta_amount := ta_amount y + (?d - ?part)\<rparr>"
    and ?r = "r\<lparr>ta_amount := ta_amount r + ?part\<rparr>"
  have acc: "token_account_of lg1 vta mint (vm_vault v mint) = Inr ?x" "token_account_of lg1 cta mint recipient = Inr ?y"
    "token_account_of lg1 rta mint relayer = Inr ?r"
    using accounts 1(2) by (auto simp: token_account_of_Inr pay_tokens_def)
  have room: "?d \<le> ta_amount ?x" "ta_amount ?y + ?d < 2 ^ 64" "ta_amount ?r + ?d < 2 ^ 64" using funds part by simp_all
  have next_state: "\<not> lg_nullifiers lg1 (wc_nullifier_hash c2)" "lg_pools lg1 mint = Some st" using 1(3,4) k(6) calls(2) pool(1) by auto
  obtain lg2 ev2 where 2: "withdraw_spl v lg1 c2 rta vta cta = Inr (lg2, ev2)"
    "lg_tokens lg2 = pay_tokens (lg_tokens lg1) vta cta rta ?x ?y ?r ?d ?part"
    using withdraw_spl_pays [OF law(1), of lg1 c2 st vta cta rta ?x ?y ?r, unfolded c(5-8),
        OF next_state(2) pool(2-4) k(4) refl pool(5) k(5) next_state(1) pays2 accounts(1) acc room]
    by blast
  have "lg_tokens lg2 vta = Some (x\<lparr>ta_amount := ta_amount x - 2 * ?d\<rparr>)"
    using accounts(1) by (simp add: 2(2) pay_tokens_def)
  moreover have "chain_run v lg0 ((ts @ [WithdrawSpl c1 rta vta cta]) @ [WithdrawSpl c2 rta vta cta]) lg2"
    using 1(1) 2(1) by (intro chain_run.call [OF chain_run.call [OF run]]) (simp_all add: process_def)
  ultimately show ?thesis by auto
qed

section \<open>A machine for the examples\<close>

definition demo_vm :: vm where
  "demo_vm = \<lparr>vm_program = [1], vm_vault = (\<lambda>m. 2 # m), vm_nullifier = (\<lambda>h. 3 # h), vm_state = (\<lambda>m. 4 # m),
     vm_hash = demo_hash, vm_groth16 = (\<lambda>a b c inputs. False), vm_invoke = (\<lambda>p d. p = [9]), vm_fee_share = [8],
     vm_transfer = (\<lambda>l a b n. if n \<le> l a then let l1 = l(a := l a - n) in Some (l1(b := l1 b + n)) else None),
     vm_token_transfer = (\<lambda>t a b auth n. case (t a, t b) of
        (Some x, Some y) \<Rightarrow>
          if ta_mint x = ta_mint y \<and> ta_owner x = auth \<and> n \<le> ta_amount x \<and> ta_amount y + n < 2 ^ 64
          then Some (t(a \<mapsto> x\<lparr>ta_amount := ta_amount x - n\<rparr>, b \<mapsto> y\<lparr>ta_amount := ta_amount y + n\<rparr>)) else None
      | _ \<Rightarrow> None),
     vm_settles = (\<lambda>p own before after. \<forall>k. after k < before k \<longrightarrow> own k = p),
     vm_rent = (\<lambda>n. n), vm_bump = 255, vm_clock = 0\<rparr>"

lemma demo_vm_laws: "transfer_law demo_vm" "runtime_law demo_vm" "addresses_apart demo_vm" "token_law demo_vm" "lamport_law demo_vm"
  by (auto simp: lamport_law_def fun_upd_def transfer_law_def runtime_law_def addresses_apart_def token_law_def demo_vm_def Let_def split: if_splits)

text \<open>An SPL pool and a SOL pool with five units each in their vaults, twenty in the relayer's wallet.\<close>

definition demo_ledger :: ledger where
  "demo_ledger = \<lparr>lg_lamports = (\<lambda>k. if k = 2 # SYSTEM_ID then 5 else if k = [20] then 20 else 0),
     lg_owner = (\<lambda>k. SYSTEM_ID),
     lg_tokens = [[10] \<mapsto> \<lparr>ta_mint = [5], ta_owner = [20], ta_amount = 0\<rparr>,
                  [11] \<mapsto> \<lparr>ta_mint = [5], ta_owner = [2, 5], ta_amount = 5\<rparr>,
                  [12] \<mapsto> \<lparr>ta_mint = [5], ta_owner = [21], ta_amount = 0\<rparr>],
     lg_pools = [SYSTEM_ID \<mapsto> demo_tree_state, [5] \<mapsto> demo_tree_state\<lparr>ts_token_mint := [5]\<rparr>],
     lg_nullifiers = (\<lambda>h. False)\<rparr>"

definition demo_call :: withdrawal_call where
  "demo_call = \<lparr>wc_relayer = [20], wc_mint = [5], wc_proof = [], wc_root = replicate 32 6, wc_nullifier_hash = [7],
     wc_recipient = [21], wc_amount = 5, wc_verifier = Some [9]\<rparr>"

lemma demo_keys [simp]: "[k] \<noteq> SYSTEM_ID" "SYSTEM_ID \<noteq> [k]" "replicate 32 0 = SYSTEM_ID" "x # SYSTEM_ID \<noteq> SYSTEM_ID"
  "SYSTEM_ID \<noteq> x # SYSTEM_ID" "x # SYSTEM_ID \<noteq> [k]" "[k] \<noteq> x # SYSTEM_ID" "[x, y] \<noteq> x # SYSTEM_ID"
  by (auto simp: SYSTEM_ID_def dest: arg_cong [of _ _ length])

lemma demo_root [simp]: "replicate 32 6 \<noteq> zero32"
  by (auto simp: zero32_def simp del: demo_keys dest!: arg_cong [of _ _ hd])

lemmas demo_unfold = open_withdrawal_def init_account_def pay_rent_def verify_and_record_def Let_def verify_via_sunspot_def
  root_is_known_def require_def some_or_def move_tokens_def split_payout_def token_account_of_def open_pool_def
  demo_vm_def demo_ledger_def demo_call_def demo_tree_state_def NULLIFIER_SIZE_def

section \<open>Properties\<close>

text \<open>C2. A nullifier pays once. In any run of the program's instructions, interleaved with anything other programs
  may do, the withdrawals that succeeded have pairwise different nullifiers, none of them recorded before the run; afterwards
  exactly these are recorded on top, and any further withdrawal with a recorded nullifier fails,
  from any pool. The check of the backend is not needed for that.\<close>

theorem nullifier_pays_once:
  assumes "chain_run v lg0 ts lg"
  shows "distinct (spent ts) \<and> (\<forall>h \<in> set (spent ts). \<not> lg_nullifiers lg0 h)
     \<and> (\<forall>h. lg_nullifiers lg h \<longleftrightarrow> lg_nullifiers lg0 h \<or> h \<in> set (spent ts))
     \<and> (\<forall>t h. spends t = Some h \<longrightarrow> lg_nullifiers lg h \<longrightarrow> (\<exists>e. process v lg t = Inl e))"
proof -
  have "\<exists>e. process v lg t = Inl e" if "spends t = Some h" "lg_nullifiers lg h" for t h
  proof (cases "process v lg t")
    case (Inr p)
    with process_nullifiers [of v lg t "fst p" "snd p"] that show ?thesis by simp
  qed simp
  with run_nullifiers [OF assms] show ?thesis by blast
qed

text \<open>C13. The SOL of a pool cannot be withdrawn. A vault is an address that only receives transfers, so it belongs to the
  system program, and no instruction makes it an account of this program; the payout of \<open>withdraw\<close> writes its balance
  directly, which the runtime allows to the owner only. So in every run the owner of the vault stays
  and its lamports never fall, and every SOL withdrawal of a positive denomination to another address than the vault fails,
  whatever its proof.\<close>

theorem sol_vault_locked:
  assumes "transfer_law v" and "runtime_law v" and "addresses_apart v"
    and "chain_run v lg0 ts lg" and "\<forall>t \<in> set ts. \<forall>m. signer_of t \<noteq> vm_vault v m"
    and "lg_owner lg0 (vm_vault v SYSTEM_ID) \<noteq> vm_program v"
  shows "lg_owner lg (vm_vault v SYSTEM_ID) = lg_owner lg0 (vm_vault v SYSTEM_ID)
     \<and> lg_lamports lg0 (vm_vault v SYSTEM_ID) \<le> lg_lamports lg (vm_vault v SYSTEM_ID)
     \<and> (\<forall>c. 0 < wc_amount c \<longrightarrow> wc_recipient c \<noteq> vm_vault v SYSTEM_ID \<longrightarrow> wc_relayer c \<noteq> vm_vault v SYSTEM_ID \<longrightarrow>
          (\<exists>e. withdraw_sol v lg c = Inl e))"
proof -
  have "vault_kept v SYSTEM_ID lg0 lg" using run_keeps_vault [OF assms(1-3) _ assms(6,4)] assms(5) by blast
  then have kept: "lg_owner lg (vm_vault v SYSTEM_ID) = lg_owner lg0 (vm_vault v SYSTEM_ID)"
    "lg_lamports lg0 (vm_vault v SYSTEM_ID) \<le> lg_lamports lg (vm_vault v SYSTEM_ID)" by (simp_all add: vault_kept_def)
  have "\<exists>e. withdraw_sol v lg c = Inl e"
    if c: "0 < wc_amount c" "wc_recipient c \<noteq> vm_vault v SYSTEM_ID" "wc_relayer c \<noteq> vm_vault v SYSTEM_ID" for c
    using locked_sol_payout [OF assms(1-4) _ assms(6) c] assms(5) by blast
  with kept show ?thesis by blast
qed

theorem nullifier_pays_once_witness:
  "\<exists>lg. chain_run demo_vm demo_ledger [WithdrawSpl demo_call [10] [11] [12]] lg
     \<and> lg_nullifiers lg [7] \<and> (\<exists>e. process demo_vm lg (WithdrawSpl demo_call [10] [11] [12]) = Inl e)"
proof -
  have "\<exists>lg evs. process demo_vm demo_ledger (WithdrawSpl demo_call [10] [11] [12]) = Inr (lg, evs)"
    by (simp add: process_def withdraw_spl_def demo_unfold)
  then obtain lg evs where p: "process demo_vm demo_ledger (WithdrawSpl demo_call [10] [11] [12]) = Inr (lg, evs)" by blast
  from chain_run.call [OF chain_run.start p] have r: "chain_run demo_vm demo_ledger [WithdrawSpl demo_call [10] [11] [12]] lg"
    by simp
  have "spent [WithdrawSpl demo_call [10] [11] [12]] = [[7]]" by (simp add: spent_def map_filter_def demo_call_def)
  moreover have "spends (WithdrawSpl demo_call [10] [11] [12]) = Some [7]" by (simp add: demo_call_def)
  ultimately show ?thesis using nullifier_pays_once [OF r] r by (intro exI [of _ lg]) simp
qed

theorem sol_vault_locked_witness:
  "(\<exists>e. withdraw_sol demo_vm demo_ledger (demo_call\<lparr>wc_mint := SYSTEM_ID\<rparr>) = Inl e)
     \<and> (\<exists>opened. open_withdrawal demo_vm demo_ledger True (demo_call\<lparr>wc_mint := SYSTEM_ID\<rparr>) = Inr opened)"
proof
  have "lg_owner demo_ledger (vm_vault demo_vm SYSTEM_ID) \<noteq> vm_program demo_vm"
    by (simp add: demo_ledger_def demo_vm_def)
  from sol_vault_locked [OF demo_vm_laws(1-3) chain_run.start _ this]
  show "\<exists>e. withdraw_sol demo_vm demo_ledger (demo_call\<lparr>wc_mint := SYSTEM_ID\<rparr>) = Inl e"
    by (simp add: demo_call_def demo_vm_def)
  show "\<exists>opened. open_withdrawal demo_vm demo_ledger True (demo_call\<lparr>wc_mint := SYSTEM_ID\<rparr>) = Inr opened"
    by (simp add: demo_unfold)
qed

text \<open>C12. What an SPL withdrawal does. If \<open>withdraw_spl\<close> succeeds, the pool was open and not the SOL pool, the
  root is one of its last ten, the amount is its denomination, the nullifier was fresh and the proof was accepted; then the
  nullifier is recorded, the pools are as before, the event names the recipient, and exactly the amount left the
  vault's account: the share \<open>amount * fee_bps div 10000\<close> to the relayer's and the rest to the recipient's.\<close>

theorem withdraw_spl_exact:
  assumes "token_law v" and "withdraw_spl v lg c rta vta cta = Inr (lg', events)"
    and "\<And>st. lg_pools lg (wc_mint c) = Some st \<Longrightarrow> ts_relayer_fee_bps st \<le> MAX_RELAYER_FEE_BPS"
    and "wc_amount c < 2 ^ 64" and "distinct [vta, cta, rta]"
  shows "\<exists>st x y r. lg_pools lg (wc_mint c) = Some st \<and> \<not> ts_paused st \<and> ts_token_mint st \<noteq> SYSTEM_ID
     \<and> root_is_known st (wc_root c) \<and> wc_amount c = ts_denomination st \<and> proof_accepted v st c
     \<and> \<not> lg_nullifiers lg (wc_nullifier_hash c)
     \<and> lg_nullifiers lg' = (lg_nullifiers lg)(wc_nullifier_hash c := True) \<and> lg_pools lg' = lg_pools lg
     \<and> events = [WithdrawEvent (wc_nullifier_hash c) (wc_recipient c) (wc_amount c) (vm_clock v)]
     \<and> lg_tokens lg vta = Some x \<and> lg_tokens lg cta = Some y \<and> lg_tokens lg rta = Some r
     \<and> ta_owner x = vm_vault v (ts_token_mint st) \<and> ta_owner y = wc_recipient c \<and> ta_owner r = wc_relayer c
     \<and> wc_amount c \<le> ta_amount x
     \<and> lg_tokens lg' = pay_tokens (lg_tokens lg) vta cta rta x y r (wc_amount c)
          (wc_amount c * ts_relayer_fee_bps st div 10000)"
proof -
  from assms(2) obtain st r x y lg1 st' ra part lg2 where
    o: "open_pool lg (wc_mint c) False = Inr st" "open_withdrawal v lg False c = Inr (lg1, events, st')"
    and t: "token_account_of lg rta (ts_token_mint st) (wc_relayer c) = Inr r"
      "token_account_of lg vta (ts_token_mint st) (vm_vault v (ts_token_mint st)) = Inr x"
      "token_account_of lg cta (ts_token_mint st) (wc_recipient c) = Inr y"
    and s: "split_payout (wc_amount c) (ts_relayer_fee_bps st) = Inr (ra, part)"
    and m: "move_tokens v lg1 vta cta (vm_vault v (ts_token_mint st)) ra = Inr lg2"
      "(if 0 < part then move_tokens v lg2 vta rta (vm_vault v (ts_token_mint st)) part else Inr lg2) = Inr lg'"
    by (rule withdraw_splE) simp
  have st: "st' = st" "lg_pools lg (wc_mint c) = Some st" using o by (simp_all add: open_withdrawal_Inr open_pool_Inr)
  then have "ts_relayer_fee_bps st \<le> 10000" using assms(3) by (fastforce simp: MAX_RELAYER_FEE_BPS_def)
  from split_payout_exact [OF assms(4) this] s
  have ra: "part = wc_amount c * ts_relayer_fee_bps st div 10000" "ra = wc_amount c - part" by simp_all
  have le: "part \<le> wc_amount c" using div_le_mono [OF mult_le_mono2 [OF \<open>ts_relayer_fee_bps st \<le> 10000\<close>], of "wc_amount c" 10000]
    by (simp add: ra)
  have l: "lg_tokens lg1 = lg_tokens lg" using o(2) by (auto simp: open_withdrawal_Inr)
  have "chain_then (move_tokens v lg1 vta cta (vm_vault v (ts_token_mint st)) (wc_amount c - part)) (\<lambda>lg2.
           if 0 < part then move_tokens v lg2 vta rta (vm_vault v (ts_token_mint st)) part else Inr lg2) = Inr lg'"
    using m by (simp add: chain_then_Inr ra)
  also have "chain_then (move_tokens v lg1 vta cta (vm_vault v (ts_token_mint st)) (wc_amount c - part)) (\<lambda>lg2.
           if 0 < part then move_tokens v lg2 vta rta (vm_vault v (ts_token_mint st)) part else Inr lg2) =
     (if wc_amount c - part \<le> ta_amount x \<and> ta_amount y + (wc_amount c - part) < 2 ^ 64
         \<and> (0 < part \<longrightarrow> wc_amount c \<le> ta_amount x \<and> ta_amount r + part < 2 ^ 64)
      then Inr (lg1\<lparr>lg_tokens := pay_tokens (lg_tokens lg1) vta cta rta x y r (wc_amount c) part\<rparr>)
      else Inl (Runtime ''token transfer failed''))"
    using t l by (intro payout_moves [OF assms(1,5) _ _ _ _ _ _ le]) (auto simp: token_account_of_Inr)
  finally have lg': "lg' = lg1\<lparr>lg_tokens := pay_tokens (lg_tokens lg) vta cta rta x y r (wc_amount c) part\<rparr>"
    "wc_amount c \<le> ta_amount x" using l by (cases "part = 0"; auto split: if_splits)+
  show ?thesis using o t st lg' l unfolding ra(1)
    by (intro exI [of _ st] exI [of _ x] exI [of _ y] exI [of _ r]) (auto simp: open_withdrawal_Inr open_pool_Inr token_account_of_Inr)
qed

theorem withdraw_spl_exact_witness:
  "\<exists>lg. withdraw_spl demo_vm demo_ledger demo_call [10] [11] [12] = Inr lg \<and> lg_nullifiers (fst lg) [7]
     \<and> ta_amount (the (lg_tokens (fst lg) [12])) = 5"
proof -
  have "\<exists>lg events. withdraw_spl demo_vm demo_ledger demo_call [10] [11] [12] = Inr (lg, events)"
    by (simp add: withdraw_spl_def demo_unfold)
  then obtain lg events where w: "withdraw_spl demo_vm demo_ledger demo_call [10] [11] [12] = Inr (lg, events)" by blast
  have "\<And>st. lg_pools demo_ledger (wc_mint demo_call) = Some st \<Longrightarrow> ts_relayer_fee_bps st \<le> MAX_RELAYER_FEE_BPS"
    by (auto simp: demo_ledger_def demo_call_def demo_tree_state_def MAX_RELAYER_FEE_BPS_def)
  from withdraw_spl_exact [OF demo_vm_laws(4) w this]
  have "lg_nullifiers lg [7] \<and> ta_amount (the (lg_tokens lg [12])) = 5"
    by (auto simp: demo_ledger_def demo_call_def demo_tree_state_def pay_tokens_def)
  with w show ?thesis by auto
qed

text \<open>C25. The caller chooses the verifier. An SPL withdrawal that names as \<open>verifier_program\<close> any program whose
  call returns \<open>Ok\<close> is paid with any proof at all, a nullifier of the caller's choice and a public root: the
  accounts put no constraint on that program. The same call without the account is refused when the program's own verifier rejects
  the proof.\<close>

theorem foreign_verifier_pays:
  assumes "token_law v" and "wc_verifier c = Some p" and "\<And>input. vm_invoke v p input"
    and pool: "lg_pools lg (wc_mint c) = Some st" "\<not> ts_paused st" "ts_token_mint st = wc_mint c" "wc_mint c \<noteq> SYSTEM_ID"
      "root_is_known st (wc_root c)" "wc_amount c = ts_denomination st" "ts_relayer_fee_bps st \<le> MAX_RELAYER_FEE_BPS"
    and nullifier: "\<not> lg_nullifiers lg (wc_nullifier_hash c)"
      "pay_rent v (lg_lamports lg) (wc_relayer c) (vm_nullifier v (wc_nullifier_hash c)) (8 + NULLIFIER_SIZE) \<noteq> None"
    and accounts: "distinct [vta, cta, rta]" "token_account_of lg vta (wc_mint c) (vm_vault v (wc_mint c)) = Inr x"
      "token_account_of lg cta (wc_mint c) (wc_recipient c) = Inr y" "token_account_of lg rta (wc_mint c) (wc_relayer c) = Inr r"
    and funds: "wc_amount c \<le> ta_amount x" "ta_amount y + wc_amount c < 2 ^ 64" "ta_amount r + wc_amount c < 2 ^ 64"
  shows "(\<exists>lg' events. withdraw_spl v lg c rta vta cta = Inr (lg', events)
          \<and> lg_tokens lg' = pay_tokens (lg_tokens lg) vta cta rta x y r (wc_amount c)
              (wc_amount c * ts_relayer_fee_bps st div 10000))
     \<and> (\<not> proof_accepted v st (c\<lparr>wc_verifier := None\<rparr>) \<longrightarrow>
          (\<exists>e. withdraw_spl v lg (c\<lparr>wc_verifier := None\<rparr>) rta vta cta = Inl e))"
proof -
  have "proof_accepted v st c" using assms(2,3) by (simp add: proof_accepted_def verify_via_sunspot_def Let_def require_def)
  from withdraw_spl_pays [OF assms(1) pool this nullifier accounts funds] show ?thesis
    using withdraw_spl_refused [of lg "c\<lparr>wc_verifier := None\<rparr>" st v] pool(1) by auto
qed

theorem foreign_verifier_pays_witness:
  "(\<exists>p. withdraw_spl demo_vm demo_ledger demo_call [10] [11] [12] = Inr p)
     \<and> (\<exists>e. withdraw_spl demo_vm demo_ledger (demo_call\<lparr>wc_verifier := None\<rparr>) [10] [11] [12] = Inl e)"
proof -
  let ?st = "demo_tree_state\<lparr>ts_token_mint := [5]\<rparr>"
  have "\<not> proof_accepted demo_vm ?st (demo_call\<lparr>wc_verifier := None\<rparr>)"
    by (simp add: proof_accepted_def verify_withdraw_proof_def demo_unfold)
  moreover have "(\<exists>lg' events. withdraw_spl demo_vm demo_ledger demo_call [10] [11] [12] = Inr (lg', events)
          \<and> lg_tokens lg' = pay_tokens (lg_tokens demo_ledger) [11] [12] [10] \<lparr>ta_mint = [5], ta_owner = [2, 5], ta_amount = 5\<rparr>
              \<lparr>ta_mint = [5], ta_owner = [21], ta_amount = 0\<rparr> \<lparr>ta_mint = [5], ta_owner = [20], ta_amount = 0\<rparr> (wc_amount demo_call)
              (wc_amount demo_call * ts_relayer_fee_bps ?st div 10000))
     \<and> (\<not> proof_accepted demo_vm ?st (demo_call\<lparr>wc_verifier := None\<rparr>) \<longrightarrow>
          (\<exists>e. withdraw_spl demo_vm demo_ledger (demo_call\<lparr>wc_verifier := None\<rparr>) [10] [11] [12] = Inl e))"
    by (rule foreign_verifier_pays [OF demo_vm_laws(4)])
       (simp_all add: demo_unfold MAX_RELAYER_FEE_BPS_def)
  ultimately show ?thesis by blast
qed

end
