(* ===== verification/ProofChain.thy ===== *)
theory ProofChain
  imports ZkProof Chain
begin

text \<open>
  The public inputs of a proof on both sides: the hex strings that \<open>zk_proof_service\<close> returns,
  and the byte arrays that \<open>verify_and_record\<close> rebuilds on chain to check the proof against.
\<close>

section \<open>Lemmas\<close>

lemma be_nat_inj: "length xs = length ys \<Longrightarrow> be_nat xs = be_nat ys \<Longrightarrow> xs = ys"
  using le_bytes_le_nat [of "rev xs"] le_bytes_le_nat [of "rev ys"] by (simp add: be_nat_def)

lemma be32_small: "n < 2 ^ 64 \<Longrightarrow> be32 (int n mod BN254_R) = u64_to_field n"
proof (rule be_nat_inj)
  assume n: "n < 2 ^ 64"
  have r: "(2 :: int) ^ 64 < BN254_R" by (simp add: BN254_R_def)
  have "int n < 2 ^ 64" using n by (metis of_nat_less_iff of_nat_numeral of_nat_power)
  then have "int n mod BN254_R = int n" using r by (intro mod_pos_pos_trivial) auto
  with be32_mod [of "int n"] have "be_nat (be32 (int n mod BN254_R)) = n" by simp
  moreover have "be_nat (u64_to_field n) = n"
    using n le_nat_le_bytes_id [of n 8] by (simp add: u64_to_field_def) (simp add: be_nat_def)
  ultimately show "be_nat (be32 (int n mod BN254_R)) = be_nat (u64_to_field n)" by simp
qed (simp add: u64_to_field_def)

lemma le_nat_replicate: "255 * le_nat (replicate n b) + unat b = unat b * 256 ^ n"
  by (induction n) (simp_all add: algebra_simps)

text \<open>The service reduces a key, the program does not: they agree on the keys below the modulus.\<close>

lemma key_agrees:
  assumes "length key = 32"
  shows "be32 (bytes_to_field key mod BN254_R) = pubkey_to_field key \<longleftrightarrow> int (be_nat key) < BN254_R"
proof -
  have "be32 (bytes_to_field key mod BN254_R) = key \<longleftrightarrow> be_nat (be32 (bytes_to_field key mod BN254_R)) = be_nat key"
    using assms be_nat_inj [of _ key] by auto
  also have "\<dots> \<longleftrightarrow> bytes_to_field key mod BN254_R = int (be_nat key)"
    using be32_mod [of "bytes_to_field key"] by linarith
  also have "\<dots> \<longleftrightarrow> int (be_nat key) < BN254_R"
    using BN254_R_bounds(1) by (metis bytes_to_field_def mod_mod_trivial mod_pos_pos_trivial of_nat_0_le_iff pos_mod_bound)
  finally show ?thesis by (simp add: pubkey_to_field_def)
qed

text \<open>C24. Both sides agree on what a proof is about only for small keys. A proof made for a
  pool's denomination and fee comes with exactly the six public inputs that the program rebuilds from the
  request if the recipient's and the relayer's keys, read as big-endian numbers, are below the modulus of the field,
  and with others if one of them is not: the service reduces a key, the program takes its bytes as they are.\<close>

theorem public_inputs_agree:
  assumes "generate_withdraw_proof s p w = (Inr r, w')"
    and "zr_root_hex r = ''0x'' @ to_hex rt" and "zr_nullifier_hash_hex r = ''0x'' @ to_hex nh"
    and "length (zp_recipient p) = 32" and "length (zp_relayer p) = 32"
    and "zp_amount p = int amount" and "amount < 2 ^ 64"
    and "zp_fee_bps p = int (ts_relayer_fee_bps st)" and "ts_relayer_fee_bps st < 2 ^ 16"
  shows "zr_public_inputs_hex r = map (\<lambda>b. ''0x'' @ to_hex b)
            (public_inputs_of st rt nh (zp_recipient p) amount (zp_relayer p))
     \<longleftrightarrow> int (be_nat (zp_recipient p)) < BN254_R \<and> int (be_nat (zp_relayer p)) < BN254_R"
proof -
  obtain root_el where
    pub: "zr_public_inputs_hex r = map (\<lambda>v. ''0x'' @ to_hex (be32 (v mod BN254_R))) (public_input_vector (zk_hasher s) p root_el)"
    and rt: "zr_root_hex r = ''0x'' @ to_hex (be32 (root_el mod BN254_R))"
    and nh: "zr_nullifier_hash_hex r = ''0x'' @ to_hex (be32
       (zk_nullifier_hash (zk_hasher s) (zp_nullifier p) (zp_leaf_index p) mod BN254_R))"
    by (rule generated_parts [OF assms(1)])
  have fee: "ts_relayer_fee_bps st < 2 ^ 64" using assms(9) by simp
  show ?thesis
    using pub rt nh assms(2,3,6,8) key_agrees [OF assms(4)] key_agrees [OF assms(5)]
      be32_small [OF assms(7)] be32_small [OF fee]
    by (simp add: public_input_vector_def public_inputs_of_def)
qed

theorem public_inputs_agree_witness:
  "\<exists>r rt nh. generate_withdraw_proof demo_zk demo_input () = (Inr r, ())
     \<and> zr_public_inputs_hex r = map (\<lambda>b. ''0x'' @ to_hex b)
         (public_inputs_of (demo_tree_state\<lparr>ts_relayer_fee_bps := 30\<rparr>) rt nh (replicate 32 7) 1000 (replicate 32 9))"
proof -
  obtain r where r: "generate_withdraw_proof demo_zk demo_input () = (Inr r, ())" using demo_generated by blast
  obtain root_el where rt: "zr_root_hex r = ''0x'' @ to_hex (be32 (root_el mod BN254_R))"
    and nh: "zr_nullifier_hash_hex r = ''0x'' @ to_hex (be32
       (zk_nullifier_hash (zk_hasher demo_zk) (zp_nullifier demo_input) (zp_leaf_index demo_input) mod BN254_R))"
    by (rule generated_parts [OF r])
  have k: "zp_recipient demo_input = replicate 32 7" "zp_relayer demo_input = replicate 32 9"
    "zp_amount demo_input = int 1000" "zp_fee_bps demo_input = int 30" by (simp_all add: demo_input_def)
  have "int (be_nat (replicate 32 7)) < BN254_R" "int (be_nat (replicate 32 9)) < BN254_R"
    using le_nat_replicate [of 32 7] le_nat_replicate [of 32 9] by (simp_all add: be_nat_def BN254_R_def)
  with public_inputs_agree [OF r rt nh, of 1000 "demo_tree_state\<lparr>ts_relayer_fee_bps := 30\<rparr>"] r k show ?thesis by auto
qed

end
