(* ===== verification/ChainLog.thy ===== *)
theory ChainLog
  imports Chain
begin

text \<open>
  The pools along a run of the on-chain program: a pool is what its initialisation made of it and its tree
  holds the commitments deposited since, in the order of the transactions.
\<close>

section \<open>Deposits of a run\<close>

fun deposited :: "pubkey \<Rightarrow> tx \<Rightarrow> bytes option" where
  "deposited mint (DepositSol _ m c) = (if m = mint then Some c else None)"
| "deposited mint (DepositSpl _ m _ _ c) = (if m = mint then Some c else None)"
| "deposited mint _ = None"

definition deposits_into :: "pubkey \<Rightarrow> tx list \<Rightarrow> bytes list" where
  "deposits_into mint ts = List.map_filter (deposited mint) ts"

lemma deposits_into_snoc:
  "deposits_into mint (ts @ [t]) = deposits_into mint ts @ (case deposited mint t of None \<Rightarrow> [] | Some c \<Rightarrow> [c])"
  by (simp add: deposits_into_def map_filter_def split: option.split)

section \<open>What an instruction does to the pools\<close>

text \<open>An initialisation adds a pool, a deposit inserts into one, an administrator changes who runs it and whether it is paused.\<close>

definition pool_step :: "vm \<Rightarrow> pubkey \<Rightarrow> tx \<Rightarrow> tree_state option \<Rightarrow> tree_state option \<Rightarrow> bool" where
  "pool_step v mint t p p' \<longleftrightarrow>
     (p' = p \<and> deposited mint t = None)
   \<or> (\<exists>a d f st. t = Initialize a mint d f \<and> p = None \<and> init_tree (vm_hash v) a mint (vm_bump v) d f = Inr st \<and> p' = Some st)
   \<or> (\<exists>c st r st'. deposited mint t = Some c \<and> p = Some st \<and> tree_insert (vm_hash v) st c = Inr (r, st') \<and> p' = Some st')
   \<or> (\<exists>st a b. deposited mint t = None \<and> p = Some st \<and> p' = Some (st\<lparr>ts_authority := a, ts_paused := b\<rparr>))"

lemma same_admin: "st\<lparr>ts_paused := b\<rparr> = st\<lparr>ts_authority := ts_authority st, ts_paused := b\<rparr>"
  "st\<lparr>ts_authority := a\<rparr> = st\<lparr>ts_authority := a, ts_paused := ts_paused st\<rparr>"
  by simp_all

lemma process_pool:
  assumes "process v lg t = Inr (lg', events)"
  shows "pool_step v mint t (lg_pools lg mint) (lg_pools lg' mint)"
proof (cases t)
  case (Initialize a m d f)
  with assms show ?thesis
    by (cases "m = mint") (auto simp: pool_step_def process_def initialize_def chain_simps)
next
  case (DepositSol d m c)
  with assms show ?thesis
    by (auto simp: pool_step_def process_def deposit_sol_def handle_deposit_def put_pool_def chain_simps)
next
  case (DepositSpl d m s w c)
  with assms show ?thesis
    by (auto simp: pool_step_def process_def deposit_spl_def handle_deposit_def put_pool_def chain_simps)
next
  case (WithdrawSol c)
  with assms have "lg_pools lg' = lg_pools lg"
    by (auto simp: process_def chain_simps elim!: withdraw_solE)
  with WithdrawSol show ?thesis by (simp add: pool_step_def)
next
  case (WithdrawSpl c a b d)
  with assms have "lg_pools lg' = lg_pools lg"
    by (auto simp: process_def chain_simps elim!: withdraw_splE split: if_splits)
  with WithdrawSpl show ?thesis by (simp add: pool_step_def)
next
  case (RegisterFeeShare a m b)
  with assms have "lg_pools lg' = lg_pools lg" by (auto simp: process_def register_fee_share_def chain_simps)
  with RegisterFeeShare show ?thesis by (simp add: pool_step_def)
next
  case (Pause a m)
  with assms show ?thesis
    by (auto simp: pool_step_def process_def pause_def admin_pool_def put_pool_def chain_simps) (metis same_admin(1))
next
  case (Unpause a m)
  with assms show ?thesis
    by (auto simp: pool_step_def process_def unpause_def admin_pool_def put_pool_def chain_simps) (metis same_admin(1))
next
  case (RotateAuthority a m n)
  with assms show ?thesis
    by (auto simp: pool_step_def process_def rotate_authority_def admin_pool_def put_pool_def chain_simps) (metis same_admin(2))
qed

section \<open>The invariant\<close>

definition pool_log :: "(bytes \<Rightarrow> bytes \<Rightarrow> bytes) \<Rightarrow> (bytes \<Rightarrow> bool) \<Rightarrow> pubkey \<Rightarrow> tx list \<Rightarrow> tree_state option \<Rightarrow> bool" where
  "pool_log H ok mint ts p \<longleftrightarrow>
     (case p of
        None \<Rightarrow> deposits_into mint ts = []
      | Some st \<Rightarrow>
          (\<exists>a. Initialize a mint (ts_denomination st) (ts_relayer_fee_bps st) \<in> set ts)
        \<and> ts_relayer_fee_bps st \<le> MAX_RELAYER_FEE_BPS \<and> ts_token_mint st = mint
        \<and> (\<forall>x \<in> set (deposits_into mint ts). ok x) \<and> length (deposits_into mint ts) \<le> 2 ^ MERKLE_TREE_DEPTH
        \<and> pool_tree H (deposits_into mint ts) st)"

lemma pool_log_step:
  assumes h: "hash_is (vm_hash v) ok H" and "pool_log H ok mint ts p" "pool_step v mint t p p'"
  shows "pool_log H ok mint (ts @ [t]) p'"
  using assms(3) unfolding pool_step_def
proof (elim disjE exE conjE)
  assume "p' = p" "deposited mint t = None"
  with assms(2) show ?thesis by (auto simp: pool_log_def deposits_into_snoc split: option.splits)
next
  fix a d f st
  assume t: "t = Initialize a mint d f" "p = None" "init_tree (vm_hash v) a mint (vm_bump v) d f = Inr st" "p' = Some st"
  then have f: "f \<le> MAX_RELAYER_FEE_BPS" by (auto simp: init_tree_def split: if_splits)
  from init_tree_pool [OF h f, of a mint "vm_bump v" d] t(3)
  have "pool_tree H [] st" "ts_denomination st = d" "ts_relayer_fee_bps st = f" "ts_token_mint st = mint" by auto
  with t f assms(2) show ?thesis by (auto simp: pool_log_def deposits_into_snoc)
next
  fix c st r st'
  assume t: "deposited mint t = Some c" "p = Some st" "tree_insert (vm_hash v) st c = Inr (r, st')" "p' = Some st'"
  with assms(2) have pt: "pool_tree H (deposits_into mint ts) st" "\<forall>x \<in> set (deposits_into mint ts). ok x"
    and le: "length (deposits_into mint ts) \<le> 2 ^ MERKLE_TREE_DEPTH" by (simp_all add: pool_log_def)
  have ok: "ok c" "length (deposits_into mint ts) < 2 ^ MERKLE_TREE_DEPTH"
    using tree_insert_refuses [OF h pt(1), of c] t(3) le by (auto simp: le_less)
  from tree_insert_exact [OF h pt ok] t(3)
  have "pool_tree H (deposits_into mint ts @ [c]) st'" "ts_denomination st' = ts_denomination st"
    "ts_relayer_fee_bps st' = ts_relayer_fee_bps st" "ts_token_mint st' = ts_token_mint st" by auto
  with t ok assms(2) show ?thesis by (auto simp: pool_log_def deposits_into_snoc)
next
  fix st a b
  assume "deposited mint t = None" "p = Some st" "p' = Some (st\<lparr>ts_authority := a, ts_paused := b\<rparr>)"
  with assms(2) show ?thesis by (auto simp: pool_log_def deposits_into_snoc pool_tree_def)
qed

lemma run_pool_log:
  assumes "hash_is (vm_hash v) ok H" "lg_pools lg0 mint = None" "chain_run v lg0 ts lg"
  shows "pool_log H ok mint ts (lg_pools lg mint)"
  using assms(3)
proof (induction rule: chain_run.induct)
  case start
  then show ?case using assms(2) by (simp add: pool_log_def deposits_into_def map_filter_def)
next
  case (call ts lg t lg' events)
  from pool_log_step [OF assms(1) call.IH process_pool [OF call.hyps(2)]] show ?case .
next
  case (other ts lg lg')
  then show ?case by (simp add: outside_def)
qed

section \<open>Property\<close>

text \<open>C10. A pool is its log. Take any run of the program in which the pool of a mint did not exist before, interleaved with
  whatever other programs do. Afterwards the pool either still does not exist and no deposit into it has succeeded, or it
  has the denomination and the fee it was initialised with, at most ten percent; its tree holds exactly the commitments of the
  successful deposits in the order of the transactions, at most \<open>2 ^ 20\<close> and all accepted by the hash; and the roots that
  withdrawals may use are the roots after each of the last ten.\<close>

theorem pool_follows_deposits:
  assumes "hash_is (vm_hash v) ok H" and "chain_run v lg0 ts lg" and "lg_pools lg0 mint = None"
  shows "case lg_pools lg mint of
           None \<Rightarrow> deposits_into mint ts = []
         | Some st \<Rightarrow>
             (\<exists>a. Initialize a mint (ts_denomination st) (ts_relayer_fee_bps st) \<in> set ts)
           \<and> ts_relayer_fee_bps st \<le> 1000 \<and> ts_token_mint st = mint
           \<and> ts_commitment_count st = length (deposits_into mint ts) \<and> length (deposits_into mint ts) \<le> 2 ^ 20
           \<and> (\<forall>x \<in> set (deposits_into mint ts). ok x)
           \<and> (\<forall>r. root_is_known st r \<longleftrightarrow> r \<noteq> zero32 \<and>
                (if deposits_into mint ts = [] then r = pool_root H []
                 else \<exists>j. 1 \<le> j \<and> j \<le> length (deposits_into mint ts) \<and> length (deposits_into mint ts) < j + 10
                        \<and> r = pool_root H (take j (deposits_into mint ts))))"
proof (cases "lg_pools lg mint")
  case None
  with run_pool_log [OF assms(1,3,2)] show ?thesis by (simp add: pool_log_def)
next
  case (Some st)
  with run_pool_log [OF assms(1,3,2)] have l: "pool_log H ok mint ts (Some st)" by simp
  then have "pool_tree H (deposits_into mint ts) st" by (simp add: pool_log_def)
  with l Some roots_window [OF this] show ?thesis
    by (simp add: pool_log_def MAX_RELAYER_FEE_BPS_def MERKLE_TREE_DEPTH_def ROOT_HISTORY_SIZE_def pool_tree_def)
qed

text \<open>A SOL pool is opened and takes one deposit.\<close>

definition fresh_ledger :: ledger where
  "fresh_ledger = \<lparr>lg_lamports = (\<lambda>k. 5000), lg_owner = (\<lambda>k. SYSTEM_ID), lg_tokens = (\<lambda>k. None), lg_pools = (\<lambda>k. None),
     lg_nullifiers = (\<lambda>h. False)\<rparr>"

theorem pool_follows_deposits_witness:
  "\<exists>lg st. chain_run demo_vm fresh_ledger [Initialize [20] SYSTEM_ID 5 15, DepositSol [21] SYSTEM_ID (replicate 32 6)] lg
     \<and> lg_pools lg SYSTEM_ID = Some st \<and> ts_commitment_count st = 1 \<and> ts_denomination st = 5"
proof -
  let ?H = mix_hash
  have h: "hash_is (vm_hash demo_vm) demo_ok ?H" by (simp add: demo_vm_def demo_hash_is)
  have P: "vm_hash demo_vm = demo_hash" by (simp add: demo_vm_def)
  obtain st where st: "init_tree demo_hash [20] SYSTEM_ID 255 5 15 = Inr st" "pool_tree ?H [] st"
    "ts_denomination st = 5" "ts_token_mint st = SYSTEM_ID" "\<not> ts_paused st"
    using init_tree_pool [OF demo_hash_is, of 15 "[20]" SYSTEM_ID 255 5] by (auto simp: MAX_RELAYER_FEE_BPS_def)
  have "\<exists>lg1 ev. process demo_vm fresh_ledger (Initialize [20] SYSTEM_ID 5 15) = Inr (lg1, ev)
     \<and> lg_pools lg1 SYSTEM_ID = Some st \<and> lg_lamports lg1 [21] = 5000"
    using st by (simp add: process_def initialize_def init_account_def pay_rent_def P)
      (simp add: demo_vm_def fresh_ledger_def require_def some_or_def Let_def TREE_STATE_SIZE_def MERKLE_TREE_DEPTH_def ROOT_HISTORY_SIZE_def)
  then obtain lg1 ev where 1: "process demo_vm fresh_ledger (Initialize [20] SYSTEM_ID 5 15) = Inr (lg1, ev)"
    "lg_pools lg1 SYSTEM_ID = Some st" "lg_lamports lg1 [21] = 5000" by blast
  have ok: "\<forall>x \<in> set []. demo_ok x" "demo_ok (replicate 32 6)" "length ([] :: bytes list) < 2 ^ MERKLE_TREE_DEPTH"
    by simp_all
  from tree_insert_exact [OF demo_hash_is st(2) ok] obtain r st' where
    ins: "tree_insert demo_hash st (replicate 32 6) = Inr (r, st')" by metis
  have "\<exists>lg2 ev. process demo_vm lg1 (DepositSol [21] SYSTEM_ID (replicate 32 6)) = Inr (lg2, ev) \<and> lg_pools lg2 SYSTEM_ID = Some st'"
    using 1 st ins by (simp add: process_def deposit_sol_def open_pool_def handle_deposit_def P put_pool_def)
      (simp add: demo_vm_def require_def some_or_def Let_def)
  then obtain lg2 ev2 where 2: "process demo_vm lg1 (DepositSol [21] SYSTEM_ID (replicate 32 6)) = Inr (lg2, ev2)"
    "lg_pools lg2 SYSTEM_ID = Some st'" by blast
  have run: "chain_run demo_vm fresh_ledger [Initialize [20] SYSTEM_ID 5 15, DepositSol [21] SYSTEM_ID (replicate 32 6)] lg2"
    using chain_run.call [OF chain_run.call [OF chain_run.start 1(1)] 2(1)] by simp
  have "lg_pools fresh_ledger SYSTEM_ID = None" by (simp add: fresh_ledger_def)
  from pool_follows_deposits [OF h run this] 2(2)
  have "ts_commitment_count st' = 1 \<and> ts_denomination st' = 5"
    by (simp add: deposits_into_def map_filter_def)
  with run 2(2) show ?thesis by blast
qed

end
