(* ===== verification/Circuit.thy ===== *)
theory Circuit
  imports ProofChain ChainLog
begin

text \<open>
  \<open>circuits/bagsvault_withdraw/src/main.nr\<close>: the statement that a withdrawal proof is about, its
  completeness for the inputs of \<open>zk_proof_service\<close>, what it implies about the tree, and what it leaves open.
  Field elements are integers below \<open>BN254_R\<close>; \<open>P2\<close> and \<open>P3\<close> are \<open>hash_2\<close> and \<open>hash_3\<close> of
  Noir's standard library.
\<close>

section \<open>The circuit\<close>

definition TREE_DEPTH :: nat where
  "TREE_DEPTH = 20"

record circuit_public =
  cp_root :: int
  cp_nullifier_hash :: int
  cp_recipient :: int
  cp_amount :: int
  cp_relayer :: int
  cp_fee_bps :: int

record circuit_private =
  cw_nullifier :: int
  cw_secret :: int
  cw_leaf_index :: int
  cw_merkle_path :: "int list"
  cw_is_left :: "int list"

text \<open>The loop over the levels, as pairs of sibling and side.\<close>

fun circuit_walk :: "(int \<Rightarrow> int \<Rightarrow> int) \<Rightarrow> int \<Rightarrow> (int \<times> int) list \<Rightarrow> int" where
  "circuit_walk P2 current [] = current"
| "circuit_walk P2 current ((sib, side) # levels) =
     (let lhs = (if side = 1 then current else sib);
          rhs = (if side = 1 then sib else current)
      in circuit_walk P2 (P2 lhs rhs) levels)"

text \<open>What the types of \<open>main\<close> say of its arguments: fields, two arrays of the depth, bits.\<close>

definition in_field :: "int \<Rightarrow> bool" where
  "in_field x \<longleftrightarrow> 0 \<le> x \<and> x < BN254_R"

definition circuit_typed :: "circuit_public \<Rightarrow> circuit_private \<Rightarrow> bool" where
  "circuit_typed p w \<longleftrightarrow>
     list_all in_field [cp_root p, cp_nullifier_hash p, cp_recipient p, cp_amount p, cp_relayer p, cp_fee_bps p,
       cw_nullifier w, cw_secret w, cw_leaf_index w]
   \<and> list_all in_field (cw_merkle_path w) \<and> length (cw_merkle_path w) = TREE_DEPTH
   \<and> list_all (\<lambda>b. b = 0 \<or> b = 1) (cw_is_left w) \<and> length (cw_is_left w) = TREE_DEPTH"

text \<open>\<open>main\<close>: the conjunction of its assertions.\<close>

definition circuit_main ::
  "(int \<Rightarrow> int \<Rightarrow> int) \<Rightarrow> (int \<Rightarrow> int \<Rightarrow> int \<Rightarrow> int) \<Rightarrow> circuit_public \<Rightarrow> circuit_private \<Rightarrow> bool" where
  "circuit_main P2 P3 p w \<longleftrightarrow>
     (let commitment = P3 (cw_nullifier w) (cw_secret w) (cp_amount p);
          computed_nullifier = P2 (cw_nullifier w) (cw_leaf_index w);
          current = circuit_walk P2 commitment (zip (cw_merkle_path w) (cw_is_left w));
          bind_pair = cp_recipient p * cp_relayer p mod BN254_R;
          fee_bind = cp_fee_bps p * cp_relayer p mod BN254_R
      in computed_nullifier = cp_nullifier_hash p \<and> current = cp_root p
       \<and> bind_pair = bind_pair \<and> fee_bind = fee_bind)"

definition circuit_accepts ::
  "(int \<Rightarrow> int \<Rightarrow> int) \<Rightarrow> (int \<Rightarrow> int \<Rightarrow> int \<Rightarrow> int) \<Rightarrow> circuit_public \<Rightarrow> circuit_private \<Rightarrow> bool" where
  "circuit_accepts P2 P3 p w \<longleftrightarrow> circuit_typed p w \<and> circuit_main P2 P3 p w"

text \<open>The six public inputs as the program passes them to its verifier.\<close>

definition field_of :: "bytes \<Rightarrow> int" where
  "field_of b = int (be_nat b)"

definition public_of :: "bytes list \<Rightarrow> circuit_public" where
  "public_of inputs = \<lparr>cp_root = field_of (inputs ! 0), cp_nullifier_hash = field_of (inputs ! 1),
     cp_recipient = field_of (inputs ! 2), cp_amount = field_of (inputs ! 3),
     cp_relayer = field_of (inputs ! 4), cp_fee_bps = field_of (inputs ! 5)\<rparr>"

section \<open>Walks and trees\<close>

lemma circuit_walk_append: "circuit_walk P2 c (xs @ ys) = circuit_walk P2 (circuit_walk P2 c xs) ys"
  by (induction xs arbitrary: c) (auto simp: Let_def)

text \<open>\<open>nd l k\<close> numbers the nodes of a tree whose levels are joined by \<open>P2\<close>.\<close>

definition joins :: "(int \<Rightarrow> int \<Rightarrow> int) \<Rightarrow> (nat \<Rightarrow> nat \<Rightarrow> int) \<Rightarrow> bool" where
  "joins P2 nd \<longleftrightarrow> (\<forall>l k. nd (Suc l) k = P2 (nd l (2 * k)) (nd l (2 * k + 1)))"

definition tree_siblings :: "(nat \<Rightarrow> nat \<Rightarrow> int) \<Rightarrow> nat \<Rightarrow> nat \<Rightarrow> int list" where
  "tree_siblings nd k n = map (\<lambda>l. let q = k div 2 ^ l in nd l (if even q then q + 1 else q - 1)) [0..<n]"

definition tree_sides :: "nat \<Rightarrow> nat \<Rightarrow> int list" where
  "tree_sides k n = map (\<lambda>l. if even (k div 2 ^ l) then 1 else 0) [0..<n]"

lemma walk_to_root:
  assumes "joins P2 nd"
  shows "circuit_walk P2 (nd 0 k) (zip (tree_siblings nd k n) (tree_sides k n)) = nd n (k div 2 ^ n)"
proof (induction n)
  case (Suc n)
  let ?q = "k div 2 ^ n"
  have z: "zip (tree_siblings nd k (Suc n)) (tree_sides k (Suc n)) = zip (tree_siblings nd k n) (tree_sides k n)
      @ [(nd n (if even ?q then ?q + 1 else ?q - 1), if even ?q then 1 else 0)]"
    by (simp add: tree_siblings_def tree_sides_def Let_def)
  have d: "k div 2 ^ Suc n = ?q div 2" by (metis div_mult2_eq power_Suc2)
  have j: "nd (Suc n) (?q div 2) = P2 (nd n (2 * (?q div 2))) (nd n (2 * (?q div 2) + 1))"
    using assms unfolding joins_def by blast
  show ?case
  proof (cases "even ?q")
    case True
    then have "2 * (?q div 2) = ?q" by simp
    with True j show ?thesis by (simp add: z d circuit_walk_append Suc del: power_Suc)
  next
    case False
    then have "2 * (?q div 2) + 1 = ?q" "2 * (?q div 2) = ?q - 1" by (auto elim: oddE)
    with False j show ?thesis by (simp add: z d circuit_walk_append Suc del: power_Suc)
  qed
qed (simp add: tree_siblings_def tree_sides_def)

text \<open>The pair that the walk hashes at a level, and the position that its sides name.\<close>

definition walk_pair :: "(int \<Rightarrow> int \<Rightarrow> int) \<Rightarrow> int \<Rightarrow> (int \<times> int) list \<Rightarrow> nat \<Rightarrow> int \<times> int" where
  "walk_pair P2 c levels j =
     (let current = circuit_walk P2 c (take j levels); (sib, side) = levels ! j
      in if side = 1 then (current, sib) else (sib, current))"

fun position :: "int list \<Rightarrow> nat" where
  "position [] = 0"
| "position (b # bs) = (if b = 1 then 0 else 1) + 2 * position bs"

lemma position_snoc: "position (bs @ [b]) = position bs + (if b = 1 then 0 else 2 ^ length bs)"
  by (induction bs) auto

text \<open>No pair of the walk is another pair than one of the tree with the same hash.\<close>

definition no_collision :: "(int \<Rightarrow> int \<Rightarrow> int) \<Rightarrow> (nat \<Rightarrow> nat \<Rightarrow> int) \<Rightarrow> int \<Rightarrow> (int \<times> int) list \<Rightarrow> bool" where
  "no_collision P2 nd c levels \<longleftrightarrow>
     (\<forall>j < length levels. \<forall>k. case_prod P2 (walk_pair P2 c levels j) = nd (Suc j) k \<longrightarrow>
        walk_pair P2 c levels j = (nd j (2 * k), nd j (2 * k + 1)))"

lemma walk_take_Suc:
  "j < length levels \<Longrightarrow> circuit_walk P2 c (take (Suc j) levels) = case_prod P2 (walk_pair P2 c levels j)"
  by (cases "levels ! j") (simp add: take_Suc_conv_app_nth circuit_walk_append walk_pair_def Let_def)

lemma walk_from_leaf:
  assumes "no_collision P2 nd c levels"
  shows "n \<le> length levels \<Longrightarrow> circuit_walk P2 c (take n levels) = nd n m \<Longrightarrow>
     c = nd 0 (position (map snd (take n levels)) + m * 2 ^ n)"
proof (induction n arbitrary: m)
  case (Suc n)
  obtain sib side where s: "levels ! n = (sib, side)" by (cases "levels ! n")
  let ?c = "circuit_walk P2 c (take n levels)"
  have n: "n < length levels" using Suc.prems(1) by simp
  have "walk_pair P2 c levels n = (nd n (2 * m), nd n (2 * m + 1))"
    using assms n Suc.prems(2) unfolding no_collision_def walk_take_Suc [OF n] by blast
  then have "?c = nd n (if side = 1 then 2 * m else 2 * m + 1)"
    by (simp add: walk_pair_def s Let_def split: if_splits)
  from Suc.IH [OF _ this] n
  have "c = nd 0 (position (map snd (take n levels)) + (if side = 1 then 2 * m else 2 * m + 1) * 2 ^ n)" by simp
  moreover have "position (map snd (take (Suc n) levels)) + m * 2 ^ Suc n
      = position (map snd (take n levels)) + (if side = 1 then 2 * m else 2 * m + 1) * 2 ^ n"
    using n by (simp add: take_Suc_conv_app_nth position_snoc s algebra_simps)
  ultimately show ?case by (simp only:)
qed simp

section \<open>The on-chain tree over the circuit's hash\<close>

definition canonical :: "bytes \<Rightarrow> bool" where
  "canonical b \<longleftrightarrow> length b = 32 \<and> field_of b < BN254_R"

text \<open>\<open>hash_bytes_be\<close> of the program and \<open>hash_2\<close> of the circuit are the same Poseidon.\<close>

definition join_bytes :: "(int \<Rightarrow> int \<Rightarrow> int) \<Rightarrow> bytes \<Rightarrow> bytes \<Rightarrow> bytes" where
  "join_bytes P2 a b = be32 (P2 (field_of a) (field_of b))"

definition same_poseidon :: "vm \<Rightarrow> (int \<Rightarrow> int \<Rightarrow> int) \<Rightarrow> bool" where
  "same_poseidon v P2 \<longleftrightarrow>
     (\<forall>a b. in_field (P2 a b))
   \<and> (\<forall>a b. vm_hash v a b = (if canonical a \<and> canonical b then Some (join_bytes P2 a b) else None))"

lemma field_of_be32: "in_field x \<Longrightarrow> field_of (be32 x) = x"
  using BN254_R_bounds by (auto simp: in_field_def field_of_def intro!: be32_value)

lemma canonical_be32: "in_field x \<Longrightarrow> canonical (be32 x)"
  by (simp add: canonical_def field_of_be32) (simp add: in_field_def)

lemma field_of_in: "canonical b \<Longrightarrow> in_field (field_of b)"
  by (simp add: canonical_def in_field_def field_of_def)

lemma canonical_zero: "canonical zero32"
  by (simp add: canonical_def zero32_def field_of_def be_nat_def BN254_R_def del: demo_keys)

lemma poseidon_hash_is: "same_poseidon v P2 \<Longrightarrow> hash_is (vm_hash v) canonical (join_bytes P2)"
  using canonical_zero by (auto simp: same_poseidon_def hash_is_def join_bytes_def canonical_be32)

definition tree_value :: "(int \<Rightarrow> int \<Rightarrow> int) \<Rightarrow> bytes list \<Rightarrow> nat \<Rightarrow> nat \<Rightarrow> int" where
  "tree_value P2 ls l k = field_of (pnode (join_bytes P2) ls l k)"

lemma tree_joins: "same_poseidon v P2 \<Longrightarrow> joins P2 (tree_value P2 ls)"
  by (simp add: joins_def tree_value_def same_poseidon_def) (simp add: join_bytes_def field_of_be32)

lemma tree_value_in:
  assumes "same_poseidon v P2" "\<forall>x \<in> set ls. canonical x"
  shows "in_field (tree_value P2 ls l k)"
  using field_of_in [OF pnode_ok [OF poseidon_hash_is [OF assms(1)] assms(2)]] by (simp add: tree_value_def)

section \<open>Proofs for a note\<close>

text \<open>Groth16 is complete: whatever the circuit accepts has a proof that the program's verifier accepts.\<close>

definition groth16_complete :: "vm \<Rightarrow> (int \<Rightarrow> int \<Rightarrow> int) \<Rightarrow> (int \<Rightarrow> int \<Rightarrow> int \<Rightarrow> int) \<Rightarrow> bool" where
  "groth16_complete v P2 P3 \<longleftrightarrow>
     (\<forall>inputs w. length inputs = 6 \<longrightarrow> (\<forall>b \<in> set inputs. canonical b) \<longrightarrow> circuit_accepts P2 P3 (public_of inputs) w \<longrightarrow>
        (\<exists>proof_bytes. verify_withdraw_proof v proof_bytes inputs = Inr ()))"

lemma u64_field: "n < 2 ^ 64 \<Longrightarrow> canonical (u64_to_field n) \<and> field_of (u64_to_field n) = int n"
proof -
  assume n: "n < 2 ^ 64"
  then have "int n < 2 ^ 64" by (metis of_nat_less_iff of_nat_numeral of_nat_power)
  moreover have "(2 :: int) ^ 64 < BN254_R" by (simp add: BN254_R_def)
  ultimately have "in_field (int n)" by (simp add: in_field_def)
  moreover from this have "u64_to_field n = be32 (int n)" using be32_small [OF n] by (simp add: in_field_def)
  ultimately show ?thesis by (simp add: canonical_be32 field_of_be32)
qed

text \<open>A note in the tree has a proof for every leaf index that the prover writes down.\<close>

lemma note_has_proof:
  assumes "same_poseidon v P2" "\<forall>a b c. in_field (P3 a b c)" "groth16_complete v P2 P3"
    and ls: "\<forall>x \<in> set ls. canonical x" "i < length ls" "length ls \<le> 2 ^ 20" "ls ! i = be32 (P3 n s (int amount))"
    and typed: "in_field n" "in_field s" "in_field k" "canonical recipient" "canonical relayer"
    and small: "amount < 2 ^ 64" "ts_relayer_fee_bps st < 2 ^ 64"
  shows "\<exists>proof_bytes. verify_withdraw_proof v proof_bytes
     (public_inputs_of st (pool_root (join_bytes P2) ls) (be32 (P2 n k)) recipient amount relayer) = Inr ()"
proof -
  let ?inputs = "public_inputs_of st (pool_root (join_bytes P2) ls) (be32 (P2 n k)) recipient amount relayer"
  let ?nd = "tree_value P2 ls"
  let ?w = "\<lparr>cw_nullifier = n, cw_secret = s, cw_leaf_index = k, cw_merkle_path = tree_siblings ?nd i 20,
     cw_is_left = tree_sides i 20\<rparr>"
  have P2: "in_field (P2 a b)" for a b using assms(1) by (simp add: same_poseidon_def)
  have root: "canonical (pool_root (join_bytes P2) ls)"
    unfolding pool_root_def by (rule pnode_ok [OF poseidon_hash_is [OF assms(1)] ls(1)])
  have can: "\<forall>b \<in> set ?inputs. canonical b"
    using root typed P2 small by (simp add: public_inputs_of_def pubkey_to_field_def u64_field canonical_be32)
  have leaf: "?nd 0 i = P3 n s (int amount)" using ls(2,4) assms(2) by (simp add: tree_value_def field_of_be32)
  have i: "i div 2 ^ 20 = 0" using ls(2,3) by simp
  have "circuit_walk P2 (P3 n s (int amount)) (zip (tree_siblings ?nd i 20) (tree_sides i 20)) = ?nd 20 0"
    using walk_to_root [OF tree_joins [OF assms(1)], of ls i 20] by (simp only: leaf i)
  moreover have "circuit_typed (public_of ?inputs) ?w"
    using can typed small P2 field_of_in [OF root] tree_value_in [OF assms(1) ls(1)] field_of_in [OF typed(4)] field_of_in [OF typed(5)]
      field_of_in [of "u64_to_field amount"] field_of_in [of "u64_to_field (ts_relayer_fee_bps st)"]
    by (auto simp: circuit_typed_def public_of_def public_inputs_of_def u64_field pubkey_to_field_def field_of_be32 TREE_DEPTH_def
        tree_siblings_def tree_sides_def list_all_iff Let_def)
  ultimately have "circuit_accepts P2 P3 (public_of ?inputs) ?w"
    using P2 small
    by (simp add: circuit_accepts_def circuit_main_def public_of_def public_inputs_of_def Let_def u64_field field_of_be32
        pool_root_def tree_value_def MERKLE_TREE_DEPTH_def)
  moreover have "length ?inputs = 6" by (simp add: public_inputs_of_def)
  ultimately show ?thesis using assms(3) can unfolding groth16_complete_def by blast
qed

text \<open>The service's walk is the circuit's.\<close>

lemma service_walk:
  assumes "\<forall>a b. in_field a \<longrightarrow> in_field b \<longrightarrow> poseidon h [a, b] = P2 a b"
  shows "in_field c \<Longrightarrow> list_all in_field (map fst steps) \<Longrightarrow>
     walk_path h c steps = circuit_walk P2 c steps \<and> in_field (walk_path h c steps)"
proof (induction steps arbitrary: c)
  case (Cons s steps)
  obtain sib side where s: "s = (sib, side)" by (cases s)
  have r: "in_field (poseidon h xs)" for xs using poseidon_range by (simp add: in_field_def)
  from Cons.prems s assms have e: "poseidon h [c, sib] = P2 c sib" "poseidon h [sib, c] = P2 sib c" by simp_all
  then show ?case using Cons r by (auto simp: s Let_def) (metis r)+
qed simp

section \<open>Properties\<close>

text \<open>C22. What a proof shows about the tree. Take a proof whose public root is the root of the on-chain tree over some leaves, made
  without a collision between a pair of its walk and one of the tree. Then the prover knows the nullifier and the secret of the
  commitment that is the leaf at the position named by the side bits; or the position is empty and the commitment is the
  zero that stands there. Nothing is said of the private leaf index, which the nullifier hash is made from: it is not that position.\<close>

theorem proof_shows_membership:
  assumes "circuit_accepts P2 P3 p w" and "cp_root p = field_of (pool_root (join_bytes P2) leaves)"
    and "no_collision P2 (tree_value P2 leaves) (P3 (cw_nullifier w) (cw_secret w) (cp_amount p))
           (zip (cw_merkle_path w) (cw_is_left w))"
  shows "let i = position (cw_is_left w) in
     P3 (cw_nullifier w) (cw_secret w) (cp_amount p) = (if i < length leaves then field_of (leaves ! i) else 0)
   \<and> P2 (cw_nullifier w) (cw_leaf_index w) = cp_nullifier_hash p"
proof -
  let ?levels = "zip (cw_merkle_path w) (cw_is_left w)" and ?c = "P3 (cw_nullifier w) (cw_secret w) (cp_amount p)"
  have len: "length ?levels = MERKLE_TREE_DEPTH" and sides: "map snd ?levels = cw_is_left w"
    using assms(1) by (simp_all add: circuit_accepts_def circuit_typed_def TREE_DEPTH_def MERKLE_TREE_DEPTH_def)
  have "circuit_walk P2 ?c (take MERKLE_TREE_DEPTH ?levels) = tree_value P2 leaves MERKLE_TREE_DEPTH 0"
    using assms(1,2) len by (simp add: circuit_accepts_def circuit_main_def Let_def pool_root_def tree_value_def)
  from walk_from_leaf [OF assms(3) _ this]
  have "?c = tree_value P2 leaves 0 (position (cw_is_left w))" unfolding len [symmetric] by (simp add: sides)
  then have "?c = (if position (cw_is_left w) < length leaves then field_of (leaves ! position (cw_is_left w)) else 0)"
    by (simp add: tree_value_def field_of_def zero32_def be_nat_def del: demo_keys)
  then show ?thesis using assms(1) by (simp add: Let_def circuit_accepts_def circuit_main_def)
qed

text \<open>C21. The service proves what the circuit checks. When a proof is generated for a path of twenty siblings and side bits, from
  field elements, and the service's Poseidon is the circuit's, then the public inputs it returns, with the private inputs of
  the request, satisfy the circuit: the prover has a proof to find.\<close>

theorem generated_inputs_satisfy_circuit:
  assumes "generate_withdraw_proof s p w = (Inr r, w')"
    and h2: "\<forall>a b. in_field a \<longrightarrow> in_field b \<longrightarrow> poseidon (zk_hasher s) [a, b] = P2 a b"
    and h3: "\<forall>a b c. in_field a \<longrightarrow> in_field b \<longrightarrow> in_field c \<longrightarrow> poseidon (zk_hasher s) [a, b, c] = P3 a b c"
    and typed: "list_all in_field [zp_nullifier p, zp_secret p, zp_amount p, zp_leaf_index p, zp_fee_bps p]"
      "list_all in_field (zp_merkle_path p)" "length (zp_merkle_path p) = 20"
      "list_all (\<lambda>b. b = 0 \<or> b = 1) (zp_is_left p)" "length (zp_is_left p) = 20"
  shows "\<exists>inputs. zr_public_inputs_hex r = map (\<lambda>b. ''0x'' @ to_hex b) inputs \<and> (\<forall>b \<in> set inputs. canonical b)
     \<and> circuit_accepts P2 P3 (public_of inputs)
         \<lparr>cw_nullifier = zp_nullifier p, cw_secret = zp_secret p, cw_leaf_index = zp_leaf_index p,
          cw_merkle_path = zp_merkle_path p, cw_is_left = zp_is_left p\<rparr>"
proof -
  let ?h = "zk_hasher s" and ?steps = "zip (zp_merkle_path p) (zp_is_left p)"
  let ?c = "zk_commitment ?h (zp_nullifier p) (zp_secret p) (zp_amount p)"
  have r: "in_field (poseidon ?h xs)" for xs using poseidon_range by (simp add: in_field_def)
  obtain root_el where
    root: "merkle_root_from_path ?h ?c (zp_merkle_path p) (zp_is_left p) = Inr root_el"
    and pub: "zr_public_inputs_hex r = map (\<lambda>v. ''0x'' @ to_hex (be32 (v mod BN254_R))) (public_input_vector ?h p root_el)"
    by (rule generated_parts [OF assms(1)])
  let ?inputs = "map (\<lambda>v. be32 (v mod BN254_R)) (public_input_vector ?h p root_el)"
  have "list_all in_field (map fst ?steps)" using typed(2,3,5) by (simp add: map_fst_zip)
  from service_walk [OF h2 r this, of "[zp_nullifier p, zp_secret p, zp_amount p]"] root typed(3,5)
  have walk: "root_el = circuit_walk P2 ?c ?steps" "in_field root_el"
    by (auto simp: merkle_root_from_path_def zk_commitment_def)
  have field: "in_field (bytes_to_field bs)" for bs using bytes_to_field_range by (simp add: in_field_def)
  have m: "v mod BN254_R = v" if "in_field v" for v using that by (simp add: in_field_def)
  have all: "\<forall>v \<in> set (public_input_vector ?h p root_el). in_field v"
    using typed(1) walk(2) r field by (simp add: public_input_vector_def zk_nullifier_hash_def)
  have "\<forall>v \<in> set (public_input_vector ?h p root_el). field_of (be32 (v mod BN254_R)) = v"
    using all m by (simp add: field_of_be32)
  then have "public_of ?inputs = \<lparr>cp_root = root_el,
      cp_nullifier_hash = zk_nullifier_hash ?h (zp_nullifier p) (zp_leaf_index p),
      cp_recipient = bytes_to_field (zp_recipient p), cp_amount = zp_amount p,
      cp_relayer = bytes_to_field (zp_relayer p), cp_fee_bps = zp_fee_bps p\<rparr>"
    by (simp add: public_of_def public_input_vector_def)
  moreover have "?c = P3 (zp_nullifier p) (zp_secret p) (zp_amount p)"
    "zk_nullifier_hash ?h (zp_nullifier p) (zp_leaf_index p) = P2 (zp_nullifier p) (zp_leaf_index p)"
    using typed(1) h2 h3 by (simp_all add: zk_commitment_def zk_nullifier_hash_def)
  moreover have "in_field (zk_nullifier_hash ?h (zp_nullifier p) (zp_leaf_index p))" using r by (simp add: zk_nullifier_hash_def)
  ultimately have "circuit_accepts P2 P3 (public_of ?inputs)
      \<lparr>cw_nullifier = zp_nullifier p, cw_secret = zp_secret p, cw_leaf_index = zp_leaf_index p,
       cw_merkle_path = zp_merkle_path p, cw_is_left = zp_is_left p\<rparr>"
    using typed walk field
    by (simp add: circuit_accepts_def circuit_main_def circuit_typed_def TREE_DEPTH_def)
  moreover have "\<forall>b \<in> set ?inputs. canonical b" using all m by (auto simp: canonical_be32)
  moreover have "zr_public_inputs_hex r = map (\<lambda>b. ''0x'' @ to_hex b) ?inputs" using pub by (simp add: comp_def)
  ultimately show ?thesis by (intro exI [of _ ?inputs] conjI)
qed

text \<open>The call of an SPL withdrawal of a note with a chosen leaf index.\<close>

definition note_call :: "pubkey \<Rightarrow> pubkey \<Rightarrow> bytes \<Rightarrow> bytes \<Rightarrow> bytes \<Rightarrow> pubkey \<Rightarrow> nat \<Rightarrow> withdrawal_call" where
  "note_call relayer mint proof_bytes root_bytes nullifier_hash recipient amount =
     \<lparr>wc_relayer = relayer, wc_mint = mint, wc_proof = proof_bytes, wc_root = root_bytes,
      wc_nullifier_hash = nullifier_hash, wc_recipient = recipient, wc_amount = amount, wc_verifier = None\<rparr>"

text \<open>C3. One deposit, two payouts. Take any run in which a pool of an SPL mint was opened and a commitment deposited into it, all over
  the circuit's Poseidon and with a complete proof system. Whoever knows the nullifier and the secret of that commitment has, for any
  two leaf indices whose nullifier hashes differ and are fresh, two proofs whose withdrawals both succeed: the vault pays the
  denomination twice for one deposit. The circuit takes the leaf index from the prover and never compares it with
  the position of the leaf, so the hash that the program records is the prover's choice. The relayer that submits them needs the
  rent of two nullifier accounts, and the system program is only assumed to move lamports that are there.\<close>

theorem one_deposit_pays_twice:
  assumes law: "token_law v" "same_poseidon v P2" "\<forall>a b c. in_field (P3 a b c)" "groth16_complete v P2 P3" "lamport_law v"
    and run: "chain_run v lg0 ts lg" "lg_pools lg0 mint = None" "lg_pools lg mint = Some st"
    and pool: "\<not> ts_paused st" "mint \<noteq> SYSTEM_ID" "ts_denomination st < 2 ^ 64"
      "pool_root (join_bytes P2) (deposits_into mint ts) \<noteq> zero32"
    and leaf: "be32 (P3 n s (int (ts_denomination st))) \<in> set (deposits_into mint ts)" "in_field n" "in_field s"
    and index: "in_field k1" "in_field k2" "be32 (P2 n k1) \<noteq> be32 (P2 n k2)"
      "\<not> lg_nullifiers lg (be32 (P2 n k1))" "\<not> lg_nullifiers lg (be32 (P2 n k2))"
    and keys: "canonical recipient" "canonical relayer"
    and rent: "relayer \<noteq> vm_nullifier v (be32 (P2 n k1))" "relayer \<noteq> vm_nullifier v (be32 (P2 n k2))"
      "2 * vm_rent v (8 + NULLIFIER_SIZE) \<le> lg_lamports lg relayer" "lg_lamports lg relayer < 2 ^ 64"
    and accounts: "distinct [vta, cta, rta]" "token_account_of lg vta mint (vm_vault v mint) = Inr x"
      "token_account_of lg cta mint recipient = Inr y" "token_account_of lg rta mint relayer = Inr r"
    and funds: "2 * ts_denomination st \<le> ta_amount x" "ta_amount y + 2 * ts_denomination st < 2 ^ 64"
      "ta_amount r + 2 * ts_denomination st < 2 ^ 64"
  shows "\<exists>p1 p2 lg2. let root_bytes = pool_root (join_bytes P2) (deposits_into mint ts);
            call = (\<lambda>p k. WithdrawSpl (note_call relayer mint p root_bytes (be32 (P2 n k)) recipient (ts_denomination st)) rta vta cta)
          in chain_run v lg0 (ts @ [call p1 k1, call p2 k2]) lg2
           \<and> lg_tokens lg2 vta = Some (x\<lparr>ta_amount := ta_amount x - 2 * ts_denomination st\<rparr>)"
proof -
  let ?ls = "deposits_into mint ts" and ?d = "ts_denomination st" and ?root = "pool_root (join_bytes P2) (deposits_into mint ts)"
  let ?call = "\<lambda>p k. note_call relayer mint p ?root (be32 (P2 n k)) recipient ?d"
  from run_pool_log [OF poseidon_hash_is [OF law(2)] run(2,1)] run(3)
  have st: "ts_token_mint st = mint" "ts_relayer_fee_bps st \<le> MAX_RELAYER_FEE_BPS" and ls: "\<forall>x \<in> set ?ls. canonical x"
    "length ?ls \<le> 2 ^ 20" and tree: "pool_tree (join_bytes P2) ?ls st"
    by (simp_all add: pool_log_def MERKLE_TREE_DEPTH_def)
  have fee: "ts_relayer_fee_bps st < 2 ^ 64" using st(2) by (simp add: MAX_RELAYER_FEE_BPS_def)
  from leaf(1) obtain i where i: "i < length ?ls" "?ls ! i = be32 (P3 n s (int ?d))" by (auto simp: in_set_conv_nth)
  have known: "root_is_known st ?root"
  proof -
    have "1 \<le> length ?ls \<and> length ?ls \<le> length ?ls \<and> length ?ls < length ?ls + ROOT_HISTORY_SIZE
        \<and> ?root = pool_root (join_bytes P2) (take (length ?ls) ?ls)"
      using i(1) by (simp add: ROOT_HISTORY_SIZE_def)
    moreover have "?ls \<noteq> []" using i(1) by auto
    ultimately show ?thesis using roots_window [OF tree, of ?root] pool(4) by metis
  qed
  have proofs: "\<exists>p. proof_accepted v st (?call p k)" if "in_field k" for k
    using note_has_proof [OF law(2-4) ls(1) i(1) ls(2) i(2) leaf(2,3) that keys(1,2) pool(3) fee]
    by (simp add: proof_accepted_def note_call_def Let_def)
  obtain p1 p2 where p: "proof_accepted v st (?call p1 k1)" "proof_accepted v st (?call p2 k2)" using proofs index(1,2) by blast
  have c: "wc_mint (?call q k) = mint" "wc_amount (?call q k) = ?d" "wc_root (?call q k) = ?root" "wc_relayer (?call q k) = relayer"
    "wc_recipient (?call q k) = recipient" "wc_nullifier_hash (?call q k) = be32 (P2 n k)" for q k
    by (simp_all add: note_call_def)
  from two_payouts [OF law(1,5) run(1,3) pool(1) st(1) pool(2) st(2), of "?call p1 k1" "?call p2 k2" relayer recipient vta cta rta x y r]
  obtain lg2 where "chain_run v lg0 (ts @ [WithdrawSpl (?call p1 k1) rta vta cta, WithdrawSpl (?call p2 k2) rta vta cta]) lg2"
    "lg_tokens lg2 vta = Some (x\<lparr>ta_amount := ta_amount x - 2 * ?d\<rparr>)"
    using p known index rent accounts funds by (auto simp: c)
  then show ?thesis by (intro exI [of _ p1] exI [of _ p2] exI [of _ lg2]) (simp add: Let_def)
qed

section \<open>The examples\<close>

text \<open>Two arithmetic hashes that never give zero, a machine whose verifier accepts what the circuit does, and a ledger with one
  depositor and a vault that holds one denomination of somebody else.\<close>

definition demo_P2 :: "int \<Rightarrow> int \<Rightarrow> int" where
  "demo_P2 a b = 1 + (a + 2 * b) mod (BN254_R - 1)"

definition demo_P3 :: "int \<Rightarrow> int \<Rightarrow> int \<Rightarrow> int" where
  "demo_P3 a b c = 1 + (a + b + c) mod (BN254_R - 1)"

definition note_vm :: vm where
  "note_vm = demo_vm\<lparr>vm_hash := (\<lambda>a b. if canonical a \<and> canonical b then Some (join_bytes demo_P2 a b) else None),
     vm_groth16 := (\<lambda>a b c inputs. \<exists>w. circuit_accepts demo_P2 demo_P3 (public_of inputs) w)\<rparr>"

definition note_ledger :: ledger where
  "note_ledger = \<lparr>lg_lamports = (\<lambda>k. if k = [20] \<or> k = u64_to_field 2 then 5000 else 0), lg_owner = (\<lambda>k. SYSTEM_ID),
     lg_tokens = [[10] \<mapsto> \<lparr>ta_mint = [5], ta_owner = u64_to_field 2, ta_amount = 5\<rparr>,
                  [11] \<mapsto> \<lparr>ta_mint = [5], ta_owner = [2, 5], ta_amount = 5\<rparr>,
                  [12] \<mapsto> \<lparr>ta_mint = [5], ta_owner = u64_to_field 1, ta_amount = 0\<rparr>],
     lg_pools = (\<lambda>k. None), lg_nullifiers = (\<lambda>h. False)\<rparr>"

definition note_leaf :: bytes where
  "note_leaf = be32 (demo_P3 1 2 5)"

definition note_txs :: "tx list" where
  "note_txs = [Initialize [20] [5] 5 15, DepositSpl (u64_to_field 2) [5] [10] [11] note_leaf]"

lemma demo_hash_range: "in_field (demo_P2 a b)" "in_field (demo_P3 a b c)" "demo_P2 a b \<noteq> 0"
proof -
  have "0 \<le> x mod (BN254_R - 1)" "x mod (BN254_R - 1) < BN254_R - 1" for x
    by (simp_all add: BN254_R_def)
  then show "in_field (demo_P2 a b)" "in_field (demo_P3 a b c)" "demo_P2 a b \<noteq> 0"
    unfolding demo_P2_def demo_P3_def in_field_def by (smt (verit))+
qed

lemma note_vm_laws: "token_law note_vm" "same_poseidon note_vm demo_P2" "groth16_complete note_vm demo_P2 demo_P3" "lamport_law note_vm"
proof -
  show "lamport_law note_vm" using demo_vm_laws(5) by (simp add: lamport_law_def note_vm_def)
  show "token_law note_vm" using demo_vm_laws(4) by (simp add: token_law_def note_vm_def)
  show "same_poseidon note_vm demo_P2" by (simp add: same_poseidon_def demo_hash_range note_vm_def)
  show "groth16_complete note_vm demo_P2 demo_P3"
    unfolding groth16_complete_def
    by (intro allI impI exI [of _ "replicate 256 0"]) (auto simp: verify_withdraw_proof_def require_def note_vm_def)
qed

text \<open>After the deposit the vault holds two denominations.\<close>

lemma note_run:
  obtains lg st where "chain_run note_vm note_ledger note_txs lg" "lg_pools lg [5] = Some st" "\<not> ts_paused st" "ts_denomination st = 5"
    "lg_tokens lg = [[10] \<mapsto> \<lparr>ta_mint = [5], ta_owner = u64_to_field 2, ta_amount = 0\<rparr>,
                  [11] \<mapsto> \<lparr>ta_mint = [5], ta_owner = [2, 5], ta_amount = 10\<rparr>,
                  [12] \<mapsto> \<lparr>ta_mint = [5], ta_owner = u64_to_field 1, ta_amount = 0\<rparr>]"
    "lg_nullifiers lg = (\<lambda>h. False)" "lg_lamports lg (u64_to_field 2) = 5000"
proof -
  note h = poseidon_hash_is [OF note_vm_laws(2)]
  obtain st where st: "init_tree (vm_hash note_vm) [20] [5] (vm_bump note_vm) 5 15 = Inr st" "pool_tree (join_bytes demo_P2) [] st"
    "ts_denomination st = 5" "ts_token_mint st = [5]" "\<not> ts_paused st"
    using init_tree_pool [OF h, of 15 "[20]" "[5]" "vm_bump note_vm" 5] by (auto simp: MAX_RELAYER_FEE_BPS_def)
  have vm: "vm_vault note_vm m = 2 # m" for m by (simp add: note_vm_def demo_vm_def)
  have "length (u64_to_field 2) = 32" by (simp add: u64_to_field_def)
  then have other: "u64_to_field 2 \<noteq> [20]" "u64_to_field 2 \<noteq> [4, 5]" by (auto simp del: length_replicate)
  then have "\<exists>l. pay_rent note_vm (lg_lamports note_ledger) [20] (vm_state note_vm [5]) (8 + TREE_STATE_SIZE) = Some l
      \<and> l (u64_to_field 2) = 5000"
    by (simp add: pay_rent_def note_vm_def demo_vm_def note_ledger_def Let_def TREE_STATE_SIZE_def MERKLE_TREE_DEPTH_def ROOT_HISTORY_SIZE_def)
  then obtain l where l: "pay_rent note_vm (lg_lamports note_ledger) [20] (vm_state note_vm [5]) (8 + TREE_STATE_SIZE) = Some l"
    "l (u64_to_field 2) = 5000" by blast
  obtain lg1 ev1 where 1: "process note_vm note_ledger (Initialize [20] [5] 5 15) = Inr (lg1, ev1)"
    "lg_pools lg1 [5] = Some st" "lg_tokens lg1 = lg_tokens note_ledger" "lg_nullifiers lg1 = (\<lambda>h. False)"
    "lg_lamports lg1 (u64_to_field 2) = 5000"
    using st(1) l by (simp add: process_def initialize_def init_account_def require_def some_or_def) (simp add: note_ledger_def)
  have ok: "\<forall>x \<in> set []. canonical x" "canonical note_leaf" "length ([] :: bytes list) < 2 ^ MERKLE_TREE_DEPTH"
    by (simp_all add: note_leaf_def canonical_be32 demo_hash_range)
  obtain r st' where ins: "tree_insert (vm_hash note_vm) st note_leaf = Inr (r, st')" "ts_denomination st' = 5" "\<not> ts_paused st'"
    using tree_insert_exact [OF h st(2) ok] st(3,5) by metis
  have tok: "vm_token_transfer note_vm = vm_token_transfer demo_vm" by (simp add: note_vm_def)
  have "\<exists>lg2 ev2. process note_vm lg1 (DepositSpl (u64_to_field 2) [5] [10] [11] note_leaf) = Inr (lg2, ev2)
     \<and> lg_pools lg2 [5] = Some st' \<and> lg_nullifiers lg2 = (\<lambda>h. False) \<and> lg_lamports lg2 (u64_to_field 2) = 5000
     \<and> lg_tokens lg2 = [[10] \<mapsto> \<lparr>ta_mint = [5], ta_owner = u64_to_field 2, ta_amount = 0\<rparr>,
                  [11] \<mapsto> \<lparr>ta_mint = [5], ta_owner = [2, 5], ta_amount = 10\<rparr>,
                  [12] \<mapsto> \<lparr>ta_mint = [5], ta_owner = u64_to_field 1, ta_amount = 0\<rparr>]"
    using 1(2-5) st ins
    by (simp add: process_def deposit_spl_def open_pool_def token_account_of_def move_tokens_def handle_deposit_def put_pool_def
        require_def some_or_def vm tok)
      (simp add: demo_vm_def note_ledger_def fun_upd_twist)
  then obtain lg2 ev2 where 2: "process note_vm lg1 (DepositSpl (u64_to_field 2) [5] [10] [11] note_leaf) = Inr (lg2, ev2)"
     "lg_pools lg2 [5] = Some st'" "lg_nullifiers lg2 = (\<lambda>h. False)" "lg_lamports lg2 (u64_to_field 2) = 5000"
     "lg_tokens lg2 = [[10] \<mapsto> \<lparr>ta_mint = [5], ta_owner = u64_to_field 2, ta_amount = 0\<rparr>,
                  [11] \<mapsto> \<lparr>ta_mint = [5], ta_owner = [2, 5], ta_amount = 10\<rparr>,
                  [12] \<mapsto> \<lparr>ta_mint = [5], ta_owner = u64_to_field 1, ta_amount = 0\<rparr>]" by blast
  have "chain_run note_vm note_ledger note_txs lg2"
    using chain_run.call [OF chain_run.call [OF chain_run.start 1(1)] 2(1)] by (simp add: note_txs_def)
  with 2 ins show ?thesis by (intro that)
qed

theorem one_deposit_pays_twice_witness:
  "\<exists>c1 c2 lg2. chain_run note_vm note_ledger (note_txs @ [WithdrawSpl c1 [10] [11] [12], WithdrawSpl c2 [10] [11] [12]]) lg2
     \<and> deposits_into [5] note_txs = [note_leaf] \<and> ta_amount (the (lg_tokens lg2 [11])) = 0"
proof -
  obtain lg st where run: "chain_run note_vm note_ledger note_txs lg" "lg_pools lg [5] = Some st" "\<not> ts_paused st" "ts_denomination st = 5"
    and tok: "lg_tokens lg = [[10] \<mapsto> \<lparr>ta_mint = [5], ta_owner = u64_to_field 2, ta_amount = 0\<rparr>,
                  [11] \<mapsto> \<lparr>ta_mint = [5], ta_owner = [2, 5], ta_amount = 10\<rparr>,
                  [12] \<mapsto> \<lparr>ta_mint = [5], ta_owner = u64_to_field 1, ta_amount = 0\<rparr>]"
    and nul: "lg_nullifiers lg = (\<lambda>h. False)" and sol: "lg_lamports lg (u64_to_field 2) = 5000" by (rule note_run)
  have dep: "deposits_into [5] note_txs = [note_leaf]" by (simp add: deposits_into_def map_filter_def note_txs_def)
  have P3: "\<forall>a b c. in_field (demo_P3 a b c)" and none: "lg_pools note_ledger [5] = None"
    by (simp_all add: demo_hash_range note_ledger_def)
  have root: "pool_root (join_bytes demo_P2) [note_leaf] \<noteq> zero32"
  proof -
    have d: "MERKLE_TREE_DEPTH = Suc 19" by (simp add: MERKLE_TREE_DEPTH_def)
    have "pool_root (join_bytes demo_P2) [note_leaf] = join_bytes demo_P2
        (pnode (join_bytes demo_P2) [note_leaf] 19 (2 * 0)) (pnode (join_bytes demo_P2) [note_leaf] 19 (2 * 0 + 1))"
      unfolding pool_root_def d by (rule pnode.simps(2))
    then have "field_of (pool_root (join_bytes demo_P2) [note_leaf]) \<noteq> 0"
      by (simp add: join_bytes_def field_of_be32 demo_hash_range)
    moreover have "field_of zero32 = 0" by (simp add: field_of_def zero32_def be_nat_def del: demo_keys)
    ultimately show ?thesis by metis
  qed
  have k: "in_field 0" "in_field 1" "in_field 2" by (simp_all add: in_field_def BN254_R_def)
  have "field_of (be32 (demo_P2 1 0)) \<noteq> field_of (be32 (demo_P2 1 1))"
    unfolding field_of_be32 [OF demo_hash_range(1)] by (simp add: demo_P2_def BN254_R_def)
  then have ne: "be32 (demo_P2 1 0) \<noteq> be32 (demo_P2 1 1)" by metis
  have leaf: "be32 (demo_P3 1 2 (int (ts_denomination st))) \<in> set (deposits_into [5] note_txs)"
    by (simp add: dep note_leaf_def run(4))
  have keys: "canonical (u64_to_field 1)" "canonical (u64_to_field 2)" by (simp_all add: u64_field)
  have accounts: "token_account_of lg [11] [5] (vm_vault note_vm [5]) = Inr \<lparr>ta_mint = [5], ta_owner = [2, 5], ta_amount = 10\<rparr>"
    "token_account_of lg [12] [5] (u64_to_field 1) = Inr \<lparr>ta_mint = [5], ta_owner = u64_to_field 1, ta_amount = 0\<rparr>"
    "token_account_of lg [10] [5] (u64_to_field 2) = Inr \<lparr>ta_mint = [5], ta_owner = u64_to_field 2, ta_amount = 0\<rparr>"
    by (simp_all add: token_account_of_Inr tok) (simp add: note_vm_def demo_vm_def)
  have nz: "pool_root (join_bytes demo_P2) (deposits_into [5] note_txs) \<noteq> zero32" using root by (simp add: dep)
  have "length (u64_to_field 2) = 32" by (simp add: u64_to_field_def)
  then have away: "u64_to_field 2 \<noteq> vm_nullifier note_vm (be32 k)" for k
    by (auto simp: note_vm_def demo_vm_def dest: arg_cong [of _ _ length])
  have rent: "2 * vm_rent note_vm (8 + NULLIFIER_SIZE) \<le> lg_lamports lg (u64_to_field 2)" "lg_lamports lg (u64_to_field 2) < 2 ^ 64"
    by (simp_all add: sol NULLIFIER_SIZE_def) (simp add: note_vm_def demo_vm_def)
  from one_deposit_pays_twice [OF note_vm_laws(1,2) P3 note_vm_laws(3,4) run(1) none run(2,3) _ _ nz leaf k(2,3) k(1,2) ne _ _ keys away away rent _ accounts]
  have "\<exists>p1 p2 lg2. let root_bytes = pool_root (join_bytes demo_P2) (deposits_into [5] note_txs);
            call = (\<lambda>p k. WithdrawSpl (note_call (u64_to_field 2) [5] p root_bytes (be32 (demo_P2 1 k)) (u64_to_field 1)
              (ts_denomination st)) [10] [11] [12])
          in chain_run note_vm note_ledger (note_txs @ [call p1 0, call p2 1]) lg2
           \<and> lg_tokens lg2 [11] = Some (\<lparr>ta_mint = [5], ta_owner = [2, 5], ta_amount = 10\<rparr>
                \<lparr>ta_amount := ta_amount \<lparr>ta_mint = [5], ta_owner = [2, 5], ta_amount = 10\<rparr> - 2 * ts_denomination st\<rparr>)"
    by (simp add: run(4) nul note_vm_def)
  then show ?thesis unfolding Let_def
    by (elim exE conjE) (intro exI conjI, assumption, rule dep, simp add: run(4))
qed

text \<open>A service over the same hashes, and a request for the leaf at position 0 of a tree that is zero elsewhere.\<close>

definition note_zk :: "unit zk_service" where
  "note_zk = new_zk_service default_settings
     \<lparr>backend = ''poseidon_hash'', lib = (\<lambda>_ xs. if length xs = 2 then demo_P2 (xs ! 0) (xs ! 1) else demo_P3 (xs ! 0) (xs ! 1) (xs ! 2))\<rparr>
     demo_tools None None None (Some True)"

definition note_input :: proof_input where
  "note_input = \<lparr>zp_nullifier = 1, zp_secret = 2, zp_amount = 5, zp_leaf_index = 0, zp_merkle_path = replicate 20 0,
     zp_is_left = replicate 20 1, zp_recipient = u64_to_field 1, zp_relayer = u64_to_field 2, zp_fee_bps = 15\<rparr>"

lemma note_poseidon: "poseidon (zk_hasher note_zk) [a, b] = demo_P2 a b" "poseidon (zk_hasher note_zk) [a, b, c] = demo_P3 a b c"
  using demo_hash_range(1) [of a b] demo_hash_range(2) [of a b c]
  by (simp_all add: poseidon_def note_zk_def new_zk_service_def in_field_def)

lemma note_generated: "\<exists>r. generate_withdraw_proof note_zk note_input () = (Inr r, ())"
proof -
  let ?h = "zk_hasher note_zk" and ?c = "zk_commitment (zk_hasher note_zk) 1 2 5"
  let ?steps = "zip (replicate 20 0) (replicate 20 1)"
  have p: "0 \<le> poseidon ?h xs" for xs using poseidon_range by blast
  have "list_all in_field (map fst ?steps)" by (simp add: list_all_iff in_field_def BN254_R_def)
  moreover have "in_field ?c" using poseidon_range by (simp add: in_field_def zk_commitment_def)
  ultimately have w: "0 \<le> walk_path ?h ?c ?steps"
    using service_walk [of ?h demo_P2 ?c ?steps] note_poseidon(1) by (simp add: in_field_def)
  have f: "zp_nullifier note_input = 1" "zp_secret note_input = 2" "zp_amount note_input = 5" "zp_leaf_index note_input = 0"
    "zp_merkle_path note_input = replicate 20 0" "zp_is_left note_input = replicate 20 1" by (simp_all add: note_input_def)
  have hx: "\<exists>t. hex32 v = Inr t" if "0 \<le> v" for v using that by (simp add: hex32_def)
  have hs: "\<exists>ts. hex_all vs = Inr ts" if "\<forall>v \<in> set vs. 0 \<le> v" for vs
    using that by (induction vs) (auto simp: hex32_def)
  have "\<forall>v \<in> set (public_input_vector ?h note_input (walk_path ?h ?c ?steps)). 0 \<le> v"
    using p w bytes_to_field_range by (auto simp: public_input_vector_def note_input_def zk_nullifier_hash_def)
  then obtain ts where ts: "hex_all (public_input_vector ?h note_input (walk_path ?h ?c ?steps)) = Inr ts" using hs by blast
  obtain s1 s2 s3 where "hex32 ?c = Inr s1" "hex32 (zk_nullifier_hash ?h 1 0) = Inr s2" "hex32 (walk_path ?h ?c ?steps) = Inr s3"
    using hx p w unfolding zk_commitment_def zk_nullifier_hash_def by meson
  moreover have "zk_stub_mode note_zk" by (simp add: note_zk_def new_zk_service_def)
  ultimately show ?thesis using ts
    by (simp add: generate_withdraw_proof_def merkle_root_from_path_def produce_proof_bytes_def f) (simp add: andthen_def)
qed

theorem generated_inputs_satisfy_circuit_witness:
  "\<exists>r inputs. generate_withdraw_proof note_zk note_input () = (Inr r, ()) \<and> zr_public_inputs_hex r = map (\<lambda>b. ''0x'' @ to_hex b) inputs
     \<and> circuit_accepts demo_P2 demo_P3 (public_of inputs) \<lparr>cw_nullifier = 1, cw_secret = 2, cw_leaf_index = 0,
          cw_merkle_path = replicate 20 0, cw_is_left = replicate 20 1\<rparr>"
proof -
  obtain r where r: "generate_withdraw_proof note_zk note_input () = (Inr r, ())" using note_generated by blast
  have f: "zp_nullifier note_input = 1" "zp_secret note_input = 2" "zp_amount note_input = 5" "zp_leaf_index note_input = 0"
    "zp_merkle_path note_input = replicate 20 0" "zp_is_left note_input = replicate 20 1" "zp_fee_bps note_input = 15"
    by (simp_all add: note_input_def)
  have typed: "list_all in_field [zp_nullifier note_input, zp_secret note_input, zp_amount note_input, zp_leaf_index note_input, zp_fee_bps note_input]"
    "list_all in_field (zp_merkle_path note_input)" "length (zp_merkle_path note_input) = 20"
    "list_all (\<lambda>b. b = 0 \<or> b = 1) (zp_is_left note_input)" "length (zp_is_left note_input) = 20"
    by (simp_all add: f in_field_def BN254_R_def list_all_iff)
  from generated_inputs_satisfy_circuit [OF r _ _ typed, of demo_P2 demo_P3] r show ?thesis
    by (auto simp: note_poseidon f)
qed

text \<open>In the tree with this one leaf the nodes above the leaf differ from all others of their level.\<close>

abbreviation note_tree :: "nat \<Rightarrow> nat \<Rightarrow> int" where
  "note_tree \<equiv> tree_value demo_P2 [note_leaf]"

lemma note_tree_joins: "joins demo_P2 note_tree"
  by (rule tree_joins [OF note_vm_laws(2)])

lemma note_tree_empty: "0 < k \<Longrightarrow> note_tree l k = note_tree l 1"
proof -
  assume "0 < k"
  then have "length [note_leaf] \<le> k * 2 ^ l" "length [note_leaf] \<le> 1 * 2 ^ l" by (simp_all add: Suc_leI)
  from this [THEN pnode_beyond] show ?thesis by (simp add: tree_value_def)
qed

lemma note_tree_apart: "(note_tree l 0 - note_tree l 1) mod (BN254_R - 1) = 9"
proof (induction l)
  case 0
  have "demo_P3 1 2 5 = 9" by (simp add: demo_P3_def BN254_R_def)
  then have "note_tree 0 0 = 9" "note_tree 0 1 = 0"
    by (simp_all add: tree_value_def note_leaf_def field_of_be32 in_field_def BN254_R_def)
      (simp add: field_of_def zero32_def be_nat_def del: demo_keys)
  then show ?case by (simp add: BN254_R_def)
next
  case (Suc l)
  let ?M = "BN254_R - 1" and ?a = "note_tree l 0" and ?z = "note_tree l 1"
  have "note_tree (Suc l) 0 = demo_P2 (note_tree l (2 * 0)) (note_tree l (2 * 0 + 1))"
    "note_tree (Suc l) 1 = demo_P2 (note_tree l (2 * 1)) (note_tree l (2 * 1 + 1))"
    using note_tree_joins unfolding joins_def by blast+
  then have "note_tree (Suc l) 0 = demo_P2 ?a ?z" "note_tree (Suc l) 1 = demo_P2 (note_tree l 2) (note_tree l 3)" by simp_all
  then have "note_tree (Suc l) 0 - note_tree (Suc l) 1 = (?a + 2 * ?z) mod ?M - (?z + 2 * ?z) mod ?M"
    using note_tree_empty [of 2 l] note_tree_empty [of 3 l] by (simp add: demo_P2_def)
  then have "(note_tree (Suc l) 0 - note_tree (Suc l) 1) mod ?M = ((?a + 2 * ?z) - (?z + 2 * ?z)) mod ?M"
    by (simp only: mod_diff_eq)
  also have "(?a + 2 * ?z) - (?z + 2 * ?z) = ?a - ?z" by simp
  finally show ?case using Suc.IH by simp
qed

theorem proof_shows_membership_witness:
  "\<exists>p w. circuit_accepts demo_P2 demo_P3 p w \<and> position (cw_is_left w) = 0
     \<and> demo_P3 (cw_nullifier w) (cw_secret w) (cp_amount p) = field_of note_leaf \<and> cw_leaf_index w = 77"
proof -
  let ?sibs = "tree_siblings note_tree 0 20" and ?sides = "tree_sides 0 20"
  let ?w = "\<lparr>cw_nullifier = 1, cw_secret = 2, cw_leaf_index = 77, cw_merkle_path = ?sibs, cw_is_left = ?sides\<rparr>"
  let ?p = "\<lparr>cp_root = note_tree 20 0, cp_nullifier_hash = demo_P2 1 77, cp_recipient = 3, cp_amount = 5, cp_relayer = 4, cp_fee_bps = 15\<rparr>"
  have can: "\<forall>x \<in> set [note_leaf]. canonical x" by (simp add: note_leaf_def canonical_be32 demo_hash_range)
  have leaf: "note_tree 0 0 = demo_P3 1 2 5" by (simp add: tree_value_def note_leaf_def field_of_be32 demo_hash_range)
  have walk: "circuit_walk demo_P2 (demo_P3 1 2 5) (zip (tree_siblings note_tree 0 n) (tree_sides 0 n)) = note_tree n 0" for n
    using walk_to_root [OF note_tree_joins, of 0 n] by (simp add: leaf)
  have nums: "in_field 1" "in_field 2" "in_field 77" "in_field 3" "in_field 4" "in_field 5" "in_field 15"
    by (simp_all add: in_field_def BN254_R_def)
  have acc: "circuit_accepts demo_P2 demo_P3 ?p ?w"
    using walk [of 20] nums tree_value_in [OF note_vm_laws(2) can] demo_hash_range
    by (auto simp: circuit_accepts_def circuit_main_def circuit_typed_def TREE_DEPTH_def tree_siblings_def tree_sides_def list_all_iff Let_def)
  have pre: "take j (zip ?sibs ?sides) = zip (tree_siblings note_tree 0 j) (tree_sides 0 j)" if "j \<le> 20" for j
    using that by (simp add: tree_siblings_def tree_sides_def take_zip take_map)
  have pair: "walk_pair demo_P2 (demo_P3 1 2 5) (zip ?sibs ?sides) j = (note_tree j 0, note_tree j 1)" if "j < 20" for j
    using that pre [of j] walk [of j] by (simp add: walk_pair_def Let_def) (simp add: tree_siblings_def tree_sides_def)
  have "no_collision demo_P2 note_tree (demo_P3 1 2 5) (zip ?sibs ?sides)"
    unfolding no_collision_def
  proof (intro allI impI)
    fix j k
    assume "j < length (zip ?sibs ?sides)"
      and h: "case_prod demo_P2 (walk_pair demo_P2 (demo_P3 1 2 5) (zip ?sibs ?sides) j) = note_tree (Suc j) k"
    then have j: "j < 20" by (simp add: tree_siblings_def tree_sides_def)
    have "note_tree (Suc j) 0 = demo_P2 (note_tree j (2 * 0)) (note_tree j (2 * 0 + 1))"
      using note_tree_joins unfolding joins_def by blast
    with h have "note_tree (Suc j) 0 = note_tree (Suc j) k" unfolding pair [OF j] by simp
    then have "k = 0"
      using note_tree_apart [of "Suc j"] note_tree_empty [of k "Suc j"] by (cases "k = 0") auto
    then show "walk_pair demo_P2 (demo_P3 1 2 5) (zip ?sibs ?sides) j = (note_tree j (2 * k), note_tree j (2 * k + 1))"
      using pair [OF j] by simp
  qed
  moreover have "cp_root ?p = field_of (pool_root (join_bytes demo_P2) [note_leaf])"
    by (simp add: pool_root_def tree_value_def MERKLE_TREE_DEPTH_def)
  moreover have "position ?sides = 0" by (simp add: tree_sides_def upt_rec numeral_eq_Suc)
  ultimately show ?thesis
    using proof_shows_membership [OF acc, of "[note_leaf]"] acc by (intro exI [of _ ?p] exI [of _ ?w]) simp
qed

end
