(* ===== verification/Deposit.thy ===== *)
theory Deposit
  imports Indexer
begin

text \<open>
  \<open>DepositService\<close> of \<open>backend/app/services/deposit_service.py\<close>: a deposit is
  registered in stages, each one call of the driver or of the node, and several
  requests may be between stages at the same time. The stages are definitions of
  their own; \<open>register\<close> runs them in order and the relation \<open>race_step\<close> interleaves
  them. \<open>uid\<close> and \<open>now\<close> are what the default factories and the clock return.
\<close>

record 'w deposit_service =
  dp_rpc :: "'w rpc"
  dp_db :: "'w mongo"
  dp_merkle :: "'w indexer"
  dp_pydantic :: pydantic
  dp_fmt :: "json \<Rightarrow> string"

section \<open>Registration\<close>

definition commitment_from_doc :: "pydantic \<Rightarrow> string \<Rightarrow> int \<Rightarrow> doc \<Rightarrow> commitment res" where
  "commitment_from_doc py uid now d =
     rbind (parse_date_field py ''created_at'' (strip_id d)) (commitment_of_doc py uid now)"

definition commitment_conflict :: "string \<Rightarrow> string \<Rightarrow> string \<Rightarrow> exn" where
  "commitment_conflict commitment existing submitted =
     Domain ConflictError ''Commitment already recorded with a different transaction signature.''
       [(''commitment'', JStr commitment), (''existing_tx_signature'', JStr existing),
        (''submitted_tx_signature'', JStr submitted)]"

text \<open>A stored commitment answers the request when the signatures agree.\<close>

definition same_signature :: "commitment_create \<Rightarrow> commitment \<Rightarrow> commitment res" where
  "same_signature p c =
     (if c_tx_signature c = cc_tx_signature p then Inr c
      else Inl (commitment_conflict (cc_commitment p) (c_tx_signature c) (cc_tx_signature p)))"

definition deposit_lookup ::
  "'w deposit_service \<Rightarrow> string \<Rightarrow> int \<Rightarrow> commitment_create \<Rightarrow> (commitment option, 'w) io" where
  "deposit_lookup s uid now p =
     andthen (find_one (dp_db s) ''commitments'' (field_is ''commitment'' (JStr (cc_commitment p)))) (\<lambda>existing.
       case existing of
         None \<Rightarrow> ret None
       | Some d \<Rightarrow> pure (rbind (commitment_from_doc (dp_pydantic s) uid now d) (\<lambda>c.
                          rbind (same_signature p c) (\<lambda>c'. Inr (Some c')))))"

definition deposit_confirm :: "'w deposit_service \<Rightarrow> commitment_create \<Rightarrow> (unit, 'w) io" where
  "deposit_confirm s p =
     andthen (transaction (dp_rpc s) (cc_tx_signature p)) (\<lambda>tx.
       case tx of
         None \<Rightarrow> throw (Domain NotFoundError ''Transaction not yet confirmed on chain.''
                   [(''tx_signature'', JStr (cc_tx_signature p))])
       | Some t \<Rightarrow>
           (case jget t ''meta'' of
              JObj meta \<Rightarrow>
                if jget meta ''err'' \<noteq> JNull
                then throw (Domain ValidationError ''Deposit transaction failed on chain.''
                       [(''tx_signature'', JStr (cc_tx_signature p)), (''err'', jget meta ''err'')])
                else ret ()
            | _ \<Rightarrow> ret ()))"

definition new_commitment :: "string \<Rightarrow> int \<Rightarrow> commitment_create \<Rightarrow> nat \<Rightarrow> commitment" where
  "new_commitment uid now p merkle_index =
     \<lparr>c_id = uid, c_commitment = cc_commitment p, c_merkle_index = int merkle_index,
      c_amount = cc_amount p, c_token = cc_token p, c_tx_signature = cc_tx_signature p,
      c_creator_wallet = cc_creator_wallet p, c_created_at = now\<rparr>"

text \<open>The model class refuses a negative amount.\<close>

definition build_commitment :: "string \<Rightarrow> int \<Rightarrow> commitment_create \<Rightarrow> nat \<Rightarrow> commitment res" where
  "build_commitment uid now p merkle_index =
     (if commitment_ok (new_commitment uid now p merkle_index)
      then Inr (new_commitment uid now p merkle_index) else Inl validation_error)"

definition deposit_insert ::
  "'w deposit_service \<Rightarrow> string \<Rightarrow> int \<Rightarrow> commitment_create \<Rightarrow> nat \<Rightarrow> (commitment, 'w) io" where
  "deposit_insert s uid now p merkle_index =
     andthen (pure (build_commitment uid now p merkle_index)) (\<lambda>record.
     andthen (insert_one (dp_db s) ''commitments'' (commitment_to_doc record)) (\<lambda>_. ret record))"

text \<open>After a \<open>DuplicateKeyError\<close>: without a stored row the exception is raised again.\<close>

definition deposit_refetch ::
  "'w deposit_service \<Rightarrow> string \<Rightarrow> int \<Rightarrow> commitment_create \<Rightarrow> exn \<Rightarrow> (commitment, 'w) io" where
  "deposit_refetch s uid now p exc =
     andthen (find_one (dp_db s) ''commitments'' (field_is ''commitment'' (JStr (cc_commitment p)))) (\<lambda>cached.
       case cached of
         None \<Rightarrow> throw exc
       | Some d \<Rightarrow> pure (rbind (commitment_from_doc (dp_pydantic s) uid now d) (same_signature p)))"

text \<open>The sync after the insert: its failures are logged and dropped.\<close>

definition deposit_kick :: "'w deposit_service \<Rightarrow> int \<Rightarrow> (unit, 'w) io" where
  "deposit_kick s now =
     catching (andthen (sync_now (dp_merkle s) now) (\<lambda>_. ret ())) (\<lambda>_. ret ())"

definition deposit_store ::
  "'w deposit_service \<Rightarrow> string \<Rightarrow> int \<Rightarrow> commitment_create \<Rightarrow> nat \<Rightarrow> (commitment, 'w) io" where
  "deposit_store s uid now p merkle_index w =
     (case deposit_insert s uid now p merkle_index w of
        (Inr record, w1) \<Rightarrow> andthen (deposit_kick s now) (\<lambda>_. ret record) w1
      | (Inl exc, w1) \<Rightarrow>
          if is_duplicate exc then deposit_refetch s uid now p exc w1 else (Inl exc, w1))"

definition register ::
  "'w deposit_service \<Rightarrow> string \<Rightarrow> int \<Rightarrow> commitment_create \<Rightarrow> (commitment, 'w) io" where
  "register s uid now p =
     andthen (deposit_lookup s uid now p) (\<lambda>existing.
       case existing of
         Some c \<Rightarrow> ret c
       | None \<Rightarrow>
           andthen (deposit_confirm s p) (\<lambda>_.
           andthen (count_documents (dp_db s) ''commitments'') (\<lambda>merkle_index.
           deposit_store s uid now p merkle_index)))"

section \<open>The views\<close>

definition shorten :: "string \<Rightarrow> string" where
  "shorten commitment =
     (let clean = removeprefix commitment ''0x'' in
      if length clean \<le> 4 + 4 then clean else take 4 clean @ ''...'' @ last_n 4 clean)"

definition py_int_res :: "json \<Rightarrow> int res" where
  "py_int_res v =
     (case py_int v of
        Some i \<Rightarrow> Inr i
      | None \<Rightarrow> Inl (case v of JStr s \<Rightarrow> Other ''ValueError'' ''invalid literal for int()''
                           | _ \<Rightarrow> Other ''TypeError'' ''int() argument must be a string or a number''))"

record recent_deposit =
  rd_commitment_hash_short :: string
  rd_amount :: int
  rd_token :: json
  rd_merkle_index :: int
  rd_indexed_at :: json

definition recent_deposit_of :: "(json \<Rightarrow> string) \<Rightarrow> doc \<Rightarrow> recent_deposit res" where
  "recent_deposit_of fmt d0 =
     (let d = strip_id d0 in
      rbind (py_int_res (jget_or d ''amount'' (JInt 0))) (\<lambda>amount.
      rbind (py_int_res (jget_or d ''merkle_index'' (JInt 0))) (\<lambda>merkle_index.
      Inr \<lparr>rd_commitment_hash_short = shorten (py_str fmt (jget_or d ''commitment'' (JStr []))),
           rd_amount = amount, rd_token = jget_or d ''token'' (JStr []),
           rd_merkle_index = merkle_index, rd_indexed_at = jget d ''created_at''\<rparr>)))"

fun recent_deposits :: "(json \<Rightarrow> string) \<Rightarrow> doc list \<Rightarrow> recent_deposit list res" where
  "recent_deposits fmt [] = Inr []"
| "recent_deposits fmt (d # ds) =
     rbind (recent_deposit_of fmt d) (\<lambda>r. rbind (recent_deposits fmt ds) (\<lambda>rs. Inr (r # rs)))"

definition list_recent_deposits :: "'w deposit_service \<Rightarrow> nat \<Rightarrow> (recent_deposit list, 'w) io" where
  "list_recent_deposits s limit =
     andthen (find_many (dp_db s) ''commitments'' (\<lambda>_. True) ''created_at'' (-1) limit) (\<lambda>ds.
     pure (recent_deposits (dp_fmt s) ds))"

record anonymity_set =
  an_count :: nat
  an_current_root :: string
  an_updated_at :: int
  an_source :: root_source

definition get_anonymity_set :: "'w deposit_service \<Rightarrow> int \<Rightarrow> (anonymity_set, 'w) io" where
  "get_anonymity_set s now =
     andthen (count_documents (dp_db s) ''commitments'') (\<lambda>n.
     andthen (get_current_root (dp_merkle s) now) (\<lambda>current.
     ret (case current of
            Some r \<Rightarrow> \<lparr>an_count = n, an_current_root = m_root r, an_updated_at = m_indexed_at r,
                       an_source = m_source r\<rparr>
          | None \<Rightarrow> \<lparr>an_count = n, an_current_root = replicate 64 CHR ''0'', an_updated_at = now,
                     an_source = Fallback\<rparr>)))"

section \<open>Interleaving\<close>

text \<open>
  Where a request is: between two awaits of \<open>register\<close>, or finished with its outcome.
  \<open>Counted n\<close> has read the count \<open>n\<close>, \<open>Clashed e\<close> has caught the duplicate \<open>e\<close>.
\<close>

datatype stage =
    Begun
  | Looked
  | Confirmed
  | Counted nat
  | Clashed exn
  | Finished "commitment res"

text \<open>One stage of the request \<open>p\<close>, as a function of the stage before it.\<close>

definition stage_step ::
  "'w deposit_service \<Rightarrow> string \<Rightarrow> int \<Rightarrow> commitment_create \<Rightarrow> stage \<Rightarrow> 'w \<Rightarrow> (stage \<times> 'w) option" where
  "stage_step s uid now p st w =
     (case st of
        Begun \<Rightarrow> Some (case deposit_lookup s uid now p w of
           (Inl e, w1) \<Rightarrow> (Finished (Inl e), w1)
         | (Inr (Some c), w1) \<Rightarrow> (Finished (Inr c), w1)
         | (Inr None, w1) \<Rightarrow> (Looked, w1))
      | Looked \<Rightarrow> Some (case deposit_confirm s p w of
           (Inl e, w1) \<Rightarrow> (Finished (Inl e), w1) | (Inr _, w1) \<Rightarrow> (Confirmed, w1))
      | Confirmed \<Rightarrow> Some (case count_documents (dp_db s) ''commitments'' w of
           (Inl e, w1) \<Rightarrow> (Finished (Inl e), w1) | (Inr n, w1) \<Rightarrow> (Counted n, w1))
      | Counted n \<Rightarrow> Some (case deposit_insert s uid now p n w of
           (Inl e, w1) \<Rightarrow> (if is_duplicate e then Clashed e else Finished (Inl e), w1)
         | (Inr c, w1) \<Rightarrow> (Finished (Inr c), w1))
      | Clashed e \<Rightarrow> Some (case deposit_refetch s uid now p e w of (r, w1) \<Rightarrow> (Finished r, w1))
      | Finished r \<Rightarrow> None)"

text \<open>
  Requests are numbered; \<open>reqs i\<close> is request \<open>i\<close> with its id and time. The sync that
  follows an insert does not touch the commitments and runs at any time.
\<close>

type_synonym requests = "nat \<Rightarrow> string \<times> int \<times> commitment_create"

inductive race_step ::
  "'w deposit_service \<Rightarrow> requests \<Rightarrow> (nat \<Rightarrow> stage) \<times> 'w \<Rightarrow> (nat \<Rightarrow> stage) \<times> 'w \<Rightarrow> bool" for s reqs where
  stage: "reqs i = (uid, now, p) \<Longrightarrow> stage_step s uid now p (pcs i) w = Some (st, w') \<Longrightarrow>
    race_step s reqs (pcs, w) (pcs(i := st), w')"
| kick: "deposit_kick s now w = (r, w') \<Longrightarrow> race_step s reqs (pcs, w) (pcs, w')"

inductive race_reach :: "'w deposit_service \<Rightarrow> requests \<Rightarrow> 'w \<Rightarrow> (nat \<Rightarrow> stage) \<times> 'w \<Rightarrow> bool" for s reqs w0 where
  start: "race_reach s reqs w0 (\<lambda>_. Begun, w0)"
| step: "race_reach s reqs w0 q \<Longrightarrow> race_step s reqs q q' \<Longrightarrow> race_reach s reqs w0 q'"

inductive_cases race_stepE: "race_step s reqs (pcs, w) q"

section \<open>Lemmas\<close>

text \<open>
  A commitments collection this service wrote: the documents of an append-only log whose
  entry at position \<open>n\<close> has Merkle index \<open>n\<close>, each commitment once.
\<close>

definition log_of :: "doc list \<Rightarrow> commitment list \<Rightarrow> bool" where
  "log_of ds cs \<longleftrightarrow>
     ds = map commitment_to_doc cs \<and> map c_merkle_index cs = map int [0..<length cs] \<and>
     distinct (map c_commitment cs) \<and> (\<forall>c \<in> set cs. commitment_ok c)"

definition is_log :: "doc list \<Rightarrow> bool" where
  "is_log ds \<longleftrightarrow> (\<exists>cs. log_of ds cs)"

lemma jget_commitment [simp, model_simps]:
  "jget (commitment_to_doc c) ''commitment'' = JStr (c_commitment c)"
  "jget (commitment_to_doc c) ''merkle_index'' = JInt (c_merkle_index c)"
  "jget (commitment_to_doc c) ''tx_signature'' = JStr (c_tx_signature c)"
  "jget (commitment_to_doc c) ''created_at'' = JDate (c_created_at c)"
  by (simp_all add: commitment_to_doc_def jget_def)

lemma commitment_clash [simp]:
  "clashes ''commitments'' d e \<longleftrightarrow>
     jget d ''commitment'' = jget e ''commitment'' \<or> jget d ''merkle_index'' = jget e ''merkle_index''"
  by (simp add: clashes_def unique_keys_def)

lemma commitment_from_to_doc:
  "pydantic_laws py \<Longrightarrow> commitment_ok c \<Longrightarrow> commitment_from_doc py uid now (commitment_to_doc c) = Inr c"
proof -
  assume "pydantic_laws py" "commitment_ok c"
  moreover have "strip_id (commitment_to_doc c) = commitment_to_doc c"
    by (simp add: strip_id_def del_field_def commitment_to_doc_def)
  ultimately show ?thesis by (simp add: commitment_from_doc_def pydantic_laws.commitment_roundtrip)
qed

lemma new_commitment_fields [simp]:
  "c_commitment (new_commitment uid now p n) = cc_commitment p"
  "c_merkle_index (new_commitment uid now p n) = int n"
  "c_tx_signature (new_commitment uid now p n) = cc_tx_signature p"
  by (simp_all add: new_commitment_def)

text \<open>The unique index on the position forces every insert to the end of the log.\<close>

lemma log_append:
  assumes "log_of ds cs" "n \<le> length ds" "commitment_ok c" "c_merkle_index c = int n"
    and "\<forall>e \<in> set ds. \<not> clashes ''commitments'' (commitment_to_doc c) e"
  shows "n = length ds \<and> log_of (ds @ [commitment_to_doc c]) (cs @ [c])"
proof -
  have len: "length ds = length cs" using assms(1) by (simp add: log_of_def)
  have n: "n = length cs"
  proof (rule ccontr)
    assume "n \<noteq> length cs"
    with assms(2) len have lt: "n < length cs" by simp
    then have "map c_merkle_index cs ! n = int n" using assms(1) by (simp add: log_of_def)
    with lt have "c_merkle_index (cs ! n) = int n" by simp
    moreover have "commitment_to_doc (cs ! n) \<in> set ds" using lt assms(1) by (simp add: log_of_def)
    ultimately show False using assms(4,5) by fastforce
  qed
  have "c_commitment c \<notin> set (map c_commitment cs)"
    using assms(1,5) by (fastforce simp: log_of_def)
  with n assms(1,3,4) len show ?thesis by (simp add: log_of_def)
qed

lemma log_lookup:
  "log_of ds cs \<Longrightarrow> d \<in> set ds \<Longrightarrow> \<exists>c \<in> set cs. d = commitment_to_doc c \<and> commitment_ok c"
  by (auto simp: log_of_def)

text \<open>What the services around a request leave alone.\<close>

definition deposit_env :: "('w \<Rightarrow> string \<Rightarrow> doc list) \<Rightarrow> (json \<Rightarrow> json \<Rightarrow> bool) \<Rightarrow> 'w deposit_service \<Rightarrow> bool" where
  "deposit_env docs le s \<longleftrightarrow>
     mongo (dp_db s) docs le \<and> mongo (ix_db (dp_merkle s)) docs le \<and> pydantic_laws (dp_pydantic s) \<and>
     (\<forall>D sig. keeps (\<lambda>w. docs w ''commitments'' = D) (transaction (dp_rpc s) sig)) \<and>
     (\<forall>D. indexer_keeps (\<lambda>w. docs w ''commitments'' = D) (dp_merkle s))"

lemma deposit_envD:
  assumes "deposit_env docs le s"
  shows "mongo (dp_db s) docs le" "pydantic_laws (dp_pydantic s)"
    "keeps (\<lambda>w. docs w ''commitments'' = D) (transaction (dp_rpc s) sig)"
    "mongo (ix_db (dp_merkle s)) docs le" "indexer_keeps (\<lambda>w. docs w ''commitments'' = D) (dp_merkle s)"
  using assms by (simp_all add: deposit_env_def)

lemma keeps_store_root:
  assumes "mongo (ix_db ix) docs le" "c \<noteq> ''merkle_roots''"
  shows "keeps (\<lambda>w. docs w c = D) (store_root ix now rec)"
proof -
  have "keeps (\<lambda>w. docs w c = D) (insert_one (ix_db ix) ''merkle_roots'' d)" for d
  proof (rule keepsI)
    fix w r w' assume d: "docs w c = D" and i: "insert_one (ix_db ix) ''merkle_roots'' d w = (r, w')"
    show "docs w' c = D"
    proof (cases r)
      case (Inl e)
      from mongo.insert_failed [OF assms(1), OF i [unfolded Inl]] d assms(2) show ?thesis by auto
    next
      case (Inr u)
      from mongo.insert_law [OF assms(1), OF i [unfolded Inr]] d assms(2) show ?thesis by auto
    qed
  qed
  moreover have "keeps (\<lambda>w. docs w c = D) (find_one (ix_db ix) k P)" for k P
    by (rule keepsI) (simp add: mongo.find_one_reads [OF assms(1)])
  ultimately show ?thesis unfolding store_root_def by (intro keeps_rules)
qed

lemma keeps_sync_now:
  assumes "mongo (ix_db ix) docs le" "indexer_keeps (\<lambda>w. docs w c = D) ix" "c \<noteq> ''merkle_roots''"
  shows "keeps (\<lambda>w. docs w c = D) (sync_now ix now)"
proof -
  have "keeps (\<lambda>w. docs w c = D) (record_from_account ix now a)" for a
    unfolding record_from_account_def Let_def
    by (intro keeps_rules keeps_decode_with_idl [OF assms(2)] keeps_store_root [OF assms(1,3)])
  moreover have "keeps (\<lambda>w. docs w c = D) (account_info (ix_rpc ix) p e)" for p e
    using assms(2) by (simp add: indexer_keeps_def)
  ultimately show ?thesis unfolding sync_now_def by (intro keeps_rules)
qed

lemma keeps_kick:
  assumes "deposit_env docs le s"
  shows "keeps (\<lambda>w. docs w ''commitments'' = D) (deposit_kick s now)"
proof -
  have "''commitments'' \<noteq> ''merkle_roots''" by simp
  from keeps_sync_now [OF deposit_envD(4) [OF assms] deposit_envD(5) [OF assms] this] show ?thesis
    unfolding deposit_kick_def by (intro keeps_rules)
qed

lemma keeps_confirm:
  assumes "deposit_env docs le s"
  shows "keeps (\<lambda>w. docs w ''commitments'' = D) (deposit_confirm s p)"
proof (rule keepsI)
  fix w r w' assume "docs w ''commitments'' = D" "deposit_confirm s p w = (r, w')"
  with keepsD [OF deposit_envD(3) [OF assms]] show "docs w' ''commitments'' = D"
    by (fastforce simp: deposit_confirm_def andthen_def split: prod.splits sum.splits option.splits json.splits if_splits)
qed

text \<open>An outcome of a request over a log: the row that answers it, or an error.\<close>

definition answers :: "commitment_create \<Rightarrow> doc list \<Rightarrow> commitment \<Rightarrow> bool" where
  "answers p ds c \<longleftrightarrow> commitment_to_doc c \<in> set ds \<and> c_commitment c = cc_commitment p
     \<and> c_tx_signature c = cc_tx_signature p"

lemma found_answers:
  assumes "deposit_env docs le s" "log_of (docs w ''commitments'') cs"
    and "find_one (dp_db s) ''commitments'' (field_is ''commitment'' (JStr (cc_commitment p))) w = (Inr (Some d), w')"
    and "rbind (commitment_from_doc (dp_pydantic s) uid now d) (same_signature p) = Inr c"
  shows "answers p (docs w ''commitments'') c"
proof -
  from mongo.find_one_law [OF deposit_envD(1) [OF assms(1)], OF assms(3)] have
    d: "d \<in> set (docs w ''commitments'')" "jget d ''commitment'' = JStr (cc_commitment p)"
    by (auto simp: field_is_def)
  from log_lookup [OF assms(2) d(1)] obtain c' where c': "d = commitment_to_doc c'" "commitment_ok c'" by blast
  have "commitment_from_doc (dp_pydantic s) uid now d = Inr c'"
    unfolding c'(1) by (rule commitment_from_to_doc [OF deposit_envD(2) [OF assms(1)] c'(2)])
  with assms(4) d c' show ?thesis by (auto simp: answers_def same_signature_def split: if_splits)
qed

lemma lookup_outcome:
  assumes "deposit_env docs le s" "log_of (docs w ''commitments'') cs"
    and "deposit_lookup s uid now p w = (r, w')"
  shows "docs w' = docs w
    \<and> (\<forall>c. r = Inr (Some c) \<longrightarrow> answers p (docs w ''commitments'') c)
    \<and> (r = Inr None \<longrightarrow> (\<forall>c \<in> set cs. c_commitment c \<noteq> cc_commitment p))"
proof -
  note m = deposit_envD(1) [OF assms(1)]
  let ?q = "find_one (dp_db s) ''commitments'' (field_is ''commitment'' (JStr (cc_commitment p)))"
  obtain o1 w1 where q: "?q w = (o1, w1)" by (rule prod.exhaust)
  have w1: "w' = w1"
    using assms(3) q by (cases o1) (auto simp: deposit_lookup_def andthen_def split: option.splits)
  have 1: "docs w' = docs w" using mongo.find_one_reads [OF m, OF q] w1 by simp
  have 2: "answers p (docs w ''commitments'') c" if h: "r = Inr (Some c)" for c
  proof -
    obtain d where d: "o1 = Inr (Some d)" and e: "rbind (commitment_from_doc (dp_pydantic s) uid now d) (same_signature p) = Inr c"
      using assms(3) q h by (cases o1) (auto simp: deposit_lookup_def andthen_def res_simps split: option.splits)
    show ?thesis by (rule found_answers [OF assms(1,2) q [unfolded d] e])
  qed
  have 3: "\<forall>c \<in> set cs. c_commitment c \<noteq> cc_commitment p" if h: "r = Inr None"
  proof -
    have "o1 = Inr None"
      using assms(3) q h by (cases o1) (auto simp: deposit_lookup_def andthen_def res_simps split: option.splits)
    with mongo.find_one_law [OF m, of _ _ w None w1] q have
      "\<forall>d \<in> set (docs w ''commitments''). jget d ''commitment'' \<noteq> JStr (cc_commitment p)"
      by (fastforce simp: field_is_def)
    with assms(2) show ?thesis by (auto simp: log_of_def)
  qed
  from 1 2 3 show ?thesis by blast
qed

lemma refetch_outcome:
  assumes "deposit_env docs le s" "log_of (docs w ''commitments'') cs"
    and "deposit_refetch s uid now p exc w = (r, w')"
  shows "docs w' = docs w \<and> (\<forall>c. r = Inr c \<longrightarrow> answers p (docs w ''commitments'') c)"
proof -
  note m = deposit_envD(1) [OF assms(1)]
  let ?q = "find_one (dp_db s) ''commitments'' (field_is ''commitment'' (JStr (cc_commitment p)))"
  obtain o1 w1 where q: "?q w = (o1, w1)" by (rule prod.exhaust)
  have w1: "w' = w1"
    using assms(3) q by (cases o1) (auto simp: deposit_refetch_def andthen_def split: option.splits)
  have 1: "docs w' = docs w" using mongo.find_one_reads [OF m, OF q] w1 by simp
  have 2: "answers p (docs w ''commitments'') c" if h: "r = Inr c" for c
  proof -
    obtain d where d: "o1 = Inr (Some d)" and e: "rbind (commitment_from_doc (dp_pydantic s) uid now d) (same_signature p) = Inr c"
      using assms(3) q h by (cases o1) (auto simp: deposit_refetch_def andthen_def split: option.splits)
    show ?thesis by (rule found_answers [OF assms(1,2) q [unfolded d] e])
  qed
  from 1 2 show ?thesis by blast
qed

lemma insert_outcome:
  assumes "deposit_env docs le s" "log_of (docs w ''commitments'') cs" "n \<le> length cs"
    and "deposit_insert s uid now p n w = (r, w')"
  shows "(docs w' ''commitments'' = docs w ''commitments'' \<and> (\<forall>c. r \<noteq> Inr c))
     \<or> (n = length cs \<and> log_of (docs w' ''commitments'') (cs @ [new_commitment uid now p n])
         \<and> docs w' ''commitments'' = docs w ''commitments'' @ [commitment_to_doc (new_commitment uid now p n)]
         \<and> (\<forall>e. r = Inl e \<longrightarrow> \<not> is_duplicate e)
         \<and> (\<forall>c. r = Inr c \<longrightarrow> c = new_commitment uid now p n))"
proof -
  note m = deposit_envD(1) [OF assms(1)]
  let ?c = "new_commitment uid now p n"
  have len: "length (docs w ''commitments'') = length cs" using assms(2) by (simp add: log_of_def)
  show ?thesis
  proof (cases "commitment_ok ?c")
    case False
    with assms(4) show ?thesis by (auto simp: deposit_insert_def build_commitment_def)
  next
    case ok: True
    obtain o1 w1 where i: "insert_one (dp_db s) ''commitments'' (commitment_to_doc ?c) w = (o1, w1)" by (rule prod.exhaust)
    have r: "w' = w1" "r = (case o1 of Inl e \<Rightarrow> Inl e | Inr _ \<Rightarrow> Inr ?c)"
      using assms(4) i ok by (auto simp: deposit_insert_def build_commitment_def andthen_def split: sum.splits)
    have app: "n = length cs \<and> log_of (docs w ''commitments'' @ [commitment_to_doc ?c]) (cs @ [?c])"
      if "\<forall>e \<in> set (docs w ''commitments''). \<not> clashes ''commitments'' (commitment_to_doc ?c) e"
    proof -
      have "n \<le> length (docs w ''commitments'')" using assms(3) len by simp
      note l = log_append [OF assms(2) this ok new_commitment_fields(2) that]
      show ?thesis using conjunct1 [OF l] conjunct2 [OF l] len by (intro conjI) (simp, assumption)
    qed
    show ?thesis
    proof (cases o1)
      case (Inr u)
      from mongo.insert_law [OF m, OF i [unfolded Inr]] app r Inr show ?thesis by auto
    next
      case (Inl e)
      show ?thesis
      proof (cases "is_duplicate e")
        case True
        from mongo.insert_duplicate [OF m, OF i [unfolded Inl] True] r Inl show ?thesis by auto
      next
        case False
        from mongo.insert_failed [OF m, OF i [unfolded Inl]] app r Inl False show ?thesis by auto
      qed
    qed
  qed
qed

text \<open>The invariant of one request over the log.\<close>

definition stage_ok :: "commitment_create \<Rightarrow> doc list \<Rightarrow> stage \<Rightarrow> bool" where
  "stage_ok p ds st \<longleftrightarrow>
     (case st of
        Counted n \<Rightarrow> n \<le> length ds
      | Finished (Inr c) \<Rightarrow> answers p ds c
      | _ \<Rightarrow> True)"

lemma stage_ok_append: "stage_ok p ds st \<Longrightarrow> stage_ok p (ds @ es) st"
  by (auto simp: stage_ok_def answers_def split: stage.splits sum.splits)

lemma stage_step_ok:
  assumes "deposit_env docs le s" "is_log (docs w ''commitments'')"
    and "stage_ok p (docs w ''commitments'') st" "stage_step s uid now p st w = Some (st', w')"
  shows "is_log (docs w' ''commitments'') \<and> stage_ok p (docs w' ''commitments'') st'
     \<and> (\<exists>es. docs w' ''commitments'' = docs w ''commitments'' @ es)"
proof -
  obtain cs where cs: "log_of (docs w ''commitments'') cs" using assms(2) by (auto simp: is_log_def)
  have len: "length (docs w ''commitments'') = length cs" using cs by (simp add: log_of_def)
  note m = deposit_envD(1) [OF assms(1)]
  show ?thesis
  proof (cases st)
    case Begun
    obtain o1 w1 where l: "deposit_lookup s uid now p w = (o1, w1)" by (rule prod.exhaust)
    from lookup_outcome [OF assms(1) cs l] l assms(2,4) Begun show ?thesis
      by (auto simp: stage_step_def stage_ok_def split: sum.splits option.splits)
  next
    case Looked
    obtain o1 w1 where l: "deposit_confirm s p w = (o1, w1)" by (rule prod.exhaust)
    from keepsD [OF keeps_confirm [OF assms(1)] refl l] l assms(2,4) Looked show ?thesis
      by (auto simp: stage_step_def stage_ok_def split: sum.splits)
  next
    case Confirmed
    obtain o1 w1 where l: "count_documents (dp_db s) ''commitments'' w = (o1, w1)" by (rule prod.exhaust)
    show ?thesis
    proof (cases o1)
      case (Inl e)
      with mongo.count_reads [OF m, OF l] l assms(2,4) Confirmed show ?thesis
        by (auto simp: stage_step_def stage_ok_def)
    next
      case (Inr n)
      from mongo.count_law [OF m, OF l [unfolded Inr]] l Inr assms(2,4) Confirmed show ?thesis
        by (auto simp: stage_step_def stage_ok_def)
    qed
  next
    case (Counted n)
    obtain o1 w1 where l: "deposit_insert s uid now p n w = (o1, w1)" by (rule prod.exhaust)
    have "n \<le> length cs" using assms(3) Counted len by (simp add: stage_ok_def)
    from insert_outcome [OF assms(1) cs this l] l assms(2,4) Counted cs show ?thesis
      by (cases o1) (auto simp: stage_step_def stage_ok_def is_log_def answers_def)
  next
    case (Clashed e)
    obtain o1 w1 where l: "deposit_refetch s uid now p e w = (o1, w1)" by (rule prod.exhaust)
    from refetch_outcome [OF assms(1) cs l] l assms(2,4) Clashed show ?thesis
      by (auto simp: stage_step_def stage_ok_def split: sum.splits)
  next
    case (Finished r)
    with assms(4) show ?thesis by (simp add: stage_step_def)
  qed
qed

definition race_inv ::
  "('w \<Rightarrow> string \<Rightarrow> doc list) \<Rightarrow> requests \<Rightarrow> (nat \<Rightarrow> stage) \<times> 'w \<Rightarrow> bool" where
  "race_inv docs reqs q \<longleftrightarrow>
     is_log (docs (snd q) ''commitments'') \<and>
     (\<forall>i. stage_ok (snd (snd (reqs i))) (docs (snd q) ''commitments'') (fst q i))"

lemma race_step_inv:
  assumes "deposit_env docs le s" "race_inv docs reqs q" "race_step s reqs q q'"
  shows "race_inv docs reqs q' \<and> (\<exists>es. docs (snd q') ''commitments'' = docs (snd q) ''commitments'' @ es)"
  using assms(3,2)
proof (induction rule: race_step.induct)
  case (stage i uid now p pcs w st w')
  then have "is_log (docs w ''commitments'')" "stage_ok p (docs w ''commitments'') (pcs i)"
    by (auto simp: race_inv_def dest: spec [of _ i])
  from stage_step_ok [OF assms(1) this stage(2)] obtain es where
    1: "is_log (docs w' ''commitments'')" "stage_ok p (docs w' ''commitments'') st"
       "docs w' ''commitments'' = docs w ''commitments'' @ es" by blast
  have "stage_ok (snd (snd (reqs j))) (docs w' ''commitments'') ((pcs(i := st)) j)" for j
    using 1(2) stage stage_ok_append [of _ _ "pcs j" es] by (cases "j = i") (auto simp: race_inv_def 1(3))
  with 1 show ?case by (simp add: race_inv_def)
next
  case (kick now w r w' pcs)
  from keepsD [OF keeps_kick [OF assms(1)] refl kick(1)] kick(2) show ?case by (simp add: race_inv_def)
qed

lemma race_reach_inv:
  assumes "deposit_env docs le s" "is_log (docs w0 ''commitments'')" "race_reach s reqs w0 q"
  shows "race_inv docs reqs q \<and> (\<exists>es. docs (snd q) ''commitments'' = docs w0 ''commitments'' @ es)"
  using assms(3)
proof (induction rule: race_reach.induct)
  case start
  with assms(2) show ?case by (simp add: race_inv_def stage_ok_def)
next
  case (step q q')
  then show ?case using race_step_inv [OF assms(1)] by (metis append_assoc)
qed

text \<open>The abstract log: a commitment that is recorded stays, a new one goes to the end.\<close>

definition log_register :: "commitment \<Rightarrow> commitment list \<Rightarrow> commitment list" where
  "log_register c cs = (if c_commitment c \<in> c_commitment ` set cs then cs else cs @ [c])"

definition confirmed_tx :: "dict \<Rightarrow> bool" where
  "confirmed_tx t \<longleftrightarrow> (\<forall>meta. jget t ''meta'' = JObj meta \<longrightarrow> jget meta ''err'' = JNull)"

lemma confirm_Inr:
  assumes "deposit_confirm s p w = (Inr u, w')"
  obtains t where "transaction (dp_rpc s) (cc_tx_signature p) w = (Inr (Some t), w')" "confirmed_tx t"
proof -
  from assms obtain o1 w1 where t: "transaction (dp_rpc s) (cc_tx_signature p) w = (Inr o1, w1)"
    by (auto simp: deposit_confirm_def elim!: andthen_InrE)
  obtain t' where "o1 = Some t'" using assms t by (cases o1) (auto simp: deposit_confirm_def andthen_def)
  with assms t that show ?thesis
    by (auto simp: deposit_confirm_def andthen_def confirmed_tx_def split: json.splits if_splits)
qed

lemma register_cases:
  assumes "register s uid now p w = (Inr c, w')"
  obtains "deposit_lookup s uid now p w = (Inr (Some c), w')"
  | w1 w2 n w3 where "deposit_lookup s uid now p w = (Inr None, w1)" "deposit_confirm s p w1 = (Inr (), w2)"
      "count_documents (dp_db s) ''commitments'' w2 = (Inr n, w3)" "deposit_store s uid now p n w3 = (Inr c, w')"
  using assms by (auto simp: register_def elim!: andthen_InrE split: option.splits)

lemma store_cases:
  assumes "deposit_store s uid now p n w = (Inr c, w')"
  obtains w1 u where "deposit_insert s uid now p n w = (Inr c, w1)" "deposit_kick s now w1 = (Inr u, w')"
  | e w1 where "deposit_insert s uid now p n w = (Inl e, w1)" "is_duplicate e"
      "deposit_refetch s uid now p e w1 = (Inr c, w')"
  using assms by (auto simp: deposit_store_def elim!: andthen_InrE split: prod.splits sum.splits if_splits)

lemma answers_member: "answers p ds c \<Longrightarrow> log_of ds cs \<Longrightarrow> \<exists>c' \<in> set cs. c_commitment c' = cc_commitment p"
proof -
  assume a: "answers p ds c" "log_of ds cs"
  then obtain c' where c': "c' \<in> set cs" "commitment_to_doc c = commitment_to_doc c'"
    by (auto simp: answers_def log_of_def)
  from c'(2) have "jget (commitment_to_doc c) ''commitment'' = jget (commitment_to_doc c') ''commitment''" by simp
  with a(1) have "c_commitment c' = cc_commitment p" by (simp add: answers_def)
  with c'(1) show ?thesis by blast
qed

section \<open>A service on a store of lists\<close>

definition demo_deposits :: "store deposit_service" where
  "demo_deposits = \<lparr>dp_rpc = (ix_rpc demo_indexer)\<lparr>transaction := (\<lambda>x. ret (Some [(''meta'', JObj [(''err'', JNull)])]))\<rparr>,
     dp_db = list_store, dp_merkle = demo_indexer, dp_pydantic = strict_pydantic, dp_fmt = (\<lambda>j. [])\<rparr>"

lemma demo_deposits_simps [simp]:
  "dp_db demo_deposits = list_store" "dp_pydantic demo_deposits = strict_pydantic"
  "dp_merkle demo_deposits = demo_indexer"
  "transaction (dp_rpc demo_deposits) x = ret (Some [(''meta'', JObj [(''err'', JNull)])])"
  by (simp_all add: demo_deposits_def)

lemma demo_deposit_env: "deposit_env (\<lambda>s. s) json_le demo_deposits"
proof -
  have "indexer_keeps I demo_indexer" for I :: "store \<Rightarrow> bool"
    by (simp add: indexer_keeps_def demo_indexer_def keeps_ret)
  moreover have "ix_db demo_indexer = list_store" by (simp add: demo_indexer_def)
  ultimately show ?thesis
    using lists.mongo_axioms strict.pydantic_laws_axioms by (simp add: deposit_env_def keeps_ret)
qed

lemma demo_lookup:
  "\<forall>d \<in> set (w ''commitments''). jget d ''commitment'' \<noteq> JStr (cc_commitment p) \<Longrightarrow>
   deposit_lookup demo_deposits uid now p w = (Inr None, w)"
  by (simp add: deposit_lookup_def andthen_def list_store_def field_is_def find_None_iff_all [THEN iffD2])

lemma demo_confirm: "deposit_confirm demo_deposits p w = (Inr (), w)"
  by (simp add: deposit_confirm_def jget_def)

lemma demo_count: "count_documents list_store c w = (Inr (length (w c)), w)"
  by (simp add: list_store_def)

lemma demo_insert:
  "0 \<le> cc_amount p \<Longrightarrow> deposit_insert demo_deposits uid now p n w =
     (let c = new_commitment uid now p n in
      if \<exists>e \<in> set (w ''commitments''). clashes ''commitments'' (commitment_to_doc c) e
      then (Inl (Other ''DuplicateKeyError'' ''commitments''), w)
      else (Inr c, w(''commitments'' := w ''commitments'' @ [commitment_to_doc c])))"
  by (simp add: deposit_insert_def build_commitment_def commitment_ok_def new_commitment_def andthen_def
      list_store_def ls_insert_def Let_def)

lemma demo_refetch:
  "\<forall>d \<in> set (w ''commitments''). jget d ''commitment'' \<noteq> JStr (cc_commitment p) \<Longrightarrow>
   deposit_refetch demo_deposits uid now p e w = (Inl e, w)"
  by (simp add: deposit_refetch_def andthen_def list_store_def field_is_def find_None_iff_all [THEN iffD2])

definition two_requests :: "commitment_create \<Rightarrow> commitment_create \<Rightarrow> requests" where
  "two_requests p q = (\<lambda>i. ([], 0, if i = 0 then p else q))"

definition demo_deposit :: "string \<Rightarrow> string \<Rightarrow> commitment_create" where
  "demo_deposit c sig = \<lparr>cc_commitment = c, cc_amount = 5, cc_token = ''SOL'', cc_tx_signature = sig,
     cc_creator_wallet = None\<rparr>"

lemma race_stage:
  "race_reach s reqs w0 (pcs, w) \<Longrightarrow> reqs i = (uid, now, p) \<Longrightarrow>
   stage_step s uid now p (pcs i) w = Some (st, w') \<Longrightarrow> race_reach s reqs w0 (pcs(i := st), w')"
  by (rule race_reach.step [OF _ race_step.stage])

lemma race_two:
  assumes "race_reach s (two_requests p q) w0 (pcs, w)"
    and "stage_step s [] 0 p (pcs 0) w = Some (st, w1)" and "stage_step s [] 0 q (pcs 1) w1 = Some (st', w2)"
  shows "race_reach s (two_requests p q) w0 (pcs(0 := st, 1 := st'), w2)"
proof -
  have rq: "two_requests p q 0 = ([], 0, p)" "two_requests p q 1 = ([], 0, q)" by (simp_all add: two_requests_def)
  have 1: "race_reach s (two_requests p q) w0 (pcs(0 := st), w1)"
    by (rule race_stage [where i = 0, OF assms(1) rq(1) assms(2)])
  have "stage_step s [] 0 q ((pcs(0 := st)) 1) w1 = Some (st', w2)" using assms(3) by simp
  then show ?thesis by (rule race_stage [where i = 1, OF 1 rq(2)])
qed

section \<open>Properties\<close>

text \<open>C8. Registration is an append to a log. Over a collection this service wrote, a registration that succeeds
  acts as the abstract log does: a recorded commitment is answered with the stored row and the same
  signature, and nothing changes; a new one becomes the last entry, its Merkle index the number
  of entries before it, and only after the node returned the transaction without an error.\<close>

theorem register_refines_log:
  assumes "deposit_env docs le s" and "log_of (docs w ''commitments'') cs"
    and "register s uid now p w = (Inr c, w')"
  shows "answers p (docs w' ''commitments'') c
     \<and> log_of (docs w' ''commitments'') (log_register (new_commitment uid now p (length cs)) cs)
     \<and> (cc_commitment p \<notin> c_commitment ` set cs \<longrightarrow> c = new_commitment uid now p (length cs) \<and>
          (\<exists>t w1 w2. transaction (dp_rpc s) (cc_tx_signature p) w1 = (Inr (Some t), w2) \<and> confirmed_tx t))"
  using assms(3)
proof (cases rule: register_cases)
  case 1
  from lookup_outcome [OF assms(1,2) 1] answers_member assms(2) show ?thesis
    by (force simp: log_register_def)
next
  case (2 w1 w2 n w3)
  note m = deposit_envD(1) [OF assms(1)]
  from lookup_outcome [OF assms(1,2) 2(1)] have d1: "docs w1 = docs w"
    and fresh: "cc_commitment p \<notin> c_commitment ` set cs" by auto
  from keepsD [OF keeps_confirm [OF assms(1)] refl 2(2)] d1 have d2: "docs w2 ''commitments'' = docs w ''commitments''" by simp
  from mongo.count_law [OF m, OF 2(3)] d2 assms(2) have
    d3: "docs w3 ''commitments'' = docs w ''commitments''" "n = length cs" by (auto simp: log_of_def)
  have l3: "log_of (docs w3 ''commitments'') cs" using assms(2) d3 by simp
  from 2(2) obtain t where t: "transaction (dp_rpc s) (cc_tx_signature p) w1 = (Inr (Some t), w2)" "confirmed_tx t"
    by (rule confirm_Inr)
  from 2(4) show ?thesis
  proof (cases rule: store_cases)
    case (1 w4 u)
    from insert_outcome [OF assms(1) l3 _ 1(1)] d3 have
      i: "log_of (docs w4 ''commitments'') (cs @ [new_commitment uid now p n])" "c = new_commitment uid now p n"
         "docs w4 ''commitments'' = docs w3 ''commitments'' @ [commitment_to_doc c]" by auto
    from keepsD [OF keeps_kick [OF assms(1)] refl 1(2)] i fresh d3 t show ?thesis
      by (auto simp: log_register_def answers_def)
  next
    case (2 e w4)
    from insert_outcome [OF assms(1) l3 _ 2(1)] 2(2) d3 have d4: "docs w4 ''commitments'' = docs w3 ''commitments''" by auto
    then have l4: "log_of (docs w4 ''commitments'') cs" using l3 by simp
    from refetch_outcome [OF assms(1) l4 2(3)] answers_member [OF _ l4] fresh show ?thesis by force
  qed
qed

theorem register_refines_log_witness:
  "\<exists>c w'. register demo_deposits [] 0 (demo_deposit ''aa'' ''s1'') (\<lambda>_. []) = (Inr c, w')
     \<and> log_of (w' ''commitments'') [new_commitment [] 0 (demo_deposit ''aa'' ''s1'') 0]"
proof -
  let ?p = "demo_deposit ''aa'' ''s1''"
  have "0 \<le> cc_amount ?p" by (simp add: demo_deposit_def)
  from demo_insert [OF this, of "[]" 0 0 "\<lambda>_. []"]
  have i: "deposit_insert demo_deposits [] 0 ?p 0 (\<lambda>_. []) = (Inr (new_commitment [] 0 ?p 0),
      (\<lambda>_. [])(''commitments'' := [commitment_to_doc (new_commitment [] 0 ?p 0)]))" by (simp add: Let_def)
  have k: "deposit_kick demo_deposits 0 w = (Inr (), w)" for w
    by (simp add: deposit_kick_def sync_now_def catching_def demo_indexer_def default_settings_def)
  have "\<exists>c w'. register demo_deposits [] 0 ?p (\<lambda>_. []) = (Inr c, w')"
    by (simp add: register_def andthen_def demo_lookup demo_confirm demo_count deposit_store_def i k)
  then obtain c w' where r: "register demo_deposits [] 0 ?p (\<lambda>_. []) = (Inr c, w')" by blast
  have "log_of ((\<lambda>_. []) ''commitments'') []" by (simp add: log_of_def)
  from register_refines_log [where docs = "\<lambda>s. s", OF demo_deposit_env this r] r show ?thesis
    by (auto simp: log_register_def)
qed

text \<open>Two requests that read the same count: the first is stored, the insertion of the second clashes.\<close>

lemma race_to_clash:
  assumes "0 \<le> cc_amount p" and "0 \<le> cc_amount q"
  shows "race_reach demo_deposits (two_requests p q) (\<lambda>_. [])
     ((\<lambda>_. Begun)(0 := Finished (Inr (new_commitment [] 0 p 0)), 1 := Clashed (Other ''DuplicateKeyError'' ''commitments'')),
      (\<lambda>_. [])(''commitments'' := [commitment_to_doc (new_commitment [] 0 p 0)]))"
proof -
  let ?reqs = "two_requests p q" and ?s = demo_deposits
  let ?w = "(\<lambda>_. [])(''commitments'' := [commitment_to_doc (new_commitment [] 0 p 0)])"
  let ?e = "Other ''DuplicateKeyError'' ''commitments''"
  note st = stage_step_def demo_lookup demo_confirm demo_count demo_insert [OF assms(1)] demo_insert [OF assms(2)]
  let ?pcs = "\<lambda>a b. (\<lambda>_. Begun)(0 := a, 1 := b)"
  from race_two [where s = ?s and p = p and q = q and st = Looked and ?w1.0 = "\<lambda>_. []" and st' = Looked
      and ?w2.0 = "\<lambda>_. []", OF race_reach.start]
  have "race_reach ?s ?reqs (\<lambda>_. []) (?pcs Looked Looked, \<lambda>_. [])" by (simp add: st)
  from race_two [OF this, of Confirmed "\<lambda>_. []" Confirmed "\<lambda>_. []"]
  have "race_reach ?s ?reqs (\<lambda>_. []) (?pcs Confirmed Confirmed, \<lambda>_. [])"
    by (simp add: st fun_upd_twist)
  from race_two [OF this, of "Counted 0" "\<lambda>_. []" "Counted 0" "\<lambda>_. []"]
  have "race_reach ?s ?reqs (\<lambda>_. []) (?pcs (Counted 0) (Counted 0), \<lambda>_. [])"
    by (simp add: st fun_upd_twist)
  from race_two [OF this, of "Finished (Inr (new_commitment [] 0 p 0))" ?w "Clashed ?e" ?w]
  show ?thesis by (simp add: st fun_upd_twist Let_def is_duplicate_def)
qed

text \<open>C7. Concurrent registrations keep the log. However the stages of any number of requests interleave, with
  syncs in between, the collection stays a log that only grows: its Merkle indices are exactly 0 up
  to the number of entries, in order, and no commitment is recorded twice. Every request that
  succeeded is answered by a stored row with its commitment and its signature, so two requests
  with one commitment and different signatures never both succeed.\<close>

theorem deposit_race_keeps_log:
  assumes "deposit_env docs le s" and "is_log (docs w0 ''commitments'')"
    and "race_reach s reqs w0 (pcs, w)"
  shows "\<exists>cs. docs w ''commitments'' = map commitment_to_doc cs
       \<and> map c_merkle_index cs = map int [0..<length cs] \<and> distinct (map c_commitment cs)
       \<and> prefix (docs w0 ''commitments'') (docs w ''commitments'')
       \<and> (\<forall>i c. pcs i = Finished (Inr c) \<longrightarrow> answers (snd (snd (reqs i))) (docs w ''commitments'') c)
       \<and> (\<forall>i j c d. pcs i = Finished (Inr c) \<longrightarrow> pcs j = Finished (Inr d) \<longrightarrow>
            cc_commitment (snd (snd (reqs i))) = cc_commitment (snd (snd (reqs j))) \<longrightarrow>
            cc_tx_signature (snd (snd (reqs i))) = cc_tx_signature (snd (snd (reqs j))))"
proof -
  from race_reach_inv [where docs = docs, OF assms] obtain es where inv: "race_inv docs reqs (pcs, w)"
    and pre: "docs w ''commitments'' = docs w0 ''commitments'' @ es" by auto
  from inv obtain cs where cs: "log_of (docs w ''commitments'') cs" by (auto simp: race_inv_def is_log_def)
  have ans: "answers (snd (snd (reqs i))) (docs w ''commitments'') c" if h: "pcs i = Finished (Inr c)" for i c
    using inv h by (auto simp: race_inv_def stage_ok_def dest: spec [of _ i])
  have same: "cc_tx_signature (snd (snd (reqs i))) = cc_tx_signature (snd (snd (reqs j)))"
    if h: "pcs i = Finished (Inr c)" "pcs j = Finished (Inr d)"
      "cc_commitment (snd (snd (reqs i))) = cc_commitment (snd (snd (reqs j)))" for i j c d
  proof -
    from ans [OF h(1)] ans [OF h(2)] cs obtain c1 d1 where
      1: "c1 \<in> set cs" "commitment_to_doc c = commitment_to_doc c1" and
      2: "d1 \<in> set cs" "commitment_to_doc d = commitment_to_doc d1"
      by (auto simp: answers_def log_of_def)
    have f: "c_commitment c1 = c_commitment c" "c_tx_signature c1 = c_tx_signature c"
      "c_commitment d1 = c_commitment d" "c_tx_signature d1 = c_tx_signature d"
      using jget_commitment(1,3) [of c] jget_commitment(1,3) [of c1] 1(2)
        jget_commitment(1,3) [of d] jget_commitment(1,3) [of d1] 2(2) by simp_all
    then have "c_commitment c1 = c_commitment d1"
      using ans [OF h(1)] ans [OF h(2)] h(3) by (simp add: answers_def)
    then have "c1 = d1" using cs 1(1) 2(1) by (auto simp: log_of_def distinct_map inj_on_def)
    with f ans [OF h(1)] ans [OF h(2)] show ?thesis by (simp add: answers_def)
  qed
  have parts: "docs w ''commitments'' = map commitment_to_doc cs"
    "map c_merkle_index cs = map int [0..<length cs]" "distinct (map c_commitment cs)"
    using cs by (simp_all add: log_of_def)
  have "prefix (docs w0 ''commitments'') (docs w ''commitments'')" by (simp add: pre)
  with parts show ?thesis
    by (intro exI [of _ cs] conjI allI impI) (assumption | erule ans | erule (2) same)+
qed

theorem deposit_race_keeps_log_witness:
  "\<exists>pcs w e. race_reach demo_deposits (two_requests (demo_deposit ''aa'' ''s1'') (demo_deposit ''aa'' ''s2'')) (\<lambda>_. []) (pcs, w)
     \<and> pcs 0 = Finished (Inr (new_commitment [] 0 (demo_deposit ''aa'' ''s1'') 0)) \<and> pcs 1 = Clashed e
     \<and> length (w ''commitments'') = 1
     \<and> answers (demo_deposit ''aa'' ''s1'') (w ''commitments'') (new_commitment [] 0 (demo_deposit ''aa'' ''s1'') 0)"
proof -
  let ?p = "demo_deposit ''aa'' ''s1''" and ?q = "demo_deposit ''aa'' ''s2''"
  have "0 \<le> cc_amount ?p" "0 \<le> cc_amount ?q" by (simp_all add: demo_deposit_def)
  note run = race_to_clash [OF this]
  have "is_log ((\<lambda>_. []) ''commitments'')" by (simp add: is_log_def log_of_def)
  let ?w = "(\<lambda>_. [])(''commitments'' := [commitment_to_doc (new_commitment [] 0 ?p 0)]) :: store"
    and ?pcs = "(\<lambda>_. Begun)(0 := Finished (Inr (new_commitment [] 0 ?p 0)), 1 := Clashed (Other ''DuplicateKeyError'' ''commitments''))"
  from deposit_race_keeps_log [where docs = "\<lambda>s. s", OF demo_deposit_env \<open>is_log ((\<lambda>_. []) ''commitments'')\<close> run]
  have "\<forall>i c. ?pcs i = Finished (Inr c) \<longrightarrow> answers (snd (snd (two_requests ?p ?q i))) (?w ''commitments'') c" by blast
  then have "answers (snd (snd (two_requests ?p ?q 0))) (?w ''commitments'') (new_commitment [] 0 ?p 0)" by simp
  then have "answers ?p (?w ''commitments'') (new_commitment [] 0 ?p 0)" by (simp add: two_requests_def)
  with run show ?thesis by (intro exI conjI) (assumption, simp_all)
qed

text \<open>C34. A deposit can fail for another one's sake. Two confirmed deposits with different commitments can interleave so
  that the second finds its Merkle index taken: the duplicate-key handler looks for its commitment,
  does not find it and raises the driver's error again, which no handler of domain errors
  shapes, although the commitment was never recorded and a retry would succeed.\<close>

theorem race_raises_raw_duplicate:
  assumes "cc_commitment p \<noteq> cc_commitment q" and "0 \<le> cc_amount p" and "0 \<le> cc_amount q"
  shows "\<exists>pcs w e. race_reach demo_deposits (two_requests p q) (\<lambda>_. []) (pcs, w)
       \<and> pcs 0 = Finished (Inr (new_commitment [] 0 p 0)) \<and> pcs 1 = Finished (Inl e)
       \<and> is_duplicate e \<and> bagsvault_handler e = None
       \<and> (\<forall>d \<in> set (w ''commitments''). jget d ''commitment'' \<noteq> JStr (cc_commitment q))"
proof -
  let ?reqs = "two_requests p q" and ?s = demo_deposits
  let ?w = "(\<lambda>_. [])(''commitments'' := [commitment_to_doc (new_commitment [] 0 p 0)])"
  let ?e = "Other ''DuplicateKeyError'' ''commitments''"
  have rq: "?reqs 0 = ([], 0, p)" "?reqs 1 = ([], 0, q)" by (simp_all add: two_requests_def)
  let ?pcs = "\<lambda>a b. (\<lambda>_. Begun)(0 := a, 1 := b)"
  have "race_reach ?s ?reqs (\<lambda>_. []) (?pcs (Finished (Inr (new_commitment [] 0 p 0))) (Clashed ?e), ?w)"
    by (rule race_to_clash [OF assms(2,3)])
  from race_stage [where i = 1, OF this rq(2), where st = "Finished (Inl ?e)" and w' = ?w] assms(1)
  have "race_reach ?s ?reqs (\<lambda>_. []) (?pcs (Finished (Inr (new_commitment [] 0 p 0))) (Finished (Inl ?e)), ?w)"
    by (simp add: stage_step_def demo_refetch)
  moreover have "is_duplicate ?e" "bagsvault_handler ?e = None" by (simp_all add: is_duplicate_def)
  ultimately show ?thesis using assms(1)
    by (intro exI [of _ "?pcs (Finished (Inr (new_commitment [] 0 p 0))) (Finished (Inl ?e))"]
        exI [of _ ?w] exI [of _ ?e] conjI) simp_all
qed

theorem race_raises_raw_duplicate_witness:
  "\<exists>pcs w e. race_reach demo_deposits (two_requests (demo_deposit ''aa'' ''s1'') (demo_deposit ''bb'' ''s2'')) (\<lambda>_. []) (pcs, w)
     \<and> pcs 1 = Finished (Inl e) \<and> bagsvault_handler e = None"
proof -
  have "cc_commitment (demo_deposit ''aa'' ''s1'') \<noteq> cc_commitment (demo_deposit ''bb'' ''s2'')"
    "0 \<le> cc_amount (demo_deposit ''aa'' ''s1'')" "0 \<le> cc_amount (demo_deposit ''bb'' ''s2'')"
    by (simp_all add: demo_deposit_def)
  from race_raises_raw_duplicate [OF this] show ?thesis by blast
qed

end
