(* ===== verification/BuildVk.thy ===== *)
theory BuildVk
  imports ZkProof Deposit
begin

text \<open>
  \<open>backend/scripts/build_vk.py\<close>: from the verifying key of the ceremony to the constants of
  \<open>programs/bagsvault/src/verifier_vk.rs\<close>. Files, the search path and subprocesses are
  parameters; what the commands echo to the terminal is left out. The generated file is
  the string of the bytes of its UTF-8 text.
\<close>

abbreviation nl :: char where "nl \<equiv> CHR 0x0A"
abbreviation dash :: string where "dash \<equiv> [CHR 0xE2, CHR 0x80, CHR 0x94]"
abbreviation bars :: string where "bars \<equiv> [CHR 0xE2, CHR 0x80, CHR 0x96]"

definition bad_parameter :: "string \<Rightarrow> exn" where
  "bad_parameter msg = Other ''BadParameter'' msg"

definition value_error :: "string \<Rightarrow> exn" where
  "value_error msg = Other ''ValueError'' msg"

section \<open>Field elements\<close>

definition NUM_PUBLIC_INPUTS :: nat where
  "NUM_PUBLIC_INPUTS = 5"

definition FIELD_BYTES :: nat where
  "FIELD_BYTES = 32"

text \<open>\<open>int.bit_length\<close> of a number that is not negative.\<close>

fun bit_length :: "nat \<Rightarrow> nat" where
  "bit_length n = (if n = 0 then 0 else Suc (bit_length (n div 2)))"

declare bit_length.simps [simp del]

definition int_to_be32 :: "int \<Rightarrow> bytes res" where
  "int_to_be32 v =
     (if v < 0 then Inl (value_error (''VK field element must be non-negative, got '' @ int_str v))
      else if bit_length (nat v) > 256
      then Inl (value_error (''VK field element does not fit in 32 bytes (bit_length='' @ nat_str (bit_length (nat v)) @ '').''))
      else case to_bytes_be FIELD_BYTES v of
             None \<Rightarrow> Inl (Other ''OverflowError'' ''int too big to convert'') | Some bs \<Rightarrow> Inr bs)"

text \<open>\<open>len(v)\<close> and \<open>v[i]\<close> on decoded JSON: a string has characters, an object no integer keys.\<close>

definition py_len :: "json \<Rightarrow> nat res" where
  "py_len v = (case v of JList xs \<Rightarrow> Inr (length xs) | JStr s \<Rightarrow> Inr (length s) | JObj d \<Rightarrow> Inr (length d)
     | _ \<Rightarrow> Inl (Other ''TypeError'' (''object of type '' @ json_type_name v @ '' has no len()'')))"

definition py_item :: "json \<Rightarrow> nat \<Rightarrow> json res" where
  "py_item v i =
     (case v of
        JList xs \<Rightarrow> if i < length xs then Inr (xs ! i) else Inl (Other ''IndexError'' ''list index out of range'')
      | JStr s \<Rightarrow> if i < length s then Inr (JStr [s ! i]) else Inl (Other ''IndexError'' ''string index out of range'')
      | JObj d \<Rightarrow> Inl (Other ''KeyError'' (nat_str i))
      | _ \<Rightarrow> Inl (Other ''TypeError'' (json_type_name v @ '' object is not subscriptable'')))"

definition int_item :: "json \<Rightarrow> nat \<Rightarrow> int res" where
  "int_item v i = rbind (py_item v i) py_int_res"

definition encode_g1 :: "json \<Rightarrow> bytes res" where
  "encode_g1 coords =
     rbind (py_len coords) (\<lambda>n.
       if n < 2 then Inl (value_error (''G1 point needs at least 2 coordinates, got '' @ nat_str n))
       else rbind (int_item coords 0) (\<lambda>x_int.
            rbind (int_item coords 1) (\<lambda>y_int.
            rbind (int_to_be32 x_int) (\<lambda>x. rbind (int_to_be32 y_int) (\<lambda>y. Inr (x @ y))))))"

definition short_limbs :: exn where
  "short_limbs = value_error ''G2 Fp2 coordinates must each have 2 limbs (c0, c1)''"

definition encode_g2 :: "json \<Rightarrow> bytes res" where
  "encode_g2 coords =
     rbind (py_len coords) (\<lambda>n.
       if n < 2 then Inl (value_error (''G2 point needs at least 2 Fp2 coordinates, got '' @ nat_str n))
       else rbind (py_item coords 0) (\<lambda>x_pair. rbind (py_item coords 1) (\<lambda>y_pair.
            rbind (py_len x_pair) (\<lambda>nx. if nx < 2 then Inl short_limbs else
            rbind (py_len y_pair) (\<lambda>ny. if ny < 2 then Inl short_limbs else
            rbind (int_item x_pair 0) (\<lambda>x_c0. rbind (int_item x_pair 1) (\<lambda>x_c1.
            rbind (int_item y_pair 0) (\<lambda>y_c0. rbind (int_item y_pair 1) (\<lambda>y_c1.
            rbind (int_to_be32 x_c1) (\<lambda>a. rbind (int_to_be32 x_c0) (\<lambda>b.
            rbind (int_to_be32 y_c1) (\<lambda>c. rbind (int_to_be32 y_c0) (\<lambda>d.
              Inr (a @ b @ c @ d))))))))))))))"

section \<open>The key\<close>

record parsed_vk =
  vk_alpha_g1 :: bytes
  vk_beta_g2 :: bytes
  vk_gamma_g2 :: bytes
  vk_delta_g2 :: bytes
  vk_ic :: "bytes list"

definition public_input_count :: "parsed_vk \<Rightarrow> int" where
  "public_input_count p = int (length (vk_ic p)) - 1"

text \<open>The required keys in the order \<open>sorted\<close> gives them.\<close>

definition REQUIRED_KEYS :: "string list" where
  "REQUIRED_KEYS = [''IC'', ''vk_alpha_1'', ''vk_beta_2'', ''vk_delta_2'', ''vk_gamma_2'']"

definition key_item :: "dict \<Rightarrow> string \<Rightarrow> json res" where
  "key_item d k = (if has_key d k then Inr (jget d k) else Inl (Other ''KeyError'' k))"

fun encode_points :: "json list \<Rightarrow> bytes list res" where
  "encode_points [] = Inr []"
| "encode_points (p # ps) = rbind (encode_g1 p) (\<lambda>b. rbind (encode_points ps) (\<lambda>bs. Inr (b # bs)))"

definition encode_ic :: "json \<Rightarrow> bytes list res" where
  "encode_ic ic_raw =
     (case ic_raw of
        JList (p # ps) \<Rightarrow> encode_points (p # ps)
      | _ \<Rightarrow> Inl (bad_parameter (''VK '' @ CHR 0x27 # ''IC'' @ CHR 0x27 # '' must be a non-empty list of G1 points.'')))"

text \<open>\<open>except (TypeError, ValueError)\<close>; nothing raised here is a subclass that matters but itself.\<close>

definition is_malformed :: "exn \<Rightarrow> bool" where
  "is_malformed e = (case e of Other t m \<Rightarrow> t = ''TypeError'' \<or> t = ''ValueError'' | Domain _ _ _ \<Rightarrow> False)"

definition encode_key :: "dict \<Rightarrow> parsed_vk res" where
  "encode_key vk =
     rbind (key_item vk ''vk_alpha_1'') (\<lambda>v. rbind (encode_g1 v) (\<lambda>alpha.
     rbind (key_item vk ''vk_beta_2'') (\<lambda>v. rbind (encode_g2 v) (\<lambda>beta.
     rbind (key_item vk ''vk_gamma_2'') (\<lambda>v. rbind (encode_g2 v) (\<lambda>gamma.
     rbind (key_item vk ''vk_delta_2'') (\<lambda>v. rbind (encode_g2 v) (\<lambda>delta.
     rbind (key_item vk ''IC'') (\<lambda>v. rbind (encode_ic v) (\<lambda>ic.
       Inr \<lparr>vk_alpha_g1 = alpha, vk_beta_g2 = beta, vk_gamma_g2 = gamma, vk_delta_g2 = delta, vk_ic = ic\<rparr>))))))))))"

definition ic_mismatch :: "nat \<Rightarrow> exn" where
  "ic_mismatch n = bad_parameter (''VK has '' @ nat_str n @ '' IC entries but the circuit declares '' @
     ''NUM_PUBLIC_INPUTS='' @ nat_str NUM_PUBLIC_INPUTS @ '' (expected IC length '' @ nat_str (NUM_PUBLIC_INPUTS + 1) @
     ''). The circuit and VK are out of sync '' @ dash @ '' regenerate the VK from the current circuit.'')"

definition parse_vk :: "dict \<Rightarrow> parsed_vk res" where
  "parse_vk vk =
     (case encode_key vk of
        Inl e \<Rightarrow> Inl (if is_malformed e then bad_parameter (''Malformed VK JSON: '' @ exn_str e) else e)
      | Inr p \<Rightarrow>
          let expected_ic_len = NUM_PUBLIC_INPUTS + 1 in
          if length (vk_ic p) \<noteq> expected_ic_len
          then Inl (ic_mismatch (length (vk_ic p)))
          else Inr p)"

section \<open>The Rust file\<close>

text \<open>
  \<open>textwrap.fill\<close> on text with single spaces, with one indent for all lines and without breaking
  words: words go on the line while they fit.
\<close>

fun wrap_lines :: "nat \<Rightarrow> string \<Rightarrow> string list \<Rightarrow> string list" where
  "wrap_lines width cur [] = [cur]"
| "wrap_lines width cur (x # xs) =
     (if length cur + 1 + length x \<le> width then wrap_lines width (cur @ '' '' @ x) xs
      else cur # wrap_lines width x xs)"

definition textwrap_fill :: "nat \<Rightarrow> string \<Rightarrow> string \<Rightarrow> string" where
  "textwrap_fill width indent text =
     (case filter (\<lambda>w. w \<noteq> []) (split_on (CHR '' '') text) of
        [] \<Rightarrow> []
      | w # ws \<Rightarrow> join [nl] (map ((@) indent) (wrap_lines (width - length indent) w ws)))"

definition byte_list :: "bytes \<Rightarrow> string" where
  "byte_list raw = join '', '' (map (\<lambda>b. nat_str (unat b)) raw)"

definition format_byte_array :: "string \<Rightarrow> bytes \<Rightarrow> nat \<Rightarrow> string res" where
  "format_byte_array name raw len =
     (if length raw \<noteq> len
      then Inl (value_error (name @ '': expected '' @ nat_str len @ '' bytes, got '' @ nat_str (length raw)))
      else Inr (''pub const '' @ name @ '': [u8; '' @ nat_str len @ ''] = ['' @ [nl] @
             textwrap_fill 92 ''    '' (byte_list raw) @ [nl] @ ''];''))"

definition ic_row :: "string \<Rightarrow> bytes \<Rightarrow> string res" where
  "ic_row name entry =
     (if length entry \<noteq> 64
      then Inl (value_error (name @ '': IC entry must be 64 bytes, got '' @ nat_str (length entry)))
      else Inr (''    ['' @ [nl] @ textwrap_fill 88 ''        '' (byte_list entry) @ [nl] @ ''    ],''))"

fun all_Inr :: "'a res list \<Rightarrow> 'a list res" where
  "all_Inr [] = Inr []"
| "all_Inr (r # rs) = rbind r (\<lambda>x. rbind (all_Inr rs) (\<lambda>xs. Inr (x # xs)))"

definition format_vk_ic :: "string \<Rightarrow> bytes list \<Rightarrow> string res" where
  "format_vk_ic name ic =
     rbind (all_Inr (map (ic_row name) ic)) (\<lambda>rows.
       Inr (''pub const '' @ name @ '': [[u8; 64]; NUM_PUBLIC_INPUTS + 1] = ['' @ [nl] @ join [nl] rows @ [nl] @ ''];''))"

definition GENERATED_HEADER :: string where
  "GENERATED_HEADER = concat (map (\<lambda>l. l @ [nl])
     [''//! GENERATED '' @ dash @ '' DO NOT EDIT BY HAND.'',
      ''//!'',
      ''//! Run `python backend/scripts/build_vk.py all` after changing the'',
      ''//! circuit (`circuits/bagsvault_withdraw/src/main.nr`) to regenerate'',
      ''//! these constants from a fresh trusted-setup ceremony.'',
      ''//!'',
      ''//! See `circuits/bagsvault_withdraw/README.md` for the operator runbook'',
      ''//! and the toxic-waste warning.'',
      ''//!'',
      ''//! Byte layout (matches `groth16-solana 0.0.3`'' @ [CHR 0x27] @ ''s `Groth16Verifyingkey`):'',
      ''//!   * `vk_alpha_g1`  '' @ dash @ '' BN254 G1 element, 64 bytes (compressed BE: x '' @ bars @ '' y).'',
      ''//!   * `vk_beta_g2`   '' @ dash @ '' BN254 G2 element, 128 bytes. Light Protocol'',
      ''//!     convention: `[c1_x '' @ bars @ '' c0_x '' @ bars @ '' c1_y '' @ bars @ '' c0_y]` (Fp2 limb order swapped'',
      ''//!     vs. snarkjs JSON). The reference parser is'',
      ''//!     `groth16-solana/parse_vk_to_rust.js` '' @ dash @ '' `build_vk.py convert`'',
      ''//!     mirrors that exact transformation.'',
      ''//!   * `vk_gamma_g2`  '' @ dash @ '' same encoding as `vk_beta_g2`.'',
      ''//!   * `vk_delta_g2`  '' @ dash @ '' same encoding as `vk_beta_g2`.'',
      ''//!   * `vk_ic[i]`     '' @ dash @ '' G1 element, 64 bytes; one entry per public'',
      ''//!     input plus one for the constant term, so'',
      ''//!     `VK_IC.len() == NUM_PUBLIC_INPUTS + 1`.''])"

definition render_verifier_vk :: "parsed_vk \<Rightarrow> string res" where
  "render_verifier_vk p =
     rbind (all_Inr
     [Inr GENERATED_HEADER,
      Inr [],
      Inr (''/// Number of public inputs the circuit exposes. Mirrored in''),
      Inr (''/// `verifier.rs` so the Rust unit test there can detect a circuit''),
      Inr (''/// edit that drifts away from the regenerated VK.''),
      Inr (''pub const NUM_PUBLIC_INPUTS: usize = '' @ nat_str NUM_PUBLIC_INPUTS @ '';''),
      Inr [],
      Inr (''/// `vk_alpha_g1` (G1, 64 bytes BE-compressed).''),
      format_byte_array ''VK_ALPHA_G1'' (vk_alpha_g1 p) 64,
      Inr [],
      Inr (''/// `vk_beta_g2` (G2, 128 bytes; see module-level note on Fp2 swap).''),
      format_byte_array ''VK_BETA_G2'' (vk_beta_g2 p) 128,
      Inr [],
      Inr (''/// `vk_gamma_g2` (G2, 128 bytes; see module-level note on Fp2 swap).''),
      format_byte_array ''VK_GAMMA_G2'' (vk_gamma_g2 p) 128,
      Inr [],
      Inr (''/// `vk_delta_g2` (G2, 128 bytes; see module-level note on Fp2 swap).''),
      format_byte_array ''VK_DELTA_G2'' (vk_delta_g2 p) 128,
      Inr [],
      Inr (''/// `vk_ic` table. Length must be `NUM_PUBLIC_INPUTS + 1`; this''),
      Inr (''/// invariant is asserted by a unit test in `verifier.rs`.''),
      format_vk_ic ''VK_IC'' (vk_ic p),
      Inr []]) (\<lambda>parts. Inr (join [nl] parts))"

section \<open>The commands\<close>

text \<open>
  \<open>run_in\<close> is a subprocess in a directory and gives its return code; \<open>make_parent\<close> creates the parent
  directory of a path; \<open>resolve\<close> is \<open>Path.resolve\<close>.
\<close>

record 'w build_env =
  find_binary :: "string \<Rightarrow> (string option, 'w) io"
  run_in :: "string list \<Rightarrow> string \<Rightarrow> (int, 'w) io"
  file_exists :: "string \<Rightarrow> (bool, 'w) io"
  read_file :: "string \<Rightarrow> (string, 'w) io"
  make_parent :: "string \<Rightarrow> (unit, 'w) io"
  write_file :: "string \<Rightarrow> string \<Rightarrow> (unit, 'w) io"
  vk_loads :: "string \<Rightarrow> json res"
  resolve :: "string \<Rightarrow> string"
  default_circuit_dir :: string
  default_vk_path :: string

definition NARGO_INSTALL_HINT :: string where
  "NARGO_INSTALL_HINT = ''nargo not found on PATH. Install Noir + nargo from '' @
     ''https://noir-lang.org/docs/getting_started/installation''"

definition BB_INSTALL_HINT :: string where
  "BB_INSTALL_HINT = ''bb not found on PATH. Install Barretenberg following '' @
     ''https://github.com/AztecProtocol/aztec-packages/tree/master/barretenberg/cpp''"

definition which_or_fail :: "'w build_env \<Rightarrow> string \<Rightarrow> string \<Rightarrow> (string, 'w) io" where
  "which_or_fail env binary hint =
     andthen (find_binary env binary) (\<lambda>found.
       case found of None \<Rightarrow> throw (bad_parameter hint)
       | Some path \<Rightarrow> if path = [] then throw (bad_parameter hint) else ret path)"

definition vk_run :: "'w build_env \<Rightarrow> string list \<Rightarrow> string \<Rightarrow> (unit, 'w) io" where
  "vk_run env cmd cwd =
     andthen (run_in env cmd cwd) (\<lambda>returncode.
       if returncode \<noteq> 0 then throw (Other ''Exit'' (int_str returncode)) else ret ())"

definition resolve_circuit_dir :: "'w build_env \<Rightarrow> string option \<Rightarrow> string" where
  "resolve_circuit_dir env ceremony_dir =
     (case ceremony_dir of Some d \<Rightarrow> resolve env d | None \<Rightarrow> default_circuit_dir env)"

definition load_vk_fields_json :: "'w build_env \<Rightarrow> string \<Rightarrow> (dict, 'w) io" where
  "load_vk_fields_json env path =
     andthen (file_exists env path) (\<lambda>ex.
       if \<not> ex
       then throw (bad_parameter (''VK JSON not found at '' @ path @ ''. Did you run `bb write_vk'' @
              ''` first?''))
       else andthen (read_file env path) (\<lambda>text.
         case vk_loads env text of
           Inl (Other t m) \<Rightarrow>
             if t = ''JSONDecodeError'' then throw (bad_parameter (''VK JSON at '' @ path @ '' is not valid JSON: '' @ m))
             else throw (Other t m)
         | Inl e \<Rightarrow> throw e
         | Inr (JObj vk) \<Rightarrow>
             let missing = filter (\<lambda>k. \<not> has_key vk k) REQUIRED_KEYS in
             if missing \<noteq> []
             then throw (bad_parameter (''VK JSON at '' @ path @ '' is missing required fields: ['' @
                    join '', '' (map (\<lambda>k. CHR 0x27 # k @ [CHR 0x27]) missing) @ '']. Expected snarkjs/bb-style schema with '' @
                    ''vk_alpha_1, vk_beta_2, vk_gamma_2, vk_delta_2, IC.''))
             else ret vk
         | Inr v \<Rightarrow> throw (bad_parameter (''VK JSON at '' @ path @ '' must be a top-level object, got '' @
                      json_type_name v @ ''.''))))"

definition vk_compile :: "'w build_env \<Rightarrow> string option \<Rightarrow> (unit, 'w) io" where
  "vk_compile env ceremony_dir =
     (let circuit_dir = resolve_circuit_dir env ceremony_dir in
      andthen (file_exists env circuit_dir) (\<lambda>ex.
        if \<not> ex then throw (bad_parameter (''Circuit directory does not exist: '' @ circuit_dir))
        else andthen (which_or_fail env ''nargo'' NARGO_INSTALL_HINT) (\<lambda>nargo.
             vk_run env [nargo, ''compile''] circuit_dir)))"

definition vk_setup :: "'w build_env \<Rightarrow> string option \<Rightarrow> (unit, 'w) io" where
  "vk_setup env ceremony_dir =
     (let circuit_dir = resolve_circuit_dir env ceremony_dir;
          target = circuit_dir @ ''/target'';
          bytecode = target @ ''/bagsvault_withdraw.json'' in
      andthen (which_or_fail env ''bb'' BB_INSTALL_HINT) (\<lambda>bb.
      andthen (file_exists env bytecode) (\<lambda>ex.
        if \<not> ex then throw (bad_parameter (''Circuit bytecode missing at '' @ bytecode @ ''. Run `'' @
                               ''compile` first.''))
        else vk_run env [bb, ''write_vk'', ''-b'', bytecode, ''-o'', target @ ''/vk''] circuit_dir)))"

definition vk_convert :: "'w build_env \<Rightarrow> string option \<Rightarrow> string option \<Rightarrow> string option \<Rightarrow> (unit, 'w) io" where
  "vk_convert env ceremony_dir vk_fields_json out =
     (let circuit_dir = resolve_circuit_dir env ceremony_dir;
          json_path = (case vk_fields_json of Some j \<Rightarrow> resolve env j | None \<Rightarrow> circuit_dir @ ''/target/vk_fields.json'');
          out_path = (case out of Some p \<Rightarrow> resolve env p | None \<Rightarrow> default_vk_path env) in
      andthen (load_vk_fields_json env json_path) (\<lambda>vk_json.
      andthen (pure (parse_vk vk_json)) (\<lambda>parsed.
      andthen (pure (render_verifier_vk parsed)) (\<lambda>rendered.
      andthen (make_parent env out_path) (\<lambda>_.
      write_file env out_path rendered)))))"

definition vk_all :: "'w build_env \<Rightarrow> string option \<Rightarrow> string option \<Rightarrow> (unit, 'w) io" where
  "vk_all env ceremony_dir out =
     andthen (vk_compile env ceremony_dir) (\<lambda>_.
     andthen (vk_setup env ceremony_dir) (\<lambda>_.
     vk_convert env ceremony_dir None out))"

section \<open>Reading the file back\<close>

text \<open>The numbers of a text: its maximal runs of digits.\<close>

fun scan_numbers :: "nat option \<Rightarrow> string \<Rightarrow> nat list" where
  "scan_numbers acc [] = (case acc of None \<Rightarrow> [] | Some n \<Rightarrow> [n])"
| "scan_numbers acc (c # s) =
     (if is_digit c
      then scan_numbers (Some (10 * (case acc of None \<Rightarrow> 0 | Some n \<Rightarrow> n) + ((of_char c :: nat) - 48))) s
      else (case acc of None \<Rightarrow> [] | Some n \<Rightarrow> [n]) @ scan_numbers None s)"

text \<open>The data of a rendered file: the numbers on its indented lines.\<close>

definition data_numbers :: "string \<Rightarrow> nat list" where
  "data_numbers text = concat (map (scan_numbers None) (filter (prefix ''    '') (split_on nl text)))"

fun chunks32 :: "nat list \<Rightarrow> nat list list" where
  "chunks32 xs = (if xs = [] then [] else take 32 xs # chunks32 (drop 32 xs))"

declare chunks32.simps [simp del]

text \<open>The 32-byte big-endian numbers of the file, and the coordinates of the key in the order of the on-chain layout.\<close>

definition file_elements :: "string \<Rightarrow> nat list" where
  "file_elements text = map (\<lambda>c. be_nat (map of_nat c)) (chunks32 (data_numbers text))"

definition items :: "json \<Rightarrow> json list" where
  "items v = (case v of JList xs \<Rightarrow> xs | JStr s \<Rightarrow> map (\<lambda>c. JStr [c]) s | _ \<Rightarrow> [])"

definition coordinate :: "json \<Rightarrow> int" where
  "coordinate v = (case py_int v of Some i \<Rightarrow> i | None \<Rightarrow> 0)"

definition g1_elements :: "json \<Rightarrow> int list" where
  "g1_elements v = map coordinate (take 2 (items v))"

definition g2_elements :: "json \<Rightarrow> int list" where
  "g2_elements v = concat (map (\<lambda>limbs. rev (map coordinate (take 2 (items limbs)))) (take 2 (items v)))"

definition key_elements :: "dict \<Rightarrow> int list" where
  "key_elements vk =
     g1_elements (jget vk ''vk_alpha_1'') @ g2_elements (jget vk ''vk_beta_2'') @ g2_elements (jget vk ''vk_gamma_2'') @
     g2_elements (jget vk ''vk_delta_2'') @ concat (map g1_elements (items (jget vk ''IC'')))"

section \<open>Lemmas\<close>

lemma bit_length_le: "bit_length n \<le> k \<longleftrightarrow> n < 2 ^ k"
proof (induction n arbitrary: k rule: bit_length.induct)
  case (1 n)
  show ?case
  proof (cases "n = 0")
    case True
    then show ?thesis by (simp add: bit_length.simps)
  next
    case False
    have "bit_length n = Suc (bit_length (n div 2))" using False by (subst bit_length.simps) simp
    moreover have "(n div 2 < 2 ^ j) = (n < 2 ^ Suc j)" for j by (simp add: div_less_iff_less_mult mult.commute)
    ultimately show ?thesis using 1 [OF False] False by (cases k) simp_all
  qed
qed

text \<open>The range checks of the encoder are those of \<open>to_bytes\<close>, so it never raises \<open>OverflowError\<close>.\<close>

lemma int_to_be32_Inr: "int_to_be32 v = Inr bs \<longleftrightarrow> 0 \<le> v \<and> v < 2 ^ 256 \<and> bs = be32 v"
proof -
  have "(256 < bit_length (nat v)) = (\<not> nat v < 2 ^ 256)" using bit_length_le [of "nat v" 256] by linarith
  moreover have "0 \<le> v \<Longrightarrow> (nat v < 2 ^ 256) = (v < 2 ^ 256)" by (simp add: nat_less_iff)
  ultimately show ?thesis
    by (auto simp: int_to_be32_def to_bytes_be_def to_bytes_le_def FIELD_BYTES_def be32_def split: if_splits)
qed

lemma scan_sep: "\<not> is_digit c \<Longrightarrow> scan_numbers acc (a @ c # b) = scan_numbers acc a @ scan_numbers None b"
  by (induction a arbitrary: acc) simp_all

lemma digit_of: "d < 10 \<Longrightarrow> is_digit (char_of (48 + d)) \<and> (of_char (char_of (48 + d :: nat)) :: nat) = 48 + d"
  by (simp add: is_digit_def)

lemma scan_nat_str: "scan_numbers None (nat_str n @ s) = scan_numbers (Some n) s"
proof (induction n arbitrary: s rule: nat_str.induct)
  case (1 n)
  show ?case
  proof (cases "n < 10")
    case True
    then show ?thesis using digit_of [of n] by (subst nat_str.simps) simp
  next
    case False
    have "scan_numbers None (nat_str n @ s) = scan_numbers None (nat_str (n div 10) @ char_of (48 + n mod 10) # s)"
      using False by (subst nat_str.simps) simp
    also have "\<dots> = scan_numbers (Some (10 * (n div 10) + n mod 10)) s"
      using 1 [OF False] digit_of [of "n mod 10"] by simp
    finally show ?thesis by simp
  qed
qed

lemma scan_one: "scan_numbers None (nat_str n) = [n]"
  using scan_nat_str [of n "[]"] by simp

lemma not_digit [simp]: "\<not> is_digit CHR '' ''" "\<not> is_digit CHR '',''" "\<not> is_digit nl"
  by (simp_all add: is_digit_def)

lemma scan_byte_list: "scan_numbers None (byte_list raw) = map unat raw"
proof -
  have "scan_numbers None (join '', '' (map nat_str ns)) = ns" for ns
  proof (induction ns)
    case (Cons n ns)
    then show ?case by (cases ns) (simp_all add: scan_one scan_nat_str)
  qed simp
  from this [of "map unat raw"] show ?thesis by (simp add: byte_list_def comp_def)
qed

lemma split_on_ne [simp]: "split_on c s \<noteq> []"
  by (induction s) (auto split: list.splits)

lemma split_on_append: "split_on c (a @ c # b) = split_on c a @ split_on c b"
proof (induction a)
  case (Cons x a)
  then show ?case by (cases "split_on c a") auto
qed simp

lemma split_on_line: "c \<notin> set a \<Longrightarrow> split_on c a = [a]"
  by (induction a) auto

lemma split_on_pieces: "p \<in> set (split_on c s) \<Longrightarrow> set p \<subseteq> set s - {c}"
proof (induction s arbitrary: p)
  case (Cons x s)
  obtain y ys where s: "split_on c s = y # ys" by (cases "split_on c s") simp_all
  show ?case
  proof (cases "x = c")
    case True
    with Cons show ?thesis by auto
  next
    case False
    with Cons.prems s have "p = x # y \<or> p \<in> set ys" by simp
    with Cons.IH s False show ?thesis by fastforce
  qed
qed simp

lemma split_on_join:
  "ls \<noteq> [] \<Longrightarrow> split_on c (join [c] ls) = concat (map (split_on c) ls)"
proof (induction ls)
  case (Cons l ls)
  then show ?case by (cases ls) (simp_all add: split_on_append)
qed simp

lemma scan_split:
  assumes "\<not> is_digit c"
  shows "concat (map (scan_numbers None) (split_on c s)) = scan_numbers None s"
proof -
  have "scan_numbers acc s = (case split_on c s of l # ls \<Rightarrow> scan_numbers acc l @ concat (map (scan_numbers None) ls) | [] \<Rightarrow> [])" for acc
  proof (induction s arbitrary: acc)
    case (Cons x s)
    obtain y ys where s: "split_on c s = y # ys" by (cases "split_on c s") simp_all
    show ?case using Cons s assms by (cases "x = c") auto
  qed simp
  from this [of None] show ?thesis by (cases "split_on c s") simp_all
qed

lemma wrap_ne [simp]: "wrap_lines width cur ws \<noteq> []"
  by (induction ws arbitrary: cur) auto

lemma scan_wrap:
  "concat (map (scan_numbers None) (wrap_lines width cur ws)) = scan_numbers None cur @ concat (map (scan_numbers None) ws)"
  by (induction ws arbitrary: cur) (simp_all add: scan_sep)

lemma wrap_chars: "l \<in> set (wrap_lines width cur ws) \<Longrightarrow> set l \<subseteq> set cur \<union> \<Union> (set ` set ws) \<union> {CHR '' ''}"
  by (induction ws arbitrary: cur) (fastforce split: if_splits)+

lemma data_append: "data_numbers (a @ nl # b) = data_numbers a @ data_numbers b"
  by (simp add: data_numbers_def split_on_append)

lemma data_join: "ls \<noteq> [] \<Longrightarrow> data_numbers (join [nl] ls) = concat (map data_numbers ls)"
proof (induction ls)
  case (Cons l ls)
  then show ?case by (cases ls) (simp_all add: data_append)
qed simp

lemma data_line: "nl \<notin> set l \<Longrightarrow> \<not> prefix ''    '' l \<Longrightarrow> data_numbers l = []"
  by (simp add: data_numbers_def split_on_line)

lemma scan_indent: "scan_numbers None (replicate k CHR '' '' @ l) = scan_numbers None l"
  by (induction k) simp_all

lemma concat_scan_filter: "concat (map (scan_numbers None) (filter (\<lambda>w. w \<noteq> []) ws)) = concat (map (scan_numbers None) ws)"
  by (induction ws) auto

lemma indents: "''    '' = replicate 4 CHR '' ''" "''        '' = replicate 8 CHR '' ''"
  by (simp_all add: eval_nat_numeral)

text \<open>Filling a text into indented lines loses no number, joins none and tears none apart.\<close>

lemma fill_data:
  assumes "nl \<notin> set body" and "4 \<le> k" and indent: "indent = replicate k CHR '' ''"
  shows "data_numbers (textwrap_fill width indent body) = scan_numbers None body"
proof (cases "filter (\<lambda>w. w \<noteq> []) (split_on CHR '' '' body)")
  case Nil
  moreover from this have "scan_numbers None body = []"
    using scan_split [of "CHR '' ''" body] concat_scan_filter [of "split_on CHR '' '' body"] by simp
  ultimately show ?thesis by (simp add: textwrap_fill_def data_numbers_def)
next
  case (Cons x xs)
  let ?ls = "map ((@) indent) (wrap_lines (width - length indent) x xs)"
  have words: "set w \<subseteq> set body" if "w \<in> set (x # xs)" for w
  proof -
    from that have "w \<in> set (filter (\<lambda>w. w \<noteq> []) (split_on CHR '' '' body))" unfolding Cons .
    then show ?thesis using split_on_pieces by fastforce
  qed
  have clean: "nl \<notin> set l" if "l \<in> set ?ls" for l
  proof -
    from that obtain m where m: "l = indent @ m" "m \<in> set (wrap_lines (width - length indent) x xs)" by auto
    have "nl \<notin> set w" if "w \<in> set (x # xs)" for w using words [OF that] assms(1) by blast
    then have "nl \<notin> set x \<union> \<Union> (set ` set xs) \<union> {CHR '' ''}" by auto
    with wrap_chars [OF m(2)] have "nl \<notin> set m" by blast
    then show ?thesis using m(1) indent by simp
  qed
  have ind: "prefix ''    '' l" if "l \<in> set ?ls" for l
  proof -
    have "indent = ''    '' @ replicate (k - 4) CHR '' ''"
    proof -
      have "replicate k CHR '' '' = replicate (4 + (k - 4)) CHR '' ''" using assms(2) by simp
      also have "\<dots> = ''    '' @ replicate (k - 4) CHR '' ''" by (simp only: replicate_add indents)
      finally show ?thesis using indent by simp
    qed
    with that show ?thesis by auto
  qed
  have ne: "?ls \<noteq> []" by simp
  have "data_numbers (join [nl] ?ls) = concat (map data_numbers ?ls)" using ne by (rule data_join)
  also have "\<dots> = concat (map (scan_numbers None) ?ls)"
    using clean ind by (intro arg_cong [where f = concat] map_cong) (simp_all add: data_numbers_def split_on_line)
  also have "\<dots> = concat (map (scan_numbers None) (wrap_lines (width - length indent) x xs))"
    by (simp add: comp_def indent scan_indent)
  also have "\<dots> = concat (map (scan_numbers None) (x # xs))" by (simp add: scan_wrap)
  also have "\<dots> = scan_numbers None body"
    using scan_split [of "CHR '' ''" body] concat_scan_filter [of "split_on CHR '' '' body"] Cons by simp
  finally show ?thesis using Cons by (simp add: textwrap_fill_def)
qed

lemma nl_nat_str: "nl \<notin> set (nat_str n)"
proof (induction n rule: nat_str.induct)
  case (1 n)
  have "nl \<noteq> char_of (48 + d)" if "d < 10" for d :: nat using digit_of [OF that] not_digit(3) by metis
  then show ?case using 1 by (subst nat_str.simps) auto
qed

lemma nl_byte_list: "nl \<notin> set (byte_list raw)"
proof -
  have "nl \<notin> set (join '', '' (map (\<lambda>b. nat_str (unat (b :: byte))) raw))"
  proof (induction raw)
    case (Cons b raw)
    then show ?case using nl_nat_str by (cases raw) auto
  qed simp
  then show ?thesis by (simp add: byte_list_def)
qed

lemma format_byte_array_data:
  assumes "length raw = len" and "nl \<notin> set name"
  obtains t where "format_byte_array name raw len = Inr t" "data_numbers t = map unat raw"
proof -
  let ?head = "''pub const '' @ name @ '': [u8; '' @ nat_str len @ ''] = [''"
  let ?fill = "textwrap_fill 92 ''    '' (byte_list raw)"
  have "data_numbers ?head = []" using assms(2) nl_nat_str by (intro data_line) auto
  moreover have "data_numbers ?fill = map unat raw"
    using fill_data [OF nl_byte_list le_refl indents(1)] scan_byte_list by simp
  moreover have "data_numbers ''];'' = []" by (intro data_line) simp_all
  ultimately have "data_numbers (?head @ nl # ?fill @ nl # ''];'') = map unat raw" by (simp only: data_append) simp
  with assms(1) show ?thesis by (intro that [of "?head @ nl # ?fill @ nl # ''];''"]) (simp_all add: format_byte_array_def)
qed

lemma ic_row_data:
  assumes "length entry = 64"
  shows "\<exists>text. ic_row name entry = Inr text \<and> data_numbers text = map unat entry"
proof -
  let ?fill = "textwrap_fill 88 ''        '' (byte_list entry)"
  have "data_numbers ?fill = map unat entry"
    using fill_data [OF nl_byte_list _ indents(2)] scan_byte_list by simp
  moreover have "data_numbers ''    ['' = []" "data_numbers ''    ],'' = []"
    by (simp_all add: data_numbers_def is_digit_def)
  ultimately have "data_numbers (''    ['' @ nl # ?fill @ nl # ''    ],'') = map unat entry" by (simp only: data_append) simp
  with assms show ?thesis by (simp add: ic_row_def)
qed

lemma ic_rows_data:
  "\<forall>e \<in> set ic. length e = 64 \<Longrightarrow>
     \<exists>rows. all_Inr (map (ic_row name) ic) = Inr rows \<and> length rows = length ic
       \<and> concat (map data_numbers rows) = map unat (concat ic)"
proof (induction ic)
  case (Cons e ic)
  then obtain rows where "all_Inr (map (ic_row name) ic) = Inr rows" "length rows = length ic"
    "concat (map data_numbers rows) = map unat (concat ic)" by auto
  moreover from Cons.prems obtain t where "ic_row name e = Inr t" "data_numbers t = map unat e"
    using ic_row_data by (metis list.set_intros(1))
  ultimately show ?case by simp
qed simp

lemma format_vk_ic_data:
  assumes "\<forall>e \<in> set ic. length e = 64" and "ic \<noteq> []" and "nl \<notin> set name"
  obtains t where "format_vk_ic name ic = Inr t" "data_numbers t = map unat (concat ic)"
proof -
  let ?head = "''pub const '' @ name @ '': [[u8; 64]; NUM_PUBLIC_INPUTS + 1] = [''"
  obtain rows where rows: "all_Inr (map (ic_row name) ic) = Inr rows" "length rows = length ic"
    "concat (map data_numbers rows) = map unat (concat ic)" using ic_rows_data [OF assms(1)] by blast
  have "data_numbers ?head = []" using assms(3) by (intro data_line) auto
  moreover have "data_numbers (join [nl] rows) = map unat (concat ic)"
    using rows assms(2) by (subst data_join) auto
  moreover have "data_numbers ''];'' = []" by (intro data_line) simp_all
  ultimately have "data_numbers (?head @ nl # join [nl] rows @ nl # ''];'') = map unat (concat ic)"
    by (simp only: data_append) simp
  with rows(1) show ?thesis by (intro that [of "?head @ nl # join [nl] rows @ nl # ''];''"]) (simp_all add: format_vk_ic_def)
qed

text \<open>What a successful encoding read: the first two items, as integers of the field's size.\<close>

definition in_field :: "int \<Rightarrow> bool" where
  "in_field e \<longleftrightarrow> 0 \<le> e \<and> e < 2 ^ 256"

lemma py_item_Inr: "py_len v = Inr n \<Longrightarrow> py_item v i = Inr x \<Longrightarrow> length (items v) = n \<and> i < n \<and> x = items v ! i"
  by (cases v) (auto simp: py_len_def py_item_def items_def split: if_splits)

lemma take_two: "2 \<le> length xs \<Longrightarrow> take 2 xs = [xs ! 0, xs ! 1]"
  by (cases xs; cases "tl xs") auto

lemma int_item_Inr:
  "py_len v = Inr n \<Longrightarrow> int_item v i = Inr x \<Longrightarrow> length (items v) = n \<and> i < n \<and> x = coordinate (items v ! i)"
  unfolding int_item_def rbind_Inr_iff
  by (auto simp: py_int_res_def coordinate_def split: option.splits dest: py_item_Inr)

lemma limbs_Inr:
  assumes "py_len v = Inr n" "\<not> n < 2" "int_item v 0 = Inr a" "int_item v 1 = Inr b"
  shows "map coordinate (take 2 (items v)) = [a, b]"
  using int_item_Inr [OF assms(1,3)] int_item_Inr [OF assms(1,4)] assms(2) by (simp add: take_two)

lemma encode_g1_Inr:
  assumes "encode_g1 v = Inr b"
  shows "b = concat (map be32 (g1_elements v)) \<and> length (g1_elements v) = 2 \<and> list_all in_field (g1_elements v)"
proof -
  from assms obtain n x y where n: "py_len v = Inr n" "\<not> n < 2" and i: "int_item v 0 = Inr x" "int_item v 1 = Inr y"
    and "int_to_be32 x = Inr (be32 x)" "int_to_be32 y = Inr (be32 y)" "in_field x" "in_field y" "b = be32 x @ be32 y"
    unfolding encode_g1_def by (auto simp: rbind_Inr_iff int_to_be32_Inr in_field_def split: if_splits)
  with limbs_Inr [OF n i] show ?thesis by (simp add: g1_elements_def)
qed

lemma encode_g2_Inr:
  assumes "encode_g2 v = Inr b"
  shows "b = concat (map be32 (g2_elements v)) \<and> length (g2_elements v) = 4 \<and> list_all in_field (g2_elements v)"
proof -
  from assms obtain n p q np nq x0 x1 y0 y1 where n: "py_len v = Inr n" "\<not> n < 2"
    and pq: "py_item v 0 = Inr p" "py_item v 1 = Inr q"
    and np: "py_len p = Inr np" "\<not> np < 2" and nq: "py_len q = Inr nq" "\<not> nq < 2"
    and x: "int_item p 0 = Inr x0" "int_item p 1 = Inr x1" and y: "int_item q 0 = Inr y0" "int_item q 1 = Inr y1"
    and f: "in_field x0" "in_field x1" "in_field y0" "in_field y1" and b: "b = be32 x1 @ be32 x0 @ be32 y1 @ be32 y0"
    unfolding encode_g2_def by (auto simp: rbind_Inr_iff int_to_be32_Inr in_field_def split: if_splits)
  have "take 2 (items v) = [p, q]"
    using py_item_Inr [OF n(1) pq(1)] py_item_Inr [OF n(1) pq(2)] n(2) by (simp add: take_two)
  then have "g2_elements v = [x1, x0, y1, y0]"
    using limbs_Inr [OF np x] limbs_Inr [OF nq y] by (simp add: g2_elements_def)
  with f b show ?thesis by simp
qed

lemma encode_points_Inr:
  "encode_points ps = Inr bs \<Longrightarrow>
     bs = map (\<lambda>p. concat (map be32 (g1_elements p))) ps
     \<and> (\<forall>p \<in> set ps. length (g1_elements p) = 2 \<and> list_all in_field (g1_elements p))"
  by (induction ps arbitrary: bs) (auto simp: rbind_Inr_iff dest!: encode_g1_Inr)

lemma encode_ic_Inr:
  assumes "encode_ic v = Inr bs"
  shows "bs = map (\<lambda>p. concat (map be32 (g1_elements p))) (items v) \<and> items v \<noteq> []
     \<and> (\<forall>p \<in> set (items v). length (g1_elements p) = 2 \<and> list_all in_field (g1_elements p))"
proof -
  from assms obtain q qs where "v = JList (q # qs)" "encode_points (q # qs) = Inr bs"
    unfolding encode_ic_def by (auto simp del: encode_points.simps split: json.splits list.splits)
  with encode_points_Inr [of "q # qs" bs] show ?thesis by (simp add: items_def del: encode_points.simps)
qed

lemma concat_be32_points: "concat (map (\<lambda>p. concat (map be32 (g p))) ps) = concat (map be32 (concat (map g ps)))"
  by (induction ps) simp_all

lemma sum_list_const: "\<forall>x \<in> set xs. f x = c \<Longrightarrow> sum_list (map f xs) = c * length xs"
  by (induction xs) simp_all

text \<open>The bytes of a key in the order of the file.\<close>

definition key_bytes :: "parsed_vk \<Rightarrow> bytes" where
  "key_bytes p = vk_alpha_g1 p @ vk_beta_g2 p @ vk_gamma_g2 p @ vk_delta_g2 p @ concat (vk_ic p)"

definition key_shape :: "parsed_vk \<Rightarrow> bool" where
  "key_shape p \<longleftrightarrow> length (vk_alpha_g1 p) = 64 \<and> length (vk_beta_g2 p) = 128 \<and> length (vk_gamma_g2 p) = 128
     \<and> length (vk_delta_g2 p) = 128 \<and> length (vk_ic p) = NUM_PUBLIC_INPUTS + 1 \<and> (\<forall>e \<in> set (vk_ic p). length e = 64)"

lemma length_concat_be32: "length (concat (map be32 es)) = 32 * length es"
  by (induction es) simp_all

lemma parse_vk_Inr:
  assumes "parse_vk vk = Inr p"
  shows "key_shape p \<and> key_bytes p = concat (map be32 (key_elements vk)) \<and> list_all in_field (key_elements vk)
    \<and> length (key_elements vk) = 14 + 2 * (NUM_PUBLIC_INPUTS + 1)"
proof -
  have e: "encode_key vk = Inr p" and l: "length (vk_ic p) = NUM_PUBLIC_INPUTS + 1"
    using assms by (auto simp: parse_vk_def Let_def split: sum.splits if_splits)
  from e obtain a b c d ic where
    g: "encode_g1 (jget vk ''vk_alpha_1'') = Inr a" "encode_g2 (jget vk ''vk_beta_2'') = Inr b"
       "encode_g2 (jget vk ''vk_gamma_2'') = Inr c" "encode_g2 (jget vk ''vk_delta_2'') = Inr d"
    and q: "encode_ic (jget vk ''IC'') = Inr ic"
    and p: "p = \<lparr>vk_alpha_g1 = a, vk_beta_g2 = b, vk_gamma_g2 = c, vk_delta_g2 = d, vk_ic = ic\<rparr>"
    unfolding encode_key_def by (auto simp: rbind_Inr_iff key_item_def split: if_splits)
  note ab = encode_g1_Inr [OF g(1)] encode_g2_Inr [OF g(2)] encode_g2_Inr [OF g(3)] encode_g2_Inr [OF g(4)]
  note ic = encode_ic_Inr [OF q]
  have elems: "length (concat (map g1_elements (items (jget vk ''IC'')))) = 2 * length ic"
    using sum_list_const [of "items (jget vk ''IC'')" "length \<circ> g1_elements" 2] ic by (simp add: length_concat)
  have "key_shape p" using ab ic l p by (auto simp: key_shape_def length_concat_be32)
  moreover have "key_bytes p = concat (map be32 (key_elements vk))"
    using ab ic p by (simp add: key_bytes_def key_elements_def concat_be32_points)
  moreover have "list_all in_field (key_elements vk)" using ab ic by (auto simp: key_elements_def list_all_iff)
  moreover have "length (key_elements vk) = 14 + 2 * (NUM_PUBLIC_INPUTS + 1)"
    using ab elems l p by (simp add: key_elements_def)
  ultimately show ?thesis by blast
qed

lemma data_lines:
  "\<forall>l \<in> set ls. nl \<notin> set l \<and> \<not> prefix ''    '' l \<Longrightarrow> data_numbers (concat (map (\<lambda>l. l @ [nl]) ls)) = []"
proof (induction ls)
  case Nil
  show ?case by (simp add: data_numbers_def)
next
  case (Cons l ls)
  then show ?case using data_append [of l "concat (map (\<lambda>l. l @ [nl]) ls)"] data_line [of l] by simp
qed

lemma header_data: "data_numbers GENERATED_HEADER = []"
  unfolding GENERATED_HEADER_def by (rule data_lines) simp

lemma render_data:
  assumes "key_shape p"
  shows "\<exists>t. render_verifier_vk p = Inr t \<and> data_numbers t = map unat (key_bytes p)"
proof -
  have shape: "length (vk_alpha_g1 p) = 64" "length (vk_beta_g2 p) = 128" "length (vk_gamma_g2 p) = 128"
    "length (vk_delta_g2 p) = 128" "\<forall>e \<in> set (vk_ic p). length e = 64" "vk_ic p \<noteq> []"
    using assms by (auto simp: key_shape_def)
  obtain a where a: "format_byte_array ''VK_ALPHA_G1'' (vk_alpha_g1 p) 64 = Inr a" "data_numbers a = map unat (vk_alpha_g1 p)"
    by (rule format_byte_array_data [OF shape(1), of "''VK_ALPHA_G1''"]) simp_all
  obtain b where b: "format_byte_array ''VK_BETA_G2'' (vk_beta_g2 p) 128 = Inr b" "data_numbers b = map unat (vk_beta_g2 p)"
    by (rule format_byte_array_data [OF shape(2), of "''VK_BETA_G2''"]) simp_all
  obtain c where c: "format_byte_array ''VK_GAMMA_G2'' (vk_gamma_g2 p) 128 = Inr c" "data_numbers c = map unat (vk_gamma_g2 p)"
    by (rule format_byte_array_data [OF shape(3), of "''VK_GAMMA_G2''"]) simp_all
  obtain d where d: "format_byte_array ''VK_DELTA_G2'' (vk_delta_g2 p) 128 = Inr d" "data_numbers d = map unat (vk_delta_g2 p)"
    by (rule format_byte_array_data [OF shape(4), of "''VK_DELTA_G2''"]) simp_all
  obtain e where e: "format_vk_ic ''VK_IC'' (vk_ic p) = Inr e" "data_numbers e = map unat (concat (vk_ic p))"
    by (rule format_vk_ic_data [OF shape(5,6), of "''VK_IC''"]) simp_all
  have n: "nl \<notin> set (''pub const NUM_PUBLIC_INPUTS: usize = '' @ nat_str NUM_PUBLIC_INPUTS @ '';'')"
    using nl_nat_str by simp
  show ?thesis
    unfolding render_verifier_vk_def
    using data_line [OF n] data_line [of "[]"]
    by (simp add: a b c d e all_Inr.simps data_join key_bytes_def header_data data_line del: join.simps)
qed

lemma chunks_elements: "chunks32 (map unat (concat (map be32 es))) = map (\<lambda>e. map unat (be32 e)) es"
proof (induction es)
  case Nil
  show ?case by (simp add: chunks32.simps)
next
  case (Cons e es)
  have "be32 e \<noteq> []" using length_be32 [of e] by (metis list.size(3) zero_neq_numeral)
  with Cons show ?case by (subst chunks32.simps) simp
qed

lemma elements_read_back:
  assumes "data_numbers t = map unat (concat (map be32 es))" and "list_all in_field es"
  shows "map int (file_elements t) = es"
proof -
  have "map of_nat (map unat (be32 e)) = be32 e" for e by (simp add: comp_def)
  then have "file_elements t = map (\<lambda>e. be_nat (be32 e)) es"
    by (simp add: file_elements_def assms(1) chunks_elements comp_def)
  with assms(2) show ?thesis by (simp add: list_all_iff in_field_def be32_value map_idI)
qed

section \<open>Properties\<close>

definition vk_json_path :: "'w build_env \<Rightarrow> string option \<Rightarrow> string option \<Rightarrow> string" where
  "vk_json_path env ceremony_dir vk_fields_json =
     (case vk_fields_json of Some j \<Rightarrow> resolve env j
      | None \<Rightarrow> resolve_circuit_dir env ceremony_dir @ ''/target/vk_fields.json'')"

lemma vk_convert_loads:
  "vk_convert env ceremony_dir vk_fields_json out =
     andthen (load_vk_fields_json env (vk_json_path env ceremony_dir vk_fields_json)) (\<lambda>vk_json.
     andthen (pure (parse_vk vk_json)) (\<lambda>parsed.
     andthen (pure (render_verifier_vk parsed)) (\<lambda>rendered.
     andthen (make_parent env (case out of Some p \<Rightarrow> resolve env p | None \<Rightarrow> default_vk_path env)) (\<lambda>_.
     write_file env (case out of Some p \<Rightarrow> resolve env p | None \<Rightarrow> default_vk_path env) rendered))))"
  by (simp add: vk_convert_def vk_json_path_def Let_def)

text \<open>C28. The generated Rust file carries the key. When the convert command returns, it has written a file from whose
  data lines a reader gets back, as 32-byte big-endian numbers, exactly the coordinates of the
  JSON key: alpha, then beta, gamma and delta with the limbs of each \<open>Fp2\<close> coordinate swapped, then the
  points of \<open>IC\<close>; there are 26 of them, each within 256 bits, and no number is torn by the line wrapping.\<close>

theorem converted_key_reads_back:
  assumes "vk_convert env ceremony_dir vk_fields_json out w = (Inr (), w')"
  shows "\<exists>vk t w1 w2. load_vk_fields_json env (vk_json_path env ceremony_dir vk_fields_json) w = (Inr vk, w1)
    \<and> write_file env (case out of Some p \<Rightarrow> resolve env p | None \<Rightarrow> default_vk_path env) t w2 = (Inr (), w')
    \<and> map int (file_elements t) = key_elements vk \<and> length (key_elements vk) = 26 \<and> list_all in_field (key_elements vk)"
proof -
  from assms obtain vk w1 p t w2 where l: "load_vk_fields_json env (vk_json_path env ceremony_dir vk_fields_json) w = (Inr vk, w1)"
    and p: "parse_vk vk = Inr p" and t: "render_verifier_vk p = Inr t"
    and wr: "write_file env (case out of Some p \<Rightarrow> resolve env p | None \<Rightarrow> default_vk_path env) t w2 = (Inr (), w')"
    unfolding vk_convert_loads by (auto elim!: andthen_InrE)
  note k = parse_vk_Inr [OF p]
  from render_data [of p] k t have "data_numbers t = map unat (concat (map be32 (key_elements vk)))" by auto
  with k have "map int (file_elements t) = key_elements vk" by (intro elements_read_back) simp_all
  with l wr k show ?thesis by (auto simp: NUM_PUBLIC_INPUTS_def)
qed

definition demo_key :: "nat \<Rightarrow> dict" where
  "demo_key n =
     (let g1 = JList [JInt 1, JInt 2]; g2 = JList [JList [JInt 3, JStr ''4''], JList [JInt 5, JInt 6]] in
      [(''vk_alpha_1'', g1), (''vk_beta_2'', g2), (''vk_gamma_2'', g2), (''vk_delta_2'', g2), (''IC'', JList (replicate n g1))])"

text \<open>The world of the example is the content of the generated file.\<close>

definition demo_env :: "nat \<Rightarrow> string build_env" where
  "demo_env n = \<lparr>find_binary = (\<lambda>b. ret (Some b)), run_in = (\<lambda>c d. ret 0), file_exists = (\<lambda>p. ret True), read_file = (\<lambda>p. ret []),
     make_parent = (\<lambda>p. ret ()), write_file = (\<lambda>p t w. (Inr (), t)), vk_loads = (\<lambda>t. Inr (JObj (demo_key n))),
     resolve = (\<lambda>p. p), default_circuit_dir = ''c'', default_vk_path = ''v''\<rparr>"

lemma demo_load: "load_vk_fields_json (demo_env n) p w = (Inr (demo_key n), w)"
  by (simp add: load_vk_fields_json_def demo_env_def REQUIRED_KEYS_def demo_key_def has_key_def Let_def)

lemma demo_g1: "encode_g1 (JList [JInt 1, JInt 2]) = Inr (be32 1 @ be32 2)"
  using int_to_be32_Inr [of 1 "be32 1"] int_to_be32_Inr [of 2 "be32 2"]
  by (simp add: encode_g1_def py_len_def int_item_def py_item_def py_int_res_def py_int_def)

lemma demo_g2:
  "encode_g2 (JList [JList [JInt 3, JStr ''4''], JList [JInt 5, JInt 6]]) = Inr (be32 4 @ be32 3 @ be32 6 @ be32 5)"
proof -
  have "int_literal ''4'' = Some 4" by code_simp
  then show ?thesis
    using int_to_be32_Inr [of 3 "be32 3"] int_to_be32_Inr [of 4 "be32 4"] int_to_be32_Inr [of 5 "be32 5"] int_to_be32_Inr [of 6 "be32 6"]
    by (simp add: encode_g2_def py_len_def int_item_def py_item_def py_int_res_def py_int_def)
qed

lemma demo_points: "encode_points (replicate n (JList [JInt 1, JInt 2])) = Inr (replicate n (be32 1 @ be32 2))"
  by (induction n) (simp_all add: demo_g1)

lemma demo_encode: "0 < n \<Longrightarrow> \<exists>p. encode_key (demo_key n) = Inr p \<and> length (vk_ic p) = n"
  using demo_points [of n]
  by (cases n) (simp_all add: encode_key_def demo_key_def key_item_def has_key_def jget_def demo_g1 demo_g2 encode_ic_def Let_def)

theorem converted_key_reads_back_witness:
  "\<exists>t. vk_convert (demo_env 6) None None None [] = (Inr (), t)
     \<and> map int (file_elements t) = [1, 2, 4, 3, 6, 5, 4, 3, 6, 5, 4, 3, 6, 5, 1, 2, 1, 2, 1, 2, 1, 2, 1, 2, 1, 2]"
proof -
  obtain p where p: "parse_vk (demo_key 6) = Inr p"
    using demo_encode [of 6] by (auto simp: parse_vk_def NUM_PUBLIC_INPUTS_def)
  with render_data [of p] parse_vk_Inr [OF p] obtain t where t: "render_verifier_vk p = Inr t" by auto
  have run: "vk_convert (demo_env 6) None None None [] = (Inr (), t)"
    unfolding vk_convert_loads by (simp add: andthen_def demo_load p t) (simp add: demo_env_def)
  have "int_literal ''4'' = Some 4" by code_simp
  then have "key_elements (demo_key 6) = [1, 2, 4, 3, 6, 5, 4, 3, 6, 5, 4, 3, 6, 5, 1, 2, 1, 2, 1, 2, 1, 2, 1, 2, 1, 2]"
    by (simp add: key_elements_def demo_key_def jget_def g1_elements_def g2_elements_def items_def coordinate_def py_int_def
        Let_def eval_nat_numeral)
  with converted_key_reads_back [OF run] run demo_load show ?thesis by (auto simp: demo_env_def)
qed

text \<open>The script refuses the key of the present circuit. A key that fits the public inputs of the proof service, with one
  \<open>IC\<close> point for each of the six and one for the constant, is never converted: the command ends
  with an error before anything is written, and for a key whose points are well formed the error says that circuit
  and key are out of sync, because the script counts five public inputs.\<close>

theorem proof_service_key_refused:
  assumes "load_vk_fields_json env (vk_json_path env ceremony_dir vk_fields_json) w = (Inr vk, w1)"
    and "length (items (jget vk ''IC'')) = length (public_input_vector h inp root_el) + 1"
  shows "\<exists>e. vk_convert env ceremony_dir vk_fields_json out w = (Inl e, w1)
    \<and> (e = ic_mismatch 7 \<or> (\<exists>e'. encode_key vk = Inl e' \<and> parse_vk vk = Inl e))"
proof (cases "encode_key vk")
  case (Inl e')
  then obtain e where "parse_vk vk = Inl e" by (simp add: parse_vk_def)
  with Inl assms(1) show ?thesis unfolding vk_convert_loads by (simp add: andthen_def)
next
  case (Inr p)
  then have "encode_ic (jget vk ''IC'') = Inr (vk_ic p)"
    unfolding encode_key_def by (auto simp: rbind_Inr_iff key_item_def split: if_splits)
  with encode_ic_Inr [of "jget vk ''IC''" "vk_ic p"] assms(2) have "length (vk_ic p) = 7"
    by (simp add: public_input_vector_def)
  with Inr have "parse_vk vk = Inl (ic_mismatch 7)" by (simp add: parse_vk_def Let_def NUM_PUBLIC_INPUTS_def)
  with assms(1) show ?thesis unfolding vk_convert_loads by (simp add: andthen_def)
qed

theorem proof_service_key_refused_witness:
  "vk_convert (demo_env 7) None None None ''old'' = (Inl (ic_mismatch 7), ''old'')"
proof -
  obtain h :: hasher and inp root_el where len: "length (public_input_vector h inp root_el) = 6"
    by (simp add: public_input_vector_def)
  have "length (items (jget (demo_key 7) ''IC'')) = length (public_input_vector h inp root_el) + 1"
    by (simp add: len demo_key_def jget_def items_def Let_def)
  from proof_service_key_refused [where env = "demo_env 7" and ceremony_dir = None and vk_fields_json = None
      and w = "''old''" and out = None, OF demo_load this] demo_encode [of 7]
  show ?thesis by auto
qed

end
