(* ===== verification/DepositBuilder.thy ===== *)
theory DepositBuilder
  imports SolanaRpc Base64 "HOL-Library.Char_ord" "HOL-Library.List_Lexorder"
begin

text \<open>
  The two builders of the unsigned \<open>deposit(commitment)\<close> transaction,
  \<open>backend/app/services/deposit_builder.py\<close> and
  \<open>backend/app/services/swap_to_deposit_service.py\<close>, and the two-transaction
  chains of the latter and of \<open>claim_to_deposit_service.py\<close>, with the response
  normalisation of \<open>bags_service.py\<close>. Names both files use carry the suffix
  \<open>_swap\<close> for the second. The Bags client is an argument of the services.
\<close>

section \<open>Constants and decoding\<close>

definition DEPOSIT_SIGHASH :: bytes where
  "DEPOSIT_SIGHASH = take 8 (sha256 (ascii ''global:deposit''))"

text \<open>Each parses a literal or imports the constant of solders.\<close>

definition SYSTEM_PROGRAM_ID :: string where
  "SYSTEM_PROGRAM_ID = replicate 32 CHR ''1''"

definition system_key :: "solders \<Rightarrow> pubkey" where
  "system_key sol = const_pubkey sol SYSTEM_PROGRAM_ID"

text \<open>\<open>raw.rjust(32, b"\x00")[-32:]\<close> pads a short value and cuts a long one.\<close>

definition hex_to_bytes32 :: "string \<Rightarrow> string \<Rightarrow> bytes res" where
  "hex_to_bytes32 value label =
     rbind (hex_to_bytes value label) (\<lambda>raw. Inr (last_n 32 (rjust0 32 raw)))"

definition hex_to_bytes32_swap :: "string \<Rightarrow> string \<Rightarrow> bytes res" where
  "hex_to_bytes32_swap value label =
     rbind (hex_to_bytes value label) (\<lambda>raw.
       if 32 < length raw
       then Inl (Domain ValidationError (label @ '' is longer than 32 bytes.'')
              [(''field'', JStr label), (''len'', JInt (int (length raw)))])
       else Inr (last_n 32 (rjust0 32 raw)))"

definition resolve_token_mint_deposit :: "solders \<Rightarrow> string \<Rightarrow> pubkey res" where
  "resolve_token_mint_deposit sol token_mint =
     (if token_mint = SOL_TOKEN_SENTINEL \<or> token_mint = [] then Inr (system_key sol)
      else case pubkey_from_string sol token_mint of
             Inr p \<Rightarrow> Inr p
           | Inl err \<Rightarrow> Inl (Domain ValidationError ''token must be 'SOL' or a base58 SPL mint pubkey.''
               [(''token'', JStr token_mint), (''error'', JStr err)]))"

definition decode_pubkey :: "solders \<Rightarrow> string \<Rightarrow> string \<Rightarrow> pubkey res" where
  "decode_pubkey sol raw label =
     (case pubkey_from_string sol raw of
        Inr p \<Rightarrow> Inr p
      | Inl err \<Rightarrow> Inl (Domain ValidationError (label @ '' is not a valid base58 Solana pubkey.'')
          [(''field'', JStr label), (''value'', JStr raw), (''error'', JStr err)]))"

section \<open>The instruction\<close>

definition deposit_accounts :: "pubkey \<Rightarrow> pubkey \<Rightarrow> pubkey \<Rightarrow> pubkey \<Rightarrow> account_meta list" where
  "deposit_accounts depositor vault tree_state system =
     [signer_meta depositor, writable_meta vault, writable_meta tree_state, readonly_meta system]"

definition build_deposit_ix ::
  "solders \<Rightarrow> pubkey \<Rightarrow> pubkey \<Rightarrow> pubkey \<Rightarrow> pubkey \<Rightarrow> bytes \<Rightarrow> instruction res" where
  "build_deposit_ix sol program_id depositor vault tree_state commitment =
     (if length commitment \<noteq> 32
      then Inl (Domain ValidationError ''commitment must be exactly 32 bytes.''
             [(''actual_len'', JInt (int (length commitment)))])
      else Inr \<lparr>ix_program_id = program_id,
                accounts = deposit_accounts depositor vault tree_state (system_key sol),
                data = DEPOSIT_SIGHASH @ commitment\<rparr>)"

definition derive_deposit_pdas :: "solders \<Rightarrow> pubkey \<Rightarrow> pubkey \<Rightarrow> pubkey \<times> pubkey" where
  "derive_deposit_pdas sol program_id token_mint =
     (fst (find_program_address sol [VAULT_SEED, token_mint] program_id),
      fst (find_program_address sol [MERKLE_TREE_SEED, token_mint] program_id))"

definition build_deposit_ix_swap ::
  "solders \<Rightarrow> pubkey \<Rightarrow> pubkey \<Rightarrow> pubkey \<Rightarrow> bytes \<Rightarrow> instruction res" where
  "build_deposit_ix_swap sol program_id token_mint depositor commitment_bytes32 =
     (if length commitment_bytes32 \<noteq> 32
      then Inl (Domain ValidationError ''commitment must be exactly 32 bytes.''
             [(''len'', JInt (int (length commitment_bytes32)))])
      else let (vault_pda, tree_state_pda) = derive_deposit_pdas sol program_id token_mint in
           Inr \<lparr>ix_program_id = program_id,
                accounts = deposit_accounts depositor vault_pda tree_state_pda (system_program_id sol),
                data = DEPOSIT_SIGHASH @ commitment_bytes32\<rparr>)"

section \<open>The unsigned transaction of the deposit endpoint\<close>

record deposit_tx =
  dt_tx_base64 :: string
  dt_blockhash :: string
  dt_tree_state_pda :: string
  dt_vault_pda :: string
  dt_program_id :: string
  dt_depositor :: string
  dt_amount :: int
  dt_token :: string
  dt_commitment :: string

definition program_not_configured :: exn where
  "program_not_configured =
     Domain ServiceUnavailableError ''BAGSVAULT_PROGRAM_ID is not configured.''
       [(''missing_env'', JStr ''BAGSVAULT_PROGRAM_ID'')]"

definition deposit_program_id :: "solders \<Rightarrow> settings \<Rightarrow> pubkey res" where
  "deposit_program_id sol cfg =
     (if bagsvault_program_id cfg = [] then Inl program_not_configured
      else case pubkey_from_string sol (bagsvault_program_id cfg) of
             Inr p \<Rightarrow> Inr p
           | Inl err \<Rightarrow> Inl (Domain ServiceUnavailableError
               ''BAGSVAULT_PROGRAM_ID is not a valid base58 pubkey.''
               [(''program_id'', JStr (bagsvault_program_id cfg)), (''error'', JStr err)]))"

text \<open>The depositor is a key or its text.\<close>

definition depositor_key :: "solders \<Rightarrow> pubkey + string \<Rightarrow> pubkey res" where
  "depositor_key sol depositor =
     (case depositor of Inl p \<Rightarrow> Inr p | Inr s \<Rightarrow> decode_pubkey sol s ''depositor_pubkey'')"

definition fetch_blockhash :: "'w rpc \<Rightarrow> (string, 'w) io" where
  "fetch_blockhash rpc =
     andthen (wrap_foreign (\<lambda>err. upstream ''Failed to fetch recent blockhash from Solana RPC.''
                              [(''error'', JStr err)])
               (latest_blockhash rpc)) (\<lambda>raw. pure (coerce_blockhash raw))"

definition parse_blockhash :: "solders \<Rightarrow> string \<Rightarrow> bytes res" where
  "parse_blockhash sol bh =
     (case hash_from_string sol bh of
        Inr h \<Rightarrow> Inr h
      | Inl err \<Rightarrow> Inl (upstream ''Solana RPC returned a malformed blockhash.''
          [(''blockhash'', JStr bh), (''error'', JStr err)]))"

definition build_unsigned_tx ::
  "solders \<Rightarrow> settings \<Rightarrow> 'w rpc \<Rightarrow> string \<Rightarrow> int \<Rightarrow> pubkey + string \<Rightarrow> string \<Rightarrow> (deposit_tx, 'w) io" where
  "build_unsigned_tx sol cfg rpc commitment_hex amount_lamports depositor token_mint =
     andthen (pure (deposit_program_id sol cfg)) (\<lambda>program_id.
     andthen (pure (hex_to_bytes32 commitment_hex ''commitment'')) (\<lambda>commitment.
     andthen (pure (resolve_token_mint_deposit sol token_mint)) (\<lambda>mint.
     andthen (pure (depositor_key sol depositor)) (\<lambda>depositor_pubkey.
       let vault = fst (find_program_address sol [VAULT_SEED, mint] program_id);
           tree_state = fst (find_program_address sol [MERKLE_TREE_SEED, mint] program_id) in
     andthen (pure (build_deposit_ix sol program_id depositor_pubkey vault tree_state commitment)) (\<lambda>ix.
     andthen (fetch_blockhash rpc) (\<lambda>recent.
     andthen (pure (parse_blockhash sol recent)) (\<lambda>blockhash_obj.
     andthen (pure (try_compile sol depositor_pubkey [ix] blockhash_obj)) (\<lambda>message.
     ret \<lparr>dt_tx_base64 = b64encode (tx_populate sol message (num_required_signatures sol message)),
          dt_blockhash = recent, dt_tree_state_pda = pubkey_str sol tree_state,
          dt_vault_pda = pubkey_str sol vault, dt_program_id = pubkey_str sol program_id,
          dt_depositor = pubkey_str sol depositor_pubkey, dt_amount = amount_lamports,
          dt_token = token_mint, dt_commitment = to_hex commitment\<rparr>))))))))"

section \<open>The Bags responses\<close>

text \<open>The methods of \<open>BagsAPIClient\<close> the services call.\<close>

record 'w bags_api =
  bags_ping :: "(dict, 'w) io"
  build_claim_tx :: "string \<Rightarrow> string option \<Rightarrow> (dict, 'w) io"
  get_claimable_fees :: "string \<Rightarrow> string option \<Rightarrow> (dict, 'w) io"
  get_swap_quote :: "string \<Rightarrow> string \<Rightarrow> int \<Rightarrow> int \<Rightarrow> (dict, 'w) io"
  get_fee_share :: "string \<Rightarrow> (dict, 'w) io"

definition nonempty_str :: "json \<Rightarrow> string option" where
  "nonempty_str j = (case j of JStr s \<Rightarrow> if s \<noteq> [] then Some s else None | _ \<Rightarrow> None)"

definition first_str_of :: "json \<Rightarrow> string option" where
  "first_str_of j = (case j of JList (JStr s # _) \<Rightarrow> Some s | _ \<Rightarrow> None)"

definition sorted_keys :: "dict \<Rightarrow> json" where
  "sorted_keys raw = JList (map JStr (sort (remdups (map fst raw))))"

definition extract_swap_tx_b64 :: "dict \<Rightarrow> string res" where
  "extract_swap_tx_b64 raw =
     (case nonempty_str (py_or (py_or (jget raw ''transaction'') (jget raw ''tx'')) (jget raw ''swapTransaction'')) of
        Some s \<Rightarrow> Inr s
      | None \<Rightarrow>
     (case first_str_of (jget raw ''transactions'') of
        Some s \<Rightarrow> Inr s
      | None \<Rightarrow>
     (case first_str_of (jget raw ''txs'') of
        Some s \<Rightarrow> Inr s
      | None \<Rightarrow>
     (case (case jget raw ''data'' of
              JObj d \<Rightarrow> nonempty_str (py_or (jget d ''transaction'') (jget d ''swapTransaction''))
            | _ \<Rightarrow> None) of
        Some s \<Rightarrow> Inr s
      | None \<Rightarrow> Inl (Domain ServiceUnavailableError
          ''Bags swap response did not include an unsigned transaction.''
          [(''upstream'', JStr ''bags''), (''keys'', sorted_keys raw)])))))"

definition coerce_list :: "json \<Rightarrow> json list" where
  "coerce_list v = (case v of JList xs \<Rightarrow> xs | JNull \<Rightarrow> [] | _ \<Rightarrow> [v])"

definition extract_unsigned_txs :: "(json \<Rightarrow> string) \<Rightarrow> dict \<Rightarrow> string list" where
  "extract_unsigned_txs fmt raw =
     (case List.find (has_key raw) [''transactions'', ''txs'', ''unsignedTransactions'', ''unsigned_transactions''] of
        Some key \<Rightarrow> map (py_str fmt) (filter (\<lambda>item. item \<noteq> JNull) (coerce_list (jget raw key)))
      | None \<Rightarrow> (case jget raw ''transaction'' of JStr s \<Rightarrow> [s] | _ \<Rightarrow> []))"

definition dicts_of :: "json list \<Rightarrow> dict list" where
  "dicts_of xs = List.map_filter (\<lambda>j. case j of JObj d \<Rightarrow> Some d | _ \<Rightarrow> None) xs"

fun first_list :: "dict \<Rightarrow> string list \<Rightarrow> json list" where
  "first_list raw [] = []"
| "first_list raw (k # ks) = (case jget raw k of JList xs \<Rightarrow> xs | _ \<Rightarrow> first_list raw ks)"

definition extract_pending_fees :: "dict \<Rightarrow> dict list" where
  "extract_pending_fees raw =
     dicts_of (first_list raw [''pendingFees'', ''pending_fees'', ''claimable'', ''fees''])"

section \<open>The Bags service\<close>

definition bags_health :: "'w bags_api \<Rightarrow> (string \<times> dict, 'w) io" where
  "bags_health bags =
     andthen (bags_ping bags) (\<lambda>ping.
       ret (if \<not> truthy (jget ping ''configured'') then ''unconfigured''
            else if \<not> truthy (jget ping ''reachable'') then ''down'' else ''up'', ping))"

record claim_response =
  cl_creator_wallet :: string
  cl_token_mint :: "string option"
  cl_unsigned_transactions :: "string list"
  cl_pending_fees :: "dict list"
  cl_raw :: dict

definition claim_fees ::
  "(json \<Rightarrow> string) \<Rightarrow> 'w bags_api \<Rightarrow> string \<Rightarrow> string option \<Rightarrow> (claim_response, 'w) io" where
  "claim_fees fmt bags creator_wallet token_mint =
     andthen (build_claim_tx bags creator_wallet token_mint) (\<lambda>claim_raw.
       let pending = extract_pending_fees claim_raw in
       andthen
         (if pending \<noteq> [] then ret pending
          else catching
            (andthen (get_claimable_fees bags creator_wallet token_mint) (\<lambda>claimable_raw.
               let found = extract_pending_fees claimable_raw in
               ret (if found = [] then (case jget claimable_raw ''data'' of
                                          JList xs \<Rightarrow> dicts_of xs | _ \<Rightarrow> []) else found)))
            (\<lambda>_. ret []))
         (\<lambda>fees.
       ret \<lparr>cl_creator_wallet = creator_wallet, cl_token_mint = token_mint,
            cl_unsigned_transactions = extract_unsigned_txs fmt claim_raw,
            cl_pending_fees = fees, cl_raw = claim_raw\<rparr>))"

definition swap_quote :: "'w bags_api \<Rightarrow> string \<Rightarrow> string \<Rightarrow> int \<Rightarrow> int \<Rightarrow> (dict, 'w) io" where
  "swap_quote bags input_mint output_mint amount slippage_bps =
     get_swap_quote bags input_mint output_mint amount slippage_bps"

definition fee_share :: "'w bags_api \<Rightarrow> string \<Rightarrow> (dict, 'w) io" where
  "fee_share bags token_mint = get_fee_share bags token_mint"

section \<open>The two chains\<close>

definition PLACEHOLDER_BLOCKHASH :: "solders \<Rightarrow> bytes" where
  "PLACEHOLDER_BLOCKHASH sol =
     (case hash_from_string sol (replicate 32 CHR ''1'') of Inr h \<Rightarrow> h | Inl _ \<Rightarrow> [])"

definition serialize_unsigned_tx :: "solders \<Rightarrow> instruction \<Rightarrow> pubkey \<Rightarrow> string res" where
  "serialize_unsigned_tx sol ix payer =
     rbind (try_compile sol payer [ix] (PLACEHOLDER_BLOCKHASH sol)) (\<lambda>message.
     rbind (null_sign sol message payer) (\<lambda>tx. Inr (b64encode tx)))"

definition chain_program_id :: "solders \<Rightarrow> settings \<Rightarrow> pubkey res" where
  "chain_program_id sol cfg =
     (if bagsvault_program_id cfg = [] then Inl program_not_configured
      else decode_pubkey sol (bagsvault_program_id cfg) ''BAGSVAULT_PROGRAM_ID'')"

record swap_chain =
  sc_swap_tx :: string
  sc_deposit_tx :: string
  sc_swap_quote :: dict
  sc_deposit_program_id :: string
  sc_deposit_token_mint :: string

definition build_swap_chain ::
  "solders \<Rightarrow> settings \<Rightarrow> 'w bags_api \<Rightarrow> string \<Rightarrow> string \<Rightarrow> int \<Rightarrow> int \<Rightarrow> string \<Rightarrow> string
     \<Rightarrow> (swap_chain, 'w) io" where
  "build_swap_chain sol cfg bags input_mint output_mint amount_in slippage_bps depositor_pubkey commitment_hex =
     andthen (pure (chain_program_id sol cfg)) (\<lambda>program_id.
     andthen (pure (decode_pubkey sol depositor_pubkey ''depositor_pubkey'')) (\<lambda>depositor.
     andthen (pure (decode_pubkey sol output_mint ''output_mint'')) (\<lambda>token_mint.
     andthen (pure (hex_to_bytes32_swap commitment_hex ''commitment_hex'')) (\<lambda>commitment.
     andthen (get_swap_quote bags input_mint output_mint amount_in slippage_bps) (\<lambda>swap_raw.
     andthen (pure (extract_swap_tx_b64 swap_raw)) (\<lambda>swap_tx_b64.
     andthen (pure (build_deposit_ix_swap sol program_id token_mint depositor commitment)) (\<lambda>deposit_ix.
     andthen (pure (serialize_unsigned_tx sol deposit_ix depositor)) (\<lambda>deposit_tx_b64.
     ret \<lparr>sc_swap_tx = swap_tx_b64, sc_deposit_tx = deposit_tx_b64, sc_swap_quote = swap_raw,
          sc_deposit_program_id = pubkey_str sol program_id,
          sc_deposit_token_mint = pubkey_str sol token_mint\<rparr>))))))))"

record claim_chain =
  cc_claim_txs :: "string list"
  cc_deposit_tx :: string
  cc_claim_raw :: dict
  cc_deposit_program_id :: string
  cc_deposit_token_mint :: string
  cc_claim_creator :: string

definition build_claim_chain ::
  "(json \<Rightarrow> string) \<Rightarrow> solders \<Rightarrow> settings \<Rightarrow> 'w bags_api \<Rightarrow> string \<Rightarrow> string \<Rightarrow> string
     \<Rightarrow> (claim_chain, 'w) io" where
  "build_claim_chain fmt sol cfg bags creator_wallet token_mint commitment_hex =
     andthen (pure (chain_program_id sol cfg)) (\<lambda>program_id.
     andthen (pure (decode_pubkey sol creator_wallet ''creator_wallet'')) (\<lambda>creator_pubkey.
     andthen (pure (decode_pubkey sol token_mint ''token_mint'')) (\<lambda>token_mint_pubkey.
     andthen (pure (hex_to_bytes32_swap commitment_hex ''commitment_hex'')) (\<lambda>commitment.
     andthen (build_claim_tx bags creator_wallet (Some token_mint)) (\<lambda>claim_raw.
       let claim_txs = extract_unsigned_txs fmt claim_raw in
     andthen (pure (if claim_txs = []
                    then Inl (Domain ServiceUnavailableError
                      ''Bags claim response did not include any unsigned transactions.''
                      [(''upstream'', JStr ''bags''), (''keys'', sorted_keys claim_raw)])
                    else Inr ())) (\<lambda>_.
     andthen (pure (build_deposit_ix_swap sol program_id token_mint_pubkey creator_pubkey commitment)) (\<lambda>deposit_ix.
     andthen (pure (serialize_unsigned_tx sol deposit_ix creator_pubkey)) (\<lambda>deposit_tx_b64.
     ret \<lparr>cc_claim_txs = claim_txs, cc_deposit_tx = deposit_tx_b64, cc_claim_raw = claim_raw,
          cc_deposit_program_id = pubkey_str sol program_id,
          cc_deposit_token_mint = pubkey_str sol token_mint_pubkey,
          cc_claim_creator = pubkey_str sol creator_pubkey\<rparr>))))))))"

section \<open>Lemmas\<close>

lemma length_deposit_sighash [simp, byte_simps]: "length DEPOSIT_SIGHASH = 8"
  by (simp add: DEPOSIT_SIGHASH_def)

lemma hex_to_bytes32_length: "hex_to_bytes32 v l = Inr c \<Longrightarrow> length c = 32"
  by (auto simp: hex_to_bytes32_def pad32_fold res_simps)

lemma hex_to_bytes32_swap_length: "hex_to_bytes32_swap v l = Inr c \<Longrightarrow> length c = 32"
  by (auto simp: hex_to_bytes32_swap_def pad32_fold res_simps split: if_splits)

lemma build_deposit_ix_ok [simp]:
  "length c = 32 \<Longrightarrow> build_deposit_ix sol pid dep vault tree c =
     Inr \<lparr>ix_program_id = pid, accounts = deposit_accounts dep vault tree (system_key sol),
          data = DEPOSIT_SIGHASH @ c\<rparr>"
  by (simp add: build_deposit_ix_def)

text \<open>An abstract reading of a deposit instruction: what the program's handler takes from it.\<close>

definition is_deposit_of :: "pubkey \<Rightarrow> pubkey \<Rightarrow> bytes \<Rightarrow> instruction \<Rightarrow> bool" where
  "is_deposit_of pid dep c ix \<longleftrightarrow>
     ix_program_id ix = pid \<and> data ix = DEPOSIT_SIGHASH @ c \<and> length c = 32 \<and>
     length (accounts ix) = 4 \<and> hd (accounts ix) = signer_meta dep \<and>
     map pubkey (filter is_signer (accounts ix)) = [dep]"

lemma build_deposit_ix_is: "build_deposit_ix sol pid dep vault tree c = Inr ix \<Longrightarrow> is_deposit_of pid dep c ix"
  by (auto simp: build_deposit_ix_def is_deposit_of_def deposit_accounts_def signer_meta_def writable_meta_def
      readonly_meta_def split: if_splits)

lemma build_deposit_ix_swap_is: "build_deposit_ix_swap sol pid mint dep c = Inr ix \<Longrightarrow> is_deposit_of pid dep c ix"
  by (auto simp: build_deposit_ix_swap_def is_deposit_of_def deposit_accounts_def signer_meta_def writable_meta_def
      readonly_meta_def Let_def split: if_splits prod.splits)

section \<open>Properties\<close>

text \<open>One deposit instruction, two builders. With the system program's address read the same way by both, the
  deposit endpoint and the swap chain build the identical instruction from a commitment of at
  most 32 bytes, which keeps its value as a number. From a longer one the swap chain answers 400,
  while the deposit endpoint builds an instruction for the last 32 bytes, a different commitment.\<close>

theorem deposit_builders_agree:
  assumes "pubkey_from_string sol SYSTEM_PROGRAM_ID = Inr (system_program_id sol)"
    and "hex_to_bytes h label = Inr raw"
  shows "if length raw \<le> 32
         then \<exists>c ix. hex_to_bytes32 h label = Inr c \<and> hex_to_bytes32_swap h label = Inr c
                \<and> be_nat c = be_nat raw
                \<and> build_deposit_ix sol pid dep (fst (derive_deposit_pdas sol pid mint))
                    (snd (derive_deposit_pdas sol pid mint)) c = Inr ix
                \<and> build_deposit_ix_swap sol pid mint dep c = Inr ix
         else hex_to_bytes32 h label = Inr (drop (length raw - 32) raw)
                \<and> (\<exists>e. hex_to_bytes32_swap h label = Inl e \<and> map_option fst (bagsvault_handler e) = Some 400)"
proof (cases "length raw \<le> 32")
  case True
  have "system_key sol = system_program_id sol" using assms(1) by (simp add: system_key_def const_pubkey_def)
  with True assms(2) show ?thesis
    by (simp add: hex_to_bytes32_def hex_to_bytes32_swap_def pad32_fold pad32_value build_deposit_ix_def
        build_deposit_ix_swap_def split: prod.split)
next
  case False
  with assms(2) show ?thesis
    by (simp add: hex_to_bytes32_def hex_to_bytes32_swap_def pad32_fold pad32_long)
qed

theorem deposit_builders_agree_witness:
  "\<exists>e. hex_to_bytes32 (to_hex (replicate 33 7)) ''commitment'' = Inr (replicate 32 7)
     \<and> hex_to_bytes32_swap (to_hex (replicate 33 7)) ''commitment'' = Inl e
     \<and> map_option fst (bagsvault_handler e) = Some 400"
proof -
  let ?sol = "demo_solders\<lparr>system_program_id := ascii SYSTEM_PROGRAM_ID\<rparr>"
  have "pubkey_from_string ?sol SYSTEM_PROGRAM_ID = Inr (system_program_id ?sol)"
    by (simp add: demo_solders_def SYSTEM_PROGRAM_ID_def)
  from deposit_builders_agree [OF this hex_to_bytes_to_hex(1), of "replicate 33 7" "''commitment''"]
  show ?thesis by simp
qed

text \<open>The deposit transaction is what the response says. When \<open>build_unsigned_tx\<close> returns, the base64 text
  decodes to a transaction with only empty signatures, whose message was compiled for the
  depositor as payer from one deposit instruction, against the blockhash in the response; the
  commitment in the response is the hex text of the 32 bytes in that instruction, and the amount
  does not enter the transaction.\<close>

theorem unsigned_tx_matches_response:
  assumes "build_unsigned_tx sol cfg rpc commitment_hex amount depositor token w = (Inr t, w')"
  shows "\<exists>pid dep c ix h msg.
           is_deposit_of pid dep c ix
         \<and> hash_from_string sol (dt_blockhash t) = Inr h
         \<and> try_compile sol dep [ix] h = Inr msg
         \<and> b64decode (dt_tx_base64 t) = Some (tx_populate sol msg (num_required_signatures sol msg))
         \<and> unhexlify (dt_commitment t) = Some c
         \<and> hex_to_bytes32 commitment_hex ''commitment'' = Inr c
         \<and> dt_program_id t = pubkey_str sol pid \<and> dt_depositor t = pubkey_str sol dep
         \<and> build_unsigned_tx sol cfg rpc commitment_hex amount2 depositor token w = (Inr (t\<lparr>dt_amount := amount2\<rparr>), w')"
proof -
  from assms obtain pid c mint dep ix bh h msg w1 where
    1: "deposit_program_id sol cfg = Inr pid" "hex_to_bytes32 commitment_hex ''commitment'' = Inr c"
    "resolve_token_mint_deposit sol token = Inr mint" "depositor_key sol depositor = Inr dep" and
    2: "build_deposit_ix sol pid dep (fst (find_program_address sol [VAULT_SEED, mint] pid))
         (fst (find_program_address sol [MERKLE_TREE_SEED, mint] pid)) c = Inr ix" and
    3: "fetch_blockhash rpc w = (Inr bh, w1)" "parse_blockhash sol bh = Inr h"
    "try_compile sol dep [ix] h = Inr msg" and
    t: "w' = w1" "t = \<lparr>dt_tx_base64 = b64encode (tx_populate sol msg (num_required_signatures sol msg)),
          dt_blockhash = bh, dt_tree_state_pda = pubkey_str sol (fst (find_program_address sol [MERKLE_TREE_SEED, mint] pid)),
          dt_vault_pda = pubkey_str sol (fst (find_program_address sol [VAULT_SEED, mint] pid)),
          dt_program_id = pubkey_str sol pid,
          dt_depositor = pubkey_str sol dep, dt_amount = amount,
          dt_token = token, dt_commitment = to_hex c\<rparr>"
    unfolding build_unsigned_tx_def Let_def by (auto elim!: andthen_InrE)
  have "build_unsigned_tx sol cfg rpc commitment_hex amount2 depositor token w = (Inr (t\<lparr>dt_amount := amount2\<rparr>), w')"
    using 1 2 3 t by (simp add: build_unsigned_tx_def Let_def andthen_def)
  moreover have "hash_from_string sol bh = Inr h" using 3(2) by (simp add: parse_blockhash_def split: sum.splits)
  ultimately show ?thesis using build_deposit_ix_is [OF 2] 1(2) 3(3) t(2) by (intro exI conjI) auto
qed

definition demo_node :: "unit rpc" where
  "demo_node = \<lparr>latest_blockhash = ret (JObj [(''blockhash'', JStr ''bh'')]), send_tx = (\<lambda>tx b. ret ''sig''),
     simulate_tx = (\<lambda>tx b. ret []), signature_statuses = (\<lambda>sigs h. ret []),
     transaction = (\<lambda>x. ret None), account_info = (\<lambda>p e. ret None)\<rparr>"

definition demo_settings :: settings where
  "demo_settings = default_settings\<lparr>bagsvault_program_id := replicate 32 CHR ''p''\<rparr>"

lemma demo_unsigned_tx:
  "\<exists>t. build_unsigned_tx demo_solders demo_settings demo_node (to_hex (replicate 32 7)) 5 (Inl (replicate 32 1)) ''SOL'' () = (Inr t, ())"
proof -
  have 1: "deposit_program_id demo_solders demo_settings = Inr (ascii (replicate 32 CHR ''p''))"
    by (simp add: deposit_program_id_def demo_settings_def demo_solders_def)
  have 2: "hex_to_bytes32 (to_hex (replicate 32 7)) ''commitment'' = Inr (replicate 32 7)"
    by (simp add: hex_to_bytes32_def pad32_fold)
  have 3: "resolve_token_mint_deposit demo_solders ''SOL'' = Inr (system_key demo_solders)"
    by (simp add: resolve_token_mint_deposit_def SOL_TOKEN_SENTINEL_def)
  have 4: "fetch_blockhash demo_node () = (Inr ''bh'', ())"
    by (simp add: fetch_blockhash_def demo_node_def wrap_foreign_def catching_def andthen_def coerce_blockhash_def jget_def)
  have 5: "parse_blockhash demo_solders ''bh'' = Inr (ascii ''bh'')" "depositor_key demo_solders (Inl p) = Inr p" for p
    by (simp_all add: parse_blockhash_def demo_solders_def depositor_key_def)
  have 6: "try_compile demo_solders p ixs h = Inr (p @ concat (map data ixs) @ h)" for p ixs h
    by (simp add: demo_solders_def)
  show ?thesis by (simp add: build_unsigned_tx_def Let_def andthen_def 1 2 3 4 5 6)
qed

theorem unsigned_tx_matches_response_witness:
  "\<exists>t. build_unsigned_tx demo_solders demo_settings demo_node (to_hex (replicate 32 7)) 5 (Inl (replicate 32 1)) ''SOL'' () = (Inr t, ())
     \<and> unhexlify (dt_commitment t) = Some (replicate 32 7)"
proof -
  obtain t where t: "build_unsigned_tx demo_solders demo_settings demo_node (to_hex (replicate 32 7)) 5 (Inl (replicate 32 1)) ''SOL'' () = (Inr t, ())"
    using demo_unsigned_tx by blast
  have "hex_to_bytes32 (to_hex (replicate 32 7)) ''commitment'' = Inr (replicate 32 7)"
    by (simp add: hex_to_bytes32_def pad32_fold)
  with unsigned_tx_matches_response [OF t] t show ?thesis by auto
qed

end
