(* ===== verification/RestClients.thy ===== *)
theory RestClients
  imports DepositBuilder
begin

text \<open>
  The two REST clients: \<open>backend/app/clients/bags_api.py\<close> and
  \<open>backend/app/clients/range_risk.py\<close>. The HTTP transport is a parameter; a client is a
  record and its methods run on the pair of the record and the rest of the world.
  The locale states what the services rely on; the Bags client provides it.
\<close>

section \<open>The client objects\<close>

record rest_client =
  rest_url :: string
  rest_key :: string
  rest_timeout :: "rat list"
  rest_open :: bool

definition REST_TIMEOUT :: "rat list" where
  "REST_TIMEOUT = [10, 30, 10, 10]"

definition new_rest_client ::
  "string \<Rightarrow> string \<Rightarrow> string option \<Rightarrow> string option \<Rightarrow> rat list option \<Rightarrow> rest_client" where
  "new_rest_client cfg_url cfg_key base_url api_key timeout =
     \<lparr>rest_url = rstrip_slash (case base_url of Some u \<Rightarrow> if u \<noteq> [] then u else cfg_url | None \<Rightarrow> cfg_url),
      rest_key = (case api_key of Some k \<Rightarrow> k | None \<Rightarrow> cfg_key),
      rest_timeout = (case timeout of Some t \<Rightarrow> t | None \<Rightarrow> REST_TIMEOUT), rest_open = False\<rparr>"

definition new_bags_client :: "settings \<Rightarrow> string option \<Rightarrow> string option \<Rightarrow> rat list option \<Rightarrow> rest_client" where
  "new_bags_client cfg = new_rest_client (bags_api_base_url cfg) (bags_api_key cfg)"

definition new_range_client :: "settings \<Rightarrow> string option \<Rightarrow> string option \<Rightarrow> rat list option \<Rightarrow> rest_client" where
  "new_range_client cfg = new_rest_client (range_api_base_url cfg) (range_api_key cfg)"

text \<open>A request as it leaves the client: base URL, headers, verb, path, JSON body and query.\<close>

record rest_request =
  rr_base :: string
  rr_headers :: "(string \<times> string) list"
  rr_verb :: string
  rr_path :: string
  rr_json :: "dict option"
  rr_params :: "dict option"

type_synonym 'w rest_transport = "rest_request \<Rightarrow> (http_response, 'w) io"

text \<open>
  \<open>_get_client\<close> opens the connection pool with its headers on first use; \<open>headers\<close> are
  those of the client. \<open>httpx.HTTPError\<close> is handed to \<open>on_http_error\<close> as its text, any
  other exception escapes.
\<close>

definition http_send ::
  "'w rest_transport \<Rightarrow> (rest_client \<Rightarrow> (string \<times> string) list) \<Rightarrow> string \<Rightarrow> string \<Rightarrow> dict option \<Rightarrow> dict option
     \<Rightarrow> (string + http_response, rest_client \<times> 'w) io" where
  "http_send send headers verb path json params p =
     (let c = (fst p)\<lparr>rest_open := True\<rparr> in
      case send \<lparr>rr_base = rest_url c, rr_headers = headers c, rr_verb = verb, rr_path = path,
             rr_json = json, rr_params = params\<rparr> (snd p) of
        (Inr response, w) \<Rightarrow> (Inr (Inr response), c, w)
      | (Inl (Other t m), w) \<Rightarrow> (if t \<in> set http_errors then (Inr (Inl m), c, w) else (Inl (Other t m), c, w))
      | (Inl e, w) \<Rightarrow> (Inl e, c, w))"

definition rest_aclose :: "(unit, rest_client \<times> 'w) io" where
  "rest_aclose p = (Inr (), (fst p)\<lparr>rest_open := False\<rparr>, snd p)"

definition need_key :: "exn \<Rightarrow> (unit, rest_client \<times> 'w) io" where
  "need_key e p = (if rest_key (fst p) = [] then (Inl e, p) else (Inr (), p))"

text \<open>
  The shape of a call in both clients: the key is needed, the request is sent, a
  transport error is translated and a response is read.
\<close>

definition keyed_request ::
  "exn \<Rightarrow> (rest_client \<Rightarrow> (string \<times> string) list) \<Rightarrow> (string \<Rightarrow> exn) \<Rightarrow> (http_response \<Rightarrow> dict res)
     \<Rightarrow> 'w rest_transport \<Rightarrow> string \<Rightarrow> string \<Rightarrow> dict option \<Rightarrow> dict option \<Rightarrow> (dict, rest_client \<times> 'w) io" where
  "keyed_request missing headers unreachable read send verb path json params =
     andthen (need_key missing) (\<lambda>_.
     andthen (http_send send headers verb path json params) (\<lambda>r.
       case r of Inl m \<Rightarrow> throw (unreachable m) | Inr response \<Rightarrow> pure (read response)))"

section \<open>Bags\<close>

definition bags_not_configured :: exn where
  "bags_not_configured = Domain ServiceUnavailableError
     ''Bags API is not configured. Set the BAGS_API_KEY env variable to enable token / fee / swap integrations.''
     [(''missing_env'', JStr ''BAGS_API_KEY'')]"

definition bags_headers :: "rest_client \<Rightarrow> (string \<times> string) list" where
  "bags_headers c =
     [(''Accept'', ''application/json''), (''User-Agent'', ''bagsvault-backend/0.1'')] @
     (if rest_key c = [] then [] else [(''Authorization'', ''Bearer '' @ rest_key c)])"

definition bags_read :: "string \<Rightarrow> http_response \<Rightarrow> dict res" where
  "bags_read path response =
     (if 400 \<le> http_status response
      then Inl (upstream (''Bags API returned HTTP '' @ int_str (http_status response) @ ''.'')
             [(''upstream'', JStr ''bags''), (''path'', JStr path), (''status_code'', JInt (http_status response)),
              (''body'', JStr (take 1000 (http_text response)))])
      else if http_text response = [] then Inr []
      else case http_json response of
             None \<Rightarrow> Inl (upstream ''Bags API returned a non-JSON body.''
                       [(''upstream'', JStr ''bags''), (''path'', JStr path), (''body'', JStr (take 500 (http_text response)))])
           | Some (JList xs) \<Rightarrow> Inr [(''data'', JList xs)]
           | Some (JObj d) \<Rightarrow> Inr d
           | Some j \<Rightarrow> Inl (upstream ''Bags API returned an unexpected JSON shape.''
                         [(''upstream'', JStr ''bags''), (''path'', JStr path), (''type'', JStr (json_type_name j))]))"

definition bags_request ::
  "'w rest_transport \<Rightarrow> string \<Rightarrow> string \<Rightarrow> dict option \<Rightarrow> dict option \<Rightarrow> (dict, rest_client \<times> 'w) io" where
  "bags_request send verb path json params =
     keyed_request bags_not_configured bags_headers
       (\<lambda>m. upstream ''Failed to reach Bags API.''
              [(''upstream'', JStr ''bags''), (''path'', JStr path), (''error'', JStr m)])
       (bags_read path) send verb path json params"

definition bags_client_ping :: "'w rest_transport \<Rightarrow> (dict, rest_client \<times> 'w) io" where
  "bags_client_ping send p =
     (if rest_key (fst p) = []
      then ret [(''reachable'', JBool False), (''configured'', JBool False), (''error'', JStr ''BAGS_API_KEY not set'')] p
      else andthen (http_send send bags_headers ''GET'' ''/'' None None) (\<lambda>r.
        case r of
          Inl m \<Rightarrow> ret [(''reachable'', JBool False), (''configured'', JBool True), (''error'', JStr m)]
        | Inr response \<Rightarrow> ret [(''reachable'', JBool True), (''configured'', JBool True),
                              (''status_code'', JInt (http_status response))]) p)"

definition opt_field :: "string \<Rightarrow> string option \<Rightarrow> dict" where
  "opt_field k v = (case v of None \<Rightarrow> [] | Some s \<Rightarrow> if s = [] then [] else [(k, JStr s)])"

definition bags_claimable_fees :: "'w rest_transport \<Rightarrow> string \<Rightarrow> string option \<Rightarrow> (dict, rest_client \<times> 'w) io" where
  "bags_claimable_fees send wallet mint =
     bags_request send ''GET'' ''/token-launch/claimable/v3'' None
       (Some ((''wallet'', JStr wallet) # opt_field ''tokenMint'' mint))"

definition bags_claim_tx :: "'w rest_transport \<Rightarrow> string \<Rightarrow> string option \<Rightarrow> (dict, rest_client \<times> 'w) io" where
  "bags_claim_tx send wallet mint =
     bags_request send ''POST'' ''/token-launch/claim-txs/v3''
       (Some ((''wallet'', JStr wallet) # opt_field ''tokenMint'' mint)) None"

definition bags_swap_quote :: "'w rest_transport \<Rightarrow> string \<Rightarrow> string \<Rightarrow> int \<Rightarrow> int \<Rightarrow> (dict, rest_client \<times> 'w) io" where
  "bags_swap_quote send input_mint output_mint amount slippage_bps =
     bags_request send ''POST'' ''/trade/swap''
       (Some [(''inputMint'', JStr input_mint), (''outputMint'', JStr output_mint), (''amount'', JInt amount),
              (''slippageBps'', JInt slippage_bps)]) None"

definition bags_fee_share :: "'w rest_transport \<Rightarrow> string \<Rightarrow> (dict, rest_client \<times> 'w) io" where
  "bags_fee_share send mint = bags_request send ''GET'' (''/fee-share/v2/'' @ mint) None None"

definition bags_token_metadata :: "'w rest_transport \<Rightarrow> string \<Rightarrow> (dict, rest_client \<times> 'w) io" where
  "bags_token_metadata send mint = bags_request send ''GET'' (''/token-launch/'' @ mint) None None"

definition bags_token_launch ::
  "'w rest_transport \<Rightarrow> string \<Rightarrow> string \<Rightarrow> int \<Rightarrow> int \<Rightarrow> string \<Rightarrow> string option \<Rightarrow> (dict, rest_client \<times> 'w) io" where
  "bags_token_launch send name symbol decimals supply authority metadata_uri =
     bags_request send ''POST'' ''/token-launch/build''
       (Some ([(''name'', JStr name), (''symbol'', JStr symbol), (''decimals'', JInt decimals), (''supply'', JInt supply),
               (''authority'', JStr authority)] @ opt_field ''metadataUri'' metadata_uri)) None"

text \<open>The client as the services see it.\<close>

definition bags_of :: "'w rest_transport \<Rightarrow> (rest_client \<times> 'w) bags_api" where
  "bags_of send = \<lparr>bags_ping = bags_client_ping send, build_claim_tx = bags_claim_tx send,
     get_claimable_fees = bags_claimable_fees send, get_swap_quote = bags_swap_quote send,
     get_fee_share = bags_fee_share send\<rparr>"

section \<open>Range\<close>

definition range_not_configured :: exn where
  "range_not_configured = Domain ServiceUnavailableError
     ''Range Risk API is not configured. Set the RANGE_API_KEY env variable to enable wallet risk scoring.''
     [(''missing_env'', JStr ''RANGE_API_KEY'')]"

definition range_headers :: "rest_client \<Rightarrow> (string \<times> string) list" where
  "range_headers c = [(''Authorization'', ''Bearer '' @ rest_key c), (''Accept'', ''application/json''),
     (''User-Agent'', ''bagsvault-backend/0.1'')]"

definition range_read :: "http_response \<Rightarrow> dict res" where
  "range_read response =
     (if 400 \<le> http_status response
      then Inl (upstream (''Range Risk API returned HTTP '' @ int_str (http_status response) @ ''.'')
             [(''upstream'', JStr ''range''), (''status_code'', JInt (http_status response)),
              (''body'', JStr (take 1000 (http_text response)))])
      else case http_json response of
             None \<Rightarrow> Inl (upstream ''Range Risk API returned a non-JSON body.''
                       [(''upstream'', JStr ''range''), (''body'', JStr (take 500 (http_text response)))])
           | Some (JObj d) \<Rightarrow> Inr d
           | Some j \<Rightarrow> Inl (upstream ''Range Risk API returned an unexpected JSON shape.''
                         [(''upstream'', JStr ''range''), (''type'', JStr (json_type_name j))]))"

definition scan_address :: "'w rest_transport \<Rightarrow> string \<Rightarrow> (dict, rest_client \<times> 'w) io" where
  "scan_address send address =
     keyed_request range_not_configured range_headers
       (\<lambda>m. upstream ''Failed to reach Range Risk API.'' [(''upstream'', JStr ''range''), (''error'', JStr m)])
       range_read send ''POST'' ''/v1/risk/score''
       (Some [(''chain'', JStr ''solana''), (''address'', JStr address)]) None"

section \<open>The contract of a Bags client\<close>

definition service_error :: "exn \<Rightarrow> bool" where
  "service_error e \<longleftrightarrow>
     (case e of Domain c _ _ \<Rightarrow> c = UpstreamError \<or> c = ServiceUnavailableError | Other _ _ \<Rightarrow> False)"

lemma service_error_simps [simp]:
  "service_error (Domain c m d) \<longleftrightarrow> c = UpstreamError \<or> c = ServiceUnavailableError"
  "service_error (upstream m d)" "\<not> service_error (Other t m)"
  "service_error bags_not_configured" "service_error range_not_configured"
  by (simp_all add: service_error_def upstream_def bags_not_configured_def range_not_configured_def)

text \<open>
  \<open>configured\<close> tells whether the client has a key in a world. Without a key every call
  raises the same error and changes nothing, and the probe says so. With one, a call
  raises 502 or 503 or lets through what \<open>foreign\<close> admits.
\<close>

locale bags_contract =
  fixes api :: "'w bags_api" and configured :: "'w \<Rightarrow> bool" and foreign :: "exn \<Rightarrow> bool"
  assumes claim_offline: "\<not> configured w \<Longrightarrow> build_claim_tx api a m w = (Inl bags_not_configured, w)"
    and fees_offline: "\<not> configured w \<Longrightarrow> get_claimable_fees api a m w = (Inl bags_not_configured, w)"
    and quote_offline: "\<not> configured w \<Longrightarrow> get_swap_quote api i j n b w = (Inl bags_not_configured, w)"
    and share_offline: "\<not> configured w \<Longrightarrow> get_fee_share api t w = (Inl bags_not_configured, w)"
    and ping_offline: "\<not> configured w \<Longrightarrow>
      \<exists>d. bags_ping api w = (Inr d, w) \<and> jget d ''configured'' = JBool False \<and> jget d ''reachable'' = JBool False"
    and claim_error: "build_claim_tx api a m w = (Inl e, w') \<Longrightarrow> service_error e \<or> foreign e"
    and fees_error: "get_claimable_fees api a m w = (Inl e, w') \<Longrightarrow> service_error e \<or> foreign e"
    and quote_error: "get_swap_quote api i j n b w = (Inl e, w') \<Longrightarrow> service_error e \<or> foreign e"
    and share_error: "get_fee_share api t w = (Inl e, w') \<Longrightarrow> service_error e \<or> foreign e"
begin

lemma services_offline:
  assumes "\<not> configured w"
  shows "swap_quote api i j n b w = (Inl bags_not_configured, w)"
    and "fee_share api t w = (Inl bags_not_configured, w)"
    and "claim_fees fmt api a m w = (Inl bags_not_configured, w)"
    and "\<exists>d. bags_health api w = (Inr (''unconfigured'', d), w)"
proof -
  show "swap_quote api i j n b w = (Inl bags_not_configured, w)" "fee_share api t w = (Inl bags_not_configured, w)"
    using assms by (simp_all add: swap_quote_def fee_share_def quote_offline share_offline)
  show "claim_fees fmt api a m w = (Inl bags_not_configured, w)"
    using assms by (simp add: claim_fees_def andthen_def claim_offline)
  show "\<exists>d. bags_health api w = (Inr (''unconfigured'', d), w)"
    using ping_offline [OF assms] by (auto simp: bags_health_def andthen_def)
qed

text \<open>The chains validate their arguments first; none of that has an effect.\<close>

lemma chains_offline:
  assumes "\<not> configured w"
  shows "\<exists>e. build_swap_chain sol cfg api i j n b k c w = (Inl e, w)"
    and "\<exists>e. build_claim_chain fmt sol cfg api a m c w = (Inl e, w)"
  using assms
  by (auto simp: build_swap_chain_def build_claim_chain_def andthen_def quote_offline claim_offline Let_def
      split: sum.split)

lemma services_errors:
  shows "swap_quote api i j n b w = (Inl e, w') \<Longrightarrow> service_error e \<or> foreign e"
    and "fee_share api t w = (Inl e, w') \<Longrightarrow> service_error e \<or> foreign e"
    and "claim_fees fmt api a m w = (Inl e, w') \<Longrightarrow> service_error e \<or> foreign e"
proof -
  show "swap_quote api i j n b w = (Inl e, w') \<Longrightarrow> service_error e \<or> foreign e"
    by (simp add: swap_quote_def quote_error)
  show "fee_share api t w = (Inl e, w') \<Longrightarrow> service_error e \<or> foreign e"
    by (simp add: fee_share_def share_error)
  assume "claim_fees fmt api a m w = (Inl e, w')"
  then have "build_claim_tx api a m w = (Inl e, w')"
    unfolding claim_fees_def
    by (auto simp: andthen_def catching_def Let_def split: sum.splits prod.splits if_splits)
  then show "service_error e \<or> foreign e" by (rule claim_error)
qed

end

section \<open>The clients keep it\<close>

definition send_escapes :: "'w rest_transport \<Rightarrow> exn \<Rightarrow> bool" where
  "send_escapes send e \<longleftrightarrow> (\<exists>q w w'. send q w = (Inl e, w'))
     \<and> (case e of Other t _ \<Rightarrow> t \<notin> set http_errors | Domain _ _ _ \<Rightarrow> True)"

lemma bags_read_Inl: "bags_read path r = Inl e \<Longrightarrow> service_error e"
  by (auto simp: bags_read_def split: if_splits option.splits json.splits)

lemma range_read_Inl: "range_read r = Inl e \<Longrightarrow> service_error e"
  by (auto simp: range_read_def split: if_splits option.splits json.splits)

lemma keyed_request_offline:
  "rest_key (fst w) = [] \<Longrightarrow> keyed_request missing h u read send v p j q w = (Inl missing, w)"
  by (simp add: keyed_request_def andthen_def need_key_def)

lemma keyed_request_online:
  assumes "keyed_request missing h u read send v p j q (c, w) = (r, c', w')" and "rest_key c \<noteq> []"
  obtains res where "c' = c\<lparr>rest_open := True\<rparr>"
    "send \<lparr>rr_base = rest_url c, rr_headers = h (c\<lparr>rest_open := True\<rparr>), rr_verb = v, rr_path = p, rr_json = j,
       rr_params = q\<rparr> w = (res, w')"
    "r = (case res of Inr resp \<Rightarrow> read resp
          | Inl (Other t m) \<Rightarrow> Inl (if t \<in> set http_errors then u m else Other t m) | Inl e \<Rightarrow> Inl e)"
  using assms
  by (auto simp: keyed_request_def andthen_def need_key_def http_send_def Let_def
      split: prod.splits sum.splits exn.splits if_splits)

lemma keyed_request_Inl:
  assumes "keyed_request missing h u read send v p j q w = (Inl e, w')"
    and "service_error missing" "\<And>m. service_error (u m)" "\<And>x e. read x = Inl e \<Longrightarrow> service_error e"
  shows "service_error e \<or> send_escapes send e"
proof (cases "rest_key (fst w) = []")
  case True
  with assms(1,2) keyed_request_offline [OF True] show ?thesis by auto
next
  case False
  obtain c v0 c' v' where w: "w = (c, v0)" "w' = (c', v')" by fastforce
  with False have "rest_key c \<noteq> []" by simp
  from keyed_request_online [OF assms(1) [unfolded w] this] obtain res where
    sent: "send \<lparr>rr_base = rest_url c, rr_headers = h (c\<lparr>rest_open := True\<rparr>), rr_verb = v, rr_path = p, rr_json = j,
       rr_params = q\<rparr> v0 = (res, v')"
    and r: "Inl e = (case res of Inr resp \<Rightarrow> read resp
          | Inl (Other t m) \<Rightarrow> Inl (if t \<in> set http_errors then u m else Other t m) | Inl e \<Rightarrow> Inl e)" .
  show ?thesis
  proof (cases res)
    case (Inr resp)
    with r have "read resp = Inl e" by simp
    then show ?thesis using assms(4) by blast
  next
    case (Inl x)
    show ?thesis
    proof (cases "\<exists>t m. x = Other t m \<and> t \<in> set http_errors")
      case True
      with r Inl have "\<exists>m. e = u m" by auto
      with assms(3) show ?thesis by blast
    next
      case False
      with r Inl have "e = x" by (cases x) auto
      with False Inl sent show ?thesis unfolding send_escapes_def by (cases x) auto
    qed
  qed
qed

lemma bags_request_offline:
  "rest_key (fst w) = [] \<Longrightarrow> bags_request send v p j q w = (Inl bags_not_configured, w)"
  unfolding bags_request_def by (rule keyed_request_offline)

lemma bags_request_Inl:
  "bags_request send v p j q w = (Inl e, w') \<Longrightarrow> service_error e \<or> send_escapes send e"
  unfolding bags_request_def by (erule keyed_request_Inl) (auto intro: bags_read_Inl)

lemma scan_address_offline:
  "rest_key (fst w) = [] \<Longrightarrow> scan_address send a w = (Inl range_not_configured, w)"
  unfolding scan_address_def by (rule keyed_request_offline)

lemma scan_address_Inl:
  "scan_address send a w = (Inl e, w') \<Longrightarrow> service_error e \<or> send_escapes send e"
  unfolding scan_address_def by (erule keyed_request_Inl) (auto intro: range_read_Inl)

lemmas bags_calls = bags_claim_tx_def bags_claimable_fees_def bags_swap_quote_def bags_fee_share_def
  bags_token_metadata_def bags_token_launch_def

interpretation bags: bags_contract "bags_of send" "\<lambda>w. rest_key (fst w) \<noteq> []" "send_escapes send" for send
  by unfold_locales
     (auto simp: bags_of_def bags_calls bags_client_ping_def jget_def intro: bags_request_offline dest: bags_request_Inl)

section \<open>Properties\<close>

text \<open>Without a key nothing is sent. When the Bags key is empty, quote, fee share, claim and both chain builders
  raise and leave client, transport and world untouched, the first three with the 503 that names the
  variable to set, and the health check answers \<open>unconfigured\<close>; a Range scan
  without its key does the same. No call is answered from anything but the transport.\<close>

theorem unconfigured_sends_nothing:
  assumes "rest_key c = []"
  shows "swap_quote (bags_of send) i j n b (c, w) = (Inl bags_not_configured, c, w)
       \<and> fee_share (bags_of send) t (c, w) = (Inl bags_not_configured, c, w)
       \<and> claim_fees fmt (bags_of send) a m (c, w) = (Inl bags_not_configured, c, w)
       \<and> (\<exists>d. bags_health (bags_of send) (c, w) = (Inr (''unconfigured'', d), c, w))
       \<and> (\<exists>e. build_swap_chain sol cfg (bags_of send) i j n b k cm (c, w) = (Inl e, c, w))
       \<and> (\<exists>e. build_claim_chain fmt sol cfg (bags_of send) a m' cm (c, w) = (Inl e, c, w))
       \<and> scan_address send a (c, w) = (Inl range_not_configured, c, w)
       \<and> fst ` {the (bagsvault_handler bags_not_configured), the (bagsvault_handler range_not_configured)} = {503}"
proof -
  have off: "\<not> rest_key (fst (c, w)) \<noteq> []" using assms by simp
  show ?thesis
    using bags.services_offline [OF off] bags.chains_offline [OF off] scan_address_offline [of "(c, w)" send a] assms
    by (simp add: bags_not_configured_def range_not_configured_def)
qed

theorem unconfigured_sends_nothing_witness:
  "swap_quote (bags_of (\<lambda>q. throw overflow_error)) ''SOL'' ''X'' 5 50 (new_bags_client default_settings None None None, ())
     = (Inl bags_not_configured, new_bags_client default_settings None None None, ())"
proof -
  have "rest_key (new_bags_client default_settings None None None) = []"
    by (simp add: new_bags_client_def new_rest_client_def default_settings_def)
  from unconfigured_sends_nothing [OF this, of "\<lambda>q. throw overflow_error" "''SOL''" "''X''" 5 50 "()"]
  show ?thesis by (rule conjunct1)
qed

text \<open>What a call to a keyed client that returned looks like on the wire.\<close>

definition answered :: "'w rest_transport \<Rightarrow> rest_client \<Rightarrow> (http_response \<Rightarrow> bool) \<Rightarrow> 'w \<Rightarrow> 'w \<Rightarrow> bool" where
  "answered send c P w w' \<longleftrightarrow>
     (\<exists>q resp. send q w = (Inr resp, w') \<and> P resp \<and> http_status resp < 400 \<and> rr_base q = rest_url c \<and>
        (''Authorization'', ''Bearer '' @ rest_key c) \<in> set (rr_headers q))"

lemma bags_request_Inr:
  assumes "bags_request send v p j q (c, w) = (Inr d, c', w')"
  shows "rest_key c \<noteq> [] \<and> c' = c\<lparr>rest_open := True\<rparr> \<and>
    answered send c (\<lambda>resp. http_json resp = Some (JObj d) \<or>
      (\<exists>xs. http_json resp = Some (JList xs) \<and> d = [(''data'', JList xs)]) \<or> http_text resp = [] \<and> d = []) w w'"
proof -
  have k: "rest_key c \<noteq> []" using assms bags_request_offline [of "(c, w)" send v p j q] by auto
  from keyed_request_online [OF assms [unfolded bags_request_def] k] obtain res where
    c': "c' = c\<lparr>rest_open := True\<rparr>" and sent: "send \<lparr>rr_base = rest_url c, rr_headers = bags_headers (c\<lparr>rest_open := True\<rparr>),
      rr_verb = v, rr_path = p, rr_json = j, rr_params = q\<rparr> w = (res, w')"
    and r: "Inr d = (case res of Inr resp \<Rightarrow> bags_read p resp
          | Inl (Other t m) \<Rightarrow> Inl (if t \<in> set http_errors
               then upstream ''Failed to reach Bags API.'' [(''upstream'', JStr ''bags''), (''path'', JStr p), (''error'', JStr m)]
               else Other t m) | Inl e \<Rightarrow> Inl e)" .
  from r obtain resp where resp: "res = Inr resp" "bags_read p resp = Inr d"
    by (cases res) (auto split: exn.splits)
  then have "http_status resp < 400 \<and> (http_json resp = Some (JObj d) \<or>
      (\<exists>xs. http_json resp = Some (JList xs) \<and> d = [(''data'', JList xs)]) \<or> http_text resp = [] \<and> d = [])"
    by (auto simp: bags_read_def split: if_splits option.splits json.splits)
  moreover have "(''Authorization'', ''Bearer '' @ rest_key c) \<in> set (bags_headers (c\<lparr>rest_open := True\<rparr>))"
    using k by (simp add: bags_headers_def)
  ultimately show ?thesis using k c' sent resp(1) unfolding answered_def by fastforce
qed

lemma scan_address_Inr:
  assumes "scan_address send a (c, w) = (Inr d, c', w')"
  shows "rest_key c \<noteq> [] \<and> c' = c\<lparr>rest_open := True\<rparr> \<and> answered send c (\<lambda>resp. http_json resp = Some (JObj d)) w w'"
proof -
  have k: "rest_key c \<noteq> []" using assms scan_address_offline [of "(c, w)" send a] by auto
  from keyed_request_online [OF assms [unfolded scan_address_def] k] obtain res where
    c': "c' = c\<lparr>rest_open := True\<rparr>" and sent: "send \<lparr>rr_base = rest_url c, rr_headers = range_headers (c\<lparr>rest_open := True\<rparr>),
      rr_verb = ''POST'', rr_path = ''/v1/risk/score'', rr_json = Some [(''chain'', JStr ''solana''), (''address'', JStr a)],
      rr_params = None\<rparr> w = (res, w')"
    and r: "Inr d = (case res of Inr resp \<Rightarrow> range_read resp
          | Inl (Other t m) \<Rightarrow> Inl (if t \<in> set http_errors
               then upstream ''Failed to reach Range Risk API.'' [(''upstream'', JStr ''range''), (''error'', JStr m)]
               else Other t m) | Inl e \<Rightarrow> Inl e)" .
  from r obtain resp where resp: "res = Inr resp" "range_read resp = Inr d"
    by (cases res) (auto split: exn.splits)
  then have "http_status resp < 400 \<and> http_json resp = Some (JObj d)"
    by (auto simp: range_read_def split: if_splits option.splits json.splits)
  moreover have "(''Authorization'', ''Bearer '' @ rest_key c) \<in> set (range_headers (c\<lparr>rest_open := True\<rparr>))"
    by (simp add: range_headers_def)
  ultimately show ?thesis using k c' sent resp(1) unfolding answered_def by fastforce
qed

text \<open>C40. What reaches the callers. Every call of the Bags client and the Range scan raises only \<open>UpstreamError\<close>,
  \<open>ServiceUnavailableError\<close> or what the transport lets through beside the errors of httpx. An answer is the JSON object
  of a response below status 400 to a request that carried the client's key as bearer token; Bags arrays are
  wrapped and empty Bags bodies are empty objects. An answered call changes nothing of the client but that its
  connection pool is open.\<close>

theorem rest_calls_typed:
  assumes "f \<in> {bags_claim_tx send a m, bags_claimable_fees send a m, bags_swap_quote send a i n b,
                 bags_fee_share send a, bags_token_metadata send a, bags_token_launch send a i n b k m,
                 scan_address send a}"
    and "f (c, w) = (r, c', w')"
  shows "case r of
      Inl e \<Rightarrow> service_error e \<or> send_escapes send e
    | Inr d \<Rightarrow> rest_key c \<noteq> [] \<and> c' = c\<lparr>rest_open := True\<rparr> \<and>
        answered send c (\<lambda>resp. http_json resp = Some (JObj d) \<or>
          (\<exists>xs. http_json resp = Some (JList xs) \<and> d = [(''data'', JList xs)]) \<or> http_text resp = [] \<and> d = []) w w'"
proof (cases "f = scan_address send a")
  case True
  have "answered send c (\<lambda>resp. http_json resp = Some (JObj d)) w w' \<Longrightarrow>
      answered send c (\<lambda>resp. http_json resp = Some (JObj d) \<or>
        (\<exists>xs. http_json resp = Some (JList xs) \<and> d = [(''data'', JList xs)]) \<or> http_text resp = [] \<and> d = []) w w'" for d
    unfolding answered_def by blast
  with True assms(2) scan_address_Inl scan_address_Inr show ?thesis by (cases r) fastforce+
next
  case False
  with assms(1) obtain v p j q where "f = bags_request send v p j q" unfolding bags_calls by blast
  with assms(2) bags_request_Inl bags_request_Inr show ?thesis by (cases r) fastforce+
qed

definition demo_rest_client :: rest_client where
  "demo_rest_client = new_bags_client default_settings None (Some ''key'') None"

definition demo_send :: "unit rest_transport" where
  "demo_send q = ret \<lparr>http_status = 200, http_text = ''[1]'', http_json = Some (JList [JInt 1])\<rparr>"

theorem rest_calls_typed_witness:
  "\<exists>d c'. bags_fee_share demo_send ''M'' (demo_rest_client, ()) = (Inr d, c', ()) \<and> c' = demo_rest_client\<lparr>rest_open := True\<rparr>"
proof -
  have "rest_key demo_rest_client = ''key''"
    by (simp add: demo_rest_client_def new_bags_client_def new_rest_client_def)
  then obtain d c' where d: "bags_fee_share demo_send ''M'' (demo_rest_client, ()) = (Inr d, c', ())"
    by (simp add: bags_fee_share_def bags_request_def keyed_request_def andthen_def need_key_def http_send_def
        demo_send_def bags_read_def Let_def)
  have "bags_fee_share demo_send ''M'' \<in> {bags_claim_tx demo_send ''M'' None, bags_claimable_fees demo_send ''M'' None,
      bags_swap_quote demo_send ''M'' [] 0 0, bags_fee_share demo_send ''M'', bags_token_metadata demo_send ''M'',
      bags_token_launch demo_send ''M'' [] 0 0 [] None, scan_address demo_send ''M''}" by simp
  from rest_calls_typed [OF this d] d show ?thesis by auto
qed

end
