(* ===== verification/Compliance.thy ===== *)
theory Compliance
  imports RestClients Models
begin

text \<open>
  Wallet screening: \<open>backend/app/models/risk_scan.py\<close>, which normalises a Range answer, and
  \<open>backend/app/services/compliance_service.py\<close>, which caches the result. The text of a
  float and the rounding of a real number to a double are parameters.
\<close>

section \<open>Numbers\<close>

datatype pyfloat = Fin rat | NaN | Infinite

record floats =
  parse_float :: "string \<Rightarrow> pyfloat option"
  nearest :: "rat \<Rightarrow> rat"

text \<open>\<open>float(v)\<close>; an integer that rounds to \<open>2 ^ 1024\<close> or beyond does not fit.\<close>

definition to_pyfloat :: "floats \<Rightarrow> json \<Rightarrow> pyfloat res" where
  "to_pyfloat fl v =
     (case v of
        JBool b \<Rightarrow> Inr (Fin (if b then 1 else 0))
      | JInt i \<Rightarrow> if 2 ^ 1024 - 2 ^ 970 \<le> \<bar>i\<bar> then Inl (Other ''OverflowError'' ''int too large to convert to float'')
                  else Inr (Fin (nearest fl (of_int i)))
      | JFloat r \<Rightarrow> Inr (Fin r)
      | JStr s \<Rightarrow> (case parse_float fl s of
                     Some x \<Rightarrow> Inr x | None \<Rightarrow> Inl (Other ''ValueError'' ''could not convert string to float''))
      | _ \<Rightarrow> Inl (Other ''TypeError'' ''float() argument must be a string or a real number''))"

text \<open>\<open>round\<close>: the nearest integer, the even one of two.\<close>

definition py_round :: "rat \<Rightarrow> int" where
  "py_round r =
     (let f = \<lfloor>r\<rfloor>; d = r - of_int f in
      if d < 1 / 2 then f else if 1 / 2 < d then f + 1 else if even f then f else f + 1)"

section \<open>The scan\<close>

datatype verdict = Approve | Review | Block

datatype check_status = Clean | Flagged

record check_result =
  ck_category :: string
  ck_label :: string
  ck_status :: check_status

record risk_scan =
  sn_id :: string
  sn_address :: string
  sn_score :: int
  sn_verdict :: verdict
  sn_flags :: "string list"
  sn_checks :: "check_result list"
  sn_scanned_at :: int

definition DEFAULT_CHECKS :: "(string \<times> string) list" where
  "DEFAULT_CHECKS =
     [(''Regulatory'', ''OFAC / SDN sanctions list''),
      (''Threat Intel'', ''Known hacker addresses''),
      (''Threat Intel'', ''Ransomware clusters''),
      (''Threat Intel'', ''Darknet market exposure''),
      (''Mixer'', ''Tornado Cash interaction''),
      (''DeFi'', ''Bridge exploit proceeds''),
      (''Fraud'', ''Pig-butchering fund flows''),
      (''NFT'', ''Stolen NFT proceeds'')]"

definition verdict_from_score :: "int \<Rightarrow> verdict" where
  "verdict_from_score score = (if score < 20 then Approve else if score < 50 then Review else Block)"

text \<open>
  \<open>float\<close> is inside the \<open>try\<close> for \<open>TypeError\<close> and \<open>ValueError\<close>; an overflow, and
  \<open>round\<close> of a value that is not finite, escape.
\<close>

definition coerce_score :: "floats \<Rightarrow> json \<Rightarrow> int res" where
  "coerce_score fl raw =
     (if raw = JNull then Inr 0
      else case to_pyfloat fl raw of
        Inl (Other t m) \<Rightarrow> if t = ''TypeError'' \<or> t = ''ValueError'' then Inr 0 else Inl (Other t m)
      | Inl e \<Rightarrow> Inl e
      | Inr NaN \<Rightarrow> Inl (Other ''ValueError'' ''cannot convert float NaN to integer'')
      | Inr Infinite \<Rightarrow> Inl (Other ''OverflowError'' ''cannot convert float infinity to integer'')
      | Inr (Fin v) \<Rightarrow>
          (let x = (if 0 \<le> v \<and> v \<le> 1 then nearest fl (v * 100) else v)
           in Inr (max 0 (min 100 (py_round x)))))"

definition verdict_of_text :: "string \<Rightarrow> verdict option" where
  "verdict_of_text s =
     (if s = ''APPROVE'' then Some Approve else if s = ''REVIEW'' then Some Review
      else if s = ''BLOCK'' then Some Block else None)"

text \<open>A string, or the label of an object, is a flag; anything else is skipped.\<close>

definition flag_of :: "json \<Rightarrow> string option" where
  "flag_of flag =
     (case flag of
        JStr s \<Rightarrow> Some s
      | JObj d \<Rightarrow> (case py_or (jget d ''label'') (py_or (jget d ''name'') (jget d ''category'')) of
                     JStr s \<Rightarrow> Some s | _ \<Rightarrow> None)
      | _ \<Rightarrow> None)"

definition flags_of :: "dict \<Rightarrow> string list" where
  "flags_of body =
     (case py_or (jget body ''flags'') (py_or (jget body ''tags'') (py_or (jget body ''categories'') (JList []))) of
        JList xs \<Rightarrow> List.map_filter flag_of xs
      | _ \<Rightarrow> [])"

definition item_check :: "(json \<Rightarrow> string) \<Rightarrow> dict \<Rightarrow> check_result" where
  "item_check fmt c =
     \<lparr>ck_category = py_str fmt (py_or (jget c ''category'') (JStr ''General'')),
      ck_label = py_str fmt (py_or (jget c ''label'') (py_or (jget c ''name'') (JStr []))),
      ck_status = (if lower (py_str fmt (py_or (jget c ''status'')
                        (JStr (if truthy (jget c ''hit'') then ''flagged'' else ''clean'')))) = ''flagged''
                   then Flagged else Clean)\<rparr>"

definition flag_hits :: "string list \<Rightarrow> string \<Rightarrow> bool" where
  "flag_hits flags label =
     list_ex (\<lambda>f. str_in (lower f) (lower label) \<or> str_in (lower label) (lower f)) flags"

definition checks_of :: "(json \<Rightarrow> string) \<Rightarrow> dict \<Rightarrow> string list \<Rightarrow> check_result list" where
  "checks_of fmt body flags =
     (case jget body ''checks'' of
        JList (c # cs) \<Rightarrow> map (item_check fmt) (dicts_of (c # cs))
      | _ \<Rightarrow> map (\<lambda>(category, label). \<lparr>ck_category = category, ck_label = label,
                   ck_status = (if flag_hits flags label then Flagged else Clean)\<rparr>) DEFAULT_CHECKS)"

definition range_body :: "dict \<Rightarrow> dict" where
  "range_body raw = (case jget raw ''data'' of JObj d \<Rightarrow> d | _ \<Rightarrow> raw)"

definition raw_score :: "dict \<Rightarrow> json" where
  "raw_score body =
     py_or (jget body ''score'') (py_or (jget body ''risk_score'') (py_or (jget body ''riskScore'') (jget body ''risk'')))"

definition upstream_verdict :: "dict \<Rightarrow> verdict option" where
  "upstream_verdict body =
     (case py_or (jget body ''verdict'') (py_or (jget body ''decision'') (jget body ''recommendation'')) of
        JStr s \<Rightarrow> verdict_of_text (upper s) | _ \<Rightarrow> None)"

definition from_range_response ::
  "floats \<Rightarrow> (json \<Rightarrow> string) \<Rightarrow> string \<Rightarrow> int \<Rightarrow> string \<Rightarrow> dict \<Rightarrow> risk_scan res" where
  "from_range_response fl fmt uid now address raw =
     (let body = range_body raw in
      rbind (coerce_score fl (raw_score body)) (\<lambda>score.
        Inr \<lparr>sn_id = uid, sn_address = address, sn_score = score,
             sn_verdict = (case upstream_verdict body of Some v \<Rightarrow> v | None \<Rightarrow> verdict_from_score score),
             sn_flags = flags_of body, sn_checks = checks_of fmt body (flags_of body), sn_scanned_at = now\<rparr>))"

section \<open>Documents\<close>

definition verdict_str :: "verdict \<Rightarrow> string" where
  "verdict_str v = (case v of Approve \<Rightarrow> ''APPROVE'' | Review \<Rightarrow> ''REVIEW'' | Block \<Rightarrow> ''BLOCK'')"

definition status_str :: "check_status \<Rightarrow> string" where
  "status_str v = (case v of Clean \<Rightarrow> ''clean'' | Flagged \<Rightarrow> ''flagged'')"

definition check_to_doc :: "check_result \<Rightarrow> doc" where
  "check_to_doc c = [(''category'', JStr (ck_category c)), (''label'', JStr (ck_label c)),
     (''status'', JStr (status_str (ck_status c)))]"

definition scan_to_doc :: "risk_scan \<Rightarrow> doc" where
  "scan_to_doc s =
     [(''id'', JStr (sn_id s)), (''address'', JStr (sn_address s)), (''score'', JInt (sn_score s)),
      (''verdict'', JStr (verdict_str (sn_verdict s))), (''flags'', JList (map JStr (sn_flags s))),
      (''checks'', JList (map (\<lambda>c. JObj (check_to_doc c)) (sn_checks s))),
      (''scanned_at'', JDate (sn_scanned_at s))]"

text \<open>A list field: every element must convert.\<close>

fun all_conv :: "(json \<Rightarrow> 'a option) \<Rightarrow> json list \<Rightarrow> 'a list option" where
  "all_conv conv [] = Some []"
| "all_conv conv (x # xs) =
     (case (conv x, all_conv conv xs) of (Some a, Some as) \<Rightarrow> Some (a # as) | _ \<Rightarrow> None)"

definition list_conv :: "(json \<Rightarrow> 'a option) \<Rightarrow> json \<Rightarrow> 'a list option" where
  "list_conv conv v = (case v of JList xs \<Rightarrow> all_conv conv xs | _ \<Rightarrow> None)"

definition verdict_conv :: "json \<Rightarrow> verdict option" where
  "verdict_conv v = (case v of JStr s \<Rightarrow> verdict_of_text s | _ \<Rightarrow> None)"

definition status_conv :: "json \<Rightarrow> check_status option" where
  "status_conv v = (if v = JStr ''clean'' then Some Clean else if v = JStr ''flagged'' then Some Flagged else None)"

definition check_conv :: "pydantic \<Rightarrow> json \<Rightarrow> check_result option" where
  "check_conv py v =
     (case v of
        JObj d \<Rightarrow>
          (case rbind (field_req (to_str py) d ''category'') (\<lambda>a.
                rbind (field_req (to_str py) d ''label'') (\<lambda>b.
                rbind (field_req status_conv d ''status'') (\<lambda>c.
                Inr \<lparr>ck_category = a, ck_label = b, ck_status = c\<rparr>))) of
             Inr c \<Rightarrow> Some c | Inl _ \<Rightarrow> None)
      | _ \<Rightarrow> None)"

definition scan_of_doc :: "pydantic \<Rightarrow> string \<Rightarrow> int \<Rightarrow> doc \<Rightarrow> risk_scan res" where
  "scan_of_doc py uid now d =
     rbind (parse_date_field py ''scanned_at'' (strip_id d)) (\<lambda>d.
     rbind (field_dflt (to_str py) uid d ''id'') (\<lambda>a.
     rbind (field_req (to_str py) d ''address'') (\<lambda>b.
     rbind (field_req (ranged 0 (Some 100) (to_int py)) d ''score'') (\<lambda>c.
     rbind (field_req verdict_conv d ''verdict'') (\<lambda>v.
     rbind (field_dflt (list_conv (to_str py)) [] d ''flags'') (\<lambda>f.
     rbind (field_dflt (list_conv (check_conv py)) [] d ''checks'') (\<lambda>ch.
     rbind (field_dflt (to_date py) now d ''scanned_at'') (\<lambda>t.
     Inr \<lparr>sn_id = a, sn_address = b, sn_score = c, sn_verdict = v, sn_flags = f, sn_checks = ch,
          sn_scanned_at = t\<rparr>))))))))"

section \<open>The service\<close>

record 'w compliance =
  cp_db :: "'w mongo"
  cp_scan :: "string \<Rightarrow> (dict, 'w) io"
  cp_floats :: floats
  cp_fmt :: "json \<Rightarrow> string"
  cp_pydantic :: pydantic

definition compliance_scan :: "'w compliance \<Rightarrow> string \<Rightarrow> int \<Rightarrow> string \<Rightarrow> (risk_scan, 'w) io" where
  "compliance_scan s uid now address =
     andthen (cp_scan s address) (\<lambda>raw.
     andthen (pure (from_range_response (cp_floats s) (cp_fmt s) uid now address raw)) (\<lambda>scan.
     andthen (update_one (cp_db s) ''risk_scans'' (field_is ''address'' (JStr address)) (set_fields (scan_to_doc scan))
                (Some (set_fields (scan_to_doc scan) [(''address'', JStr address)]))) (\<lambda>_.
     ret scan)))"

definition get_cached :: "'w compliance \<Rightarrow> string \<Rightarrow> int \<Rightarrow> string \<Rightarrow> (risk_scan, 'w) io" where
  "get_cached s uid now address =
     (let missing = Domain NotFoundError (''No cached scan for address '' @ address @ ''.'') [(''address'', JStr address)] in
      andthen (find_one (cp_db s) ''risk_scans'' (field_is ''address'' (JStr address))) (\<lambda>found.
        case found of
          None \<Rightarrow> throw missing
        | Some d \<Rightarrow> if strip_id d = [] then throw missing else pure (scan_of_doc (cp_pydantic s) uid now (strip_id d))))"

record scan_stats =
  ss_total :: nat
  ss_approvals :: nat
  ss_reviews :: nat
  ss_blocks :: nat

text \<open>\<open>$group\<close> on the verdict with a count, over all documents of the collection.\<close>

definition compliance_stats :: "'w compliance \<Rightarrow> (scan_stats, 'w) io" where
  "compliance_stats s =
     andthen (find_all (cp_db s) ''risk_scans'' (\<lambda>_. True)) (\<lambda>ds.
       let count = (\<lambda>v. length (filter (field_is ''verdict'' (JStr (verdict_str v))) ds)) in
       ret \<lparr>ss_total = count Approve + count Review + count Block, ss_approvals = count Approve,
            ss_reviews = count Review, ss_blocks = count Block\<rparr>)"

section \<open>Lemmas\<close>

definition risk_scan_ok :: "risk_scan \<Rightarrow> bool" where
  "risk_scan_ok s \<longleftrightarrow> 0 \<le> sn_score s \<and> sn_score s \<le> 100"

lemma coerce_score_range: "coerce_score fl raw = Inr i \<Longrightarrow> 0 \<le> i \<and> i \<le> 100"
  by (auto simp: coerce_score_def Let_def split: sum.splits exn.splits pyfloat.splits if_splits)

lemma verdict_text_roundtrip [simp]: "verdict_of_text (verdict_str v) = Some v"
  by (cases v) (simp_all add: verdict_of_text_def verdict_str_def)

lemma verdict_str_inj [simp]: "verdict_str v = verdict_str u \<longleftrightarrow> v = u"
  by (metis option.inject verdict_text_roundtrip)

lemma map_of_set_fields:
  "distinct (map fst new) \<Longrightarrow>
   map_of (set_fields new d) k = (case map_of new k of Some v \<Rightarrow> Some v | None \<Rightarrow> map_of d k)"
proof (induction new arbitrary: d)
  case (Cons x new)
  obtain a b where x: "x = (a, b)" by (rule prod.exhaust)
  have "set_fields (x # new) d = set_fields new (set_field a b d)" by (simp add: set_fields_def x)
  moreover have "map_of new a = None" using Cons.prems x by (simp add: map_of_eq_None_iff)
  ultimately show ?case using Cons x by (simp add: map_of_set_field split: option.split)
qed (simp add: set_fields_def)

lemma scan_doc_keys: "distinct (map fst (scan_to_doc s))"
  by (simp add: scan_to_doc_def)

context pydantic_laws
begin

lemma all_conv_map: "(\<And>x. x \<in> set xs \<Longrightarrow> conv (f x) = Some x) \<Longrightarrow> all_conv conv (map f xs) = Some xs"
  by (induction xs) auto

lemma check_roundtrip: "check_conv py (JObj (check_to_doc c)) = Some c"
  by (cases "ck_status c")
     (simp_all add: check_conv_def check_to_doc_def field_req_def status_conv_def status_str_def)

text \<open>A document with the fields of a scan is read as that scan, whatever else it holds.\<close>

lemma scan_roundtrip:
  assumes "risk_scan_ok s"
  shows "scan_of_doc py uid now (set_fields (scan_to_doc s) d) = Inr s"
proof -
  let ?d = "strip_id (set_fields (scan_to_doc s) d)"
  have f: "map_of ?d k = (if k = ''_id'' then None else case map_of (scan_to_doc s) k of Some v \<Rightarrow> Some v | None \<Rightarrow> map_of d k)" for k
    by (simp add: map_of_strip_id map_of_set_fields [OF scan_doc_keys])
  have k: "map_of ?d ''id'' = Some (JStr (sn_id s))" "map_of ?d ''address'' = Some (JStr (sn_address s))"
    "map_of ?d ''score'' = Some (JInt (sn_score s))" "map_of ?d ''verdict'' = Some (JStr (verdict_str (sn_verdict s)))"
    "map_of ?d ''flags'' = Some (JList (map JStr (sn_flags s)))"
    "map_of ?d ''checks'' = Some (JList (map (\<lambda>c. JObj (check_to_doc c)) (sn_checks s)))"
    "map_of ?d ''scanned_at'' = Some (JDate (sn_scanned_at s))"
    by (simp_all add: f) (simp_all add: scan_to_doc_def)
  have "parse_date_field py ''scanned_at'' ?d = Inr ?d" by (simp add: parse_date_field_def jget_def k)
  moreover have "all_conv (to_str py) (map JStr (sn_flags s)) = Some (sn_flags s)" by (rule all_conv_map) simp
  moreover have "all_conv (check_conv py) (map (\<lambda>c. JObj (check_to_doc c)) (sn_checks s)) = Some (sn_checks s)"
    by (rule all_conv_map) (rule check_roundtrip)
  ultimately show ?thesis
    using assms by (simp add: scan_of_doc_def field_req_def field_dflt_def k ranged_def risk_scan_ok_def verdict_conv_def
        list_conv_def)
qed

end

lemma strip_id_strip_id [simp]: "strip_id (strip_id d) = strip_id d"
  by (simp add: strip_id_def del_field_def)

lemma strip_id_not_empty: "k \<noteq> ''_id'' \<Longrightarrow> map_of d k = Some v \<Longrightarrow> strip_id d \<noteq> []"
  by (metis map_of.simps(1) map_of_strip_id option.distinct(1))

text \<open>No address has two documents, which \<open>scan\<close> keeps.\<close>

definition one_per_address :: "doc list \<Rightarrow> bool" where
  "one_per_address ds \<longleftrightarrow> distinct (map (\<lambda>d. jget d ''address'') ds)"

lemma one_per_address_unique:
  "one_per_address ds \<Longrightarrow> x \<in> set ds \<Longrightarrow> y \<in> set ds \<Longrightarrow> jget x ''address'' = jget y ''address'' \<Longrightarrow> x = y"
  unfolding one_per_address_def distinct_map by (blast dest: inj_onD)

lemma from_range_response_Inr:
  "from_range_response fl fmt uid now address raw = Inr s \<Longrightarrow>
   sn_address s = address \<and> risk_scan_ok s \<and> sn_id s = uid \<and> sn_scanned_at s = now"
  by (auto simp: from_range_response_def Let_def res_simps risk_scan_ok_def dest: coerce_score_range)

lemma jget_scan_address [simp]: "jget (set_fields (scan_to_doc s) d) ''address'' = JStr (sn_address s)"
  unfolding jget_def map_of_set_fields [OF scan_doc_keys] by (simp add: scan_to_doc_def)

text \<open>A scan that returns left exactly one document of its address, which holds its fields.\<close>

lemma scan_stores:
  assumes m: "mongo (cp_db s) docs le"
    and app: "\<forall>w r w'. cp_scan s address w = (r, w') \<longrightarrow> docs w' = docs w"
    and one: "one_per_address (docs w ''risk_scans'')"
    and scan: "compliance_scan s uid now address w = (Inr sc, w1)"
  obtains d0 where "sn_address sc = address" "risk_scan_ok sc"
    "set_fields (scan_to_doc sc) d0 \<in> set (docs w1 ''risk_scans'')" "one_per_address (docs w1 ''risk_scans'')"
    "{d \<in> set (docs w1 ''risk_scans''). jget d ''address'' \<noteq> JStr address}
     = {d \<in> set (docs w ''risk_scans''). jget d ''address'' \<noteq> JStr address}"
proof -
  let ?P = "field_is ''address'' (JStr address)" and ?C = "''risk_scans''"
  obtain raw wa wb where raw: "cp_scan s address w = (Inr raw, wa)"
    and sc: "from_range_response (cp_floats s) (cp_fmt s) uid now address raw = Inr sc"
    and upd: "update_one (cp_db s) ?C ?P (set_fields (scan_to_doc sc))
                (Some (set_fields (scan_to_doc sc) [(''address'', JStr address)])) wb = (Inr (), w1)" "wb = wa"
    using scan unfolding compliance_scan_def by (elim andthen_InrE) auto
  note ok = from_range_response_Inr [OF sc]
  have same: "docs wa = docs w" using app raw by blast
  have one': "one_per_address (docs wa ?C)" using one same by simp
  have new: "jget (set_fields (scan_to_doc sc) d) ''address'' = JStr address" for d using ok by simp
  have "\<exists>d0. set_fields (scan_to_doc sc) d0 \<in> set (docs w1 ?C)
      \<and> one_per_address (docs w1 ?C)
      \<and> {d \<in> set (docs w1 ?C). jget d ''address'' \<noteq> JStr address} = {d \<in> set (docs wa ?C). jget d ''address'' \<noteq> JStr address}"
    using mongo.update_law [OF m upd(1)] unfolding upd(2)
  proof (elim disjE exE conjE)
    fix xs d ys
    assume a: "docs wa ?C = xs @ d # ys" "?P d" "docs w1 = (docs wa)(?C := xs @ set_fields (scan_to_doc sc) d # ys)"
    then have "one_per_address (docs w1 ?C)" using one' new by (auto simp: one_per_address_def field_is_def)
    with a new show ?thesis by (auto simp: field_is_def)
  next
    assume a: "\<forall>d \<in> set (docs wa ?C). \<not> ?P d"
      "docs w1 = (case Some (set_fields (scan_to_doc sc) [(''address'', JStr address)]) of None \<Rightarrow> docs wa
                  | Some d \<Rightarrow> (docs wa)(?C := docs wa ?C @ [d]))"
    then have "one_per_address (docs w1 ?C)" using one' new by (auto simp: one_per_address_def field_is_def)
    with a new show ?thesis by (auto simp: field_is_def)
  qed
  with ok that show thesis unfolding same by blast
qed

text \<open>Reading finds that document and rebuilds the scan.\<close>

lemma get_cached_stored:
  assumes m: "mongo (cp_db s) docs le" and py: "pydantic_laws (cp_pydantic s)"
    and sc: "sn_address sc = address" "risk_scan_ok sc"
    and d0: "set_fields (scan_to_doc sc) d0 \<in> set (docs w ''risk_scans'')" and one: "one_per_address (docs w ''risk_scans'')"
    and read: "get_cached s uid now address w = (r, w')"
  shows "docs w' = docs w \<and>
    (r = Inr sc \<or> (\<exists>e. r = Inl e \<and> find_one (cp_db s) ''risk_scans'' (field_is ''address'' (JStr address)) w = (Inl e, w')))"
proof -
  let ?P = "field_is ''address'' (JStr address)" and ?C = "''risk_scans''" and ?d = "set_fields (scan_to_doc sc) d0"
  obtain res wc where f: "find_one (cp_db s) ?C ?P w = (res, wc)" by (rule prod.exhaust)
  have reads: "docs wc = docs w" using mongo.find_one_reads [OF m f] .
  have P: "?P ?d" using sc by (simp add: field_is_def)
  show ?thesis
  proof (cases res)
    case (Inl e)
    with f read reads show ?thesis by (auto simp: get_cached_def andthen_def Let_def)
  next
    case (Inr found)
    from mongo.find_one_law [OF m f [unfolded Inr]]
    have found: "case found of None \<Rightarrow> \<forall>d \<in> set (docs w ?C). \<not> ?P d | Some d \<Rightarrow> d \<in> set (docs w ?C) \<and> ?P d" by blast
    have "found = Some ?d"
    proof (cases found)
      case None
      with found d0 P show ?thesis by simp
    next
      case (Some d)
      with found have d: "d \<in> set (docs w ?C)" "?P d" by simp_all
      then have "jget d ''address'' = jget ?d ''address''" using P by (simp only: field_is_def)
      with one_per_address_unique [OF one d(1) d0] Some show ?thesis by blast
    qed
    moreover have "strip_id ?d \<noteq> []"
      using P by (intro strip_id_not_empty [of "''address''" _ "JStr address"]) (auto simp: field_is_def jget_def split: option.splits)
    moreover have "scan_of_doc (cp_pydantic s) uid now (strip_id ?d) = Inr sc"
      using pydantic_laws.scan_roundtrip [OF py sc(2), of uid now d0] by (simp add: scan_of_doc_def)
    ultimately show ?thesis using f Inr read reads by (simp add: get_cached_def andthen_def Let_def)
  qed
qed

section \<open>Properties\<close>

text \<open>A scan is cached as it was answered. When a scan returns, the document stored for that address is the only one with it, reading
  the cache at once returns the same scan, and the documents of other addresses are untouched; in
  the collection no address has two documents, before and after.\<close>

theorem scan_then_cached:
  assumes m: "mongo (cp_db s) docs le" and py: "pydantic_laws (cp_pydantic s)"
    and app: "\<forall>w r w'. cp_scan s address w = (r, w') \<longrightarrow> docs w' = docs w"
    and one: "one_per_address (docs w ''risk_scans'')"
    and scan: "compliance_scan s uid now address w = (Inr sc, w1)"
    and read: "get_cached s uid2 now2 address w1 = (r, w2)"
  shows "sn_address sc = address \<and> 0 \<le> sn_score sc \<and> sn_score sc \<le> 100
     \<and> one_per_address (docs w1 ''risk_scans'')
     \<and> {d \<in> set (docs w1 ''risk_scans''). jget d ''address'' \<noteq> JStr address}
        = {d \<in> set (docs w ''risk_scans''). jget d ''address'' \<noteq> JStr address}
     \<and> docs w2 = docs w1
     \<and> (r = Inr sc \<or> (\<exists>e. r = Inl e \<and> find_one (cp_db s) ''risk_scans'' (field_is ''address'' (JStr address)) w1 = (Inl e, w2)))"
proof -
  obtain d0 where sc: "sn_address sc = address" "risk_scan_ok sc"
    and d0: "set_fields (scan_to_doc sc) d0 \<in> set (docs w1 ''risk_scans'')" "one_per_address (docs w1 ''risk_scans'')"
    and frame: "{d \<in> set (docs w1 ''risk_scans''). jget d ''address'' \<noteq> JStr address}
     = {d \<in> set (docs w ''risk_scans''). jget d ''address'' \<noteq> JStr address}"
    by (rule scan_stores [OF m app one scan])
  from get_cached_stored [OF m py sc d0 read] sc d0(2) frame show ?thesis by (simp add: risk_scan_ok_def)
qed

definition demo_compliance :: "store compliance" where
  "demo_compliance = \<lparr>cp_db = list_store, cp_scan = (\<lambda>a. ret [(''score'', JInt 30), (''flags'', JList [JStr ''Ransomware''])]),
     cp_floats = \<lparr>parse_float = (\<lambda>_. None), nearest = (\<lambda>x. x)\<rparr>, cp_fmt = (\<lambda>_. []), cp_pydantic = strict_pydantic\<rparr>"

lemma py_round_int [simp]: "py_round (of_int i) = i"
  by (simp add: py_round_def Let_def)

lemma coerce_score_int:
  assumes "nearest fl (of_int i) = of_int i" "nearest fl 100 = 100" "0 \<le> i" "i \<le> 100"
  shows "coerce_score fl (JInt i) = Inr (if i = 1 then 100 else i)"
proof -
  have f: "to_pyfloat fl (JInt i) = Inr (Fin (of_int i))" using assms by (simp add: to_pyfloat_def)
  have c: "(0::rat) \<le> of_int i \<and> (of_int i :: rat) \<le> 1 \<longleftrightarrow> i = 0 \<or> i = 1" using assms(3) by auto
  show ?thesis
  proof (cases "i = 0 \<or> i = 1")
    case True
    have z: "py_round 100 = 100" "py_round 0 = 0" using py_round_int [of 100] py_round_int [of 0] by simp_all
    show ?thesis using True f assms(1,2) by (auto simp: coerce_score_def Let_def z)
  next
    case False
    with c have "\<not> ((0::rat) \<le> of_int i \<and> (of_int i :: rat) \<le> 1)" by blast
    with False f assms(3,4) show ?thesis by (simp add: coerce_score_def Let_def)
  qed
qed

theorem scan_then_cached_witness:
  "\<exists>sc w1. compliance_scan demo_compliance ''u'' 7 ''addr'' (\<lambda>_. []) = (Inr sc, w1) \<and> sn_address sc = ''addr''
     \<and> one_per_address (w1 ''risk_scans'') \<and> (\<exists>w2. get_cached demo_compliance ''v'' 8 ''addr'' w1 = (Inr sc, w2))"
proof -
  have c: "coerce_score (cp_floats demo_compliance) (JInt 30) = Inr 30"
    using coerce_score_int [of "cp_floats demo_compliance" 30] by (simp add: demo_compliance_def)
  have "\<exists>sc. from_range_response (cp_floats demo_compliance) (cp_fmt demo_compliance) ''u'' 7 ''addr''
          [(''score'', JInt 30), (''flags'', JList [JStr ''Ransomware''])] = Inr sc"
    using c by (simp add: from_range_response_def Let_def range_body_def raw_score_def jget_def py_or_def)
  then obtain sc w1 where sc: "compliance_scan demo_compliance ''u'' 7 ''addr'' (\<lambda>_. []) = (Inr sc, w1)"
    by (auto simp: compliance_scan_def demo_compliance_def andthen_def list_store_def ls_update_def)
  obtain r w2 where r: "get_cached demo_compliance ''v'' 8 ''addr'' w1 = (r, w2)" by (rule prod.exhaust)
  have m: "mongo (cp_db demo_compliance) (\<lambda>s. s) json_le" using lists.mongo_axioms by (simp add: demo_compliance_def)
  have py: "pydantic_laws (cp_pydantic demo_compliance)" using strict.pydantic_laws_axioms by (simp add: demo_compliance_def)
  have app: "\<forall>w r w'. cp_scan demo_compliance ''addr'' w = (r, w') \<longrightarrow> w' = w" by (simp add: demo_compliance_def)
  have one: "one_per_address ((\<lambda>_. []) ''risk_scans'')" by (simp add: one_per_address_def)
  from scan_then_cached [where docs = "\<lambda>s. s", OF m py app one sc r]
  have "sn_address sc = ''addr'' \<and> one_per_address (w1 ''risk_scans'') \<and> r = Inr sc"
    by (auto simp: demo_compliance_def list_store_def)
  with sc r show ?thesis by blast
qed

text \<open>C39. The lowest risk score blocks. For an integer score from 0 to 100 without a verdict of the provider the scan keeps the
  score and blocks from 50 up and reviews from 20 up, except that the score 1, one point of
  a hundred, is taken for the top of a scale from 0 to 1: it becomes 100 and the
  wallet is blocked, while 0 and 2 are approved. Doubles hold these integers exactly.\<close>

theorem score_one_blocks:
  assumes "\<forall>i. \<bar>i\<bar> \<le> 2 ^ 53 \<longrightarrow> nearest fl (of_int i) = of_int i" and "0 \<le> i" and "i \<le> 100"
  shows "\<exists>s. from_range_response fl fmt uid now address [(''score'', JInt i)] = Inr s
       \<and> sn_score s = (if i = 1 then 100 else i)
       \<and> sn_verdict s = (if i = 1 \<or> 50 \<le> i then Block else if 20 \<le> i then Review else Approve)"
proof -
  have n: "nearest fl (of_int i) = of_int i" "nearest fl 100 = 100"
    using assms(1) [rule_format, of i] assms(1) [rule_format, of 100] assms(2,3) by simp_all
  have z: "coerce_score fl JNull = Inr 0" by (simp add: coerce_score_def)
  have "coerce_score fl (raw_score [(''score'', JInt i)]) = Inr (if i = 1 then 100 else i)"
    using coerce_score_int [OF n assms(2,3)] z by (cases "i = 1") (auto simp: raw_score_def py_or_def jget_def)
  then show ?thesis
    by (simp add: from_range_response_def range_body_def jget_def upstream_verdict_def py_or_def verdict_from_score_def Let_def)
qed

theorem score_one_blocks_witness:
  "\<exists>s. from_range_response (cp_floats demo_compliance) (\<lambda>_. []) ''u'' 7 ''a'' [(''score'', JInt 1)] = Inr s \<and> sn_verdict s = Block"
proof -
  have "\<forall>i. \<bar>i\<bar> \<le> 2 ^ 53 \<longrightarrow> nearest (cp_floats demo_compliance) (of_int i) = of_int i"
    by (simp add: demo_compliance_def)
  from score_one_blocks [OF this, of 1 "\<lambda>_. []" "''u''" 7 "''a''"] show ?thesis by auto
qed

end
