(* ===== verification/Scripts.thy ===== *)
theory Scripts
  imports BuildVk RestClients Compliance
begin

text \<open>
  The operator scripts under \<open>backend/scripts\<close>: \<open>initialize_pool.py\<close>, \<open>seed_relayers.py\<close>,
  \<open>airdrop_relayer.py\<close>, \<open>launch_vault_token.py\<close> and \<open>dev_smoke_proof.py\<close>. A command is the
  function behind it: what it prints as its result is what it returns here, and \<open>typer.Exit\<close> is an
  exception with the exit code as text. A \<open>BagsVaultError\<close> is a \<open>Domain\<close> exception.
\<close>

definition exit_code :: "nat \<Rightarrow> exn" where
  "exit_code n = Other ''Exit'' (nat_str n)"

text \<open>\<open>try: m / finally: f\<close>.\<close>

definition with_finally :: "('a, 'w) io \<Rightarrow> (unit, 'w) io \<Rightarrow> ('a, 'w) io" where
  "with_finally m f w =
     (case m w of (r, w1) \<Rightarrow> (case f w1 of (Inl e, w2) \<Rightarrow> (Inl e, w2) | (Inr _, w2) \<Rightarrow> (r, w2)))"

text \<open>\<open>except BagsVaultError as exc: raise typer.Exit(code=n)\<close>.\<close>

definition or_exit :: "nat \<Rightarrow> ('a, 'w) io \<Rightarrow> ('a, 'w) io" where
  "or_exit n m = catching m (\<lambda>e. throw (if is_domain e then exit_code n else e))"

section \<open>The pool initialiser\<close>

definition INITIALIZE_SIGHASH :: bytes where
  "INITIALIZE_SIGHASH = take 8 (sha256 (ascii ''global:initialize''))"

definition SYSTEM_PROGRAM_ID :: string where
  "SYSTEM_PROGRAM_ID = ''11111111111111111111111111111111''"

definition pool_token_mint :: "solders \<Rightarrow> string \<Rightarrow> pubkey res" where
  "pool_token_mint sol token_mint =
     (if token_mint = SOL_TOKEN_SENTINEL \<or> token_mint = [] then Inr (const_pubkey sol SYSTEM_PROGRAM_ID)
      else case pubkey_from_string sol token_mint of
             Inr p \<Rightarrow> Inr p
           | Inl err \<Rightarrow> Inl (bad_parameter (''--token-mint must be '' @ CHR 0x27 # ''SOL'' @ CHR 0x27 # '' or a base58 pubkey: '' @ err)))"

definition derive_tree_state_pda :: "solders \<Rightarrow> pubkey \<Rightarrow> pubkey \<Rightarrow> pubkey \<times> nat" where
  "derive_tree_state_pda sol program_id token_mint = find_program_address sol [MERKLE_TREE_SEED, token_mint] program_id"

definition build_initialize_ix ::
  "solders \<Rightarrow> pubkey \<Rightarrow> pubkey \<Rightarrow> pubkey \<Rightarrow> pubkey \<Rightarrow> int \<Rightarrow> instruction res" where
  "build_initialize_ix sol program_id authority token_mint tree_state denomination =
     (case to_bytes_le 8 denomination of
        None \<Rightarrow> Inl (Other ''OverflowError'' ''int too big to convert'')
      | Some d \<Rightarrow>
          Inr \<lparr>ix_program_id = program_id,
               accounts = [signer_meta authority, readonly_meta token_mint, writable_meta tree_state,
                           readonly_meta (const_pubkey sol SYSTEM_PROGRAM_ID)],
               data = INITIALIZE_SIGHASH @ d\<rparr>)"

text \<open>
  \<open>_run\<close>. The world is the signer and the rest; \<open>close\<close> is \<open>rpc.aclose\<close>, which only follows the
  submission: a failure before it leaves the client open.
\<close>

definition pool_run ::
  "solders \<Rightarrow> settings \<Rightarrow> 'w files \<Rightarrow> 'w rpc \<Rightarrow> (unit, 'w) io \<Rightarrow> int \<Rightarrow> string \<Rightarrow> (dict, signer \<times> 'w) io" where
  "pool_run sol cfg fs rpc close denomination token_mint_arg =
     (if bagsvault_program_id cfg = []
      then throw (Domain ServiceUnavailableError ''BAGSVAULT_PROGRAM_ID is not configured.''
             [(''hint'', JStr ''Set it in backend/.env after `anchor deploy`.'')])
      else
        andthen (pure (case pubkey_from_string sol (bagsvault_program_id cfg) of
                         Inr p \<Rightarrow> Inr p | Inl err \<Rightarrow> Inl (value_error err))) (\<lambda>program_id.
        andthen (pure (pool_token_mint sol token_mint_arg)) (\<lambda>token_mint.
        andthen (pubkey_obj sol fs cfg) (\<lambda>authority.
        let (tree_state, bump) = derive_tree_state_pda sol program_id token_mint in
        andthen (pure (build_initialize_ix sol program_id authority token_mint tree_state denomination)) (\<lambda>ix.
        andthen (wrap_foreign (\<lambda>err. upstream ''Failed to fetch recent blockhash from Solana RPC.'' [(''error'', JStr err)])
                   (on_snd (latest_blockhash rpc))) (\<lambda>payload.
        andthen (pure (coerce_blockhash payload)) (\<lambda>recent_blockhash.
        andthen (build_and_sign sol fs cfg [ix] recent_blockhash (Some authority)) (\<lambda>signed.
        andthen (with_finally
                   (wrap_foreign (\<lambda>err. upstream ''Solana RPC rejected the initialize transaction.'' [(''error'', JStr err)])
                     (on_snd (send_tx rpc (b64encode signed) False)))
                   (on_snd close)) (\<lambda>signature.
        ret [(''tree_state_pda'', JStr (pubkey_str sol tree_state)), (''tree_state_bump'', JInt (int bump)),
             (''signature'', JStr signature), (''program_id'', JStr (pubkey_str sol program_id)),
             (''authority'', JStr (pubkey_str sol authority)), (''token_mint'', JStr (pubkey_str sol token_mint)),
             (''denomination'', JInt denomination)])))))))))"

text \<open>The command; \<open>--denomination\<close> has the minimum 1.\<close>

definition effective_cluster :: "settings \<Rightarrow> string option \<Rightarrow> string" where
  "effective_cluster cfg cluster =
     (case cluster of None \<Rightarrow> solana_cluster cfg | Some c \<Rightarrow> if c = [] then solana_cluster cfg else c)"

definition pool_main ::
  "solders \<Rightarrow> settings \<Rightarrow> 'w files \<Rightarrow> 'w rpc \<Rightarrow> (unit, 'w) io \<Rightarrow> int \<Rightarrow> string \<Rightarrow> string option \<Rightarrow> bool
     \<Rightarrow> (dict, signer \<times> 'w) io" where
  "pool_main sol cfg fs rpc close denomination token_mint cluster i_know_what_i_am_doing =
     (if denomination < 1 then throw (bad_parameter (int_str denomination @ '' is not in the range x>=1.''))
      else if effective_cluster cfg cluster = ''mainnet-beta'' \<and> \<not> i_know_what_i_am_doing then throw (exit_code 2)
      else or_exit 1 (pool_run sol cfg fs rpc close denomination token_mint))"

section \<open>The relayer seeder\<close>

definition demo_row :: "string \<Rightarrow> string \<Rightarrow> string \<Rightarrow> string \<Rightarrow> int \<Rightarrow> int \<Rightarrow> rat \<Rightarrow> int \<Rightarrow> int \<Rightarrow> relayer" where
  "demo_row rid name op region fee ping uptime jobs volume =
     \<lparr>r_id = [], r_relayer_id = rid, r_name = name, r_operator = op, r_pubkey = [], r_region = region, r_fee_bps = fee,
      r_ping_ms = ping, r_uptime_pct = uptime, r_jobs_24h = jobs, r_volume_24h_lamports = volume, r_last_seen = None,
      r_registered_at = 0\<rparr>"

definition DEMO_RELAYERS :: "relayer list" where
  "DEMO_RELAYERS =
     [demo_row ''rly-01'' ''NovaRelay'' ''nova.sol'' ''US-East'' 15 42 (9998 / 100) 12840 412000000000000,
      demo_row ''rly-02'' ''GhostNode'' ''ghost.sol'' ''EU-West'' 20 58 (9991 / 100) 8721 287000000000000,
      demo_row ''rly-03'' ''PhantomProxy'' ''phantom.sol'' ''Asia-Pacific'' 12 71 (9974 / 100) 6104 198000000000000,
      demo_row ''rly-04'' ''ZeroGateway'' ''zerog.sol'' ''US-West'' 18 38 (9999 / 100) 15204 521000000000000,
      demo_row ''rly-05'' ''SilentBroadcast'' ''silent.sol'' ''EU-Central'' 22 82 (9967 / 100) 4412 142000000000000,
      demo_row ''rly-06'' ''VaultPipe'' ''vault.sol'' ''US-East'' 14 49 (9995 / 100) 11020 358000000000000]"

definition deterministic_pubkey :: "(bytes \<Rightarrow> string) \<Rightarrow> string \<Rightarrow> string" where
  "deterministic_pubkey b58encode seed = take 44 (b58encode (sha256 (utf8 (''seed-'' @ seed))))"

text \<open>The model class validates the ranges of its fields; \<open>uid\<close> and \<open>now\<close> are its defaults.\<close>

definition checked_relayer :: "relayer \<Rightarrow> relayer res" where
  "checked_relayer r = (if relayer_ok r then Inr r else Inl (Other ''ValidationError'' ''Relayer''))"

definition self_relayer :: "settings \<Rightarrow> string \<Rightarrow> int \<Rightarrow> string \<Rightarrow> relayer" where
  "self_relayer cfg uid now self_pubkey =
     \<lparr>r_id = uid, r_relayer_id = ''rly-self-'' @ take 4 self_pubkey, r_name = relayer_name cfg, r_operator = self_pubkey,
      r_pubkey = self_pubkey, r_region = relayer_region cfg, r_fee_bps = relayer_fee_bps cfg, r_ping_ms = 0, r_uptime_pct = 100,
      r_jobs_24h = 0, r_volume_24h_lamports = 0, r_last_seen = None, r_registered_at = now\<rparr>"

definition demo_entry :: "(bytes \<Rightarrow> string) \<Rightarrow> string \<Rightarrow> int \<Rightarrow> relayer \<Rightarrow> relayer" where
  "demo_entry b58encode uid now r =
     r\<lparr>r_id := uid, r_pubkey := deterministic_pubkey b58encode (r_relayer_id r), r_registered_at := now\<rparr>"

text \<open>Each upsert has an identifier and a time of its own.\<close>

fun upsert_all :: "pydantic \<Rightarrow> 'w mongo \<Rightarrow> (string \<Rightarrow> int \<Rightarrow> relayer) list \<Rightarrow> (string \<times> int) list \<Rightarrow> (relayer list, 'w) io" where
  "upsert_all py db (f # fs) ((uid, now) # ids) =
     andthen (pure (checked_relayer (f uid now))) (\<lambda>r.
     andthen (relayer_upsert py db uid now r) (\<lambda>stored.
     andthen (upsert_all py db fs ids) (\<lambda>rest. ret (stored # rest))))"
| "upsert_all py db fs ids = ret []"

definition seed_relayers ::
  "solders \<Rightarrow> settings \<Rightarrow> 'w files \<Rightarrow> pydantic \<Rightarrow> 'w mongo \<Rightarrow> (bytes \<Rightarrow> string) \<Rightarrow> (string \<times> int) list \<Rightarrow> bool
     \<Rightarrow> (relayer list, signer \<times> 'w) io" where
  "seed_relayers sol cfg fs py db b58encode ids with_demo =
     andthen (signer_pubkey sol fs cfg) (\<lambda>self_pubkey.
       on_snd (upsert_all py db
         ((\<lambda>uid now. self_relayer cfg uid now self_pubkey) #
          (if with_demo then map (\<lambda>r uid now. demo_entry b58encode uid now r) DEMO_RELAYERS else [])) ids))"

definition seed_main ::
  "solders \<Rightarrow> settings \<Rightarrow> 'w files \<Rightarrow> pydantic \<Rightarrow> 'w mongo \<Rightarrow> (bytes \<Rightarrow> string) \<Rightarrow> (string \<times> int) list \<Rightarrow> bool
     \<Rightarrow> (relayer list, signer \<times> 'w) io" where
  "seed_main sol cfg fs py db b58encode ids with_demo = or_exit 1 (seed_relayers sol cfg fs py db b58encode ids with_demo)"

section \<open>The faucet client\<close>

definition LAMPORTS_PER_SOL :: int where
  "LAMPORTS_PER_SOL = 1000000000"

definition DEVNET_FAUCET_MAX_SOL :: rat where
  "DEVNET_FAUCET_MAX_SOL = 2"

datatype target = T_relayer | T_treasury | T_token_authority | T_all

text \<open>\<open>_load_pubkey\<close>, in two scripts; nothing of it is caught.\<close>

definition load_pubkey :: "solders \<Rightarrow> 'w files \<Rightarrow> string \<Rightarrow> (string, 'w) io" where
  "load_pubkey sol fs path =
     andthen (read_text fs path) (\<lambda>raw.
     andthen (pure (json_loads fs raw)) (\<lambda>secret.
       case secret of
         JList xs \<Rightarrow>
           (case ints_of xs of
              None \<Rightarrow> throw (Other ''TypeError'' ''object cannot be interpreted as an integer'')
            | Some is \<Rightarrow>
                (case py_bytes is of
                   None \<Rightarrow> throw (value_error ''bytes must be in range(0, 256)'')
                 | Some bs \<Rightarrow>
                     (case keypair_from_bytes sol bs of
                        Inl err \<Rightarrow> throw (value_error err)
                      | Inr kp \<Rightarrow> ret (pubkey_str sol (keypair_pubkey sol kp)))))
       | _ \<Rightarrow> throw (bad_parameter (''Expected a JSON array in '' @ path @ '', got '' @ json_type_name secret @ ''.''))))"

definition target_path :: "settings \<Rightarrow> 'w files \<Rightarrow> target \<Rightarrow> (string \<times> string) list" where
  "target_path cfg fs t =
     (case t of
        T_relayer \<Rightarrow> [(''relayer'', keypair_path fs (solana_relayer_keypair cfg))]
      | T_treasury \<Rightarrow> [(''treasury'', keypair_path fs (solana_treasury_keypair cfg))]
      | T_token_authority \<Rightarrow> [(''token_authority'', keypair_path fs (solana_token_authority_keypair cfg))]
      | T_all \<Rightarrow> [])"

definition resolve_targets :: "settings \<Rightarrow> 'w files \<Rightarrow> target \<Rightarrow> (string \<times> string) list" where
  "resolve_targets cfg fs t =
     (if t = T_all then target_path cfg fs T_relayer @ target_path cfg fs T_treasury @ target_path cfg fs T_token_authority
      else target_path cfg fs t)"

definition request_airdrop :: "'w transport \<Rightarrow> settings \<Rightarrow> string \<Rightarrow> int \<Rightarrow> (string, rpc_client \<times> 'w) io" where
  "request_airdrop post cfg pk lamports =
     andthen (call post ''requestAirdrop''
                [JStr pk, JInt lamports, JObj [(''commitment'', JStr (solana_commitment cfg))]]) (\<lambda>result.
       case result of JStr s \<Rightarrow> ret s | _ \<Rightarrow> throw (exit_code 2))"

definition tx_failed :: "dict \<Rightarrow> bool" where
  "tx_failed tx = (case jget tx ''meta'' of JObj m \<Rightarrow> truthy (jget m ''err'') | _ \<Rightarrow> False)"

text \<open>\<open>_confirm\<close> with the number of polls left, a second and a half apart.\<close>

fun airdrop_confirm :: "nat \<Rightarrow> 'w transport \<Rightarrow> (rat \<Rightarrow> (unit, 'w) io) \<Rightarrow> string \<Rightarrow> (string, rpc_client \<times> 'w) io" where
  "airdrop_confirm 0 post sleep signature = ret ''pending''"
| "airdrop_confirm (Suc n) post sleep signature =
     andthen (get_transaction post signature 0) (\<lambda>tx.
       case tx of
         Some d \<Rightarrow> ret (if tx_failed d then ''failed'' else ''confirmed'')
       | None \<Rightarrow> andthen (on_snd (sleep (3 / 2))) (\<lambda>_. airdrop_confirm n post sleep signature))"

datatype airdrop_outcome = Skipped | Refused exn | Requested string string

text \<open>One wallet: a missing key pair is skipped, a refused request is reported and the next wallet tried.\<close>

definition airdrop_one ::
  "solders \<Rightarrow> settings \<Rightarrow> 'w files \<Rightarrow> 'w transport \<Rightarrow> (rat \<Rightarrow> (unit, 'w) io) \<Rightarrow> int \<Rightarrow> string
     \<Rightarrow> (airdrop_outcome, rpc_client \<times> 'w) io" where
  "airdrop_one sol cfg fs post sleep lamports path =
     andthen (on_snd (files.path_exists fs path)) (\<lambda>ex.
       if \<not> ex then ret Skipped
       else
         andthen (on_snd (load_pubkey sol fs path)) (\<lambda>pk.
         andthen (catching (andthen (request_airdrop post cfg pk lamports) (\<lambda>s. ret (Inr s)))
                    (\<lambda>e. if is_domain e then ret (Inl e) else throw e)) (\<lambda>requested.
           case requested of
             Inl e \<Rightarrow> ret (Refused e)
           | Inr signature \<Rightarrow>
               andthen (airdrop_confirm 20 post sleep signature) (\<lambda>status. ret (Requested signature status)))))"

fun airdrop_each ::
  "(string \<Rightarrow> (airdrop_outcome, 'x) io) \<Rightarrow> (string \<times> string) list \<Rightarrow> ((string \<times> airdrop_outcome) list, 'x) io" where
  "airdrop_each f [] = ret []"
| "airdrop_each f ((label, path) # rest) =
     andthen (f path) (\<lambda>out. andthen (airdrop_each f rest) (\<lambda>outs. ret ((label, out) # outs)))"

definition airdrop_run ::
  "solders \<Rightarrow> settings \<Rightarrow> 'w files \<Rightarrow> 'w transport \<Rightarrow> (rat \<Rightarrow> (unit, 'w) io) \<Rightarrow> target \<Rightarrow> int
     \<Rightarrow> ((string \<times> airdrop_outcome) list, rpc_client \<times> 'w) io" where
  "airdrop_run sol cfg fs post sleep t lamports =
     with_finally (airdrop_each (airdrop_one sol cfg fs post sleep lamports) (resolve_targets cfg fs t)) aclose"

text \<open>The amount is a double; \<open>nearest\<close> rounds its product to one, and \<open>int\<close> cuts it.\<close>

definition lamports_of :: "floats \<Rightarrow> rat \<Rightarrow> int" where
  "lamports_of fl amount_sol = \<lfloor>nearest fl (amount_sol * of_int LAMPORTS_PER_SOL)\<rfloor>"

definition airdrop_main ::
  "solders \<Rightarrow> settings \<Rightarrow> floats \<Rightarrow> (json \<Rightarrow> string) \<Rightarrow> 'w files \<Rightarrow> 'w transport \<Rightarrow> (rat \<Rightarrow> (unit, 'w) io) \<Rightarrow> rat \<Rightarrow> target
     \<Rightarrow> ((string \<times> airdrop_outcome) list, rpc_client \<times> 'w) io" where
  "airdrop_main sol cfg fl fmt fs post sleep amount_sol t =
     (if solana_cluster cfg = ''mainnet-beta''
      then throw (bad_parameter (''Refusing to run on mainnet-beta '' @ dash @ '' airdrops are devnet-only.''))
      else if amount_sol \<le> 0 \<or> amount_sol > DEVNET_FAUCET_MAX_SOL
      then throw (bad_parameter (''--amount-sol must be in (0, 2]; got '' @ fmt (JFloat amount_sol) @ ''.''))
      else or_exit 1 (airdrop_run sol cfg fs post sleep t (lamports_of fl amount_sol)))"

section \<open>The token launcher\<close>

definition launch_build ::
  "'w rest_transport \<Rightarrow> string \<Rightarrow> string \<Rightarrow> int \<Rightarrow> int \<Rightarrow> string \<Rightarrow> (dict, rest_client \<times> 'w) io" where
  "launch_build http name symbol decimals supply authority_pubkey =
     with_finally (bags_token_launch http name symbol decimals supply authority_pubkey None) rest_aclose"

text \<open>The client is made from the settings after the checks; the first component of the world is where it lives.\<close>

definition launch_main ::
  "solders \<Rightarrow> settings \<Rightarrow> 'w files \<Rightarrow> 'w rest_transport \<Rightarrow> string \<Rightarrow> string \<Rightarrow> int \<Rightarrow> int \<Rightarrow> (dict, rest_client \<times> 'w) io" where
  "launch_main sol cfg fs http name symbol decimals supply =
     (if vault_token_mint cfg \<noteq> [] then throw (exit_code 0)
      else if bags_api_key cfg = [] then throw (exit_code 1)
      else
        let path = keypair_path fs (solana_token_authority_keypair cfg) in
        andthen (on_snd (files.path_exists fs path)) (\<lambda>ex.
          if \<not> ex then throw (exit_code 1)
          else
            andthen (on_snd (load_pubkey sol fs path)) (\<lambda>authority_pubkey p.
              or_exit 2 (launch_build http name symbol decimals supply authority_pubkey)
                (new_bags_client cfg None None None, snd p))))"

section \<open>The proof smoke test\<close>

definition smoke_payload :: "int \<Rightarrow> int \<Rightarrow> int \<Rightarrow> pubkey \<Rightarrow> pubkey \<Rightarrow> proof_input" where
  "smoke_payload nullifier secret amount recipient relayer =
     \<lparr>zp_nullifier = nullifier, zp_secret = secret, zp_amount = amount, zp_leaf_index = 0,
      zp_merkle_path = replicate 20 0, zp_is_left = replicate 20 1, zp_recipient = recipient, zp_relayer = relayer,
      zp_fee_bps = 0\<rparr>"

definition smoke_run ::
  "settings \<Rightarrow> hasher \<Rightarrow> 'w toolchain \<Rightarrow> int \<Rightarrow> int \<Rightarrow> int \<Rightarrow> pubkey \<Rightarrow> pubkey \<Rightarrow> (proof_result, 'w) io" where
  "smoke_run cfg h tools nullifier secret amount recipient relayer =
     (let svc = new_zk_service cfg h tools None None None (Some False) in
      andthen (toolchain_available svc) (\<lambda>available.
        if \<not> available then throw (exit_code 2)
        else generate_withdraw_proof svc (smoke_payload nullifier secret amount recipient relayer)))"

definition smoke_main ::
  "solders \<Rightarrow> settings \<Rightarrow> hasher \<Rightarrow> 'w toolchain \<Rightarrow> int \<Rightarrow> int \<Rightarrow> int \<Rightarrow> string \<Rightarrow> string \<Rightarrow> (proof_result, 'w) io" where
  "smoke_main sol cfg h tools amount nullifier secret recipient relayer =
     (if zk_proof_stub_mode cfg then throw (exit_code 1)
      else
        let bad = (\<lambda>err. throw (bad_parameter (''invalid pubkey ('' @ err @ ''). Pass a base58-encoded Solana address.''))) in
        case pubkey_from_string sol recipient of
          Inl err \<Rightarrow> bad err
        | Inr recipient_pubkey \<Rightarrow>
            (case pubkey_from_string sol relayer of
               Inl err \<Rightarrow> bad err
             | Inr relayer_pubkey \<Rightarrow> smoke_run cfg h tools nullifier secret amount recipient_pubkey relayer_pubkey))"

section \<open>Properties\<close>

text \<open>The arguments of the on-chain \<open>initialize\<close>, in Borsh: \<open>denomination: u64, relayer_fee_bps: u16\<close>.\<close>

definition dec_initialize_args :: "bytes \<Rightarrow> ((nat \<times> nat) \<times> bytes) option" where
  "dec_initialize_args = dec_pair (dec_le 8) (dec_le 2)"

interpretation init_args: codec_pair "le_bytes 8" "dec_le 8" "\<lambda>v. v < 2 ^ 64" "le_bytes 2" "dec_le 2" "\<lambda>v. v < 2 ^ 16"
  by unfold_locales (simp add: dec_le_def le_nat_le_bytes_id)

lemma length_initialize_sighash: "length INITIALIZE_SIGHASH = 8"
  by (simp add: INITIALIZE_SIGHASH_def)

text \<open>The initialiser's instruction cannot be decoded on chain. Whatever the denomination, the arguments it carries
  are the denomination and nothing more: a reader of one 64-bit integer gets it back, a reader
  of the program's two arguments, the denomination and the relayer fee, runs out of bytes. The two
  arguments encoded after the same discriminator would be read.\<close>

theorem initialize_args_short:
  assumes "build_initialize_ix sol program_id authority token_mint tree_state denomination = Inr ix"
  shows "0 \<le> denomination \<and> denomination < 2 ^ 64
    \<and> dec_le 8 (drop 8 (data ix)) = Some (nat denomination, []) \<and> dec_initialize_args (drop 8 (data ix)) = None
    \<and> dec_initialize_args (drop 8 (data ix @ le_bytes 2 (nat (min 1000 fee)))) = Some ((nat denomination, nat (min 1000 fee)), [])"
proof -
  from assms obtain d where d: "to_bytes_le 8 denomination = Some d" and ix: "data ix = INITIALIZE_SIGHASH @ d"
    by (auto simp: build_initialize_ix_def split: option.splits)
  from d have r: "0 \<le> denomination" "denomination < 2 ^ 64" "d = le_bytes 8 (nat denomination)"
    by (auto simp: to_bytes_le_def split: if_splits)
  then have n: "nat denomination < 2 ^ 64" by (simp add: nat_less_iff)
  have one: "dec_le 8 d = Some (nat denomination, [])" using u64.dec_enc_whole [OF n] r(3) by simp
  have "nat (min 1000 fee) < 2 ^ 16" by simp
  then have "dec_initialize_args (d @ le_bytes 2 (nat (min 1000 fee))) = Some ((nat denomination, nat (min 1000 fee)), [])"
    using init_args.dec_enc_whole [of "(nat denomination, nat (min 1000 fee))"] n r(3)
    by (simp add: dec_initialize_args_def enc_pair_def)
  moreover have "dec_le 2 [] = None" by (simp add: dec_le_def)
  then have "dec_initialize_args d = None" unfolding dec_initialize_args_def dec_pair_def one by simp
  ultimately show ?thesis using r one by (simp add: ix length_initialize_sighash)
qed

theorem initialize_args_short_witness:
  "\<exists>ix. build_initialize_ix demo_solders [1] [2] [3] [4] 1000000000 = Inr ix \<and> dec_initialize_args (drop 8 (data ix)) = None"
proof -
  obtain ix where "build_initialize_ix demo_solders [1] [2] [3] [4] 1000000000 = Inr ix"
    by (simp add: build_initialize_ix_def to_bytes_le_def)
  with initialize_args_short [OF this, of 15] show ?thesis by blast
qed

text \<open>The safeguards of the scripts against the main network. With settings for \<open>mainnet-beta\<close> the pool
  initialiser without its override flag and the faucet client refuse, and touch neither node nor files.
  But the initialiser's guard goes by the name given on the command line: \<open>--cluster devnet\<close> lifts it like the
  flag does, and the transaction goes to the node of the settings all the same. The simulation its documentation
  announces never happens: the run is the same whatever the node's simulation would answer.\<close>

theorem mainnet_guards:
  assumes "solana_cluster cfg = ''mainnet-beta''" and "1 \<le> denomination"
  shows "pool_main sol cfg fs rpc close denomination mint None False w = (Inl (exit_code 2), w)
    \<and> (\<exists>m. airdrop_main sol cfg fl fmt fs' post sleep amount t p = (Inl (bad_parameter m), p))
    \<and> pool_main sol cfg fs rpc close denomination mint (Some ''devnet'') False w
        = or_exit 1 (pool_run sol cfg fs rpc close denomination mint) w
    \<and> pool_run sol cfg fs (rpc\<lparr>simulate_tx := f\<rparr>) close denomination mint w = pool_run sol cfg fs rpc close denomination mint w"
proof -
  have "pool_run sol cfg fs (rpc\<lparr>simulate_tx := f\<rparr>) close denomination mint = pool_run sol cfg fs rpc close denomination mint"
    by (simp add: pool_run_def)
  moreover have "\<exists>m. airdrop_main sol cfg fl fmt fs' post sleep amount t p = (Inl (bad_parameter m), p)"
    unfolding airdrop_main_def using assms(1) by (simp del: append.simps) (rule exI, rule refl)
  ultimately show ?thesis using assms by (simp add: pool_main_def effective_cluster_def)
qed

definition mainnet_settings :: settings where
  "mainnet_settings = default_settings\<lparr>solana_cluster := ''mainnet-beta''\<rparr>"

theorem mainnet_guards_witness:
  "\<forall>sol fs rpc close mint w.
     pool_main sol mainnet_settings fs rpc close 1 mint None False w = (Inl (exit_code 2), w)
     \<and> pool_main sol mainnet_settings fs rpc close 1 mint (Some ''devnet'') False w
         = or_exit 1 (pool_run sol mainnet_settings fs rpc close 1 mint) w"
proof -
  have c: "solana_cluster mainnet_settings = ''mainnet-beta''" by (simp add: mainnet_settings_def)
  show ?thesis using mainnet_guards [OF c order_refl] by blast
qed

end
