(* ===== verification/Entry.thy ===== *)
theory Entry
  imports ChainLog Scripts DepositBuilder
begin

text \<open>
  The entry point of the on-chain program: how the instruction data and the account list of a
  transaction become one of the instructions of \<open>Chain\<close>, and what becomes of
  the instructions that the backend builds. The dispatcher that the attribute \<open>#[program]\<close>
  generates is not in the repository: \<open>an_route\<close> is its table from discriminators
  to names, \<open>an_omit_optional\<close> whether the framework takes a missing account at the end of the list for an
  optional account that is left out, \<open>an_mint_at\<close> the \<open>token_mint\<close> field of the pool account at an
  address. Arguments are read before accounts, fields in the order of the struct.
\<close>

section \<open>Reading accounts and arguments\<close>

record anchor_rt =
  an_route :: "bytes \<Rightarrow> string option"
  an_omit_optional :: bool
  an_mint_at :: "pubkey \<Rightarrow> pubkey option"
  an_token_program :: pubkey

text \<open>The constraints \<open>Signer\<close>, \<open>mut\<close>, and an address that is known.\<close>

definition signer_account :: "account_meta \<Rightarrow> bool \<Rightarrow> pubkey chain" where
  "signer_account a mutable =
     chain_then (require (is_signer a) (Anchor ''AccountNotSigner'')) (\<lambda>_.
     chain_then (require (mutable \<longrightarrow> is_writable a) (Anchor ''ConstraintMut'')) (\<lambda>_.
     Inr (pubkey a)))"

definition account_at :: "account_meta \<Rightarrow> bool \<Rightarrow> pubkey \<Rightarrow> string \<Rightarrow> unit chain" where
  "account_at a mutable key err =
     chain_then (require (mutable \<longrightarrow> is_writable a) (Anchor ''ConstraintMut'')) (\<lambda>_.
     require (pubkey a = key) (Anchor err))"

definition mut_account :: "account_meta \<Rightarrow> pubkey chain" where
  "mut_account a = chain_then (require (is_writable a) (Anchor ''ConstraintMut'')) (\<lambda>_. Inr (pubkey a))"

text \<open>The pool account: it holds a mint, and stands at the address derived from it.\<close>

definition pool_account :: "vm \<Rightarrow> anchor_rt \<Rightarrow> account_meta \<Rightarrow> bool \<Rightarrow> pubkey chain" where
  "pool_account v an a mutable =
     chain_then (some_or (an_mint_at an (pubkey a)) (Anchor ''AccountNotInitialized'')) (\<lambda>mint.
     chain_then (account_at a mutable (vm_state v mint) ''ConstraintSeeds'') (\<lambda>_.
     Inr mint))"

definition system_program_account :: "account_meta \<Rightarrow> unit chain" where
  "system_program_account a = account_at a False SYSTEM_ID ''InvalidProgramId''"

text \<open>The optional account at the end: the program's own address stands for \<open>None\<close>.\<close>

definition verifier_account :: "vm \<Rightarrow> anchor_rt \<Rightarrow> account_meta list \<Rightarrow> pubkey option chain" where
  "verifier_account v an rest =
     (case rest of
        [] \<Rightarrow> if an_omit_optional an then Inr None else Inl (Anchor ''AccountNotEnoughKeys'')
      | a # _ \<Rightarrow> Inr (if pubkey a = vm_program v then None else Some (pubkey a)))"

definition not_enough_keys :: "'a chain" where
  "not_enough_keys = Inl (Anchor ''AccountNotEnoughKeys'')"

text \<open>Borsh arguments; bytes after the last one are not looked at.\<close>

definition read_args :: "(bytes \<Rightarrow> ('a \<times> bytes) option) \<Rightarrow> bytes \<Rightarrow> 'a chain" where
  "read_args dec args = map_sum id fst (some_or (dec args) (Anchor ''InstructionDidNotDeserialize''))"

section \<open>The instructions\<close>

definition enter_initialize :: "vm \<Rightarrow> bytes \<Rightarrow> account_meta list \<Rightarrow> tx chain" where
  "enter_initialize v args accs =
     chain_then (read_args (dec_pair (dec_le 8) (dec_le 2)) args) (\<lambda>(denomination, fee_bps).
     (case accs of
        authority # token_mint # tree_state # system # _ \<Rightarrow>
          chain_then (signer_account authority True) (\<lambda>a.
          chain_then (account_at tree_state True (vm_state v (pubkey token_mint)) ''ConstraintSeeds'') (\<lambda>_.
          chain_then (system_program_account system) (\<lambda>_.
          Inr (Initialize a (pubkey token_mint) denomination fee_bps))))
      | _ \<Rightarrow> not_enough_keys))"

definition enter_deposit_sol :: "vm \<Rightarrow> anchor_rt \<Rightarrow> bytes \<Rightarrow> account_meta list \<Rightarrow> tx chain" where
  "enter_deposit_sol v an args accs =
     chain_then (read_args (dec_array 32) args) (\<lambda>commitment.
     (case accs of
        depositor # vault # tree_state # system # _ \<Rightarrow>
          chain_then (signer_account depositor True) (\<lambda>d.
          chain_then (pool_account v an tree_state True) (\<lambda>mint.
          chain_then (account_at vault True (vm_vault v mint) ''ConstraintSeeds'') (\<lambda>_.
          chain_then (system_program_account system) (\<lambda>_.
          Inr (DepositSol d mint commitment)))))
      | _ \<Rightarrow> not_enough_keys))"

definition enter_deposit_spl :: "vm \<Rightarrow> anchor_rt \<Rightarrow> bytes \<Rightarrow> account_meta list \<Rightarrow> tx chain" where
  "enter_deposit_spl v an args accs =
     chain_then (read_args (dec_array 32) args) (\<lambda>commitment.
     (case accs of
        depositor # vault # depositor_ta # vault_ta # tree_state # token_program # system # _ \<Rightarrow>
          chain_then (signer_account depositor True) (\<lambda>d.
          chain_then (pool_account v an tree_state True) (\<lambda>mint.
          chain_then (account_at vault True (vm_vault v mint) ''ConstraintSeeds'') (\<lambda>_.
          chain_then (mut_account depositor_ta) (\<lambda>source_ta.
          chain_then (mut_account vault_ta) (\<lambda>target_ta.
          chain_then (account_at token_program False (an_token_program an) ''InvalidProgramId'') (\<lambda>_.
          chain_then (system_program_account system) (\<lambda>_.
          Inr (DepositSpl d mint source_ta target_ta commitment))))))))
      | _ \<Rightarrow> not_enough_keys))"

text \<open>The call of a withdrawal from its decoded arguments.\<close>

definition call_of :: "pubkey \<Rightarrow> pubkey \<Rightarrow> bytes \<times> bytes \<times> bytes \<times> bytes \<times> nat \<Rightarrow> pubkey option \<Rightarrow> withdrawal_call" where
  "call_of relayer mint args verifier =
     (let (proof_bytes, root_bytes, nullifier_hash, recipient, amount) = args in
      \<lparr>wc_relayer = relayer, wc_mint = mint, wc_proof = proof_bytes, wc_root = root_bytes,
       wc_nullifier_hash = nullifier_hash, wc_recipient = recipient, wc_amount = amount, wc_verifier = verifier\<rparr>)"

definition enter_withdraw :: "vm \<Rightarrow> anchor_rt \<Rightarrow> bytes \<Rightarrow> account_meta list \<Rightarrow> tx chain" where
  "enter_withdraw v an args accs =
     chain_then (read_args dec_withdraw_args args) (\<lambda>decoded.
     (let (_, _, nullifier_hash, recipient, _) = decoded in
      (case accs of
         relayer # vault # tree_state # nullifier # recipient_account # system # rest \<Rightarrow>
           chain_then (verifier_account v an rest) (\<lambda>verifier.
           chain_then (signer_account relayer True) (\<lambda>r.
           chain_then (pool_account v an tree_state True) (\<lambda>mint.
           chain_then (account_at vault True (vm_vault v mint) ''ConstraintSeeds'') (\<lambda>_.
           chain_then (account_at nullifier True (vm_nullifier v nullifier_hash) ''ConstraintSeeds'') (\<lambda>_.
           chain_then (account_at recipient_account True recipient ''ConstraintAddress'') (\<lambda>_.
           chain_then (system_program_account system) (\<lambda>_.
           Inr (WithdrawSol (call_of r mint decoded verifier)))))))))
       | _ \<Rightarrow> not_enough_keys)))"

definition enter_withdraw_spl :: "vm \<Rightarrow> anchor_rt \<Rightarrow> bytes \<Rightarrow> account_meta list \<Rightarrow> tx chain" where
  "enter_withdraw_spl v an args accs =
     chain_then (read_args dec_withdraw_args args) (\<lambda>decoded.
     (let (_, _, nullifier_hash, recipient, _) = decoded in
      (case accs of
         relayer # relayer_ta # vault # vault_ta # tree_state # nullifier # recipient_account # recipient_ta
           # token_program # system # rest \<Rightarrow>
           chain_then (verifier_account v an rest) (\<lambda>verifier.
           chain_then (signer_account relayer True) (\<lambda>r.
           chain_then (mut_account relayer_ta) (\<lambda>fee_ta.
           chain_then (pool_account v an tree_state True) (\<lambda>mint.
           chain_then (account_at vault True (vm_vault v mint) ''ConstraintSeeds'') (\<lambda>_.
           chain_then (mut_account vault_ta) (\<lambda>source_ta.
           chain_then (account_at nullifier True (vm_nullifier v nullifier_hash) ''ConstraintSeeds'') (\<lambda>_.
           chain_then (account_at recipient_account False recipient ''ConstraintAddress'') (\<lambda>_.
           chain_then (mut_account recipient_ta) (\<lambda>target_ta.
           chain_then (account_at token_program False (an_token_program an) ''InvalidProgramId'') (\<lambda>_.
           chain_then (system_program_account system) (\<lambda>_.
           Inr (WithdrawSpl (call_of r mint decoded verifier) fee_ta source_ta target_ta))))))))))))
       | _ \<Rightarrow> not_enough_keys)))"

definition enter_register_fee_share :: "vm \<Rightarrow> anchor_rt \<Rightarrow> bytes \<Rightarrow> account_meta list \<Rightarrow> tx chain" where
  "enter_register_fee_share v an args accs =
     chain_then (read_args (dec_le 2) args) (\<lambda>bps.
     (case accs of
        authority # tree_state # vault # fee_share_program # _ \<Rightarrow>
          chain_then (signer_account authority False) (\<lambda>a.
          chain_then (pool_account v an tree_state False) (\<lambda>mint.
          chain_then (account_at vault True (vm_vault v mint) ''ConstraintSeeds'') (\<lambda>_.
          chain_then (account_at fee_share_program False (vm_fee_share v) ''ConstraintAddress'') (\<lambda>_.
          Inr (RegisterFeeShare a mint bps)))))
      | _ \<Rightarrow> not_enough_keys))"

definition enter_admin :: "vm \<Rightarrow> anchor_rt \<Rightarrow> (pubkey \<Rightarrow> pubkey \<Rightarrow> tx) \<Rightarrow> account_meta list \<Rightarrow> tx chain" where
  "enter_admin v an instr accs =
     (case accs of
        authority # tree_state # _ \<Rightarrow>
          chain_then (signer_account authority False) (\<lambda>a.
          chain_then (pool_account v an tree_state True) (\<lambda>mint.
          Inr (instr a mint)))
      | _ \<Rightarrow> not_enough_keys)"

text \<open>The functions of \<open>lib.rs\<close> by their names.\<close>

definition enter_program :: "vm \<Rightarrow> anchor_rt \<Rightarrow> instruction \<Rightarrow> tx chain" where
  "enter_program v an ix =
     (let args = drop 8 (data ix); accs = accounts ix in
      chain_then (some_or (an_route an (take 8 (data ix))) (Anchor ''InstructionFallbackNotFound'')) (\<lambda>name.
      if name = ''initialize'' then enter_initialize v args accs
      else if name = ''deposit_sol'' then enter_deposit_sol v an args accs
      else if name = ''deposit_spl'' then enter_deposit_spl v an args accs
      else if name = ''deposit'' then enter_deposit_sol v an args accs
      else if name = ''withdraw_sol'' then enter_withdraw v an args accs
      else if name = ''withdraw_spl'' then enter_withdraw_spl v an args accs
      else if name = ''withdraw'' then enter_withdraw v an args accs
      else if name = ''register_fee_share'' then enter_register_fee_share v an args accs
      else if name = ''pause'' then enter_admin v an Pause accs
      else if name = ''unpause'' then enter_admin v an Unpause accs
      else if name = ''rotate_authority''
      then chain_then (read_args (dec_array 32) args) (\<lambda>new_authority.
             enter_admin v an (\<lambda>a mint. RotateAuthority a mint new_authority) accs)
      else Inl (Anchor ''InstructionFallbackNotFound'')))"

definition execute :: "vm \<Rightarrow> anchor_rt \<Rightarrow> ledger \<Rightarrow> instruction \<Rightarrow> (ledger \<times> event list) chain" where
  "execute v an lg ix = chain_then (enter_program v an ix) (process v lg)"

section \<open>What the backend relies on\<close>

text \<open>Both sides derive the program's addresses with the same function from the same seeds.\<close>

definition same_addresses :: "solders \<Rightarrow> vm \<Rightarrow> bool" where
  "same_addresses sol v \<longleftrightarrow>
     (\<forall>m. fst (find_program_address sol [VAULT_SEED, m] (vm_program v)) = vm_vault v m)
   \<and> (\<forall>m. fst (find_program_address sol [MERKLE_TREE_SEED, m] (vm_program v)) = vm_state v m)
   \<and> (\<forall>h. fst (find_program_address sol [NULLIFIER_SEED, h] (vm_program v)) = vm_nullifier v h)
   \<and> system_program_id sol = SYSTEM_ID \<and> const_pubkey sol DepositBuilder.SYSTEM_PROGRAM_ID = SYSTEM_ID"

text \<open>The generated dispatcher knows a function by the first eight bytes of a hash of its name.\<close>

definition routes :: "anchor_rt \<Rightarrow> string \<Rightarrow> bool" where
  "routes an name \<longleftrightarrow> an_route an (take 8 (sha256 (ascii (''global:'' @ name)))) = Some name"

definition pools_stored :: "vm \<Rightarrow> anchor_rt \<Rightarrow> bool" where
  "pools_stored v an \<longleftrightarrow> (\<forall>m. an_mint_at an (vm_state v m) = Some m)"

section \<open>Lemmas\<close>

lemmas entry_defs = pool_account_def account_at_def signer_account_def system_program_account_def mut_account_def
  not_enough_keys_def signer_meta_def writable_meta_def readonly_meta_def require_def some_or_def

lemma entry_route:
  assumes "routes an name" "data ix = take 8 (sha256 (ascii (''global:'' @ name))) @ args"
  shows "drop 8 (data ix) = args" "an_route an (take 8 (data ix)) = Some name"
  using assms by (simp_all add: routes_def)

lemma read_args_Some: "dec args = Some (x, r) \<Longrightarrow> read_args dec args = Inr x"
  by (simp add: read_args_def some_or_def)

lemma read_args_None: "dec args = None \<Longrightarrow> read_args dec args = Inl (Anchor ''InstructionDidNotDeserialize'')"
  by (simp add: read_args_def some_or_def)

text \<open>The call that a relayed withdrawal makes.\<close>

definition relayed_call :: "withdraw_args \<Rightarrow> withdrawal_call" where
  "relayed_call a = call_of (wa_relayer a) (wa_token_mint a)
     (wa_proof_bytes a, pad32 (wa_root_bytes a), pad32 (wa_nullifier_bytes a), wa_recipient a, nat (wa_amount a)) None"

lemma relayed_call_simps [simp]:
  "wc_relayer (relayed_call a) = wa_relayer a" "wc_mint (relayed_call a) = wa_token_mint a"
  "wc_recipient (relayed_call a) = wa_recipient a" "wc_amount (relayed_call a) = nat (wa_amount a)"
  "wc_nullifier_hash (relayed_call a) = pad32 (wa_nullifier_bytes a)" "wc_verifier (relayed_call a) = None"
  by (simp_all add: relayed_call_def call_of_def)

text \<open>Data and accounts of the instructions that the backend builds.\<close>

lemma withdraw_ix_parts:
  assumes "build_withdraw_ix_for_pool sol a = Inr ix" "same_addresses sol v" "wa_program_id a = vm_program v"
  shows "accounts ix =
      (if wa_token_mint a = SYSTEM_ID
       then [signer_meta (wa_relayer a), writable_meta (vm_vault v (wa_token_mint a)),
             writable_meta (vm_state v (wa_token_mint a)),
             writable_meta (vm_nullifier v (pad32 (wa_nullifier_bytes a))), writable_meta (wa_recipient a),
             readonly_meta SYSTEM_ID]
       else [signer_meta (wa_relayer a), writable_meta (vm_vault v (wa_token_mint a)),
             writable_meta (derive_ata sol (vm_vault v (wa_token_mint a)) (wa_token_mint a)),
             writable_meta (vm_state v (wa_token_mint a)),
             writable_meta (vm_nullifier v (pad32 (wa_nullifier_bytes a))), readonly_meta (wa_recipient a),
             writable_meta (derive_ata sol (wa_recipient a) (wa_token_mint a)),
             readonly_meta (SPL_TOKEN_PROGRAM_ID sol), readonly_meta SYSTEM_ID])"
  using assms
  by (auto simp: build_withdraw_ix_for_pool_def build_withdraw_ix_def build_withdraw_spl_ix_def derive_pdas_def
      same_addresses_def Let_def pad32_fold res_simps split: if_splits)

lemma withdraw_ix_args:
  assumes "build_withdraw_ix_for_pool sol a = Inr ix" "length (wa_recipient a) = 32"
  shows "read_args dec_withdraw_args (drop 8 (data ix)) =
     Inr (wa_proof_bytes a, pad32 (wa_root_bytes a), pad32 (wa_nullifier_bytes a), wa_recipient a, nat (wa_amount a))"
proof (rule read_args_Some)
  from build_for_pool_Inr [OF assms(1)] have d: "withdraw_fits a"
    "data ix = withdraw_data (if wa_token_mint a = system_program_id sol then WITHDRAW_SIGHASH else WITHDRAW_SPL_SIGHASH) a"
    by simp_all
  then have "length (wa_proof_bytes a) < 2 ^ 32" "nat (wa_amount a) < 2 ^ 64" by (auto simp: withdraw_fits_def)
  then show "dec_withdraw_args (drop 8 (data ix)) = Some ((wa_proof_bytes a, pad32 (wa_root_bytes a),
      pad32 (wa_nullifier_bytes a), wa_recipient a, nat (wa_amount a)), [])"
    using dec_withdraw_args_enc [of "wa_proof_bytes a" "pad32 (wa_root_bytes a)" "pad32 (wa_nullifier_bytes a)"
        "wa_recipient a" "nat (wa_amount a)"] assms(2) d by (simp add: withdraw_data_def)
qed

lemma withdraw_ix_route:
  assumes "build_withdraw_ix_for_pool sol a = Inr ix" "same_addresses sol v"
    and "routes an (if wa_token_mint a = SYSTEM_ID then ''withdraw'' else ''withdraw_spl'')"
  shows "an_route an (take 8 (data ix)) = Some (if wa_token_mint a = SYSTEM_ID then ''withdraw'' else ''withdraw_spl'')"
  using build_for_pool_Inr [OF assms(1)] assms(2,3)
  by (cases "wa_token_mint a = SYSTEM_ID") (simp_all add: withdraw_data_def same_addresses_def routes_def WITHDRAW_SIGHASH_def WITHDRAW_SPL_SIGHASH_def)

lemma relayed_sol_entry:
  assumes "build_withdraw_ix_for_pool sol a = Inr ix" "same_addresses sol v" "pools_stored v an"
    and "routes an ''withdraw''"
    and "wa_program_id a = vm_program v" "length (wa_recipient a) = 32" "wa_token_mint a = SYSTEM_ID"
  shows "execute v an lg ix =
     (if an_omit_optional an then withdraw_sol v lg (relayed_call a) else Inl (Anchor ''AccountNotEnoughKeys''))"
proof -
  have n: "an_route an (take 8 (data ix)) = Some ''withdraw''"
    using withdraw_ix_route [OF assms(1,2)] assms(4,7) by simp
  have acc: "accounts ix = [signer_meta (wa_relayer a), writable_meta (vm_vault v SYSTEM_ID), writable_meta (vm_state v SYSTEM_ID),
      writable_meta (vm_nullifier v (pad32 (wa_nullifier_bytes a))), writable_meta (wa_recipient a), readonly_meta SYSTEM_ID]"
    using withdraw_ix_parts [OF assms(1,2,5)] assms(7) by simp
  have "enter_program v an ix = (if an_omit_optional an then Inr (WithdrawSol (relayed_call a)) else Inl (Anchor ''AccountNotEnoughKeys''))"
    using assms(3,7)
    by (simp add: enter_program_def n acc enter_withdraw_def withdraw_ix_args [OF assms(1,6)] verifier_account_def entry_defs
        pools_stored_def relayed_call_def)
  then show ?thesis by (simp add: execute_def process_def)
qed

lemma relayed_spl_entry:
  assumes "build_withdraw_ix_for_pool sol a = Inr ix" "same_addresses sol v"
    and "routes an ''withdraw_spl''"
    and "wa_program_id a = vm_program v" "length (wa_recipient a) = 32" "wa_token_mint a \<noteq> SYSTEM_ID"
  shows "execute v an lg ix = Inl (Anchor ''AccountNotEnoughKeys'')"
proof -
  have n: "an_route an (take 8 (data ix)) = Some ''withdraw_spl''"
    using withdraw_ix_route [OF assms(1,2)] assms(3,6) by simp
  have "enter_program v an ix = Inl (Anchor ''AccountNotEnoughKeys'')"
    by (simp add: enter_program_def n withdraw_ix_parts [OF assms(1,2,4)] assms(6) enter_withdraw_spl_def
        withdraw_ix_args [OF assms(1,5)] entry_defs)
  then show ?thesis by (simp add: execute_def)
qed

section \<open>Properties\<close>

text \<open>C5. What a relayed withdrawal does on chain. The instruction that the backend builds for the SOL pool is the
  program's \<open>withdraw\<close> with the request's arguments, decoded and addressed as the program expects, if the framework accepts
  that the optional account at the end is missing, and is refused if it does not. The instruction for an SPL pool has
  no token account of the relayer, which the program's account list starts with: it is refused whatever it carries. Together
  with the lock on the SOL vault no withdrawal relayed by the backend is ever paid.\<close>

theorem relayed_withdrawal_on_chain:
  assumes "build_withdraw_ix_for_pool sol a = Inr ix" and "same_addresses sol v" and "pools_stored v an"
    and "routes an (if wa_token_mint a = SYSTEM_ID then ''withdraw'' else ''withdraw_spl'')"
    and "wa_program_id a = vm_program v" and "length (wa_recipient a) = 32"
  shows "(wa_token_mint a = SYSTEM_ID \<longrightarrow>
            execute v an lg ix = (if an_omit_optional an then withdraw_sol v lg (relayed_call a)
                                  else Inl (Anchor ''AccountNotEnoughKeys'')))
     \<and> (wa_token_mint a \<noteq> SYSTEM_ID \<longrightarrow> (\<exists>e. execute v an lg ix = Inl e))
     \<and> (\<forall>lg0 ts. transfer_law v \<longrightarrow> runtime_law v \<longrightarrow> addresses_apart v \<longrightarrow> chain_run v lg0 ts lg \<longrightarrow>
          (\<forall>t \<in> set ts. \<forall>m. signer_of t \<noteq> vm_vault v m) \<longrightarrow> lg_owner lg0 (vm_vault v SYSTEM_ID) \<noteq> vm_program v \<longrightarrow>
          0 < wa_amount a \<longrightarrow> wa_recipient a \<noteq> vm_vault v SYSTEM_ID \<longrightarrow> wa_relayer a \<noteq> vm_vault v SYSTEM_ID \<longrightarrow>
          (\<exists>e. execute v an lg ix = Inl e))"
proof -
  have sol: "execute v an lg ix = (if an_omit_optional an then withdraw_sol v lg (relayed_call a)
      else Inl (Anchor ''AccountNotEnoughKeys''))" if "wa_token_mint a = SYSTEM_ID"
    using relayed_sol_entry [OF assms(1-3) _ assms(5,6) that] assms(4) that by simp
  have spl: "\<exists>e. execute v an lg ix = Inl e" if "wa_token_mint a \<noteq> SYSTEM_ID"
    using relayed_spl_entry [OF assms(1,2) _ assms(5,6) that] assms(4) that by simp
  have "\<exists>e. execute v an lg ix = Inl e"
    if "transfer_law v" "runtime_law v" "addresses_apart v" "chain_run v lg0 ts lg"
      "\<forall>t \<in> set ts. \<forall>m. signer_of t \<noteq> vm_vault v m" "lg_owner lg0 (vm_vault v SYSTEM_ID) \<noteq> vm_program v"
      "0 < wa_amount a" "wa_recipient a \<noteq> vm_vault v SYSTEM_ID" "wa_relayer a \<noteq> vm_vault v SYSTEM_ID" for lg0 ts
  proof (cases "wa_token_mint a = SYSTEM_ID")
    case True
    have "\<exists>e. withdraw_sol v lg (relayed_call a) = Inl e"
      using locked_sol_payout [OF that(1-4) _ that(6), of "relayed_call a"] that(5,7-9) by auto
    with sol [OF True] show ?thesis by simp
  qed (use spl in blast)
  with sol spl show ?thesis by blast
qed

text \<open>C11. What a deposit does on chain. The instruction of either deposit builder is the program's \<open>deposit\<close>
  of the commitment into the pool of the mint, decoded and addressed as the program expects. That function moves SOL
  only: for any other mint, whose pool was opened by the program, every such instruction is refused, although the endpoint
  offers token mints.\<close>

theorem deposit_instruction_on_chain:
  assumes "build_deposit_ix_swap sol (vm_program v) mint depositor commitment = Inr ix
     \<or> build_deposit_ix sol (vm_program v) depositor (fst (derive_deposit_pdas sol (vm_program v) mint))
          (snd (derive_deposit_pdas sol (vm_program v) mint)) commitment = Inr ix"
    and "same_addresses sol v" and "pools_stored v an" and "routes an ''deposit''"
  shows "execute v an lg ix = deposit_sol v lg depositor mint commitment
     \<and> (\<forall>lg0 ts H ok. mint \<noteq> SYSTEM_ID \<longrightarrow> hash_is (vm_hash v) ok H \<longrightarrow> chain_run v lg0 ts lg \<longrightarrow> lg_pools lg0 mint = None \<longrightarrow>
          (\<exists>e. execute v an lg ix = Inl e))"
proof -
  have ix: "length commitment = 32" "data ix = DepositBuilder.DEPOSIT_SIGHASH @ commitment"
    "accounts ix = [signer_meta depositor, writable_meta (vm_vault v mint), writable_meta (vm_state v mint), readonly_meta SYSTEM_ID]"
    using assms(1,2)
    by (auto simp: build_deposit_ix_def build_deposit_ix_swap_def deposit_accounts_def derive_deposit_pdas_def system_key_def
        same_addresses_def Let_def split: if_splits)
  have n: "an_route an (take 8 (data ix)) = Some ''deposit''" and args: "drop 8 (data ix) = commitment"
    using assms(4) ix(2) by (simp_all add: routes_def DepositBuilder.DEPOSIT_SIGHASH_def)
  have c: "read_args (dec_array 32) commitment = Inr commitment"
    using ix(1) by (intro read_args_Some [where r = "[]"]) (simp add: dec_array_def)
  have run: "execute v an lg ix = deposit_sol v lg depositor mint commitment"
    using assms(3)
    by (simp add: execute_def enter_program_def n args ix(3) enter_deposit_sol_def c entry_defs pools_stored_def process_def)
  have "\<exists>e. deposit_sol v lg depositor mint commitment = Inl e"
    if "mint \<noteq> SYSTEM_ID" "hash_is (vm_hash v) ok H" "chain_run v lg0 ts lg" "lg_pools lg0 mint = None" for lg0 ts H ok
  proof (cases "lg_pools lg mint")
    case None
    then show ?thesis by (simp add: deposit_sol_def open_pool_def some_or_def)
  next
    case (Some st)
    with run_pool_log [OF that(2,4,3)] have "ts_token_mint st = mint" by (simp add: pool_log_def)
    with Some that(1) show ?thesis by (simp add: deposit_sol_def open_pool_def some_or_def require_def)
  qed
  with run show ?thesis by simp
qed

text \<open>C23. The initialiser's instruction on chain. Whatever the denomination, the program refuses the instruction that the
  script builds, because the arguments end before the relayer fee that \<open>initialize\<close> takes. The same instruction
  with the two bytes of a fee behind the denomination is the program's \<open>initialize\<close> with both.\<close>

theorem initialize_instruction_on_chain:
  assumes "build_initialize_ix sol (vm_program v) authority mint (vm_state v mint) denomination = Inr ix"
    and "same_addresses sol v" and "routes an ''initialize''" and "fee < 2 ^ 16"
  shows "execute v an lg ix = Inl (Anchor ''InstructionDidNotDeserialize'')
     \<and> execute v an lg (ix\<lparr>data := data ix @ le_bytes 2 fee\<rparr>) = initialize v lg authority mint (nat denomination) fee"
proof -
  have key: "const_pubkey sol Scripts.SYSTEM_PROGRAM_ID = SYSTEM_ID"
    using assms(2) by (simp add: same_addresses_def DepositBuilder.SYSTEM_PROGRAM_ID_def Scripts.SYSTEM_PROGRAM_ID_def numeral_eq_Suc)
  from assms(1) obtain d where d: "to_bytes_le 8 denomination = Some d" "data ix = INITIALIZE_SIGHASH @ d"
    "accounts ix = [signer_meta authority, readonly_meta mint, writable_meta (vm_state v mint), readonly_meta SYSTEM_ID]"
    by (auto simp: build_initialize_ix_def key split: option.splits)
  then have len: "length d = 8" and den: "nat denomination < 2 ^ 64" "d = le_bytes 8 (nat denomination)"
    by (auto simp: to_bytes_le_def nat_less_iff split: if_splits)
  have s8: "length INITIALIZE_SIGHASH = 8" by (simp add: INITIALIZE_SIGHASH_def)
  have n: "an_route an INITIALIZE_SIGHASH = Some ''initialize''" using assms(3) by (simp add: routes_def INITIALIZE_SIGHASH_def)
  have short: "read_args (dec_pair (dec_le 8) (dec_le 2)) d = Inl (Anchor ''InstructionDidNotDeserialize'')"
    using len by (intro read_args_None) (simp add: dec_pair_def dec_le_def)
  have full: "read_args (dec_pair (dec_le 8) (dec_le 2)) (d @ le_bytes 2 fee) = Inr (nat denomination, fee)"
    using len den assms(4) by (intro read_args_Some [where r = "[]"]) (simp add: dec_pair_def dec_le_def le_nat_le_bytes_id)
  have "execute v an lg ix = Inl (Anchor ''InstructionDidNotDeserialize'')"
    by (simp add: execute_def enter_program_def Let_def some_or_def d(2) n s8 enter_initialize_def short)
  moreover have "execute v an lg (ix\<lparr>data := data ix @ le_bytes 2 fee\<rparr>) = initialize v lg authority mint (nat denomination) fee"
    by (simp add: execute_def enter_program_def d(2,3) n s8 enter_initialize_def full entry_defs process_def)
  ultimately show ?thesis by blast
qed

section \<open>The examples\<close>

text \<open>A machine and a library that derive the same addresses, and a dispatcher that knows one function.\<close>

definition entry_vm :: vm where
  "entry_vm = demo_vm\<lparr>vm_vault := (\<lambda>m. VAULT_SEED @ m), vm_state := (\<lambda>m. MERKLE_TREE_SEED @ m),
     vm_nullifier := (\<lambda>h. NULLIFIER_SEED @ h)\<rparr>"

definition entry_solders :: solders where
  "entry_solders = demo_solders\<lparr>find_program_address := (\<lambda>seeds pid. (concat seeds, 255)),
     pubkey_from_string := (\<lambda>s. Inr (if s = DepositBuilder.SYSTEM_PROGRAM_ID then SYSTEM_ID else ascii s)),
     system_program_id := SYSTEM_ID\<rparr>"

definition entry_anchor :: "string \<Rightarrow> anchor_rt" where
  "entry_anchor name = \<lparr>an_route = (\<lambda>d. Some name), an_omit_optional = True,
     an_mint_at = (\<lambda>k. Some (drop 11 k)), an_token_program = [6]\<rparr>"

lemma entry_laws [simp]:
  "same_addresses entry_solders entry_vm" "pools_stored entry_vm (entry_anchor name)" "routes (entry_anchor name) name"
  "vm_program entry_vm = vm_program demo_vm"
  by (simp_all add: same_addresses_def pools_stored_def routes_def entry_vm_def entry_solders_def entry_anchor_def
      const_pubkey_def MERKLE_TREE_SEED_def ascii_def)

definition entry_args :: "pubkey \<Rightarrow> withdraw_args" where
  "entry_args mint = \<lparr>wa_program_id = [1], wa_token_mint = mint, wa_recipient = replicate 32 7, wa_relayer = [20],
     wa_proof_bytes = [1, 2, 3], wa_root_bytes = replicate 32 6, wa_nullifier_bytes = [7], wa_amount = 5\<rparr>"

theorem relayed_withdrawal_on_chain_witness:
  "(\<exists>ix. build_withdraw_ix_for_pool entry_solders (entry_args SYSTEM_ID) = Inr ix
       \<and> execute entry_vm (entry_anchor ''withdraw'') demo_ledger ix = withdraw_sol entry_vm demo_ledger (relayed_call (entry_args SYSTEM_ID)))
   \<and> (\<exists>ix e. build_withdraw_ix_for_pool entry_solders (entry_args [5]) = Inr ix
       \<and> execute entry_vm (entry_anchor ''withdraw_spl'') demo_ledger ix = Inl e)"
proof -
  have fits: "withdraw_fits (entry_args m)" "wa_program_id (entry_args m) = vm_program entry_vm"
    "length (wa_recipient (entry_args m)) = 32" "wa_token_mint (entry_args m) = m" for m
    by (simp_all add: withdraw_fits_def entry_args_def) (simp add: demo_vm_def)
  then obtain ix where ix: "build_withdraw_ix_for_pool entry_solders (entry_args SYSTEM_ID) = Inr ix"
    using build_for_pool_total [of "entry_args SYSTEM_ID" entry_solders] by (auto simp: entry_args_def)
  obtain ix2 where ix2: "build_withdraw_ix_for_pool entry_solders (entry_args [5]) = Inr ix2"
    using build_for_pool_total [of "entry_args [5]" entry_solders] fits by (auto simp: entry_args_def)
  have "an_omit_optional (entry_anchor n)" for n by (simp add: entry_anchor_def)
  with relayed_withdrawal_on_chain [OF ix entry_laws(1,2), of "''withdraw''" demo_ledger] fits
  have 1: "execute entry_vm (entry_anchor ''withdraw'') demo_ledger ix = withdraw_sol entry_vm demo_ledger (relayed_call (entry_args SYSTEM_ID))"
    by (simp add: entry_laws(3))
  from relayed_withdrawal_on_chain [OF ix2 entry_laws(1,2), of "''withdraw_spl''" demo_ledger] fits
  have "\<exists>e. execute entry_vm (entry_anchor ''withdraw_spl'') demo_ledger ix2 = Inl e" by (simp add: entry_laws(3))
  with 1 ix ix2 show ?thesis by blast
qed

theorem deposit_instruction_on_chain_witness:
  "\<exists>ix. build_deposit_ix_swap entry_solders (vm_program entry_vm) SYSTEM_ID [21] (replicate 32 6) = Inr ix
     \<and> execute entry_vm (entry_anchor ''deposit'') demo_ledger ix = deposit_sol entry_vm demo_ledger [21] SYSTEM_ID (replicate 32 6)"
proof -
  obtain ix where "build_deposit_ix_swap entry_solders (vm_program entry_vm) SYSTEM_ID [21] (replicate 32 6) = Inr ix"
    by (simp add: build_deposit_ix_swap_def derive_deposit_pdas_def)
  with deposit_instruction_on_chain [OF disjI1 [OF this] entry_laws(1,2,3)] show ?thesis by blast
qed

theorem initialize_instruction_on_chain_witness:
  "\<exists>ix. build_initialize_ix entry_solders (vm_program entry_vm) [20] SYSTEM_ID (vm_state entry_vm SYSTEM_ID) 5 = Inr ix
     \<and> execute entry_vm (entry_anchor ''initialize'') fresh_ledger ix = Inl (Anchor ''InstructionDidNotDeserialize'')
     \<and> execute entry_vm (entry_anchor ''initialize'') fresh_ledger (ix\<lparr>data := data ix @ le_bytes 2 15\<rparr>)
         = initialize entry_vm fresh_ledger [20] SYSTEM_ID 5 15"
proof -
  obtain ix where "build_initialize_ix entry_solders (vm_program entry_vm) [20] SYSTEM_ID (vm_state entry_vm SYSTEM_ID) 5 = Inr ix"
    by (simp add: build_initialize_ix_def to_bytes_le_def)
  with initialize_instruction_on_chain [OF this entry_laws(1,3), of 15 fresh_ledger] show ?thesis by auto
qed

end
