(* ===== verification/Anonymity.thy ===== *)
theory Anonymity
  imports MerkleTree Deposit
begin

text \<open>
  The routes of \<open>backend/app/routers/anonymity.py\<close> over the database: the query of
  \<open>get_merkle_path\<close> in front of the replay of \<open>MerklePath\<close>, and \<open>get_merkle_root\<close>. The
  other two return what \<open>DepositService.get_anonymity_set\<close> returns. The lemmas
  compose the routes with the log that registrations write.
\<close>

section \<open>The routes\<close>

text \<open>
  The filter \<open>{"merkle_index": {"$lte": n}}\<close> compares numbers only, and the projection
  keeps the two fields the loop reads.
\<close>

definition at_most :: "nat \<Rightarrow> doc \<Rightarrow> bool" where
  "at_most n d =
     (case jget d ''merkle_index'' of
        JInt i \<Rightarrow> i \<le> int n | JFloat x \<Rightarrow> x \<le> of_nat n | _ \<Rightarrow> False)"

definition project :: "string list \<Rightarrow> doc \<Rightarrow> doc" where
  "project ks d = filter (\<lambda>(k, _). k \<in> set ks) d"

text \<open>The cursor is sorted upwards and has no limit.\<close>

definition merkle_path_route ::
  "(bytes \<Rightarrow> bytes \<Rightarrow> bytes) \<Rightarrow> (string \<Rightarrow> (doc \<Rightarrow> bool) \<Rightarrow> string \<Rightarrow> (doc list, 'w) io) \<Rightarrow> nat
     \<Rightarrow> (path_response, 'w) io" where
  "merkle_path_route H query leaf_index =
     andthen (query ''commitments'' (at_most leaf_index) ''merkle_index'') (\<lambda>docs.
     pure (get_merkle_path H (map (project [''merkle_index'', ''commitment'']) docs) leaf_index))"

record root_response =
  rt_current :: string
  rt_recent :: "string list"
  rt_source :: string
  rt_program_id :: string

definition FALLBACK_ROOT :: string where
  "FALLBACK_ROOT = replicate 64 CHR ''0''"

definition RECENT_ROOTS_LIMIT :: nat where
  "RECENT_ROOTS_LIMIT = 10"

definition merkle_root_route :: "settings \<Rightarrow> 'w indexer \<Rightarrow> int \<Rightarrow> (root_response, 'w) io" where
  "merkle_root_route cfg ix now =
     andthen (get_recent_roots ix now RECENT_ROOTS_LIMIT) (\<lambda>recent.
     ret (case recent of
            r # _ \<Rightarrow> \<lparr>rt_current = m_root r, rt_recent = map m_root recent,
                      rt_source = source_str (m_source r), rt_program_id = bagsvault_program_id cfg\<rparr>
          | [] \<Rightarrow> \<lparr>rt_current = FALLBACK_ROOT, rt_recent = [], rt_source = ''fallback'',
                   rt_program_id = bagsvault_program_id cfg\<rparr>))"

section \<open>The query\<close>

text \<open>A sorted query without a limit, as the driver documents it.\<close>

locale sorted_query = mongo db docs le
  for db :: "'w mongo" and docs :: "'w \<Rightarrow> string \<Rightarrow> doc list" and le :: "json \<Rightarrow> json \<Rightarrow> bool" +
  fixes query :: "string \<Rightarrow> (doc \<Rightarrow> bool) \<Rightarrow> string \<Rightarrow> (doc list, 'w) io"
  assumes query_law: "query c P k w = (Inr ds, w') \<Longrightarrow>
      docs w' = docs w \<and> mset ds = mset (filter P (docs w c)) \<and> sorted_by le k 1 ds"
begin

text \<open>Over documents with distinct integers under the key, the answer is the sorted list.\<close>

lemma query_answer:
  assumes "query c P k w = (Inr ds, w')" and "filter P (docs w c) = map d xs"
    and "\<forall>x \<in> set xs. jget (d x) k = JInt (f x)" and "sorted (map f xs)" and "distinct (map f xs)"
  shows "ds = map d xs"
proof -
  define g where "g e = (case jget e k of JInt i \<Rightarrow> i | _ \<Rightarrow> 0)" for e
  have g: "g (d x) = f x" if "x \<in> set xs" for x using assms(3) that by (simp add: g_def)
  have m: "mset ds = mset (map d xs)" and s: "sorted_by le k 1 ds" using query_law [OF assms(1)] assms(2) by auto
  have set_eq: "set ds = d ` set xs" using m by (metis list.set_map set_mset_mset)
  have gx: "map g (map d xs) = map f xs" using g by simp
  have "mset (map g ds) = mset (map g (map d xs))" using m by (metis mset_map)
  then have gd: "mset (map g ds) = mset (map f xs)" by (simp only: gx)
  have "sorted_wrt (\<lambda>a b. le (jget a k) (jget b k)) ds" using s by (simp add: sorted_by_def)
  then have "sorted_wrt (\<lambda>a b. g a \<le> g b) ds"
  proof (rule sorted_wrt_mono_rel [rotated])
    fix a b assume "a \<in> set ds" "b \<in> set ds" "le (jget a k) (jget b k)"
    then show "g a \<le> g b" using set_eq assms(3) g by (auto simp: le_int)
  qed
  then have sg: "sorted (map g ds)" by (simp add: sorted_map)
  have dg: "distinct (map g ds)" using gd assms(5) by (metis mset_eq_imp_distinct_iff)
  have dx: "sorted (map g (map d xs))" "distinct (map g (map d xs))" unfolding gx by (rule assms(4,5))+
  have "inj_on g (set ds \<union> set (map d xs))" using set_eq dg by (simp add: distinct_map)
  then show ?thesis using sg dg dx set_eq by (intro map_sorted_distinct_set_unique [of g]) simp_all
qed

end

definition ls_query :: "string \<Rightarrow> (doc \<Rightarrow> bool) \<Rightarrow> string \<Rightarrow> (doc list, store) io" where
  "ls_query c P k s = (Inr (ls_sort k 1 (filter P (s c))), s)"

interpretation list_query: sorted_query list_store "\<lambda>s. s" json_le ls_query
proof
  fix c P k w ds and w' :: store
  assume "ls_query c P k w = (Inr ds, w')"
  then have "ds = ls_sort k 1 (filter P (w c))" "w' = w" by (auto simp: ls_query_def)
  moreover have "mset (ls_sort k 1 (filter P (w c))) = mset (filter P (w c))" by (simp add: ls_sort_def)
  ultimately show "w' = w \<and> mset ds = mset (filter P (w c)) \<and> sorted_by json_le k 1 ds"
    using ls_sort_sorted [of k 1] by simp
qed

section \<open>Over the log of deposits\<close>

definition log_leaves :: "commitment list \<Rightarrow> bytes list" where
  "log_leaves cs = map (\<lambda>c. commitment_leaf (c_commitment c)) cs"

lemma map_of_project: "k \<in> set ks \<Longrightarrow> map_of (project ks d) k = map_of d k"
  by (induction d) (auto simp: project_def)

lemma load_doc_projected:
  "load_doc i (project [''merkle_index'', ''commitment''] d) st = load_doc i d st"
proof -
  let ?p = "project [''merkle_index'', ''commitment''] d"
  have "map_of ?p ''merkle_index'' = map_of d ''merkle_index''" "map_of ?p ''commitment'' = map_of d ''commitment''"
    by (rule map_of_project, simp)+
  then have "jget ?p ''merkle_index'' = jget d ''merkle_index''" "jget ?p ''commitment'' = jget d ''commitment''"
    "has_key ?p ''commitment'' = has_key d ''commitment''"
    by (simp_all add: jget_def has_key_def)
  then show ?thesis unfolding load_doc_def by (simp only:)
qed

lemma load_doc_commitment:
  "load_doc i (commitment_to_doc c) st
     = (fst st @ replicate (nat (c_merkle_index c) - length (fst st)) zero32 @ [commitment_leaf (c_commitment c)],
        snd st \<or> c_merkle_index c = int i)"
  by (simp add: load_doc_def commitment_to_doc_def jget_def has_key_def)

text \<open>A log from position 0 loads without gaps.\<close>

lemma load_log:
  "map c_merkle_index cs = map int [0..<length cs] \<Longrightarrow>
   load_docs i (map (project [''merkle_index'', ''commitment''] \<circ> commitment_to_doc) cs)
     = (log_leaves cs, i < length cs)"
proof (induction cs rule: rev_induct)
  case Nil
  then show ?case by (simp add: load_docs_def log_leaves_def)
next
  case (snoc c cs)
  then have "map c_merkle_index cs = map int [0..<length cs]" "c_merkle_index c = int (length cs)" by simp_all
  with snoc.IH show ?case
    by (auto simp: load_docs_def load_doc_projected load_doc_commitment log_leaves_def)
qed

lemma log_up_to:
  assumes "map c_merkle_index cs = map int [0..<length cs]"
  shows "filter (at_most n) (map commitment_to_doc cs) = map commitment_to_doc (take (Suc n) cs)"
proof -
  have at: "at_most n (commitment_to_doc c) \<longleftrightarrow> c_merkle_index c \<le> int n" for c by (simp add: at_most_def)
  have ix: "c_merkle_index (cs ! j) = int j" if "j < length cs" for j
    using assms that by (metis diff_zero length_upt nth_map nth_upt plus_nat.add_0)
  have "filter (\<lambda>c. c_merkle_index c \<le> int n) (take (Suc n) cs) = take (Suc n) cs"
    by (rule filter_True) (auto simp: in_set_conv_nth ix)
  moreover have "filter (\<lambda>c. c_merkle_index c \<le> int n) (drop (Suc n) cs) = []"
    by (rule filter_False) (auto simp: in_set_conv_nth ix)
  moreover have "filter P cs = filter P (take (Suc n) cs) @ filter P (drop (Suc n) cs)" for P
    by (metis append_take_drop_id filter_append)
  ultimately show ?thesis by (simp add: filter_map comp_def at)
qed

text \<open>The answer of the route over a log.\<close>

definition fallback_path :: "nat \<Rightarrow> path_response" where
  "fallback_path n = \<lparr>resp_leaf_index = n, resp_depth = tree_depth,
     resp_siblings = replicate tree_depth (to_hex zero32),
     resp_is_left = map (\<lambda>l. even (n div 2 ^ l)) [0..<tree_depth], resp_source = ''fallback-empty''\<rparr>"

definition not_recorded :: "nat \<Rightarrow> nat \<Rightarrow> exn" where
  "not_recorded n recorded_count = Domain NotFoundError ''leaf_index not yet recorded in db.commitments.''
     [(''leaf_index'', JInt (int n)), (''indexed_count'', JInt (int recorded_count))]"

definition path_answer :: "(bytes \<Rightarrow> bytes \<Rightarrow> bytes) \<Rightarrow> bytes list \<Rightarrow> nat \<Rightarrow> path_response" where
  "path_answer H leaves n = \<lparr>resp_leaf_index = n, resp_depth = tree_depth,
     resp_siblings = map (\<lambda>l. to_hex (path_sibling H leaves n l)) [0..<tree_depth],
     resp_is_left = map (\<lambda>l. even (n div 2 ^ l)) [0..<tree_depth], resp_source = ''reconstructed''\<rparr>"

lemma path_answer_prefix: "path_answer H (take (Suc n) leaves) n = path_answer H leaves n"
  by (simp add: path_answer_def path_sibling_def)

lemma get_merkle_path_load:
  assumes "load_docs n docs = (ls, b)" "ls \<noteq> [] \<or> \<not> b"
  shows "get_merkle_path H docs n =
     (if ls = [] then Inr (fallback_path n) else if b then Inr (path_answer H ls n) else Inl (not_recorded n (length ls)))"
proof (cases b)
  case True
  with get_merkle_path_found [of n docs ls H] assms show ?thesis by (simp add: path_answer_def)
next
  case False
  with assms(1) show ?thesis by (simp add: get_merkle_path_def fallback_path_def not_recorded_def)
qed

lemma route_over_log:
  assumes "sorted_query db docs le query" "log_of (docs w ''commitments'') cs"
    and "query ''commitments'' (at_most n) ''merkle_index'' w = (Inr ds, w1)"
  shows "merkle_path_route H query n w =
     (if cs = [] then Inr (fallback_path n)
      else if n < length cs then Inr (path_answer H (log_leaves cs) n)
      else Inl (not_recorded n (length cs)), w1)"
proof -
  have ix: "map c_merkle_index cs = map int [0..<length cs]" and docs: "docs w ''commitments'' = map commitment_to_doc cs"
    using assms(2) by (simp_all add: log_of_def)
  let ?cs = "take (Suc n) cs"
  have "map c_merkle_index ?cs = take (Suc n) (map c_merkle_index cs)" by (simp add: take_map)
  also have "\<dots> = map int (take (Suc n) [0..<length cs])" by (simp only: ix take_map)
  also have "take (Suc n) [0..<length cs] = [0..<length ?cs]" by (cases "Suc n \<le> length cs") (simp_all add: min_def)
  finally have ixt: "map c_merkle_index ?cs = map int [0..<length ?cs]" .
  have "\<forall>c \<in> set ?cs. jget (commitment_to_doc c) ''merkle_index'' = JInt (c_merkle_index c)" by simp
  moreover have "sorted (map c_merkle_index ?cs)" "distinct (map c_merkle_index ?cs)"
    unfolding ixt by (simp_all add: sorted_map distinct_map)
  moreover have "filter (at_most n) (docs w ''commitments'') = map commitment_to_doc ?cs"
    unfolding docs by (rule log_up_to [OF ix])
  ultimately have ds: "ds = map commitment_to_doc ?cs"
    by (intro sorted_query.query_answer [OF assms(1), OF assms(3)])
  have load: "load_docs n (map (project [''merkle_index'', ''commitment'']) ds) = (log_leaves ?cs, n < length ?cs)"
    unfolding ds using load_log [OF ixt, of n] by simp
  have "log_leaves ?cs \<noteq> [] \<or> \<not> n < length ?cs" by (auto simp: log_leaves_def)
  from get_merkle_path_load [OF load this, of H]
  have "get_merkle_path H (map (project [''merkle_index'', ''commitment'']) ds) n =
      (if cs = [] then Inr (fallback_path n)
       else if n < length cs then Inr (path_answer H (log_leaves cs) n)
       else Inl (not_recorded n (length cs)))"
    using path_answer_prefix [of H n "log_leaves cs"] by (auto simp: log_leaves_def take_map)
  with assms(3) show ?thesis by (simp add: merkle_path_route_def andthen_def)
qed

text \<open>A request that ran alone to its end, on the store of lists.\<close>

definition lone_deposit :: commitment_create where
  "lone_deposit = demo_deposit ''aa'' ''s1''"

definition lone_store :: store where
  "lone_store = (\<lambda>_. [])(''commitments'' := [commitment_to_doc (new_commitment [] 0 lone_deposit 0)])"

lemma lone_race:
  "race_reach demo_deposits (two_requests lone_deposit lone_deposit) (\<lambda>_. [])
     ((\<lambda>_. Begun)(0 := Finished (Inr (new_commitment [] 0 lone_deposit 0))), lone_store)"
proof -
  let ?reqs = "two_requests lone_deposit lone_deposit" and ?p = lone_deposit
  have rq: "?reqs 0 = ([], 0, ?p)" by (simp add: two_requests_def)
  have "0 \<le> cc_amount ?p" by (simp add: lone_deposit_def demo_deposit_def)
  note st = stage_step_def demo_lookup demo_confirm demo_count demo_insert [OF this]
  have "race_reach demo_deposits ?reqs (\<lambda>_. []) (\<lambda>_. Begun, \<lambda>_. [])" by (rule race_reach.start)
  from race_stage [where i = 0 and pcs = "\<lambda>_. Begun", OF this rq, where st = Looked and w' = "\<lambda>_. []"]
  have "race_reach demo_deposits ?reqs (\<lambda>_. []) ((\<lambda>_. Begun)(0 := Looked), \<lambda>_. [])" by (simp add: st)
  from race_stage [where i = 0, OF this rq, where st = Confirmed and w' = "\<lambda>_. []"]
  have "race_reach demo_deposits ?reqs (\<lambda>_. []) ((\<lambda>_. Begun)(0 := Confirmed), \<lambda>_. [])" by (simp add: st)
  from race_stage [where i = 0, OF this rq, where st = "Counted 0" and w' = "\<lambda>_. []"]
  have "race_reach demo_deposits ?reqs (\<lambda>_. []) ((\<lambda>_. Begun)(0 := Counted 0), \<lambda>_. [])" by (simp add: st)
  from race_stage [where i = 0, OF this rq, where st = "Finished (Inr (new_commitment [] 0 ?p 0))" and w' = lone_store]
  show ?thesis by (simp add: st Let_def lone_store_def)
qed

section \<open>Properties\<close>

text \<open>C14. A registered deposit can ask for its path. After any interleaving of registrations the path
  route sees the commitments as the leaves in the order of their Merkle indices, without gaps. A
  recorded index is answered with the path of the replay over exactly these leaves, any other
  with 404 and the number of leaves, and the all-zero fallback is served only while nothing
  is recorded. Every registration that succeeded was given a recorded index whose leaf is
  its own commitment.\<close>

theorem registered_deposit_has_path:
  assumes "deposit_env docs le s" and "is_log (docs w0 ''commitments'')" and "race_reach s reqs w0 (pcs, w)"
    and "sorted_query db docs le query"
    and "query ''commitments'' (at_most n) ''merkle_index'' w = (Inr ds, w1)"
  shows "\<exists>cs. docs w ''commitments'' = map commitment_to_doc cs
     \<and> merkle_path_route H query n w =
         (if cs = [] then Inr (fallback_path n)
          else if n < length cs then Inr (path_answer H (log_leaves cs) n)
          else Inl (not_recorded n (length cs)), w1)
     \<and> (\<forall>i c. pcs i = Finished (Inr c) \<longrightarrow>
          (\<exists>k < length cs. c_merkle_index c = int k
             \<and> log_leaves cs ! k = commitment_leaf (cc_commitment (snd (snd (reqs i))))))"
proof -
  from race_reach_inv [where docs = docs, OF assms(1,2,3)] have inv: "race_inv docs reqs (pcs, w)" by blast
  then obtain cs where cs: "log_of (docs w ''commitments'') cs" by (auto simp: race_inv_def is_log_def)
  have "\<exists>k < length cs. c_merkle_index c = int k
      \<and> log_leaves cs ! k = commitment_leaf (cc_commitment (snd (snd (reqs i))))" if f: "pcs i = Finished (Inr c)" for i c
  proof -
    from inv f have a: "answers (snd (snd (reqs i))) (docs w ''commitments'') c"
      by (auto simp: race_inv_def stage_ok_def dest: spec [of _ i])
    then obtain c1 where c1: "c1 \<in> set cs" "commitment_to_doc c = commitment_to_doc c1"
      using cs by (auto simp: answers_def log_of_def)
    then obtain k where k: "k < length cs" "c1 = cs ! k" by (auto simp: in_set_conv_nth)
    have "c_merkle_index c = c_merkle_index c1" "c_commitment c = c_commitment c1"
      using jget_commitment [of c] jget_commitment [of c1] c1(2) by simp_all
    moreover have "map c_merkle_index cs ! k = int k" using cs k(1) by (simp add: log_of_def)
    ultimately show ?thesis using a k by (auto simp: answers_def log_leaves_def)
  qed
  with route_over_log [OF assms(4) cs assms(5), of H] cs show ?thesis
    by (intro exI [of _ cs] conjI) (simp_all add: log_of_def)
qed

theorem registered_deposit_has_path_witness:
  "\<exists>r. merkle_path_route hash_pair ls_query 0 lone_store = (Inr r, lone_store) \<and> resp_source r = ''reconstructed''
     \<and> fst (merkle_path_route hash_pair ls_query 7 lone_store) = Inl (not_recorded 7 1)"
proof -
  have log: "is_log ((\<lambda>_. []) ''commitments'')" by (simp add: is_log_def log_of_def)
  have q: "ls_query ''commitments'' (at_most n) ''merkle_index'' lone_store
      = (Inr (ls_sort ''merkle_index'' 1 (filter (at_most n) (lone_store ''commitments''))), lone_store)" for n
    by (simp add: ls_query_def)
  note r = registered_deposit_has_path [where docs = "\<lambda>s. s", OF demo_deposit_env log lone_race
      list_query.sorted_query_axioms q, of hash_pair]
  have one: "length cs = 1" if "lone_store ''commitments'' = map commitment_to_doc cs" for cs
    using arg_cong [OF that, of length] by (simp add: lone_store_def)
  obtain cs where cs: "lone_store ''commitments'' = map commitment_to_doc cs"
    "merkle_path_route hash_pair ls_query 0 lone_store =
       (if cs = [] then Inr (fallback_path 0) else if 0 < length cs then Inr (path_answer hash_pair (log_leaves cs) 0)
        else Inl (not_recorded 0 (length cs)), lone_store)"
    using r [of 0] by blast
  obtain ds where ds: "lone_store ''commitments'' = map commitment_to_doc ds"
    "merkle_path_route hash_pair ls_query 7 lone_store =
       (if ds = [] then Inr (fallback_path 7) else if 7 < length ds then Inr (path_answer hash_pair (log_leaves ds) 7)
        else Inl (not_recorded 7 (length ds)), lone_store)"
    using r [of 7] by blast
  from one [OF cs(1)] one [OF ds(1)] cs(2) ds(2) show ?thesis
    by (intro exI [of _ "path_answer hash_pair (log_leaves cs) 0"]) (auto simp: path_answer_def)
qed

end
