(* ===== verification/RelayRace.thy ===== *)
theory RelayRace
  imports Withdrawal
begin

text \<open>
  Concurrent relays. \<open>WithdrawalService.relay\<close> of
  \<open>backend/app/services/withdrawal_service.py\<close> is a coroutine: between two of its
  awaits other requests run on the same service, signer and database. Here its body
  is cut at the awaits that touch the database and at the broadcast, run alone the
  pieces are \<open>relay\<close>, and the relation \<open>relay_race_step\<close> interleaves the pieces of any
  number of requests. The broadcast is one piece, because nothing in it touches a
  collection.
\<close>

section \<open>The pieces of a relay\<close>

text \<open>
  A relay that has begun; has passed the guard; has its relayer and instruction; has
  the signature of the node; has tried to store its record; has returned or raised.
\<close>

datatype relay_stage =
    RelayBegun
  | RelayGuarded pubkey
  | RelayBuilt relayer pubkey instruction
  | RelaySent relayer string
  | RelayStored relayer string
  | RelayDone "relay_response res"

definition relay_open :: "'w withdrawal_service \<Rightarrow> relay_request \<Rightarrow> (pubkey, signer \<times> 'w) io" where
  "relay_open s q =
     andthen (on_snd (nullifier_guard (wd_db s) (pi_nullifier_hash (rq_public_inputs q)))) (\<lambda>_.
     pure (parse_program_id (wd_solders s) (wd_settings s)))"

definition relay_build ::
  "'w withdrawal_service \<Rightarrow> string \<Rightarrow> int \<Rightarrow> relay_request \<Rightarrow> pubkey
     \<Rightarrow> (relayer \<times> pubkey \<times> instruction, signer \<times> 'w) io" where
  "relay_build s uid now q program_id =
     andthen (on_snd (pick_best (wd_pydantic s) (wd_db s) uid now)) (\<lambda>relayer.
     andthen (pure (request_args (wd_solders s) (wd_settings s) q))
       (\<lambda>(proof_bytes, root_bytes, nullifier_bytes, recipient, token_mint).
     andthen (pubkey_obj (wd_solders s) (wd_files s) (wd_settings s)) (\<lambda>relayer_pubkey.
     andthen (pure (build_withdraw_ix_for_pool (wd_solders s)
                \<lparr>wa_program_id = program_id, wa_token_mint = token_mint, wa_recipient = recipient,
                 wa_relayer = relayer_pubkey, wa_proof_bytes = proof_bytes,
                 wa_root_bytes = root_bytes, wa_nullifier_bytes = nullifier_bytes,
                 wa_amount = pi_amount (rq_public_inputs q)\<rparr>)) (\<lambda>ix.
     ret (relayer, relayer_pubkey, ix)))))"

definition store_record :: "'w mongo \<Rightarrow> withdrawal \<Rightarrow> (unit, 'w) io" where
  "store_record db record =
     catching (insert_one db ''withdrawals'' (withdrawal_to_doc record)) (\<lambda>_. ret ())"

definition touch_relayer :: "'w mongo \<Rightarrow> withdrawal \<Rightarrow> (unit, 'w) io" where
  "touch_relayer db record =
     catching (update_one db ''relayers'' (field_is ''relayer_id'' (JStr (w_relayer_id record)))
                (set_field ''last_seen'' (JDate (w_created_at record))) None) (\<lambda>_. ret ())"

definition submitted :: "relayer \<Rightarrow> string \<Rightarrow> relay_response" where
  "submitted r signature =
     \<lparr>rr_signature = signature, rr_status = ''submitted'', rr_fee_bps = active_fee_bps r\<rparr>"

text \<open>One piece; \<open>None\<close> when the relay is over, or when the broadcast never ends.\<close>

definition relay_stage_step ::
  "'w withdrawal_service \<Rightarrow> string \<Rightarrow> int \<Rightarrow> relay_request \<Rightarrow> relay_stage \<Rightarrow> signer \<times> 'w
     \<Rightarrow> (relay_stage \<times> signer \<times> 'w) option" where
  "relay_stage_step s uid now q st w =
     (case st of
        RelayBegun \<Rightarrow>
          (case relay_open s q w of
             (Inl e, w') \<Rightarrow> Some (RelayDone (Inl e), w')
           | (Inr program_id, w') \<Rightarrow> Some (RelayGuarded program_id, w'))
      | RelayGuarded program_id \<Rightarrow>
          (case relay_build s uid now q program_id w of
             (Inl e, w') \<Rightarrow> Some (RelayDone (Inl e), w')
           | (Inr (r, pk, ix), w') \<Rightarrow> Some (RelayBuilt r pk ix, w'))
      | RelayBuilt r pk ix \<Rightarrow>
          (case relay_broadcast s pk ix w of
             None \<Rightarrow> None
           | Some (Inl e, w') \<Rightarrow> Some (RelayDone (Inl e), w')
           | Some (Inr signature, w') \<Rightarrow> Some (RelaySent r signature, w'))
      | RelaySent r signature \<Rightarrow>
          (case on_snd (store_record (wd_db s) (withdrawal_record uid now q r signature)) w of
             (Inl e, w') \<Rightarrow> Some (RelayDone (Inl e), w')
           | (Inr _, w') \<Rightarrow> Some (RelayStored r signature, w'))
      | RelayStored r signature \<Rightarrow>
          (case on_snd (touch_relayer (wd_db s) (withdrawal_record uid now q r signature)) w of
             (Inl e, w') \<Rightarrow> Some (RelayDone (Inl e), w')
           | (Inr _, w') \<Rightarrow> Some (RelayDone (Inr (submitted r signature)), w'))
      | RelayDone r \<Rightarrow> None)"

text \<open>A relay that runs alone; five pieces are all there are.\<close>

fun relay_run ::
  "'w withdrawal_service \<Rightarrow> string \<Rightarrow> int \<Rightarrow> relay_request \<Rightarrow> nat \<Rightarrow> relay_stage \<Rightarrow> signer \<times> 'w
     \<Rightarrow> (relay_response res \<times> signer \<times> 'w) option" where
  "relay_run s uid now q n (RelayDone r) w = Some (r, w)"
| "relay_run s uid now q 0 st w = None"
| "relay_run s uid now q (Suc n) st w =
     (case relay_stage_step s uid now q st w of
        None \<Rightarrow> None | Some (st', w') \<Rightarrow> relay_run s uid now q n st' w')"

section \<open>Interleaving\<close>

text \<open>Request \<open>i\<close> has an id and a time for its record, and a payload.\<close>

type_synonym relay_requests = "nat \<Rightarrow> string \<times> int \<times> relay_request"

inductive relay_race_step ::
  "'w withdrawal_service \<Rightarrow> relay_requests \<Rightarrow> (nat \<Rightarrow> relay_stage) \<times> signer \<times> 'w
     \<Rightarrow> (nat \<Rightarrow> relay_stage) \<times> signer \<times> 'w \<Rightarrow> bool" for s reqs where
  piece: "reqs i = (uid, now, q) \<Longrightarrow> relay_stage_step s uid now q (pcs i) w = Some (st, w') \<Longrightarrow>
    relay_race_step s reqs (pcs, w) (pcs(i := st), w')"

inductive relay_race ::
  "'w withdrawal_service \<Rightarrow> relay_requests \<Rightarrow> signer \<times> 'w \<Rightarrow> (nat \<Rightarrow> relay_stage) \<times> signer \<times> 'w \<Rightarrow> bool"
  for s reqs w0 where
  start: "relay_race s reqs w0 (\<lambda>_. RelayBegun, w0)"
| step: "relay_race s reqs w0 p \<Longrightarrow> relay_race_step s reqs p p' \<Longrightarrow> relay_race s reqs w0 p'"

inductive_cases relay_race_stepE: "relay_race_step s reqs p p'"

section \<open>Lemmas\<close>

lemma relay_prepare_pieces:
  "relay_prepare s uid now q = andthen (relay_open s q) (relay_build s uid now q)"
  by (simp add: relay_prepare_def relay_open_def relay_build_def [abs_def] Let_def andthen_assoc)

lemma relay_persist_pieces:
  "relay_persist db record = andthen (store_record db record) (\<lambda>_. touch_relayer db record)"
  by (simp add: relay_persist_def store_record_def touch_relayer_def)

lemma pieces_return:
  "\<exists>w'. store_record db record w = (Inr (), w')" "\<exists>w'. touch_relayer db record w = (Inr (), w')"
  by (auto simp: store_record_def touch_relayer_def catching_def split: prod.splits sum.splits)

text \<open>Alone, the pieces are the relay.\<close>

lemma relay_is_run: "relay s uid now q w = relay_run s uid now q 5 RelayBegun w"
proof -
  have 5: "5 = Suc (Suc (Suc (Suc (Suc 0))))" by simp
  obtain o1 w1 where a: "relay_open s q w = (o1, w1)" by (rule prod.exhaust)
  show ?thesis
  proof (cases o1)
    case (Inl e)
    with a show ?thesis by (simp add: 5 relay_def relay_prepare_pieces andthen_def relay_stage_step_def)
  next
    case (Inr pid)
    note a1 = a [unfolded Inr]
    obtain o2 w2 where b: "relay_build s uid now q pid w1 = (o2, w2)" by (rule prod.exhaust)
    show ?thesis
    proof (cases o2)
      case (Inl e)
      with a1 b show ?thesis by (simp add: 5 relay_def relay_prepare_pieces andthen_def relay_stage_step_def)
    next
      case (Inr t)
      obtain r pk ix where t: "t = (r, pk, ix)" by (metis prod_cases3)
      have p: "relay_prepare s uid now q w = (Inr (r, pk, ix), w2)"
        using a1 b Inr t by (simp add: relay_prepare_pieces andthen_def)
      show ?thesis
      proof (cases "relay_broadcast s pk ix w2")
        case None
        with a1 b Inr t p show ?thesis by (simp add: 5 relay_def relay_stage_step_def)
      next
        case (Some x)
        obtain o3 w3 where x: "x = (o3, w3)" by (rule prod.exhaust)
        show ?thesis
        proof (cases o3)
          case (Inl e)
          with a1 b \<open>o2 = Inr t\<close> t p Some x show ?thesis by (simp add: 5 relay_def relay_stage_step_def)
        next
          case (Inr sg)
          let ?rec = "withdrawal_record uid now q r sg"
          obtain v where v: "store_record (wd_db s) ?rec (snd w3) = (Inr (), v)"
            using pieces_return(1) [of "wd_db s" ?rec "snd w3"] by blast
          obtain u where u: "touch_relayer (wd_db s) ?rec v = (Inr (), u)"
            using pieces_return(2) [of "wd_db s" ?rec v] by blast
          from a1 b \<open>o2 = Inr t\<close> t p Some x Inr v u show ?thesis
            by (simp add: 5 relay_def relay_stage_step_def relay_persist_pieces submitted_def andthen_def on_snd_def)
        qed
      qed
    qed
  qed
qed

text \<open>What one piece does to the collection of withdrawals.\<close>

definition nullifiers :: "doc list \<Rightarrow> json list" where
  "nullifiers ds = map (\<lambda>d. jget d ''nullifier_hash'') ds"

text \<open>The request has tried to store its record, with this relayer and signature.\<close>

definition stored_by :: "relay_stage \<Rightarrow> relayer \<Rightarrow> string \<Rightarrow> bool" where
  "stored_by st r signature \<longleftrightarrow>
     st = RelayStored r signature \<or> st = RelayDone (Inr (submitted r signature))"

text \<open>The request has not passed the guard, or has not finished it.\<close>

definition stopped :: "relay_stage \<Rightarrow> bool" where
  "stopped st \<longleftrightarrow> st = RelayBegun \<or> (\<exists>e. st = RelayDone (Inl e))"

lemma clashes_withdrawals:
  "clashes ''withdrawals'' d e \<longleftrightarrow> jget d ''nullifier_hash'' = jget e ''nullifier_hash''"
  by (simp add: clashes_def unique_keys_def)

lemma store_record_outcome:
  assumes "mongo db docs le" "store_record db record w = (r, w')"
  shows "docs w' ''withdrawals'' = docs w ''withdrawals''
     \<or> (docs w' ''withdrawals'' = docs w ''withdrawals'' @ [withdrawal_to_doc record]
        \<and> JStr (w_nullifier_hash record) \<notin> set (nullifiers (docs w ''withdrawals'')))"
proof -
  obtain r1 w1 where i: "insert_one db ''withdrawals'' (withdrawal_to_doc record) w = (r1, w1)" by (rule prod.exhaust)
  have w1: "w' = w1" using assms(2) i by (cases r1) (auto simp: store_record_def catching_def)
  show ?thesis
  proof (cases r1)
    case (Inl e)
    from mongo.insert_failed [OF assms(1), OF i [unfolded Inl]] w1 show ?thesis
      by (auto simp: clashes_withdrawals nullifiers_def)
  next
    case (Inr u)
    from mongo.insert_law [OF assms(1), OF i [unfolded Inr]] w1 show ?thesis
      by (auto simp: clashes_withdrawals nullifiers_def)
  qed
qed

lemma touch_relayer_outcome:
  assumes "mongo db docs le" "touch_relayer db record w = (r, w')"
  shows "docs w' ''withdrawals'' = docs w ''withdrawals''"
proof -
  let ?up = "update_one db ''relayers'' (field_is ''relayer_id'' (JStr (w_relayer_id record)))
                (set_field ''last_seen'' (JDate (w_created_at record))) None"
  obtain r2 w2 where u: "?up w = (r2, w2)" by (rule prod.exhaust)
  have "w' = w2" using assms(2) u by (cases r2) (auto simp: touch_relayer_def catching_def)
  moreover have "docs w2 ''withdrawals'' = docs w ''withdrawals''"
    by (rule mongo.update_frame [OF assms(1) u]) simp
  ultimately show ?thesis by simp
qed

text \<open>Up to the broadcast nothing is written, and a stored nullifier stops at the guard.\<close>

lemma open_outcome:
  assumes "mongo (wd_db s) docs le" "relay_open s q w = (r, w')"
  shows "docs (snd w') = docs (snd w)
     \<and> (JStr (pi_nullifier_hash (rq_public_inputs q)) \<in> set (nullifiers (docs (snd w) ''withdrawals''))
          \<longrightarrow> (\<exists>e. r = Inl e))"
proof -
  let ?h = "pi_nullifier_hash (rq_public_inputs q)"
  obtain o1 w1 where f: "find_one (wd_db s) ''withdrawals'' (field_is ''nullifier_hash'' (JStr ?h)) (snd w) = (o1, w1)"
    by (rule prod.exhaust)
  have w1: "snd w' = w1"
    using assms(2) f by (cases o1) (auto simp: relay_open_def nullifier_guard_def andthen_def on_snd_def
        split: option.splits prod.splits sum.splits if_splits)
  have "\<exists>e. r = Inl e" if "JStr ?h \<in> set (nullifiers (docs (snd w) ''withdrawals''))"
  proof (cases o1)
    case (Inl e)
    with assms(2) f show ?thesis by (auto simp: relay_open_def nullifier_guard_def andthen_def on_snd_def)
  next
    case (Inr x)
    from mongo.find_one_law [OF assms(1), OF f [unfolded Inr]] that obtain d where
      d: "x = Some d" "field_is ''nullifier_hash'' (JStr ?h) d"
      by (cases x) (auto simp: field_is_def nullifiers_def)
    with assms(2) f Inr field_is_nonempty [OF d(2)] show ?thesis
      by (auto simp: relay_open_def nullifier_guard_def andthen_def on_snd_def)
  qed
  with w1 mongo.find_one_reads [OF assms(1) f] show ?thesis by simp
qed

lemma keeps_build:
  assumes "mongo (wd_db s) docs le" "environment_keeps (\<lambda>w. docs w = D) s"
  shows "keeps (\<lambda>p. docs (snd p) = D) (relay_build s uid now q pid)"
  unfolding relay_build_def using assms(2)
  by (intro keeps_rules keeps_pick_best [OF assms(1)] keeps_pubkey_obj) (simp add: environment_keeps_def)

lemma piece_outcome:
  assumes "mongo (wd_db s) docs le" "\<forall>D. environment_keeps (\<lambda>w. docs w = D) s"
    and "relay_stage_step s uid now q st w = Some (st', w')"
  shows "(docs (snd w') ''withdrawals'' = docs (snd w) ''withdrawals'' \<and>
            (\<forall>r sg. stored_by st r sg \<longrightarrow> stored_by st' r sg))
       \<or> (\<exists>r sg. st = RelaySent r sg \<and> stored_by st' r sg
            \<and> docs (snd w') ''withdrawals'' = docs (snd w) ''withdrawals'' @ [withdrawal_to_doc (withdrawal_record uid now q r sg)]
            \<and> JStr (pi_nullifier_hash (rq_public_inputs q)) \<notin> set (nullifiers (docs (snd w) ''withdrawals'')))"
proof (cases st)
  case RelayBegun
  obtain o1 w1 where l: "relay_open s q w = (o1, w1)" by (rule prod.exhaust)
  from open_outcome [OF assms(1) l] l assms(3) RelayBegun show ?thesis
    by (auto simp: relay_stage_step_def stored_by_def split: sum.splits)
next
  case (RelayGuarded pid)
  obtain o1 w1 where l: "relay_build s uid now q pid w = (o1, w1)" by (rule prod.exhaust)
  from keepsD [OF keeps_build [OF assms(1) spec [OF assms(2)]] refl l] l assms(3) RelayGuarded show ?thesis
    by (auto simp: relay_stage_step_def stored_by_def split: sum.splits prod.splits)
next
  case (RelayBuilt r pk ix)
  with assms(3) obtain o1 w1 where l: "relay_broadcast s pk ix w = Some (o1, w1)"
    by (auto simp: relay_stage_step_def split: option.splits)
  from broadcast_keeps [OF spec [OF assms(2)] refl l] l assms(3) RelayBuilt show ?thesis
    by (auto simp: relay_stage_step_def stored_by_def split: sum.splits)
next
  case (RelaySent r sg)
  let ?rec = "withdrawal_record uid now q r sg"
  obtain v where v: "store_record (wd_db s) ?rec (snd w) = (Inr (), v)"
    using pieces_return(1) [of "wd_db s" ?rec "snd w"] by blast
  have "w_nullifier_hash ?rec = pi_nullifier_hash (rq_public_inputs q)" by (simp add: withdrawal_record_def Let_def)
  with store_record_outcome [OF assms(1) v] v assms(3) RelaySent show ?thesis
    by (auto simp: relay_stage_step_def stored_by_def on_snd_def)
next
  case (RelayStored r sg)
  let ?rec = "withdrawal_record uid now q r sg"
  obtain v where v: "touch_relayer (wd_db s) ?rec (snd w) = (Inr (), v)"
    using pieces_return(2) [of "wd_db s" ?rec "snd w"] by blast
  from touch_relayer_outcome [OF assms(1) v] v assms(3) RelayStored show ?thesis
    by (auto simp: relay_stage_step_def stored_by_def on_snd_def)
next
  case (RelayDone r)
  with assms(3) show ?thesis by (simp add: relay_stage_step_def)
qed

text \<open>The invariant of a race that began with the withdrawals \<open>D0\<close>.\<close>

definition raced_nullifier :: "relay_requests \<Rightarrow> nat \<Rightarrow> string" where
  "raced_nullifier reqs i = pi_nullifier_hash (rq_public_inputs (snd (snd (reqs i))))"

definition raced_record :: "relay_requests \<Rightarrow> nat \<Rightarrow> relayer \<Rightarrow> string \<Rightarrow> doc" where
  "raced_record reqs i r sg =
     withdrawal_to_doc (withdrawal_record (fst (reqs i)) (fst (snd (reqs i))) (snd (snd (reqs i))) r sg)"

definition relay_race_ok ::
  "doc list \<Rightarrow> relay_requests \<Rightarrow> (nat \<Rightarrow> relay_stage) \<Rightarrow> doc list \<Rightarrow> bool" where
  "relay_race_ok D0 reqs pcs ds \<longleftrightarrow>
     (\<exists>es. ds = D0 @ es \<and>
        (\<forall>d \<in> set es. \<exists>i r sg. stored_by (pcs i) r sg \<and> d = raced_record reqs i r sg))
     \<and> distinct (nullifiers ds)
     \<and> (\<forall>i. JStr (raced_nullifier reqs i) \<in> set (nullifiers D0) \<longrightarrow> stopped (pcs i))"

lemma nullifiers_simps [simp]:
  "nullifiers [] = []" "nullifiers (ds @ es) = nullifiers ds @ nullifiers es"
  "nullifiers [d] = [jget d ''nullifier_hash'']"
  by (simp_all add: nullifiers_def)

lemma race_nullifier [simp]: "jget (raced_record reqs i r sg) ''nullifier_hash'' = JStr (raced_nullifier reqs i)"
  by (simp add: raced_record_def raced_nullifier_def withdrawal_record_def Let_def)

lemma stored_not_stopped: "stored_by st r sg \<Longrightarrow> \<not> stopped st"
  by (auto simp: stored_by_def stopped_def)

lemma stopped_step:
  assumes "mongo (wd_db s) docs le" "relay_stage_step s uid now q st w = Some (st', w')" "stopped st"
    and "JStr (pi_nullifier_hash (rq_public_inputs q)) \<in> set (nullifiers (docs (snd w) ''withdrawals''))"
  shows "stopped st'"
proof -
  have st: "st = RelayBegun" using assms(2,3) by (auto simp: stopped_def relay_stage_step_def)
  obtain o1 w1 where l: "relay_open s q w = (o1, w1)" by (rule prod.exhaust)
  from open_outcome [OF assms(1) l] assms(4) obtain e where "o1 = Inl e" by blast
  with l st assms(2) show ?thesis by (auto simp: relay_stage_step_def stopped_def)
qed

lemma relay_race_step_ok:
  assumes "mongo (wd_db s) docs le" "\<forall>D. environment_keeps (\<lambda>w. docs w = D) s"
    and "relay_race_ok D0 reqs pcs (docs (snd w) ''withdrawals'')"
    and "relay_race_step s reqs (pcs, w) (pcs', w')"
  shows "relay_race_ok D0 reqs pcs' (docs (snd w') ''withdrawals'')"
proof -
  from assms(4) obtain i uid now q st where r: "reqs i = (uid, now, q)" and p: "pcs' = pcs(i := st)"
    and s: "relay_stage_step s uid now q (pcs i) w = Some (st, w')"
    by (auto elim!: relay_race_stepE)
  from assms(3) obtain es where es: "docs (snd w) ''withdrawals'' = D0 @ es"
    and by_req: "\<forall>d \<in> set es. \<exists>i r sg. stored_by (pcs i) r sg \<and> d = raced_record reqs i r sg"
    and dist: "distinct (nullifiers (D0 @ es))"
    and stop: "\<forall>i. JStr (raced_nullifier reqs i) \<in> set (nullifiers D0) \<longrightarrow> stopped (pcs i)"
    by (auto simp: relay_race_ok_def)
  have stop': "\<forall>j. JStr (raced_nullifier reqs j) \<in> set (nullifiers D0) \<longrightarrow> stopped (pcs' j)"
  proof (intro allI impI)
    fix j assume j: "JStr (raced_nullifier reqs j) \<in> set (nullifiers D0)"
    with stop have 1: "stopped (pcs j)" by blast
    from j stopped_step [OF assms(1) s] r es 1 show "stopped (pcs' j)"
      by (cases "j = i") (simp_all add: p raced_nullifier_def)
  qed
  from piece_outcome [OF assms(1,2) s] show ?thesis
  proof (elim disjE exE conjE)
    assume k: "docs (snd w') ''withdrawals'' = docs (snd w) ''withdrawals''"
      "\<forall>r sg. stored_by (pcs i) r sg \<longrightarrow> stored_by st r sg"
    have "\<exists>j r sg. stored_by (pcs' j) r sg \<and> d = raced_record reqs j r sg" if d: "d \<in> set es" for d
    proof -
      from by_req d obtain j r sg where "stored_by (pcs j) r sg" "d = raced_record reqs j r sg" by blast
      with k(2) have "stored_by (pcs' j) r sg" by (cases "j = i") (simp_all add: p)
      with \<open>d = raced_record reqs j r sg\<close> show ?thesis by blast
    qed
    with k(1) es dist stop' show ?thesis by (auto simp: relay_race_ok_def)
  next
    fix rr sg
    assume st: "pcs i = RelaySent rr sg" "stored_by st rr sg"
      and a: "docs (snd w') ''withdrawals'' = docs (snd w) ''withdrawals'' @ [withdrawal_to_doc (withdrawal_record uid now q rr sg)]"
      and new: "JStr (pi_nullifier_hash (rq_public_inputs q)) \<notin> set (nullifiers (docs (snd w) ''withdrawals''))"
    have rec: "withdrawal_to_doc (withdrawal_record uid now q rr sg) = raced_record reqs i rr sg"
      by (simp add: raced_record_def r)
    have "\<exists>j r sg. stored_by (pcs' j) r sg \<and> d = raced_record reqs j r sg" if d: "d \<in> set es" for d
    proof -
      from by_req d obtain j r sg' where j: "stored_by (pcs j) r sg'" "d = raced_record reqs j r sg'" by blast
      with st(1) have "j \<noteq> i" by (auto simp: stored_by_def)
      with j have "stored_by (pcs' j) r sg'" by (simp add: p)
      with j(2) show ?thesis by blast
    qed
    moreover have "stored_by (pcs' i) rr sg" using st by (simp add: p)
    moreover have "JStr (raced_nullifier reqs i) \<notin> set (nullifiers (D0 @ es))"
      using new r by (simp add: raced_nullifier_def es)
    ultimately show ?thesis
      using a es dist stop' unfolding relay_race_ok_def rec by (intro conjI exI [of _ "es @ [raced_record reqs i rr sg]"]) auto
  qed
qed

lemma relay_race_inv:
  assumes "mongo (wd_db s) docs le" "\<forall>D. environment_keeps (\<lambda>w. docs w = D) s"
    and "distinct (nullifiers (docs (snd w0) ''withdrawals''))" "relay_race s reqs w0 p"
  shows "relay_race_ok (docs (snd w0) ''withdrawals'') reqs (fst p) (docs (snd (snd p)) ''withdrawals'')"
  using assms(4)
proof (induction rule: relay_race.induct)
  case start
  with assms(3) show ?case by (auto simp: relay_race_ok_def stopped_def)
next
  case (step p p')
  obtain pcs w pcs' w' where "p = (pcs, w)" "p' = (pcs', w')" by (cases p; cases p') auto
  with step.IH step.hyps(2) show ?case by (auto intro: relay_race_step_ok [OF assms(1,2)])
qed

section \<open>Two relays of one nullifier\<close>

definition two_relays :: "string \<times> int \<times> relay_request \<Rightarrow> string \<times> int \<times> relay_request \<Rightarrow> relay_requests" where
  "two_relays a b = (\<lambda>i. if i = 0 then a else b)"

lemma two_relays_simps [simp]: "two_relays a b 0 = a" "two_relays a b 1 = b" "two_relays a b (Suc 0) = b"
  by (simp_all add: two_relays_def)

lemma race_piece:
  "relay_race s reqs w0 (pcs, w) \<Longrightarrow> reqs i = (uid, now, q) \<Longrightarrow>
   relay_stage_step s uid now q (pcs i) w = Some (st, w') \<Longrightarrow> relay_race s reqs w0 (pcs(i := st), w')"
  by (rule relay_race.step [OF _ relay_race_step.piece])

text \<open>The two move in turn; the stages they are in are given by their pair.\<close>

definition both_at :: "relay_stage \<Rightarrow> relay_stage \<Rightarrow> nat \<Rightarrow> relay_stage" where
  "both_at a b = (\<lambda>_. RelayBegun)(0 := a, 1 := b)"

lemma both_at_start: "(\<lambda>_. RelayBegun) = both_at RelayBegun RelayBegun"
  by (auto simp: both_at_def)

lemma both_at_simps [simp]: "both_at a b 0 = a" "both_at a b 1 = b" "both_at a b (Suc 0) = b"
  "(both_at a b)(0 := c) = both_at c b" "(both_at a b)(1 := c) = both_at a c" "(both_at a b)(Suc 0 := c) = both_at a c"
  by (auto simp: both_at_def fun_eq_iff)

lemma race_in_turn:
  assumes "relay_race s (two_relays (u, n, p) (v, m, q)) w0 (both_at a b, w)"
    and "relay_stage_step s u n p a w = Some (a', w1)" and "relay_stage_step s v m q b w1 = Some (b', w2)"
  shows "relay_race s (two_relays (u, n, p) (v, m, q)) w0 (both_at a' b', w2)"
proof -
  from race_piece [OF assms(1), of 0] assms(2)
  have "relay_race s (two_relays (u, n, p) (v, m, q)) w0 (both_at a' b, w1)" by simp
  from race_piece [OF this, of 1] assms(3) show ?thesis by simp
qed

text \<open>On a store of lists the guard reads and does not write.\<close>

lemma list_guard:
  assumes "wd_db s = list_store" "relay_prepare s uid now q w = (Inr (r, pk, ix), w)"
  obtains pid where "relay_open s q w = (Inr pid, w)" "relay_build s uid now q pid w = (Inr (r, pk, ix), w)"
    "JStr (pi_nullifier_hash (rq_public_inputs q)) \<notin> set (nullifiers (snd w ''withdrawals''))"
proof -
  from assms(2) obtain pid w1 where o: "relay_open s q w = (Inr pid, w1)"
    and b: "relay_build s uid now q pid w1 = (Inr (r, pk, ix), w)"
    by (auto simp: relay_prepare_pieces elim!: andthen_InrE)
  have m: "mongo (wd_db s) (\<lambda>s. s) json_le" using lists.mongo_axioms by (simp add: assms(1))
  from open_outcome [OF m o] have "snd w1 = snd w"
    "JStr (pi_nullifier_hash (rq_public_inputs q)) \<notin> set (nullifiers (snd w ''withdrawals''))" by auto
  moreover have "fst w1 = fst w"
    using o by (auto simp: relay_open_def on_snd_def elim!: andthen_InrE split: prod.splits)
  ultimately have "w1 = w" by (simp add: prod_eq_iff)
  with o b \<open>JStr _ \<notin> _\<close> that show ?thesis by blast
qed

lemma list_store_record:
  "store_record list_store rec st =
     (Inr (), if JStr (w_nullifier_hash rec) \<in> set (nullifiers (st ''withdrawals'')) then st
              else st(''withdrawals'' := st ''withdrawals'' @ [withdrawal_to_doc rec]))"
  by (auto simp: store_record_def catching_def list_store_def ls_insert_def clashes_withdrawals nullifiers_def)

lemma list_touch: "\<exists>st'. touch_relayer list_store rec st = (Inr (), st') \<and> (\<forall>c. c \<noteq> ''relayers'' \<longrightarrow> st' c = st c)"
  by (auto simp: touch_relayer_def catching_def list_store_def ls_update_def split: option.splits)

lemma list_guard_refuses:
  assumes "wd_db s = list_store"
    and "JStr (pi_nullifier_hash (rq_public_inputs q)) \<in> set (nullifiers (snd w ''withdrawals''))"
  shows "relay s uid now q w = Some (Inl (nullifier_spent (pi_nullifier_hash (rq_public_inputs q))), w)"
proof -
  let ?h = "pi_nullifier_hash (rq_public_inputs q)"
  have f: "find_one (wd_db s) ''withdrawals'' (field_is ''nullifier_hash'' (JStr ?h)) (snd w)
      = (Inr (List.find (field_is ''nullifier_hash'' (JStr ?h)) (snd w ''withdrawals'')), snd w)"
    by (simp add: assms(1) list_store_def)
  obtain d where d: "List.find (field_is ''nullifier_hash'' (JStr ?h)) (snd w ''withdrawals'') = Some d"
    using assms(2) by (cases "List.find (field_is ''nullifier_hash'' (JStr ?h)) (snd w ''withdrawals'')")
      (auto simp: find_None_iff_all nullifiers_def field_is_def)
  then have "d \<noteq> []" by (auto dest!: find_SomeD field_is_nonempty)
  with nullifier_guard_answer [OF f] d have "nullifier_guard (wd_db s) ?h (snd w) = (Inl (nullifier_spent ?h), snd w)"
    by simp
  from prepare_guard_fails [OF this] show ?thesis by (simp add: relay_def)
qed

text \<open>The run in which both requests make each step before either makes the next.\<close>

lemma run_in_turn:
  assumes "wd_db s = list_store"
    and "pi_nullifier_hash (rq_public_inputs p) = pi_nullifier_hash (rq_public_inputs q)"
    and "relay_prepare s u n p w = (Inr (r, pk, ix), w)" and "relay_prepare s v m q w = (Inr (r', pk', ix'), w)"
    and "relay_broadcast s pk ix w = Some (Inr sg, w1)" and "relay_broadcast s pk' ix' w1 = Some (Inr sg', w2)"
    and "snd w2 ''withdrawals'' = snd w ''withdrawals''"
  shows "\<exists>sn st. relay_race s (two_relays (u, n, p) (v, m, q)) w
        (both_at (RelayDone (Inr (submitted r sg))) (RelayDone (Inr (submitted r' sg'))), sn, st)
     \<and> st ''withdrawals'' = snd w ''withdrawals'' @ [withdrawal_to_doc (withdrawal_record u n p r sg)]
     \<and> (\<forall>c. c \<notin> {''withdrawals'', ''relayers''} \<longrightarrow> st c = snd w2 c)"
proof -
  let ?reqs = "two_relays (u, n, p) (v, m, q)"
  let ?rec = "withdrawal_record u n p r sg" and ?rec' = "withdrawal_record v m q r' sg'"
  let ?st = "(snd w2)(''withdrawals'' := snd w2 ''withdrawals'' @ [withdrawal_to_doc ?rec])"
  obtain pid where a: "relay_open s p w = (Inr pid, w)" "relay_build s u n p pid w = (Inr (r, pk, ix), w)"
    and fresh: "JStr (pi_nullifier_hash (rq_public_inputs p)) \<notin> set (nullifiers (snd w ''withdrawals''))"
    by (rule list_guard [OF assms(1,3)])
  obtain pid' where b: "relay_open s q w = (Inr pid', w)" "relay_build s v m q pid' w = (Inr (r', pk', ix'), w)"
    by (rule list_guard [OF assms(1,4)])
  have h: "w_nullifier_hash ?rec = pi_nullifier_hash (rq_public_inputs p)"
    "w_nullifier_hash ?rec' = pi_nullifier_hash (rq_public_inputs p)"
    by (simp_all add: withdrawal_record_def Let_def assms(2))
  have i1: "store_record list_store ?rec (snd w2) = (Inr (), ?st)" using fresh assms(7) h by (simp add: list_store_record)
  have i2: "store_record list_store ?rec' ?st = (Inr (), ?st)" using h by (simp add: list_store_record)
  obtain t1 where t1: "touch_relayer list_store ?rec ?st = (Inr (), t1)" "\<forall>c. c \<noteq> ''relayers'' \<longrightarrow> t1 c = ?st c"
    using list_touch by blast
  obtain t2 where t2: "touch_relayer list_store ?rec' t1 = (Inr (), t2)" "\<forall>c. c \<noteq> ''relayers'' \<longrightarrow> t2 c = t1 c"
    using list_touch by blast
  note race = race_in_turn [where s = s and u = u and n = n and p = p and v = v and m = m and q = q and ?w0.0 = w]
  have "relay_race s ?reqs w (both_at RelayBegun RelayBegun, w)"
    using relay_race.start [of s ?reqs w] by (simp add: both_at_start)
  from race [OF this, of "RelayGuarded pid" w "RelayGuarded pid'" w] a b
  have "relay_race s ?reqs w (both_at (RelayGuarded pid) (RelayGuarded pid'), w)" by (simp add: relay_stage_step_def)
  from race [OF this, of "RelayBuilt r pk ix" w "RelayBuilt r' pk' ix'" w] a b
  have "relay_race s ?reqs w (both_at (RelayBuilt r pk ix) (RelayBuilt r' pk' ix'), w)" by (simp add: relay_stage_step_def)
  from race [OF this, of "RelaySent r sg" w1 "RelaySent r' sg'" w2] assms(5,6)
  have "relay_race s ?reqs w (both_at (RelaySent r sg) (RelaySent r' sg'), w2)" by (simp add: relay_stage_step_def)
  from race [OF this, of "RelayStored r sg" "(fst w2, ?st)" "RelayStored r' sg'" "(fst w2, ?st)"] i1 i2
  have "relay_race s ?reqs w (both_at (RelayStored r sg) (RelayStored r' sg'), fst w2, ?st)"
    by (simp add: relay_stage_step_def on_snd_def assms(1))
  from race [OF this, of "RelayDone (Inr (submitted r sg))" "(fst w2, t1)"
      "RelayDone (Inr (submitted r' sg'))" "(fst w2, t2)"] t1 t2
  have fin: "relay_race s ?reqs w (both_at (RelayDone (Inr (submitted r sg))) (RelayDone (Inr (submitted r' sg'))), fst w2, t2)"
    by (simp add: relay_stage_step_def on_snd_def assms(1))
  have all: "t2 ''withdrawals'' = snd w ''withdrawals'' @ [withdrawal_to_doc ?rec]" using t1 t2 assms(7) by simp
  have "\<forall>c. c \<notin> {''withdrawals'', ''relayers''} \<longrightarrow> t2 c = snd w2 c" using t1 t2 by simp
  with fin all show ?thesis by (intro exI [of _ "fst w2"] exI [of _ t2] conjI)
qed

text \<open>The service of the examples with a node that keeps what it was sent.\<close>

definition logging_service :: "store withdrawal_service" where
  "logging_service = demo_service\<lparr>wd_rpc := (wd_rpc demo_service)\<lparr>send_tx :=
     (\<lambda>tx b (sn, st). (Inr ''sig'', sn, st(''sent'' := st ''sent'' @ [[(''tx'', JStr tx)]])))\<rparr>\<rparr>"

lemma demo_broadcast:
  "relay_broadcast demo_service (keypair_pubkey demo_solders (replicate 64 1)) ix (demo_relay_signer, st)
     = Some (Inr ''sig'', demo_relay_signer, st)"
  using demo_relay_inline [of ix st] by (simp add: relay_broadcast_def) (simp add: demo_service_def)

lemma logging_broadcast:
  "\<exists>tx. relay_broadcast logging_service (keypair_pubkey demo_solders (replicate 64 1)) ix (demo_relay_signer, st)
     = Some (Inr ''sig'', demo_relay_signer, st(''sent'' := st ''sent'' @ [tx]))"
  by (simp add: relay_broadcast_def logging_service_def relay_inline_def demo_service_def wrap_foreign_def
      catching_def andthen_def coerce_blockhash_def build_and_sign_def next_keypair_def load_def Let_def
      demo_relay_signer_def new_signer_def demo_solders_def)
     (rule exI, rule refl)

lemma logging_prepare: "relay_prepare logging_service uid now q = relay_prepare demo_service uid now q"
  by (simp add: relay_prepare_def logging_service_def)

section \<open>Properties\<close>

text \<open>C4. However relays interleave, one nullifier has one record. From any store whose withdrawals have
  distinct nullifiers, the pieces of any number of relays, in any order, only add documents at the
  end; each is the record of a request that was submitted, under the signature it
  reports; the nullifiers stay distinct; and a request whose nullifier was stored before the
  race began never gets past the guard, so it is neither signed nor sent.\<close>

theorem relay_race_one_record:
  assumes "mongo (wd_db s) docs le" and "\<forall>D. environment_keeps (\<lambda>w. docs w = D) s"
    and "distinct (nullifiers (docs (snd w0) ''withdrawals''))"
    and "relay_race s reqs w0 (pcs, w)"
  shows "\<exists>es. docs (snd w) ''withdrawals'' = docs (snd w0) ''withdrawals'' @ es
     \<and> (\<forall>d \<in> set es. \<exists>i r sg. stored_by (pcs i) r sg \<and> d = raced_record reqs i r sg)
     \<and> distinct (nullifiers (docs (snd w) ''withdrawals''))
     \<and> (\<forall>i. JStr (raced_nullifier reqs i) \<in> set (nullifiers (docs (snd w0) ''withdrawals'')) \<longrightarrow>
           pcs i = RelayBegun \<or> (\<exists>e. pcs i = RelayDone (Inl e)))"
  using relay_race_inv [OF assms] by (auto simp: relay_race_ok_def stopped_def)

theorem relay_race_one_record_witness:
  "\<exists>pcs w r sg. relay_race demo_service (two_relays ([], 0, demo_request) ([], 0, demo_request))
       (demo_relay_signer, demo_registry) (pcs, w)
     \<and> stored_by (pcs 0) r sg \<and> stored_by (pcs 1) r sg
     \<and> length (snd w ''withdrawals'') = 1 \<and> distinct (nullifiers (snd w ''withdrawals''))"
proof -
  let ?w = "(demo_relay_signer, demo_registry)" and ?pk = "keypair_pubkey demo_solders (replicate 64 1)"
  obtain ix where ix: "relay_prepare demo_service [] 0 demo_request ?w = (Inr (demo_relayer ''u2'' ''n2'' 99, ?pk, ix), ?w)"
    using demo_prepare by blast
  have db: "wd_db demo_service = list_store" by simp
  from run_in_turn [OF db refl ix ix demo_broadcast demo_broadcast] obtain sn st where
    run: "relay_race demo_service (two_relays ([], 0, demo_request) ([], 0, demo_request)) ?w
       (both_at (RelayDone (Inr (submitted (demo_relayer ''u2'' ''n2'' 99) ''sig'')))
                (RelayDone (Inr (submitted (demo_relayer ''u2'' ''n2'' 99) ''sig''))), sn, st)"
    and one: "length (st ''withdrawals'') = 1" by (auto simp: demo_registry_def)
  have m: "mongo (wd_db demo_service) (\<lambda>s. s) json_le" using lists.mongo_axioms by simp
  have "distinct (nullifiers (snd ?w ''withdrawals''))" by (simp add: demo_registry_def)
  from relay_race_one_record [OF m _ this run] demo_environment have "distinct (nullifiers (st ''withdrawals''))" by auto
  with run one show ?thesis
    by (intro exI [of _ "both_at (RelayDone (Inr (submitted (demo_relayer ''u2'' ''n2'' 99) ''sig'')))
                (RelayDone (Inr (submitted (demo_relayer ''u2'' ''n2'' 99) ''sig'')))"] exI [of _ "(sn, st)"]
          exI [of _ "demo_relayer ''u2'' ''n2'' 99"] exI [of _ "''sig''"] conjI)
       (simp_all add: stored_by_def)
qed

text \<open>The guard does not serialise. Two requests for one nullifier that would each be relayed alone can
  interleave so that both are signed, sent and answered as submitted, while the second record
  is dropped on the unique index without a word to the caller. Other collections hold what the
  two broadcasts left; the same request made after the race is refused with the conflict.\<close>

theorem relay_race_both_submitted:
  assumes "wd_db s = list_store"
    and "pi_nullifier_hash (rq_public_inputs p) = pi_nullifier_hash (rq_public_inputs q)"
    and "relay_prepare s u n p w = (Inr (r, pk, ix), w)" and "relay_prepare s v m q w = (Inr (r', pk', ix'), w)"
    and "relay_broadcast s pk ix w = Some (Inr sg, w1)" and "relay_broadcast s pk' ix' w1 = Some (Inr sg', w2)"
    and "snd w2 ''withdrawals'' = snd w ''withdrawals''"
  shows "\<exists>pcs w'. relay_race s (two_relays (u, n, p) (v, m, q)) w (pcs, w')
     \<and> pcs 0 = RelayDone (Inr (submitted r sg)) \<and> pcs 1 = RelayDone (Inr (submitted r' sg'))
     \<and> snd w' ''withdrawals'' = snd w ''withdrawals'' @ [withdrawal_to_doc (withdrawal_record u n p r sg)]
     \<and> (\<forall>c. c \<notin> {''withdrawals'', ''relayers''} \<longrightarrow> snd w' c = snd w2 c)
     \<and> relay s v m q w' = Some (Inl (nullifier_spent (pi_nullifier_hash (rq_public_inputs q))), w')"
proof -
  from run_in_turn [OF assms] obtain sn st where run: "relay_race s (two_relays (u, n, p) (v, m, q)) w
        (both_at (RelayDone (Inr (submitted r sg))) (RelayDone (Inr (submitted r' sg'))), sn, st)"
    and all: "st ''withdrawals'' = snd w ''withdrawals'' @ [withdrawal_to_doc (withdrawal_record u n p r sg)]"
    and rest: "\<forall>c. c \<notin> {''withdrawals'', ''relayers''} \<longrightarrow> st c = snd w2 c" by blast
  have "JStr (pi_nullifier_hash (rq_public_inputs q)) \<in> set (nullifiers (snd (sn, st) ''withdrawals''))"
    using all assms(2) by (simp add: withdrawal_record_def Let_def)
  from list_guard_refuses [OF assms(1) this] run all rest show ?thesis
    by (intro exI [of _ "both_at (RelayDone (Inr (submitted r sg))) (RelayDone (Inr (submitted r' sg')))"]
        exI [of _ "(sn, st)"] conjI) simp_all
qed

theorem relay_race_both_submitted_witness:
  "\<exists>pcs w. relay_race logging_service (two_relays ([], 0, demo_request) ([], 0, demo_request))
       (demo_relay_signer, demo_registry) (pcs, w)
     \<and> (\<exists>a b. pcs 0 = RelayDone (Inr a) \<and> pcs 1 = RelayDone (Inr b)
            \<and> rr_status a = ''submitted'' \<and> rr_status b = ''submitted'')
     \<and> length (snd w ''withdrawals'') = 1 \<and> length (snd w ''sent'') = 2"
proof -
  let ?w = "(demo_relay_signer, demo_registry)" and ?pk = "keypair_pubkey demo_solders (replicate 64 1)"
  obtain ix where "relay_prepare demo_service [] 0 demo_request ?w = (Inr (demo_relayer ''u2'' ''n2'' 99, ?pk, ix), ?w)"
    using demo_prepare by blast
  then have ix: "relay_prepare logging_service [] 0 demo_request ?w = (Inr (demo_relayer ''u2'' ''n2'' 99, ?pk, ix), ?w)"
    by (simp add: logging_prepare)
  obtain tx where b1: "relay_broadcast logging_service ?pk ix ?w
      = Some (Inr ''sig'', demo_relay_signer, demo_registry(''sent'' := demo_registry ''sent'' @ [tx]))"
    using logging_broadcast by blast
  let ?st = "demo_registry(''sent'' := demo_registry ''sent'' @ [tx])"
  obtain tx' where b2: "relay_broadcast logging_service ?pk ix (demo_relay_signer, ?st)
      = Some (Inr ''sig'', demo_relay_signer, ?st(''sent'' := ?st ''sent'' @ [tx']))"
    using logging_broadcast by blast
  have db: "wd_db logging_service = list_store" by (simp add: logging_service_def)
  have "snd (demo_relay_signer, ?st(''sent'' := ?st ''sent'' @ [tx'])) ''withdrawals'' = snd ?w ''withdrawals''" by simp
  from relay_race_both_submitted [OF db refl ix ix b1 b2 this] obtain pcs w' where
    "relay_race logging_service (two_relays ([], 0, demo_request) ([], 0, demo_request)) ?w (pcs, w')"
    "pcs 0 = RelayDone (Inr (submitted (demo_relayer ''u2'' ''n2'' 99) ''sig''))"
    "pcs 1 = RelayDone (Inr (submitted (demo_relayer ''u2'' ''n2'' 99) ''sig''))"
    "snd w' ''withdrawals'' = demo_registry ''withdrawals''
       @ [withdrawal_to_doc (withdrawal_record [] 0 demo_request (demo_relayer ''u2'' ''n2'' 99) ''sig'')]"
    "snd w' ''sent'' = [tx, tx']" by (auto simp: demo_registry_def)
  then show ?thesis
    by (intro exI [of _ pcs] exI [of _ w'] conjI) (simp_all add: submitted_def demo_registry_def)
qed

end
