(* ===== verification/Anchor.thy ===== *)
theory Anchor
  imports Signer Base64
begin

text \<open>
  \<open>backend/app/clients/anchor_decoder.py\<close>: the optional decoder of account data.
  anchorpy is a parameter, as are the files; the decoder object and the process
  cache of coders are explicit.
\<close>

section \<open>Decoded values\<close>

text \<open>
  What anchorpy's decode yields: containers, lists, bytes, plain values, and
  objects whose fields are read by name (data classes, slots, public attributes).
\<close>

datatype container =
    KDict "(string \<times> container) list"
  | KList "container list"
  | KBytes bytes
  | KLeaf json
  | KObject "(string \<times> container) list"

fun container_to_dict :: "container \<Rightarrow> json" where
  "container_to_dict (KDict kvs) =
     JObj (map (\<lambda>(k, v). (k, container_to_dict v)) (filter (\<lambda>(k, v). \<not> startswith k ''_'') kvs))"
| "container_to_dict (KList vs) = JList (map container_to_dict vs)"
| "container_to_dict (KBytes bs) = JStr (to_hex bs)"
| "container_to_dict (KLeaf j) = j"
| "container_to_dict (KObject kvs) = JObj (map (\<lambda>(k, v). (k, container_to_dict v)) kvs)"

section \<open>The decoder\<close>

record 'c anchorpy =
  importable :: bool
  resolve_file :: "string \<Rightarrow> string"
  make_coder :: "string \<Rightarrow> 'c res"
  accounts_decode :: "'c \<Rightarrow> bytes \<Rightarrow> container res"

record 'c anchor_decoder =
  ad_idl_path :: string
  ad_available :: "bool option"
  ad_coder :: "'c option"

type_synonym 'c coder_cache = "(string \<times> 'c) list"
type_synonym ('c, 'w) decoder_world = "'c anchor_decoder \<times> 'c coder_cache \<times> 'w"

definition new_anchor_decoder :: "string option \<Rightarrow> 'c anchor_decoder" where
  "new_anchor_decoder idl_path =
     \<lparr>ad_idl_path = strip (case idl_path of Some p \<Rightarrow> p | None \<Rightarrow> []),
      ad_available = None, ad_coder = None\<rparr>"

definition disabled :: "'c anchor_decoder \<Rightarrow> 'c anchor_decoder" where
  "disabled d = d\<lparr>ad_available := Some False\<rparr>"

definition enabled :: "'c \<Rightarrow> 'c anchor_decoder \<Rightarrow> 'c anchor_decoder" where
  "enabled coder d = d\<lparr>ad_coder := Some coder, ad_available := Some True\<rparr>"

text \<open>The \<open>try\<close> around reading and parsing: every exception disables the decoder.\<close>

definition parse_idl :: "'c anchorpy \<Rightarrow> 'w files \<Rightarrow> string \<Rightarrow> ('c, 'w) io" where
  "parse_idl lib fs path =
     andthen (read_text fs path) (\<lambda>raw.
     andthen (pure (json_loads fs raw)) (\<lambda>_.
     pure (make_coder lib raw)))"

definition load_coder :: "'c anchorpy \<Rightarrow> 'w files \<Rightarrow> ('c option, ('c, 'w) decoder_world) io" where
  "load_coder lib fs p =
     (let (d, cache, w) = p in
      case ad_coder d of
        Some c \<Rightarrow> (Inr (Some c), p)
      | None \<Rightarrow>
          if ad_available d = Some False then (Inr None, p)
          else if ad_idl_path d = [] then (Inr None, disabled d, cache, w)
          else
            (case path_exists fs (ad_idl_path d) w of
               (Inl e, w1) \<Rightarrow> (Inl e, d, cache, w1)
             | (Inr False, w1) \<Rightarrow> (Inr None, disabled d, cache, w1)
             | (Inr True, w1) \<Rightarrow>
                 (let key = resolve_file lib (ad_idl_path d) in
                  case map_of cache key of
                    Some c \<Rightarrow> (Inr (Some c), enabled c d, cache, w1)
                  | None \<Rightarrow>
                      if \<not> importable lib then (Inr None, disabled d, cache, w1)
                      else
                        (case parse_idl lib fs (ad_idl_path d) w1 of
                           (Inl e, w2) \<Rightarrow> (Inr None, disabled d, cache, w2)
                         | (Inr c, w2) \<Rightarrow> (Inr (Some c), enabled c d, (key, c) # cache, w2)))))"

definition anchor_decode_available :: "'c anchorpy \<Rightarrow> 'w files \<Rightarrow> (bool, ('c, 'w) decoder_world) io" where
  "anchor_decode_available lib fs p =
     andthen (if ad_available (fst p) = None then andthen (load_coder lib fs) (\<lambda>_. ret ()) else ret ())
       (\<lambda>_ q. (Inr (ad_available (fst q) = Some True), q)) p"

text \<open>\<open>account_name\<close> only goes to the log.\<close>

definition anchor_decode_account ::
  "'c anchorpy \<Rightarrow> 'w files \<Rightarrow> string \<Rightarrow> string \<Rightarrow> (json option, ('c, 'w) decoder_world) io" where
  "anchor_decode_account lib fs account_data_base64 account_name =
     andthen (load_coder lib fs) (\<lambda>coder.
       ret (case coder of
              None \<Rightarrow> None
            | Some c \<Rightarrow>
                (case py_b64decode account_data_base64 of
                   None \<Rightarrow> None
                 | Some raw \<Rightarrow> (case accounts_decode lib c raw of
                     Inl e \<Rightarrow> None | Inr k \<Rightarrow> Some (container_to_dict k)))))"

section \<open>Lemmas\<close>

text \<open>The flag and the coder agree, in every state the decoder reaches.\<close>

definition decoder_inv :: "'c anchor_decoder \<Rightarrow> bool" where
  "decoder_inv d \<longleftrightarrow> (ad_available d = Some True \<longleftrightarrow> ad_coder d \<noteq> None)"

lemma new_decoder_inv: "decoder_inv (new_anchor_decoder p)"
  by (simp add: decoder_inv_def new_anchor_decoder_def)

lemma load_coder_effect:
  assumes "load_coder lib fs (d, cache, w) = (r, d', cache', w')" "decoder_inv d"
  shows "decoder_inv d' \<and> ad_idl_path d' = ad_idl_path d \<and>
         (case r of Inr c \<Rightarrow> ad_available d' \<noteq> None \<and> c = ad_coder d'
                  | Inl e \<Rightarrow> d' = d \<and> cache' = cache \<and> path_exists fs (ad_idl_path d) w = (Inl e, w'))"
  using assms
  by (auto simp: load_coder_def decoder_inv_def disabled_def enabled_def Let_def
      split: option.splits if_splits prod.splits sum.splits bool.splits)

lemma load_coder_again:
  assumes "decoder_inv d" "ad_available d \<noteq> None"
  shows "load_coder lib fs (d, cache, w) = (Inr (ad_coder d), d, cache, w)"
  using assms by (cases "ad_coder d") (auto simp: load_coder_def decoder_inv_def)

section \<open>Properties\<close>

text \<open>The decoder degrades and does not retry. Where testing for the file does not raise, no method of a decoder
  raises, whatever the IDL file, anchorpy or the account data; after the first call the decoder
  is decided: a second call gives the same answer without touching the files, and it is available
  exactly when it holds a coder.\<close>

theorem decoder_degrades:
  assumes "decoder_inv d" and "\<forall>p w e w'. path_exists fs p w \<noteq> (Inl e, w')"
    and "load_coder lib fs (d, cache, w) = (r, d', cache', w')"
    and "anchor_decode_account lib fs b64 name (d, cache, w) = (r2, d2, cache2, w2)"
  shows "r = Inr (ad_coder d') \<and> decoder_inv d' \<and> ad_available d' \<noteq> None
     \<and> (\<forall>cache'' w''. load_coder lib fs (d', cache'', w'') = (r, d', cache'', w''))
     \<and> anchor_decode_available lib fs (d', cache', w') = (Inr (ad_coder d' \<noteq> None), d', cache', w')
     \<and> (\<exists>j. r2 = Inr j) \<and> d2 = d'"
proof -
  note e = load_coder_effect [OF assms(3,1)]
  obtain c where c: "r = Inr c" using e assms(2) by (cases r) auto
  with e have d': "c = ad_coder d'" "decoder_inv d'" "ad_available d' \<noteq> None" by auto
  have "anchor_decode_available lib fs (d', cache', w') = (Inr (ad_coder d' \<noteq> None), d', cache', w')"
    using d'(2,3) by (auto simp: anchor_decode_available_def decoder_inv_def)
  moreover have "(\<exists>j. r2 = Inr j) \<and> d2 = d'"
    using assms(3,4) c by (auto simp: anchor_decode_account_def andthen_def)
  ultimately show ?thesis using c d' load_coder_again [OF d'(2,3), of lib fs] by auto
qed

definition demo_lib :: "nat anchorpy" where
  "demo_lib = \<lparr>importable = True, resolve_file = (\<lambda>p. p), make_coder = (\<lambda>raw. Inr 1),
     accounts_decode = (\<lambda>c raw. Inr (KObject [(''roots'', KList [KBytes raw])]))\<rparr>"

theorem decoder_degrades_witness:
  "\<exists>r d' cache' w'. load_coder demo_lib demo_files (new_anchor_decoder (Some ''/k''), [], ()) = (r, d', cache', w')
     \<and> ad_available d' \<noteq> None"
proof -
  let ?p = "(new_anchor_decoder (Some ''/k''), [], ())"
  obtain r d' cache' w' where 1: "load_coder demo_lib demo_files ?p = (r, d', cache', w')" by (metis prod_cases4)
  obtain r2 d2 cache2 w2 where 2: "anchor_decode_account demo_lib demo_files [] [] ?p = (r2, d2, cache2, w2)" by (metis prod_cases4)
  have "\<forall>p w e w'. path_exists demo_files p w \<noteq> (Inl e, w')" by (simp add: demo_files_def)
  from decoder_degrades [OF new_decoder_inv this 1 2] 1 show ?thesis by blast
qed

end
