(* ===== verification/Auth.thy ===== *)
theory Auth
  imports Config Effects PyBytes
begin

text \<open>
  \<open>backend/app/auth.py\<close>: the message a wallet signs, the two regular expressions
  that read it back, and the dependency that checks the three headers. base58 and
  Ed25519 are parameters, and so is \<open>datetime.fromisoformat\<close>; dates are the records
  Python keeps, printed and subtracted here. Header text is Latin-1, so one
  character is one code point below 256.
\<close>

section \<open>Dates\<close>

text \<open>\<open>datetime\<close>: the fields of a local time and its offset from UTC in microseconds, if aware.\<close>

record datetime =
  dt_year :: nat
  dt_month :: nat
  dt_day :: nat
  dt_hour :: nat
  dt_minute :: nat
  dt_second :: nat
  dt_micro :: nat
  dt_offset :: "int option"

definition is_leap :: "nat \<Rightarrow> bool" where
  "is_leap y \<longleftrightarrow> y mod 4 = 0 \<and> (y mod 100 \<noteq> 0 \<or> y mod 400 = 0)"

definition month_days :: "nat \<Rightarrow> nat list" where
  "month_days y = [31, if is_leap y then 29 else 28, 31, 30, 31, 30, 31, 31, 30, 31, 30, 31]"

text \<open>Days since the first of January of the year 1, counted from 1, as \<open>date.toordinal\<close>.\<close>

definition ordinal :: "nat \<Rightarrow> nat \<Rightarrow> nat \<Rightarrow> int" where
  "ordinal y m d =
     (let p = int y - 1 in
      365 * p + p div 4 - p div 100 + p div 400 + int (sum_list (take (m - 1) (month_days y))) + int d)"

text \<open>Microseconds since the Unix epoch; 719163 is the ordinal of 1970-01-01.\<close>

definition unix_us :: "datetime \<Rightarrow> int" where
  "unix_us t =
     (((ordinal (dt_year t) (dt_month t) (dt_day t) - 719163) * 86400
        + int (dt_hour t) * 3600 + int (dt_minute t) * 60 + int (dt_second t)) * 1000000
      + int (dt_micro t)) - (case dt_offset t of Some z \<Rightarrow> z | None \<Rightarrow> 0)"

definition digit :: "nat \<Rightarrow> char" where
  "digit n = char_of (48 + n mod 10)"

text \<open>The \<open>n\<close> low decimal digits, as in the format \<open>%0nd\<close> for a number that fits.\<close>

fun padded :: "nat \<Rightarrow> nat \<Rightarrow> string" where
  "padded 0 v = []"
| "padded (Suc n) v = padded n (v div 10) @ [digit v]"

definition iso_offset :: "int \<Rightarrow> string" where
  "iso_offset z =
     (let a = nat \<bar>z\<bar>; us = a mod 1000000; s = a div 1000000 in
      (if z < 0 then ''-'' else ''+'') @ padded 2 (s div 3600) @ '':'' @ padded 2 (s div 60 mod 60) @
      (if s mod 60 = 0 \<and> us = 0 then []
       else '':'' @ padded 2 (s mod 60) @ (if us = 0 then [] else ''.'' @ padded 6 us)))"

definition isoformat :: "datetime \<Rightarrow> string" where
  "isoformat t =
     padded 4 (dt_year t) @ ''-'' @ padded 2 (dt_month t) @ ''-'' @ padded 2 (dt_day t) @ ''T'' @
     padded 2 (dt_hour t) @ '':'' @ padded 2 (dt_minute t) @ '':'' @ padded 2 (dt_second t) @
     (if dt_micro t = 0 then [] else ''.'' @ padded 6 (dt_micro t)) @
     (case dt_offset t of None \<Rightarrow> [] | Some z \<Rightarrow> iso_offset z)"

section \<open>The message\<close>

abbreviation newline :: char where "newline \<equiv> CHR 0x0A"

definition build_auth_message :: "string \<Rightarrow> string \<Rightarrow> string \<Rightarrow> datetime \<Rightarrow> string res" where
  "build_auth_message domain address nonce issued_at =
     (if dt_offset issued_at = None then Inl (Other ''ValueError'' ''issued_at must be timezone-aware'')
      else Inr (domain @ '' wants you to sign in with your Solana account:'' @ [newline] @
                address @ [newline, newline] @
                ''Authorize BagsVault session.'' @ [newline, newline] @
                ''Nonce: '' @ nonce @ [newline] @
                ''Issued At: '' @ isoformat issued_at))"

text \<open>
  \<open>_ISSUED_AT_RE\<close>: at the start of a line \<open>Issued At:\<close>, white space, a run of other
  characters, and white space up to the end of a line or of the text. The runs
  are greedy and the only choice left to backtracking is where the last one stops.
\<close>

definition issued_at_match :: "string \<Rightarrow> string option" where
  "issued_at_match s =
     (if prefix ''Issued At:'' s
      then (let r = dropWhile py_space (drop 10 s);
                ts = takeWhile (\<lambda>c. \<not> py_space c) r;
                rest = dropWhile (\<lambda>c. \<not> py_space c) r
            in if ts \<noteq> [] \<and> (dropWhile py_space rest = [] \<or> newline \<in> set (takeWhile py_space rest))
               then Some ts else None)
      else None)"

fun issued_at_search :: "bool \<Rightarrow> string \<Rightarrow> string option" where
  "issued_at_search line_start [] = None"
| "issued_at_search line_start (c # s) =
     (case if line_start then issued_at_match (c # s) else None of
        Some ts \<Rightarrow> Some ts
      | None \<Rightarrow> issued_at_search (c = newline) s)"

definition address_marker :: string where
  "address_marker = ''sign in with your Solana account:'' @ [newline]"

text \<open>\<open>_ADDRESS_LINE_RE\<close>: the marker and the rest of the line after it, which is not empty.\<close>

fun address_search :: "string \<Rightarrow> string option" where
  "address_search [] = None"
| "address_search (c # s) =
     (let line = takeWhile (\<lambda>x. x \<noteq> newline) (drop (length address_marker) (c # s)) in
      if prefix address_marker (c # s) \<and> line \<noteq> [] then Some line else address_search s)"

definition extract_address :: "string \<Rightarrow> string option" where
  "extract_address message = map_option strip (address_search message)"

section \<open>The check\<close>

record auth_lib =
  b58decode :: "string \<Rightarrow> bytes res"
  ed25519_verify :: "bytes \<Rightarrow> bytes \<Rightarrow> bytes \<Rightarrow> unit res"
  from_iso :: "string \<Rightarrow> datetime option"

definition auth_error :: "string \<Rightarrow> dict \<Rightarrow> exn" where
  "auth_error m d = Domain AuthError m d"

text \<open>\<open>except (ValueError, TypeError)\<close>; the error of encoding text as ASCII is a \<open>ValueError\<close>.\<close>

definition decode_caught :: "exn \<Rightarrow> bool" where
  "decode_caught e = (case e of Domain _ _ _ \<Rightarrow> False
                      | Other t m \<Rightarrow> t \<in> {''ValueError'', ''TypeError'', ''UnicodeEncodeError''})"

definition verify_signature :: "auth_lib \<Rightarrow> string \<Rightarrow> string \<Rightarrow> string \<Rightarrow> bool res" where
  "verify_signature lib address message signature_b58 =
     (case rbind (b58decode lib address) (\<lambda>pk. rbind (b58decode lib signature_b58) (\<lambda>sg. Inr (pk, sg))) of
        Inl e \<Rightarrow> if decode_caught e then Inr False else Inl e
      | Inr (pk, sg) \<Rightarrow>
          if length pk \<noteq> 32 \<or> length sg \<noteq> 64 then Inr False
          else (case ed25519_verify lib pk (utf8 message) sg of Inl e \<Rightarrow> Inr False | Inr _ \<Rightarrow> Inr True))"

text \<open>A naive timestamp is read as UTC.\<close>

definition extract_issued_at :: "auth_lib \<Rightarrow> string \<Rightarrow> datetime res" where
  "extract_issued_at lib message =
     (case issued_at_search True message of
        None \<Rightarrow> Inl (auth_error ''Auth message missing 'Issued At' field.'' [])
      | Some raw \<Rightarrow>
          (case from_iso lib raw of
             None \<Rightarrow> Inl (auth_error ''Auth message has malformed 'Issued At' timestamp.'' [])
           | Some ts \<Rightarrow> Inr (if dt_offset ts = None then ts\<lparr>dt_offset := Some 0\<rparr> else ts)))"

text \<open>The checks on three headers that are there and not empty; \<open>now\<close> is in microseconds since the epoch.\<close>

definition check_wallet :: "auth_lib \<Rightarrow> settings \<Rightarrow> int \<Rightarrow> string \<Rightarrow> string \<Rightarrow> string \<Rightarrow> string res" where
  "check_wallet lib cfg now address signature message =
     (if extract_address message \<noteq> None \<and> extract_address message \<noteq> Some address
      then Inl (auth_error ''Auth message address does not match X-Wallet-Address header.'' [])
      else
        rbind (extract_issued_at lib message) (\<lambda>issued_at.
          let age = now - unix_us issued_at; max_age = auth_message_max_age_seconds cfg in
          if max_age * 1000000 < age
          then Inl (auth_error ''Auth message expired.''
                 [(''age_seconds'', JFloat (of_int age / 1000000)), (''max_age'', JInt max_age)])
          else if age < - (60 * 1000000)
          then Inl (auth_error ''Auth message issued in the future.''
                 [(''age_seconds'', JFloat (of_int age / 1000000))])
          else
            rbind (verify_signature lib address message signature) (\<lambda>ok.
              if ok then Inr address else Inl (auth_error ''Invalid wallet signature.'' []))))"

text \<open>\<open>headers\<close> is \<open>request.headers.get\<close>; an empty header counts as missing.\<close>

definition present :: "string option \<Rightarrow> string option" where
  "present h = (if h = Some [] then None else h)"

definition missing_headers :: exn where
  "missing_headers = auth_error ''Missing wallet auth headers.''
     [(''required'', JList (map JStr [''X-Wallet-Address'', ''X-Wallet-Signature'', ''X-Wallet-Message'']))]"

definition require_wallet :: "auth_lib \<Rightarrow> settings \<Rightarrow> int \<Rightarrow> (string \<Rightarrow> string option) \<Rightarrow> string res" where
  "require_wallet lib cfg now headers =
     (case (present (headers ''X-Wallet-Address''), present (headers ''X-Wallet-Signature''),
            present (headers ''X-Wallet-Message'')) of
        (Some address, Some signature, Some message) \<Rightarrow> check_wallet lib cfg now address signature message
      | _ \<Rightarrow> Inl missing_headers)"

section \<open>Lemmas\<close>

lemma no_space_newline: "\<not> py_space c \<Longrightarrow> c \<noteq> newline \<and> c \<noteq> CHR '' ''"
  by (auto simp: py_space_def Let_def)

text \<open>The searches on one line, and past a line.\<close>

lemma address_search_line: "newline \<notin> set s \<Longrightarrow> address_search s = None"
proof (induction s)
  case (Cons c s)
  have "\<not> prefix address_marker (c # s)"
    using Cons.prems set_mono_prefix [of address_marker "c # s"] by (auto simp: address_marker_def)
  with Cons show ?case by (simp add: Let_def)
qed simp

lemma issued_at_search_line: "newline \<notin> set s \<Longrightarrow> issued_at_search False s = None"
  by (induction s) auto

lemma issued_at_search_one_line:
  "newline \<notin> set s \<Longrightarrow> issued_at_search True s = Some ts \<Longrightarrow> issued_at_match s = Some ts"
  by (cases s) (auto simp: issued_at_search_line split: option.splits)

lemma issued_at_skip: "newline \<notin> set l \<Longrightarrow> issued_at_search False (l @ newline # s) = issued_at_search True s"
  by (induction l) auto

lemma issued_at_match_label: "\<not> prefix ''Issued At:'' s \<Longrightarrow> issued_at_match s = None"
  by (simp only: issued_at_match_def if_False)

lemma issued_at_next_line:
  assumes "newline \<notin> set l" and "\<not> prefix ''Issued At:'' (l @ newline # s)"
  shows "issued_at_search True (l @ newline # s) = issued_at_search True s"
proof (cases l)
  case (Cons c l')
  have "issued_at_match (c # l' @ newline # s) = None"
    using assms(2) unfolding Cons append_Cons by (rule issued_at_match_label)
  moreover have "(c = newline) = False" using assms(1) Cons by auto
  ultimately show ?thesis using assms(1) Cons by (simp add: issued_at_skip)
qed (simp add: issued_at_match_def)

lemma address_search_marker:
  assumes "newline \<notin> set d" and "newline \<notin> set a" and "a \<noteq> []"
  shows "address_search (d @ address_marker @ a @ newline # r) = Some a"
  using assms(1)
proof (induction d)
  case Nil
  have line: "takeWhile (\<lambda>x. x \<noteq> newline) (a @ newline # r) = a"
    using assms(2) by (simp add: takeWhile_append)
  obtain c m where m: "address_marker = c # m" by (simp add: address_marker_def)
  have "address_search (address_marker @ x) =
      (let line = takeWhile (\<lambda>x. x \<noteq> newline) (drop (length address_marker) (address_marker @ x)) in
       if prefix address_marker (address_marker @ x) \<and> line \<noteq> [] then Some line
       else address_search (tl (address_marker @ x)))" for x
    by (simp only: m append_Cons address_search.simps list.sel)
  then show ?case using assms(3) line by (simp add: Let_def)
next
  case (Cons c d)
  let ?w = "''sign in with your Solana account:''"
  have w: "newline \<notin> set ?w" by simp
  have "\<not> prefix address_marker ((c # d) @ address_marker @ a @ newline # r)"
  proof
    assume "prefix address_marker ((c # d) @ address_marker @ a @ newline # r)"
    then obtain z where z: "(c # d) @ address_marker @ a @ newline # r = address_marker @ z" by (auto elim: prefixE)
    have "takeWhile (\<lambda>x. x \<noteq> newline) (address_marker @ y) = ?w" for y
      by (simp add: address_marker_def)
    moreover have "takeWhile (\<lambda>x. x \<noteq> newline) ((c # d) @ y) = (c # d) @ takeWhile (\<lambda>x. x \<noteq> newline) y" for y
      using Cons.prems by (intro takeWhile_append2) auto
    ultimately have "(c # d) @ ?w = ?w" by (metis z)
    then show False by simp
  qed
  with Cons show ?case by (simp add: Let_def)
qed

lemma label_not_prefix:
  assumes "CHR '' '' \<notin> set w" and "c = newline \<or> (c = CHR '' '' \<and> r = CHR ''w'' # r')"
  shows "\<not> prefix ''Issued At:'' (w @ c # r)"
proof
  assume "prefix ''Issued At:'' (w @ c # r)"
  then obtain z where z: "w @ c # r = ''Issued'' @ CHR '' '' # ''At:'' @ z" by (auto elim: prefixE)
  have "takeWhile (\<lambda>x. x \<noteq> CHR '' '' \<and> x \<noteq> newline) (''Issued'' @ CHR '' '' # ''At:'' @ z) = ''Issued''" by simp
  moreover have "c = CHR '' '' \<Longrightarrow> r \<noteq> ''At:'' @ z" using assms(2) by auto
  ultimately show False
    using z assms by (auto simp: append_eq_append_conv2 append_eq_Cons_conv Cons_eq_append_conv)
qed

lemma digit_not_space: "\<not> py_space (digit n)"
proof -
  have "(of_char (digit n) :: nat) = 48 + n mod 10" by (simp add: digit_def)
  moreover have "n mod 10 < 10" by simp
  ultimately show ?thesis by (auto simp add: py_space_def Let_def)
qed

lemma punctuation_not_space:
  "\<not> py_space (CHR ''-'')" "\<not> py_space (CHR ''+'')" "\<not> py_space (CHR '':'')" "\<not> py_space (CHR ''.'')"
  "\<not> py_space (CHR ''T'')"
  by (simp_all add: py_space_def)

lemma padded_not_space [simp]: "\<forall>c \<in> set (padded n v). \<not> py_space c"
  by (induction n arbitrary: v) (simp_all add: digit_not_space ball_Un)

lemma isoformat_not_space: "\<forall>c \<in> set (isoformat t). \<not> py_space c"
proof -
  have "\<forall>c \<in> set (iso_offset z). \<not> py_space c" for z
    by (simp add: iso_offset_def Let_def ball_Un punctuation_not_space)
  then show ?thesis
    by (simp add: isoformat_def ball_Un punctuation_not_space split: option.split) blast
qed

lemma isoformat_nonempty: "isoformat t \<noteq> []"
  by (simp add: isoformat_def)

lemma issued_at_match_ts:
  assumes "ts \<noteq> []" and "\<forall>c \<in> set ts. \<not> py_space c"
  shows "issued_at_match (''Issued At: '' @ ts) = Some ts"
proof -
  have sp: "py_space (CHR '' '')" by (simp add: py_space_def)
  have d: "dropWhile py_space ts = ts" using assms by (cases ts) auto
  have t: "takeWhile (\<lambda>c. \<not> py_space c) ts = ts" using assms(2) by simp
  have e: "dropWhile (\<lambda>c. \<not> py_space c) ts = []" using assms(2) by simp
  show ?thesis using assms(1) sp by (simp add: issued_at_match_def Let_def d t e)
qed

text \<open>The two searches on the message the template builds.\<close>

lemma build_auth_message_Inr: "build_auth_message domain address nonce t = Inr msg \<longleftrightarrow>
   dt_offset t \<noteq> None \<and>
   msg = domain @ '' wants you to sign in with your Solana account:'' @ [newline] @ address @ [newline, newline] @
     ''Authorize BagsVault session.'' @ [newline, newline] @ ''Nonce: '' @ nonce @ [newline] @ ''Issued At: '' @ isoformat t"
  unfolding build_auth_message_def
  by (cases "dt_offset t = None") (simp_all only: if_True if_False sum.distinct sum.inject not_False_eq_True simp_thms eq_commute)

lemma built_message:
  assumes "build_auth_message domain address nonce t = Inr msg"
    and "\<forall>c \<in> set domain. \<not> py_space c" and "\<forall>c \<in> set address. \<not> py_space c" and "address \<noteq> []"
    and "newline \<notin> set nonce"
  shows "extract_address msg = Some address" and "issued_at_search True msg = Some (isoformat t)"
    and "dt_offset t \<noteq> None" and "msg \<noteq> []"
proof -
  show "dt_offset t \<noteq> None" using assms(1) unfolding build_auth_message_Inr by (rule conjunct1)
  have dom: "newline \<notin> set domain" "CHR '' '' \<notin> set domain"
    and adr: "newline \<notin> set address" "CHR '' '' \<notin> set address"
    using assms(2,3) no_space_newline by blast+
  let ?tail = "''Issued At: '' @ isoformat t"
  let ?t2 = "newline # ''Authorize BagsVault session.'' @ newline # newline # (''Nonce: '' @ nonce) @ newline # ?tail"
  have m1: "msg = (domain @ '' wants you to '') @ address_marker @ address @ newline # ?t2"
    using assms(1) by (simp add: build_auth_message_Inr address_marker_def)
  then show "msg \<noteq> []" by simp
  have "address_search msg = Some address"
    unfolding m1 using dom(1) adr(1) assms(4) by (intro address_search_marker) auto
  then show "extract_address msg = Some address"
    using strip_no_space [of address] assms(3) by (simp add: extract_address_def)
  let ?l1 = "domain @ '' wants you to sign in with your Solana account:''"
  have m2: "msg = ?l1 @ newline # address @ newline # ?t2" using m1 by (simp add: address_marker_def)
  have l1: "\<not> prefix ''Issued At:'' (?l1 @ newline # s)" for s
    using label_not_prefix [OF dom(2), of "CHR '' ''" "''wants you to sign in with your Solana account:'' @ newline # s"]
    by simp
  have l2: "\<not> prefix ''Issued At:'' (address @ newline # s)" for s
    using label_not_prefix [OF adr(2), of newline s] by simp
  have fin: "issued_at_search True ?tail = Some (isoformat t)"
    using issued_at_match_ts [OF isoformat_nonempty isoformat_not_space [of t]] by simp
  have "issued_at_search True msg = issued_at_search True (address @ newline # ?t2)"
    unfolding m2 using dom(1) l1 by (intro issued_at_next_line) auto
  also have "\<dots> = issued_at_search True ([] @ ?t2)"
    using issued_at_next_line [OF adr(1) l2] by simp
  also have "\<dots> = issued_at_search True (''Authorize BagsVault session.'' @ newline # [] @ newline # (''Nonce: '' @ nonce) @ newline # ?tail)"
    using issued_at_next_line [of "[]"] by simp
  also have "\<dots> = issued_at_search True ([] @ newline # (''Nonce: '' @ nonce) @ newline # ?tail)"
    by (rule issued_at_next_line) simp_all
  also have "\<dots> = issued_at_search True ((''Nonce: '' @ nonce) @ newline # ?tail)"
    by (rule issued_at_next_line) simp_all
  also have "\<dots> = issued_at_search True ?tail"
    using assms(5) by (intro issued_at_next_line) simp_all
  finally show "issued_at_search True msg = Some (isoformat t)" using fin by simp
qed

text \<open>The check, once the headers are there.\<close>

definition in_window :: "settings \<Rightarrow> int \<Rightarrow> datetime \<Rightarrow> bool" where
  "in_window cfg now t \<longleftrightarrow>
     unix_us t - 60 * 1000000 \<le> now \<and> now \<le> unix_us t + auth_message_max_age_seconds cfg * 1000000"

definition signed_by :: "auth_lib \<Rightarrow> string \<Rightarrow> string \<Rightarrow> string \<Rightarrow> bool" where
  "signed_by lib address message signature \<longleftrightarrow>
     (case (b58decode lib address, b58decode lib signature) of
        (Inr pk, Inr sg) \<Rightarrow> length pk = 32 \<and> length sg = 64 \<and> ed25519_verify lib pk (utf8 message) sg = Inr ()
      | _ \<Rightarrow> False)"

lemma verify_signature_Inr: "verify_signature lib a m s = Inr True \<longleftrightarrow> signed_by lib a m s"
  by (cases "b58decode lib a"; cases "b58decode lib s")
     (auto simp: verify_signature_def signed_by_def split: sum.split)

lemma verify_signature_total:
  assumes "\<And>x e. b58decode lib x = Inl e \<Longrightarrow> decode_caught e"
  shows "\<exists>ok. verify_signature lib a m s = Inr ok"
  by (cases "b58decode lib a"; cases "b58decode lib s")
     (auto simp: verify_signature_def assms split: sum.split)

lemma require_wallet_present:
  assumes "headers ''X-Wallet-Address'' = Some a" "headers ''X-Wallet-Signature'' = Some sg"
    "headers ''X-Wallet-Message'' = Some msg" "a \<noteq> []" "sg \<noteq> []" "msg \<noteq> []"
  shows "require_wallet lib cfg now headers = check_wallet lib cfg now a sg msg"
  using assms by (simp add: require_wallet_def present_def)

lemma require_wallet_cases:
  assumes "require_wallet lib cfg now headers = r"
  obtains "r = Inl missing_headers"
  | a sg msg where "headers ''X-Wallet-Address'' = Some a" "headers ''X-Wallet-Signature'' = Some sg"
      "headers ''X-Wallet-Message'' = Some msg" "a \<noteq> []" "sg \<noteq> []" "msg \<noteq> []" "r = check_wallet lib cfg now a sg msg"
  using assms unfolding require_wallet_def present_def by (simp split: option.splits if_splits)

lemma check_wallet_Inr:
  "check_wallet lib cfg now a sg msg = Inr b \<longleftrightarrow>
     b = a \<and> (extract_address msg = None \<or> extract_address msg = Some a) \<and>
     (\<exists>t. extract_issued_at lib msg = Inr t \<and> in_window cfg now t) \<and> signed_by lib a msg sg"
proof (cases "extract_issued_at lib msg")
  case (Inr t)
  have "(\<not> auth_message_max_age_seconds cfg * 1000000 < now - unix_us t \<and> \<not> now - unix_us t < - (60 * 1000000))
    = in_window cfg now t" by (auto simp: in_window_def)
  then show ?thesis
    by (cases "verify_signature lib a msg sg")
       (auto simp: check_wallet_def Let_def Inr in_window_def simp flip: verify_signature_Inr)
qed (simp add: check_wallet_def)

lemma check_wallet_Inr_sym:
  "Inr b = check_wallet lib cfg now a sg msg \<longleftrightarrow>
     b = a \<and> (extract_address msg = None \<or> extract_address msg = Some a) \<and>
     (\<exists>t. extract_issued_at lib msg = Inr t \<and> in_window cfg now t) \<and> signed_by lib a msg sg"
  using check_wallet_Inr by (metis (no_types))

text \<open>Every refusal is an \<open>AuthError\<close>, provided decoding base58 raises nothing but what is caught.\<close>

lemma require_wallet_refusal:
  assumes "\<And>x e. b58decode lib x = Inl e \<Longrightarrow> decode_caught e" and "require_wallet lib cfg now headers = Inl e"
  obtains m d where "e = Domain AuthError m d"
proof (rule require_wallet_cases [OF refl, where lib = lib and cfg = cfg and now = now and headers = headers])
  assume "require_wallet lib cfg now headers = Inl missing_headers"
  with assms(2) that show ?thesis by (auto simp: missing_headers_def auth_error_def)
next
  fix b sg msg
  assume r: "require_wallet lib cfg now headers = check_wallet lib cfg now b sg msg"
  obtain ok where "verify_signature lib b msg sg = Inr ok" using verify_signature_total assms(1) by blast
  with assms(2) that show ?thesis unfolding r
    by (auto simp: check_wallet_def Let_def auth_error_def extract_issued_at_def split: option.splits if_splits)
qed

lemma require_wallet_signed:
  assumes "require_wallet lib cfg now headers = Inr a"
  obtains msg sg where "headers ''X-Wallet-Address'' = Some a" "headers ''X-Wallet-Message'' = Some msg"
    "headers ''X-Wallet-Signature'' = Some sg" "signed_by lib a msg sg"
  using assms by (rule require_wallet_cases) (auto simp: check_wallet_Inr_sym intro: that)

section \<open>Properties\<close>

text \<open>C26. Who gets in. A request passes the wallet check exactly when its three headers are present, the message
  does not name another address, it carries a parsable time of issue no more than the configured age in the past and no more than
  a minute in the future, address and signature decode to 32 and 64 bytes, and the Ed25519
  verification of the UTF-8 text of that very message succeeds; the answer is then the address of the header. Every
  refusal is \<open>AuthError\<close>, which the handler answers with 401, as long as base58
  fails only with the errors the code catches.\<close>

theorem wallet_check_exact:
  assumes "\<And>x e. b58decode lib x = Inl e \<Longrightarrow> decode_caught e"
  shows "(require_wallet lib cfg now headers = Inr a \<longleftrightarrow>
            (\<exists>msg sg t. headers ''X-Wallet-Address'' = Some a \<and> headers ''X-Wallet-Message'' = Some msg \<and>
               headers ''X-Wallet-Signature'' = Some sg \<and> a \<noteq> [] \<and> msg \<noteq> [] \<and> sg \<noteq> [] \<and>
               extract_address msg \<in> {None, Some a} \<and> extract_issued_at lib msg = Inr t \<and>
               unix_us t - 60000000 \<le> now \<and> now \<le> unix_us t + auth_message_max_age_seconds cfg * 1000000 \<and>
               (\<exists>pk raw. b58decode lib a = Inr pk \<and> length pk = 32 \<and> b58decode lib sg = Inr raw \<and> length raw = 64 \<and>
                  ed25519_verify lib pk (utf8 msg) raw = Inr ())))
         \<and> (\<exists>m d. require_wallet lib cfg now headers \<in> {Inl (Domain AuthError m d)} \<union> range Inr)
         \<and> status_code AuthError = 401"
proof (intro conjI)
  have signed: "signed_by lib a msg sg \<longleftrightarrow> (\<exists>pk raw. b58decode lib a = Inr pk \<and> length pk = 32 \<and>
      b58decode lib sg = Inr raw \<and> length raw = 64 \<and> ed25519_verify lib pk (utf8 msg) raw = Inr ())" for msg sg
    by (auto simp: signed_by_def split: sum.splits)
  let ?rhs = "\<exists>msg sg t. headers ''X-Wallet-Address'' = Some a \<and> headers ''X-Wallet-Message'' = Some msg \<and>
               headers ''X-Wallet-Signature'' = Some sg \<and> a \<noteq> [] \<and> msg \<noteq> [] \<and> sg \<noteq> [] \<and>
               extract_address msg \<in> {None, Some a} \<and> extract_issued_at lib msg = Inr t \<and>
               in_window cfg now t \<and> signed_by lib a msg sg"
  have "require_wallet lib cfg now headers = Inr a \<longleftrightarrow> ?rhs"
  proof
    assume "require_wallet lib cfg now headers = Inr a"
    then show ?rhs by (rule require_wallet_cases) (auto simp: check_wallet_Inr_sym)
  next
    assume ?rhs
    then show "require_wallet lib cfg now headers = Inr a" by (auto simp: require_wallet_present check_wallet_Inr)
  qed
  then show "require_wallet lib cfg now headers = Inr a \<longleftrightarrow>
            (\<exists>msg sg t. headers ''X-Wallet-Address'' = Some a \<and> headers ''X-Wallet-Message'' = Some msg \<and>
               headers ''X-Wallet-Signature'' = Some sg \<and> a \<noteq> [] \<and> msg \<noteq> [] \<and> sg \<noteq> [] \<and>
               extract_address msg \<in> {None, Some a} \<and> extract_issued_at lib msg = Inr t \<and>
               unix_us t - 60000000 \<le> now \<and> now \<le> unix_us t + auth_message_max_age_seconds cfg * 1000000 \<and>
               (\<exists>pk raw. b58decode lib a = Inr pk \<and> length pk = 32 \<and> b58decode lib sg = Inr raw \<and> length raw = 64 \<and>
                  ed25519_verify lib pk (utf8 msg) raw = Inr ()))"
    by (simp add: in_window_def signed conj_assoc)
  show "\<exists>m d. require_wallet lib cfg now headers \<in> {Inl (Domain AuthError m d)} \<union> range Inr"
  proof (cases "require_wallet lib cfg now headers")
    case (Inl e)
    obtain m d where "e = Domain AuthError m d" by (rule require_wallet_refusal [OF _ Inl]) (use assms in blast)+
    with Inl show ?thesis by auto
  qed blast
qed simp

definition number :: "string \<Rightarrow> nat" where
  "number s = foldl (\<lambda>a c. 10 * a + ((of_char c :: nat) - 48)) 0 s"

text \<open>Reads \<open>YYYY-MM-DDTHH:MM:SS+HH:MM\<close>; any other text is malformed.\<close>

definition demo_from_iso :: "string \<Rightarrow> datetime option" where
  "demo_from_iso s =
     (if length s \<noteq> 25 then None
      else Some \<lparr>dt_year = number (take 4 s), dt_month = number (take 2 (drop 5 s)), dt_day = number (take 2 (drop 8 s)),
        dt_hour = number (take 2 (drop 11 s)), dt_minute = number (take 2 (drop 14 s)), dt_second = number (take 2 (drop 17 s)),
        dt_micro = 0,
        dt_offset = Some ((if s ! 19 = CHR ''-'' then - 1 else 1) *
          int (3600 * number (take 2 (drop 20 s)) + 60 * number (drop 23 s)) * 1000000)\<rparr>)"

definition demo_auth_lib :: auth_lib where
  "demo_auth_lib = \<lparr>b58decode = (\<lambda>s. if CHR ''0'' \<in> set s then Inl (Other ''ValueError'' ''Invalid character'')
                                  else Inr (map (\<lambda>c. of_char c) s)),
     ed25519_verify = (\<lambda>pk m sg. if sg = pk @ pk then Inr () else Inl (Other ''BadSignatureError'' [])),
     from_iso = demo_from_iso\<rparr>"

definition demo_issued :: datetime where
  "demo_issued = \<lparr>dt_year = 2024, dt_month = 5, dt_day = 2, dt_hour = 10, dt_minute = 23, dt_second = 0, dt_micro = 0,
     dt_offset = Some 0\<rparr>"

definition demo_wallet :: string where
  "demo_wallet = replicate 32 CHR ''A''"

definition demo_headers :: "string \<Rightarrow> string \<Rightarrow> string option" where
  "demo_headers msg h = (if h = ''X-Wallet-Address'' then Some demo_wallet
     else if h = ''X-Wallet-Signature'' then Some (demo_wallet @ demo_wallet)
     else if h = ''X-Wallet-Message'' then Some msg else None)"

lemma demo_headers_simps [simp]:
  "demo_headers msg ''X-Wallet-Address'' = Some demo_wallet"
  "demo_headers msg ''X-Wallet-Signature'' = Some (demo_wallet @ demo_wallet)"
  "demo_headers msg ''X-Wallet-Message'' = Some msg"
  by (simp_all add: demo_headers_def)

lemma demo_isoformat: "isoformat demo_issued = ''2024-05-02T10:23:00+00:00''"
proof -
  have "4 = Suc (Suc (Suc (Suc 0)))" "2 = Suc (Suc 0)" by simp_all
  then have p4: "padded 4 v = [digit (v div 10 div 10 div 10), digit (v div 10 div 10), digit (v div 10), digit v]"
    and p2: "padded 2 v = [digit (v div 10), digit v]" for v
    by (simp_all only: padded.simps append.simps)
  have "digit 2 = CHR ''2''" "digit 0 = CHR ''0''" "digit 20 = CHR ''0''" "digit 202 = CHR ''2''" "digit 2024 = CHR ''4''"
    "digit 5 = CHR ''5''" "digit 1 = CHR ''1''" "digit 10 = CHR ''0''" "digit 23 = CHR ''3''"
    by (simp_all add: digit_def char_of_def bit_0)
  then show ?thesis by (simp add: isoformat_def demo_issued_def p4 p2 iso_offset_def Let_def)
qed

lemma demo_from_iso_text: "demo_from_iso ''2024-05-02T10:23:00+00:00'' = Some demo_issued"
  by code_simp

lemma demo_iso: "from_iso demo_auth_lib (isoformat demo_issued) = Some demo_issued"
  unfolding demo_isoformat by (simp add: demo_auth_lib_def demo_from_iso_text)

lemma demo_signed: "signed_by demo_auth_lib demo_wallet msg (demo_wallet @ demo_wallet)"
  by (simp add: signed_by_def demo_auth_lib_def demo_wallet_def)

lemma demo_wallet_word: "\<forall>c \<in> set demo_wallet. \<not> py_space c" "demo_wallet \<noteq> []"
  by (simp_all add: demo_wallet_def py_space_def)

text \<open>C35. Round trip. A message that \<open>build_auth_message\<close> prints for a domain and an address without white space and a nonce of
  one line, signed by the wallet, lets the wallet in from one minute before its time of issue until
  the configured age after it, and at no other time, provided \<open>fromisoformat\<close> reads back what
  \<open>isoformat\<close> prints.\<close>

theorem built_message_window:
  assumes "build_auth_message domain address nonce t = Inr msg"
    and "\<forall>c \<in> set domain. \<not> py_space c" and "\<forall>c \<in> set address. \<not> py_space c" and "address \<noteq> []"
    and "newline \<notin> set nonce" and "from_iso lib (isoformat t) = Some t"
    and "headers ''X-Wallet-Address'' = Some address" and "headers ''X-Wallet-Message'' = Some msg"
    and "headers ''X-Wallet-Signature'' = Some sg" and "sg \<noteq> []" and "signed_by lib address msg sg"
  shows "require_wallet lib cfg now headers = Inr address \<longleftrightarrow>
           unix_us t - 60000000 \<le> now \<and> now \<le> unix_us t + auth_message_max_age_seconds cfg * 1000000"
proof -
  note b = built_message [OF assms(1-5)]
  have "extract_issued_at lib msg = Inr t" using b(2,3) assms(6) by (simp add: extract_issued_at_def)
  then show ?thesis
    using require_wallet_present [OF assms(7,9,8,4,10) b(4)] b(1) assms(11)
    by (simp add: check_wallet_Inr in_window_def)
qed

text \<open>What a one-line message binds. HTTP headers cannot carry a line break. When the message has none, a
  request passes only if the message is the label \<open>Issued At:\<close> followed by a timestamp and white space, nothing
  else: the signed text then names no domain, no address and no nonce, and the canonical message
  of the template, with its line breaks removed or replaced, is always refused.\<close>

theorem one_line_message_binds_time_only:
  assumes "headers ''X-Wallet-Message'' = Some msg" and "newline \<notin> set msg"
    and "require_wallet lib cfg now headers = Inr a"
  shows "extract_address msg = None \<and>
         (\<exists>sp ts sp'. msg = ''Issued At:'' @ sp @ ts @ sp' \<and> (\<forall>c \<in> set (sp @ sp'). py_space c) \<and>
            ts \<noteq> [] \<and> (\<forall>c \<in> set ts. \<not> py_space c) \<and> from_iso lib ts \<noteq> None)"
proof -
  from assms(3) obtain sg t where t: "extract_issued_at lib msg = Inr t"
    by (rule require_wallet_cases) (use assms(1) in \<open>auto simp: check_wallet_Inr_sym\<close>)
  then obtain ts where "issued_at_search True msg = Some ts" and iso: "from_iso lib ts \<noteq> None"
    by (auto simp: extract_issued_at_def split: option.splits)
  then have m: "issued_at_match msg = Some ts" using assms(2) by (intro issued_at_search_one_line)
  then have "prefix ''Issued At:'' msg" using issued_at_match_label by fastforce
  then obtain r where r: "msg = ''Issued At:'' @ r" by (auto elim: prefixE)
  let ?sp = "takeWhile py_space r" and ?u = "dropWhile py_space r"
  let ?rest = "dropWhile (\<lambda>c. \<not> py_space c) ?u"
  have ts: "ts = takeWhile (\<lambda>c. \<not> py_space c) ?u" "ts \<noteq> []"
    and rest: "dropWhile py_space ?rest = [] \<or> newline \<in> set (takeWhile py_space ?rest)"
    using m unfolding r by (simp_all add: issued_at_match_def Let_def split: if_splits)
  have "newline \<notin> set ?rest" using assms(2) r by (auto dest!: set_dropWhileD)
  then have rest': "\<forall>c \<in> set ?rest. py_space c" using rest by (auto dest!: set_takeWhileD)
  have "r = ?sp @ ts @ ?rest" unfolding ts(1) by simp
  with r have split: "msg = ''Issued At:'' @ ?sp @ ts @ ?rest" by (metis append_assoc)
  have sp: "\<forall>c \<in> set ?sp. py_space c" by (blast dest: set_takeWhileD)
  have word: "\<forall>c \<in> set ts. \<not> py_space c" unfolding ts(1) by (blast dest: set_takeWhileD)
  have spaces: "\<forall>c \<in> set (?sp @ ?rest). py_space c" using sp rest' unfolding set_append by blast
  have "extract_address msg = None" using assms(2) by (simp add: extract_address_def address_search_line)
  then show ?thesis using split spaces ts(2) word iso by blast
qed

theorem built_message_window_witness:
  "\<exists>msg. build_auth_message ''bagsvault.app'' demo_wallet ''nonce-123'' demo_issued = Inr msg
     \<and> require_wallet demo_auth_lib default_settings (unix_us demo_issued + 300000000) (demo_headers msg) = Inr demo_wallet
     \<and> require_wallet demo_auth_lib default_settings (unix_us demo_issued + 300000001) (demo_headers msg) \<noteq> Inr demo_wallet"
proof -
  obtain msg where m: "build_auth_message ''bagsvault.app'' demo_wallet ''nonce-123'' demo_issued = Inr msg"
    by (simp add: build_auth_message_def demo_issued_def)
  have 1: "\<forall>c \<in> set ''bagsvault.app''. \<not> py_space c" by (simp add: py_space_def)
  have 2: "newline \<notin> set ''nonce-123''" "demo_wallet @ demo_wallet \<noteq> []" by (simp_all add: demo_wallet_def)
  from built_message_window [OF m 1 demo_wallet_word 2(1) demo_iso demo_headers_simps(1,3,2) 2(2) demo_signed] m
  show ?thesis by (auto simp: default_settings_def)
qed

definition demo_line :: string where
  "demo_line = ''Issued At: '' @ isoformat demo_issued"

lemma demo_line_passes:
  "require_wallet demo_auth_lib default_settings (unix_us demo_issued) (demo_headers demo_line) = Inr demo_wallet"
proof -
  have "issued_at_search True demo_line = Some (isoformat demo_issued)"
    using issued_at_match_ts [OF isoformat_nonempty isoformat_not_space] by (simp add: demo_line_def)
  then have "extract_issued_at demo_auth_lib demo_line = Inr demo_issued"
    by (simp add: extract_issued_at_def demo_iso) (simp add: demo_issued_def)
  moreover have "demo_line \<noteq> []" by (simp add: demo_line_def)
  moreover have "newline \<notin> set demo_line" by (simp add: demo_line_def demo_isoformat)
  then have "extract_address demo_line = None" by (simp add: extract_address_def address_search_line)
  moreover have "in_window default_settings (unix_us demo_issued) demo_issued"
    by (simp add: in_window_def default_settings_def)
  ultimately show ?thesis
    using require_wallet_present [OF demo_headers_simps] demo_wallet_word(2) demo_signed
    by (simp add: check_wallet_Inr)
qed

theorem one_line_message_binds_time_only_witness:
  "extract_address demo_line = None \<and> (\<exists>sp ts sp'. demo_line = ''Issued At:'' @ sp @ ts @ sp' \<and> from_iso demo_auth_lib ts \<noteq> None)"
proof -
  have "newline \<notin> set demo_line" by (simp add: demo_line_def demo_isoformat)
  from one_line_message_binds_time_only [OF demo_headers_simps(3) this demo_line_passes] show ?thesis by blast
qed

theorem wallet_check_exact_witness:
  "\<exists>msg sg t. demo_headers demo_line ''X-Wallet-Message'' = Some msg \<and> demo_headers demo_line ''X-Wallet-Signature'' = Some sg
     \<and> extract_issued_at demo_auth_lib msg = Inr t \<and> unix_us demo_issued \<le> unix_us t + 300000000"
proof -
  have "\<And>x e. b58decode demo_auth_lib x = Inl e \<Longrightarrow> decode_caught e"
    by (auto simp: demo_auth_lib_def decode_caught_def split: if_splits)
  from wallet_check_exact [where cfg = default_settings and now = "unix_us demo_issued" and headers = "demo_headers demo_line"
      and a = demo_wallet, OF this]
  show ?thesis using demo_line_passes by (auto simp: default_settings_def)
qed

end
