(* ===== verification/Idempotency.thy ===== *)
theory Idempotency
  imports Sha256 Store SolanaRpc
begin

text \<open>
  \<open>backend/app/middleware/idempotency.py\<close>: responses of write requests are stored under
  the \<open>Idempotency-Key\<close> header and replayed. The next application, the database and
  \<open>json.loads\<close> are parameters. The result of a dispatch is the response object as it is
  constructed; sending it is Starlette.
\<close>

section \<open>Requests, responses and records\<close>

definition IDEMPOTENT_METHODS :: "string list" where
  "IDEMPOTENT_METHODS = [''POST'', ''PUT'', ''PATCH'']"

record http_request =
  rq_method :: string
  rq_path :: string
  rq_key :: "string option"
  rq_body :: bytes

text \<open>
  What \<open>call_next\<close> returns: a streaming response has chunks of bytes or text, a
  plain one a \<open>body\<close>. \<open>rs_raw\<close> is \<open>headers.raw\<close> and \<open>rs_headers\<close> is \<open>dict(headers)\<close>, both
  as Latin-1 text.
\<close>

datatype body_part = Bytes bytes | Text string

record http_reply =
  rs_status :: int
  rs_raw :: "(string \<times> string) list"
  rs_headers :: "(string \<times> string) list"
  rs_iterator :: "body_part list option"
  rs_body :: "body_part option"
  rs_media :: "string option"

text \<open>The response object a dispatch constructs, or the one it passes on.\<close>

datatype reply =
    Passed http_reply
  | Response bytes int "(string \<times> string) list" "string option"
  | JSONResponse json int "(string \<times> string) list"

fun part_bytes :: "body_part \<Rightarrow> bytes" where
  "part_bytes (Bytes b) = b"
| "part_bytes (Text s) = utf8 s"

definition buffer :: "http_reply \<Rightarrow> bytes" where
  "buffer r = (case rs_iterator r of
                 Some chunks \<Rightarrow> concat (map part_bytes chunks)
               | None \<Rightarrow> (case rs_body r of Some p \<Rightarrow> part_bytes p | None \<Rightarrow> []))"

definition hash_body :: "bytes \<Rightarrow> string" where
  "hash_body body = to_hex (sha256 body)"

text \<open>A binary value of a document, in MongoDB's extended JSON.\<close>

definition JBytes :: "bytes \<Rightarrow> json" where
  "JBytes b = JObj [(''$binary'', JStr (to_hex b))]"

fun json_bytes :: "json \<Rightarrow> bytes option" where
  "json_bytes (JObj [(k, JStr h)]) = (if k = ''$binary'' then unhexlify h else None)"
| "json_bytes _ = None"

definition decode_latin1 :: "bytes \<Rightarrow> string" where
  "decode_latin1 b = map (\<lambda>x. char_of (unat x)) b"

definition idem_record :: "string \<Rightarrow> http_request \<Rightarrow> http_reply \<Rightarrow> int \<Rightarrow> doc" where
  "idem_record key q r now =
     [(''key'', JStr key), (''body_hash'', JStr (hash_body (rq_body q))), (''method'', JStr (rq_method q)),
      (''path'', JStr (rq_path q)), (''status_code'', JInt (rs_status r)),
      (''response_body'', JBytes (buffer r)),
      (''response_headers'', JList (map (\<lambda>(n, v). JList [JBytes (ascii n), JBytes (ascii v)]) (rs_raw r))),
      (''created_at'', JDate now)]"

section \<open>Replay\<close>

text \<open>\<open>headers[str(name)] = str(value)\<close>: a repeated name keeps its place and takes the new value.\<close>

fun put :: "string \<Rightarrow> string \<Rightarrow> (string \<times> string) list \<Rightarrow> (string \<times> string) list" where
  "put k v [] = [(k, v)]"
| "put k v ((a, b) # d) = (if a = k then (k, v) # d else (a, b) # put k v d)"

text \<open>
  One stored header: a pair of values, or a text, a binary value or an object of two entries, which
  unpack as well; anything else is skipped. \<open>fmt\<close> prints values that are neither bytes nor text.
\<close>

definition header_text :: "(json \<Rightarrow> string) \<Rightarrow> json \<Rightarrow> string" where
  "header_text fmt v = (case json_bytes v of Some b \<Rightarrow> decode_latin1 b | None \<Rightarrow> py_str fmt v)"

definition replay_header ::
  "(json \<Rightarrow> string) \<Rightarrow> json \<Rightarrow> (string \<times> string) list \<Rightarrow> (string \<times> string) list" where
  "replay_header fmt item hs =
     (case json_bytes item of Some [a, b] \<Rightarrow> put (int_str (uint a)) (int_str (uint b)) hs | _ \<Rightarrow>
      case item of
        JList [n, v] \<Rightarrow> put (header_text fmt n) (header_text fmt v) hs
      | JStr [a, b] \<Rightarrow> put [a] [b] hs
      | JObj [(a, _), (b, _)] \<Rightarrow> put a b hs
      | _ \<Rightarrow> hs)"

definition replay_headers :: "(json \<Rightarrow> string) \<Rightarrow> json \<Rightarrow> (string \<times> string) list" where
  "replay_headers fmt raw = (case raw of JList items \<Rightarrow> fold (replay_header fmt) items [] | _ \<Rightarrow> [])"

definition replay_body :: "json \<Rightarrow> bytes" where
  "replay_body raw = (case json_bytes raw of
                        Some b \<Rightarrow> b
                      | None \<Rightarrow> (case raw of JStr s \<Rightarrow> utf8 s | _ \<Rightarrow> []))"

text \<open>\<open>loads\<close> is \<open>json.loads\<close>, with \<open>None\<close> for the errors that are caught.\<close>

definition replay_response :: "(bytes \<Rightarrow> json option) \<Rightarrow> (json \<Rightarrow> string) \<Rightarrow> doc \<Rightarrow> reply" where
  "replay_response loads fmt record =
     (let body = replay_body (jget record ''response_body'');
          headers = replay_headers fmt (jget record ''response_headers'');
          status = (case json_int (jget record ''status_code'') of Some i \<Rightarrow> i | None \<Rightarrow> 200)
      in case loads body of
           Some parsed \<Rightarrow> JSONResponse parsed status headers
         | None \<Rightarrow> Response body status headers None)"

section \<open>The middleware\<close>

record 'w idem =
  im_db :: "'w mongo"
  im_loads :: "bytes \<Rightarrow> json option"
  im_fmt :: "json \<Rightarrow> string"

definition key_conflict :: "string \<Rightarrow> exn" where
  "key_conflict key = Domain ConflictError ''Idempotency-Key reused with a different request body.''
     [(''key'', JStr key)]"

definition idem_execute ::
  "'w idem \<Rightarrow> (http_request \<Rightarrow> (http_reply, 'w) io) \<Rightarrow> http_request \<Rightarrow> string \<Rightarrow> int \<Rightarrow> (reply, 'w) io" where
  "idem_execute s call_next q key now =
     andthen (call_next q) (\<lambda>response.
     andthen (catching (insert_one (im_db s) ''idempotency_keys'' (idem_record key q response now))
                (\<lambda>e. if is_duplicate e then ret () else throw e)) (\<lambda>_.
     ret (Response (buffer response) (rs_status response) (rs_headers response) (rs_media response))))"

definition dispatch ::
  "'w idem \<Rightarrow> (http_request \<Rightarrow> (http_reply, 'w) io) \<Rightarrow> http_request \<Rightarrow> int \<Rightarrow> (reply, 'w) io" where
  "dispatch s call_next q now =
     (if upper (rq_method q) \<notin> set IDEMPOTENT_METHODS \<or> rq_key q = None \<or> rq_key q = Some []
      then andthen (call_next q) (\<lambda>r. ret (Passed r))
      else
        (let key = the (rq_key q) in
         andthen (find_one (im_db s) ''idempotency_keys'' (field_is ''key'' (JStr key))) (\<lambda>existing.
           case existing of
             Some d \<Rightarrow>
               (if d = [] then idem_execute s call_next q key now
                else if jget d ''body_hash'' \<noteq> JStr (hash_body (rq_body q)) then throw (key_conflict key)
                else ret (replay_response (im_loads s) (im_fmt s) d))
           | None \<Rightarrow> idem_execute s call_next q key now)))"

section \<open>Lemmas\<close>

lemma json_bytes_JBytes [simp]: "json_bytes (JBytes b) = Some b"
  by (simp add: JBytes_def)

lemma decode_latin1_ascii [simp]: "decode_latin1 (ascii s) = s"
proof -
  have "unat (of_nat (of_char c) :: byte) = of_char c" for c
    by (simp add: unat_of_nat_byte)
  then show ?thesis by (simp add: decode_latin1_def ascii_def comp_def)
qed

text \<open>The recorded headers as a mapping: a later header of the same name replaces the value.\<close>

definition last_values :: "(string \<times> string) list \<Rightarrow> (string \<times> string) list" where
  "last_values hs = fold (\<lambda>(n, v). put n v) hs []"

lemma put_new: "k \<notin> fst ` set d \<Longrightarrow> put k v d = d @ [(k, v)]"
  by (induction d) auto

lemma map_of_put: "map_of (put k v d) = (map_of d)(k \<mapsto> v)"
  by (induction d rule: put.induct) auto

lemma last_values_map: "map_of (last_values hs) = map_of (rev hs)"
proof -
  have "map_of (fold (\<lambda>(n, v). put n v) hs d) = map_of d ++ map_of (rev hs)" for d
    by (induction hs arbitrary: d) (auto simp: map_of_put map_add_def fun_eq_iff split: option.splits)
  then show ?thesis by (simp add: last_values_def)
qed

lemma last_values_distinct: "distinct (map fst hs) \<Longrightarrow> last_values hs = hs"
proof -
  have "distinct (map fst (xs @ ys)) \<Longrightarrow> fold (\<lambda>(n, v). put n v) ys xs = xs @ ys" for xs ys
  proof (induction ys arbitrary: xs)
    case (Cons y ys)
    obtain n v where y: "y = (n, v)" by (rule prod.exhaust)
    have "put n v xs = xs @ [(n, v)]" using Cons.prems y by (intro put_new) auto
    with Cons y show ?case by simp
  qed simp
  from this [of "[]" hs] show "distinct (map fst hs) \<Longrightarrow> last_values hs = hs" by (simp add: last_values_def)
qed

lemma replay_headers_record:
  "replay_headers fmt (JList (map (\<lambda>(n, v). JList [JBytes (ascii n), JBytes (ascii v)]) hs)) = last_values hs"
proof -
  have "fold (replay_header fmt) (map (\<lambda>(n, v). JList [JBytes (ascii n), JBytes (ascii v)]) hs) d = fold (\<lambda>(n, v). put n v) hs d" for d
    by (induction hs arbitrary: d) (auto simp: replay_header_def header_text_def)
  then show ?thesis by (simp add: replay_headers_def last_values_def)
qed

lemma record_fields [simp]:
  "jget (idem_record key q r now) ''key'' = JStr key"
  "jget (idem_record key q r now) ''body_hash'' = JStr (hash_body (rq_body q))"
  "jget (idem_record key q r now) ''status_code'' = JInt (rs_status r)"
  "jget (idem_record key q r now) ''response_body'' = JBytes (buffer r)"
  "jget (idem_record key q r now) ''response_headers'' =
     JList (map (\<lambda>(n, v). JList [JBytes (ascii n), JBytes (ascii v)]) (rs_raw r))"
  by (simp_all add: idem_record_def jget_def)

text \<open>What an answer is replayed as, from its record.\<close>

definition replay_of :: "(bytes \<Rightarrow> json option) \<Rightarrow> http_reply \<Rightarrow> reply" where
  "replay_of loads ans =
     (case loads (buffer ans) of
        Some parsed \<Rightarrow> JSONResponse parsed (rs_status ans) (last_values (rs_raw ans))
      | None \<Rightarrow> Response (buffer ans) (rs_status ans) (last_values (rs_raw ans)) None)"

lemma replay_record: "replay_response loads fmt (idem_record key q r now) = replay_of loads r"
  by (simp add: replay_response_def replay_body_def replay_headers_record replay_of_def Let_def split: option.split)

text \<open>A request with a key.\<close>

definition keyed :: "http_request \<Rightarrow> string \<Rightarrow> bool" where
  "keyed q key \<longleftrightarrow> upper (rq_method q) \<in> set IDEMPOTENT_METHODS \<and> rq_key q = Some key \<and> key \<noteq> []"

abbreviation under_key :: "string \<Rightarrow> doc list \<Rightarrow> doc list" where
  "under_key key \<equiv> filter (field_is ''key'' (JStr key))"

lemma keyed_dispatch:
  "keyed q key \<Longrightarrow> dispatch s call_next q now =
     andthen (find_one (im_db s) ''idempotency_keys'' (field_is ''key'' (JStr key))) (\<lambda>existing.
           case existing of
             Some d \<Rightarrow>
               (if d = [] then idem_execute s call_next q key now
                else if jget d ''body_hash'' \<noteq> JStr (hash_body (rq_body q)) then throw (key_conflict key)
                else ret (replay_response (im_loads s) (im_fmt s) d))
           | None \<Rightarrow> idem_execute s call_next q key now)"
  by (auto simp: keyed_def dispatch_def Let_def)

text \<open>An executed request gives the answer of the application and leaves its record as the only one of the key.\<close>

lemma execution_stores:
  assumes m: "mongo (im_db s) docs le" and q: "keyed q key"
    and lookup: "find_one (im_db s) ''idempotency_keys'' (field_is ''key'' (JStr key)) w = (Inr None, wa)"
    and answer: "call_next q wa = (Inr ans, wb)" "docs wb ''idempotency_keys'' = docs wa ''idempotency_keys''"
    and first: "dispatch s call_next q now w = (Inr rep, w1)"
  shows "rep = Response (buffer ans) (rs_status ans) (rs_headers ans) (rs_media ans)"
    "under_key key (docs w1 ''idempotency_keys'') = [idem_record key q ans now]"
proof -
  have law: "docs wa = docs w" "under_key key (docs w ''idempotency_keys'') = []"
    using mongo.find_one_law [OF m lookup] by (auto simp: filter_empty_conv)
  from first lookup have "idem_execute s call_next q key now wa = (Inr rep, w1)"
    by (simp add: keyed_dispatch [OF q] andthen_def)
  with answer(1) obtain w' where
    ins: "catching (insert_one (im_db s) ''idempotency_keys'' (idem_record key q ans now))
                (\<lambda>e. if is_duplicate e then ret () else throw e) wb = (Inr (), w')"
    and rep: "rep = Response (buffer ans) (rs_status ans) (rs_headers ans) (rs_media ans)" "w' = w1"
    unfolding idem_execute_def by (elim andthen_InrE) auto
  have same: "docs wb ''idempotency_keys'' = docs w ''idempotency_keys''" using answer(2) law(1) by simp
  have noclash: "\<not> clashes ''idempotency_keys'' (idem_record key q ans now) f"
    if "f \<in> set (docs wb ''idempotency_keys'')" for f
    using that law(2) same by (auto simp: clashes_def unique_keys_def filter_empty_conv field_is_def)
  have "docs w1 ''idempotency_keys'' = docs w ''idempotency_keys'' @ [idem_record key q ans now]"
    using ins unfolding rep(2)
  proof (rule catching_InrE)
    assume "insert_one (im_db s) ''idempotency_keys'' (idem_record key q ans now) wb = (Inr (), w1)"
    from mongo.insert_law [OF m this] show ?thesis by (simp add: same)
  next
    fix e w'
    assume i: "insert_one (im_db s) ''idempotency_keys'' (idem_record key q ans now) wb = (Inl e, w')"
      and "(if is_duplicate e then ret () else throw e) w' = (Inr (), w1)"
    then have "is_duplicate e" by (auto split: if_splits)
    with mongo.insert_duplicate [OF m i] noclash show ?thesis by blast
  qed
  with law(2) show "under_key key (docs w1 ''idempotency_keys'') = [idem_record key q ans now]"
    by (simp add: field_is_def)
  from rep(1) show "rep = Response (buffer ans) (rs_status ans) (rs_headers ans) (rs_media ans)" .
qed

text \<open>With the one record of the key stored, a dispatch looks it up and answers from it.\<close>

lemma stored_dispatch:
  assumes m: "mongo (im_db s) docs le" and q2: "keyed q2 key"
    and stored: "under_key key (docs w ''idempotency_keys'') = [idem_record key q ans now]"
    and run: "dispatch s call_next q2 now2 w = (r, w')"
  shows "docs w' = docs w \<and>
    ((\<exists>e. r = Inl e \<and> find_one (im_db s) ''idempotency_keys'' (field_is ''key'' (JStr key)) w = (Inl e, w')) \<or>
     r = (if hash_body (rq_body q) \<noteq> hash_body (rq_body q2) then Inl (key_conflict key)
          else Inr (replay_of (im_loads s) ans)))"
proof -
  obtain res wc where f: "find_one (im_db s) ''idempotency_keys'' (field_is ''key'' (JStr key)) w = (res, wc)"
    by (rule prod.exhaust)
  have reads: "docs wc = docs w" using mongo.find_one_reads [OF m f] .
  show ?thesis
  proof (cases res)
    case (Inl e)
    with f run have "r = Inl e \<and> w' = wc" by (simp add: keyed_dispatch [OF q2] andthen_def)
    with f reads Inl show ?thesis by simp
  next
    case (Inr found)
    have one: "d \<in> set (docs w ''idempotency_keys'') \<and> field_is ''key'' (JStr key) d \<longleftrightarrow> d = idem_record key q ans now" for d
      using arg_cong [OF stored, of "\<lambda>ds. d \<in> set ds"] by auto
    have "found = Some (idem_record key q ans now)"
      using mongo.find_one_law [OF m f [unfolded Inr]] one by (auto split: option.splits)
    moreover have "idem_record key q ans now \<noteq> []" by (simp add: idem_record_def)
    ultimately show ?thesis
      using f run Inr reads by (simp add: keyed_dispatch [OF q2] andthen_def replay_record split: if_splits)
  qed
qed

text \<open>
  The record lives for a day (\<open>expire_after_seconds\<close>). Once the database has dropped it the
  request is executed as if it were the first one.
\<close>

lemma expired_key_executes:
  assumes m: "mongo (im_db s) docs le" and q2: "keyed q2 key"
    and gone: "under_key key (docs w ''idempotency_keys'') = []"
    and found: "find_one (im_db s) ''idempotency_keys'' (field_is ''key'' (JStr key)) w = (Inr res, w')"
  shows "dispatch s call_next q2 now2 w = idem_execute s call_next q2 key now2 w'"
proof -
  have "res = None" using mongo.find_one_law [OF m found] gone by (auto simp: filter_empty_conv split: option.splits)
  with found show ?thesis by (simp add: keyed_dispatch [OF q2] andthen_def)
qed

section \<open>Properties\<close>

text \<open>C29. Replay. Let the middleware find no record of a key and let the application answer the request with \<open>ans\<close>; if the
  dispatch succeeds, its answer has the status, the body, the headers and the media type of \<open>ans\<close>. In every later state in
  which the documents of the key are still those that this dispatch left (the database drops them after a day), a request with the
  key, in whatever method of the three and on whatever path, never reaches the application: with the same body it is
  answered with the status and the body of \<open>ans\<close> (the body re-read as JSON where it parses) and with the raw headers of \<open>ans\<close>, of
  which a repeated name keeps its last value only; with a body of another hash it is refused with
  \<open>ConflictError\<close>; nothing is stored. The application may do anything to the database but touch the
  collection of keys while it answers the first request.\<close>

theorem replay_exact:
  assumes m: "mongo (im_db s) docs le" and q: "keyed q key" "keyed q2 key"
    and lookup: "find_one (im_db s) ''idempotency_keys'' (field_is ''key'' (JStr key)) w = (Inr None, wa)"
    and answer: "call_next q wa = (Inr ans, wb)" "docs wb ''idempotency_keys'' = docs wa ''idempotency_keys''"
    and first: "dispatch s call_next q now w = (Inr rep, w1)"
    and kept: "under_key key (docs w2 ''idempotency_keys'') = under_key key (docs w1 ''idempotency_keys'')"
    and run: "dispatch s call_next2 q2 now2 w2 = (r, w3)"
  shows "rep = Response (buffer ans) (rs_status ans) (rs_headers ans) (rs_media ans) \<and> docs w3 = docs w2 \<and>
     (case r of
        Inr rep2 \<Rightarrow> hash_body (rq_body q2) = hash_body (rq_body q) \<and>
          rep2 = (case im_loads s (buffer ans) of
              Some parsed \<Rightarrow> JSONResponse parsed (rs_status ans) (last_values (rs_raw ans))
            | None \<Rightarrow> Response (buffer ans) (rs_status ans) (last_values (rs_raw ans)) None)
      | Inl e \<Rightarrow> find_one (im_db s) ''idempotency_keys'' (field_is ''key'' (JStr key)) w2 = (Inl e, w3)
          \<or> (hash_body (rq_body q2) \<noteq> hash_body (rq_body q) \<and> e = key_conflict key \<and> status_code ConflictError = 409))"
proof -
  note stores = execution_stores [where docs = docs and call_next = call_next, OF m q(1) lookup answer first]
  have "under_key key (docs w2 ''idempotency_keys'') = [idem_record key q ans now]" using kept stores(2) by simp
  from stored_dispatch [OF m q(2) this run] stores(1) show ?thesis
    by (cases "hash_body (rq_body q) = hash_body (rq_body q2)") (auto simp: replay_of_def)
qed

definition demo_idem :: "store idem" where
  "demo_idem = \<lparr>im_db = list_store, im_loads = (\<lambda>_. None), im_fmt = (\<lambda>_. [])\<rparr>"

definition demo_post_request :: "string \<Rightarrow> http_request" where
  "demo_post_request path = \<lparr>rq_method = ''post'', rq_path = path, rq_key = Some ''k1'', rq_body = [1, 2]\<rparr>"

text \<open>An answer that sets two cookies.\<close>

definition demo_answer :: http_reply where
  "demo_answer = \<lparr>rs_status = 201, rs_raw = [(''set-cookie'', ''a''), (''x-id'', ''7''), (''set-cookie'', ''b'')],
     rs_headers = [(''set-cookie'', ''b''), (''x-id'', ''7'')], rs_iterator = Some [Bytes [7], Text ''ok''], rs_body = None,
     rs_media = None\<rparr>"

text \<open>A day later another record has come in between.\<close>

definition other_record :: doc where
  "other_record = [(''key'', JStr ''k2'')]"

theorem replay_exact_witness:
  "\<exists>w1 w3. dispatch demo_idem (\<lambda>q. ret demo_answer) (demo_post_request ''/a'') 5 (\<lambda>_. []) =
        (Inr (Response (7 # utf8 ''ok'') 201 [(''set-cookie'', ''b''), (''x-id'', ''7'')] None), w1)
     \<and> dispatch demo_idem (\<lambda>q. throw overflow_error) (demo_post_request ''/b'') 6
          (w1(''idempotency_keys'' := w1 ''idempotency_keys'' @ [other_record])) =
        (Inr (Response (7 # utf8 ''ok'') 201 [(''set-cookie'', ''b''), (''x-id'', ''7'')] None), w3)"
proof -
  let ?q = "demo_post_request ''/a''" and ?find = "find_one (im_db demo_idem) ''idempotency_keys'' (field_is ''key'' (JStr ''k1''))"
  have "upper ''post'' = ''POST''" by code_simp
  then have k: "keyed (demo_post_request p) ''k1''" for p
    by (simp add: keyed_def demo_post_request_def IDEMPOTENT_METHODS_def)
  have m: "mongo (im_db demo_idem) (\<lambda>s. s) json_le" using lists.mongo_axioms by (simp add: demo_idem_def)
  have none: "?find (\<lambda>_. []) = (Inr None, \<lambda>_. [])" by (simp add: demo_idem_def list_store_def)
  have ans: "(\<lambda>q. ret demo_answer) ?q (\<lambda>_. []) = (Inr demo_answer, \<lambda>_. [])" by simp
  have "insert_one (im_db demo_idem) ''idempotency_keys'' d (\<lambda>_. []) = (Inr (), (\<lambda>_. [])(''idempotency_keys'' := [d]))" for d
    by (simp add: demo_idem_def list_store_def ls_insert_def)
  then obtain rep w1 where first: "dispatch demo_idem (\<lambda>q. ret demo_answer) ?q 5 (\<lambda>_. []) = (Inr rep, w1)"
    by (simp add: keyed_dispatch [OF k] none idem_execute_def andthen_def catching_def)
  define w2 where "w2 = w1(''idempotency_keys'' := w1 ''idempotency_keys'' @ [other_record])"
  have kept: "under_key ''k1'' (w2 ''idempotency_keys'') = under_key ''k1'' (w1 ''idempotency_keys'')"
    by (simp add: w2_def other_record_def field_is_def jget_def)
  obtain r w3 where run: "dispatch demo_idem (\<lambda>q. throw overflow_error) (demo_post_request ''/b'') 6 w2 = (r, w3)"
    by (rule prod.exhaust)
  have reads: "\<not> (\<exists>e. ?find w2 = (Inl e, w3))" by (simp add: demo_idem_def list_store_def)
  have vals: "buffer demo_answer = 7 # utf8 ''ok''" "rs_status demo_answer = 201" "rs_media demo_answer = None"
    "rs_headers demo_answer = [(''set-cookie'', ''b''), (''x-id'', ''7'')]"
    "last_values (rs_raw demo_answer) = [(''set-cookie'', ''b''), (''x-id'', ''7'')]"
    by (simp_all add: demo_answer_def buffer_def last_values_def)
  have "rep = Response (7 # utf8 ''ok'') 201 [(''set-cookie'', ''b''), (''x-id'', ''7'')] None
      \<and> r = Inr (Response (7 # utf8 ''ok'') 201 [(''set-cookie'', ''b''), (''x-id'', ''7'')] None)"
    using replay_exact [where docs = "\<lambda>s. s", OF m k k none ans refl first kept run] reads
    by (cases r) (simp_all add: vals demo_idem_def demo_post_request_def)
  with first run show ?thesis unfolding w2_def by blast
qed

end
