(* ===== verification/Tokens.thy ===== *)
theory Tokens
  imports RestClients Relayers Auth
begin

text \<open>
  \<open>backend/app/services/token_service.py\<close>, \<open>models/token.py\<close> and the checks of
  \<open>routers/tokens.py\<close>: the registry of project tokens and the metadata cache of the process.
  The cache is an explicit state; a method that uses it runs on the pair of cache and world.
\<close>

section \<open>Documents\<close>

record project_token =
  pt_id :: string
  pt_mint :: string
  pt_creator_wallet :: string
  pt_symbol :: string
  pt_name :: string
  pt_decimals :: int
  pt_metadata_uri :: "string option"
  pt_is_vault_token :: bool
  pt_bags_metadata :: "dict option"
  pt_registered_at :: int

record token_register =
  tr_mint :: string
  tr_creator_wallet :: string
  tr_symbol :: string
  tr_name :: string
  tr_decimals :: int
  tr_metadata_uri :: "string option"

definition token_to_doc :: "project_token \<Rightarrow> doc" where
  "token_to_doc t =
     [(''id'', JStr (pt_id t)), (''mint'', JStr (pt_mint t)), (''creator_wallet'', JStr (pt_creator_wallet t)),
      (''symbol'', JStr (pt_symbol t)), (''name'', JStr (pt_name t)), (''decimals'', JInt (pt_decimals t)),
      (''metadata_uri'', json_opt JStr (pt_metadata_uri t)), (''is_vault_token'', JBool (pt_is_vault_token t)),
      (''bags_metadata'', json_opt JObj (pt_bags_metadata t)), (''registered_at'', JDate (pt_registered_at t))]"

definition obj_conv :: "json \<Rightarrow> dict option" where
  "obj_conv j = (case j of JObj d \<Rightarrow> Some d | _ \<Rightarrow> None)"

text \<open>\<open>to_bool\<close> is how pydantic reads a flag.\<close>

definition token_of_doc :: "pydantic \<Rightarrow> (json \<Rightarrow> bool option) \<Rightarrow> string \<Rightarrow> int \<Rightarrow> doc \<Rightarrow> project_token res" where
  "token_of_doc py to_bool uid now d =
     rbind (parse_date_field py ''registered_at'' (strip_id d)) (\<lambda>d.
     rbind (field_dflt (to_str py) uid d ''id'') (\<lambda>a.
     rbind (field_req (to_str py) d ''mint'') (\<lambda>b.
     rbind (field_req (to_str py) d ''creator_wallet'') (\<lambda>c.
     rbind (field_req (to_str py) d ''symbol'') (\<lambda>e.
     rbind (field_req (to_str py) d ''name'') (\<lambda>f.
     rbind (field_dflt (to_int py) 9 d ''decimals'') (\<lambda>g.
     rbind (field_dflt (nullable (to_str py)) None d ''metadata_uri'') (\<lambda>h.
     rbind (field_dflt to_bool False d ''is_vault_token'') (\<lambda>i.
     rbind (field_dflt (nullable obj_conv) None d ''bags_metadata'') (\<lambda>j.
     rbind (field_dflt (to_date py) now d ''registered_at'') (\<lambda>k.
     Inr \<lparr>pt_id = a, pt_mint = b, pt_creator_wallet = c, pt_symbol = e, pt_name = f, pt_decimals = g,
          pt_metadata_uri = h, pt_is_vault_token = i, pt_bags_metadata = j, pt_registered_at = k\<rparr>)))))))))))"

section \<open>The service\<close>

record 'w token_service =
  tk_db :: "'w mongo"
  tk_metadata :: "string \<Rightarrow> (dict, 'w) io"
  tk_settings :: settings
  tk_pydantic :: pydantic
  tk_to_bool :: "json \<Rightarrow> bool option"

definition by_mint :: "string \<Rightarrow> doc \<Rightarrow> bool" where
  "by_mint mint = field_is ''mint'' (JStr mint)"

text \<open>
  The creator profile: \<open>$addToSet\<close> on the list of mints and \<open>$set\<close> of the time, or a new
  profile. A value that is no list, which this program never writes, is left alone.
\<close>

definition add_mint :: "string \<Rightarrow> int \<Rightarrow> doc \<Rightarrow> doc" where
  "add_mint mint now d =
     set_field ''updated_at'' (JDate now)
       (case jget d ''tokens'' of
          JNull \<Rightarrow> set_field ''tokens'' (JList [JStr mint]) d
        | JList xs \<Rightarrow> if JStr mint \<in> set xs then d else set_field ''tokens'' (JList (xs @ [JStr mint])) d
        | _ \<Rightarrow> d)"

definition link_creator :: "'w token_service \<Rightarrow> int \<Rightarrow> token_register \<Rightarrow> (unit, 'w) io" where
  "link_creator s now p =
     catching
       (update_one (tk_db s) ''creators'' (field_is ''wallet'' (JStr (tr_creator_wallet p))) (add_mint (tr_mint p) now)
          (Some [(''wallet'', JStr (tr_creator_wallet p)), (''created_at'', JDate now),
                 (''tokens'', JList [JStr (tr_mint p)]), (''updated_at'', JDate now)]))
       (\<lambda>_. ret ())"

text \<open>The models of \<open>models/creator.py\<close>, which a profile document can be read as.\<close>

record creator =
  cr_id :: string
  cr_wallet :: string
  cr_display_name :: "string option"
  cr_tokens :: "string list"
  cr_created_at :: int
  cr_updated_at :: int

record creator_register =
  cg_wallet :: string
  cg_display_name :: "string option"

definition str_list :: "pydantic \<Rightarrow> json \<Rightarrow> string list option" where
  "str_list py j = (case j of JList xs \<Rightarrow> those (map (to_str py) xs) | _ \<Rightarrow> None)"

definition creator_of_doc :: "pydantic \<Rightarrow> string \<Rightarrow> int \<Rightarrow> doc \<Rightarrow> creator res" where
  "creator_of_doc py uid now d =
     rbind (field_dflt (to_str py) uid d ''id'') (\<lambda>a.
     rbind (field_req (to_str py) d ''wallet'') (\<lambda>b.
     rbind (field_dflt (nullable (to_str py)) None d ''display_name'') (\<lambda>c.
     rbind (field_dflt (str_list py) [] d ''tokens'') (\<lambda>e.
     rbind (field_dflt (to_date py) now d ''created_at'') (\<lambda>f.
     rbind (field_dflt (to_date py) now d ''updated_at'') (\<lambda>g.
     Inr \<lparr>cr_id = a, cr_wallet = b, cr_display_name = c, cr_tokens = e, cr_created_at = f, cr_updated_at = g\<rparr>))))))"

definition creator_register_of_doc :: "pydantic \<Rightarrow> doc \<Rightarrow> creator_register res" where
  "creator_register_of_doc py d =
     rbind (field_req (to_str py) d ''wallet'') (\<lambda>a.
     rbind (field_dflt (nullable (to_str py)) None d ''display_name'') (\<lambda>b.
     Inr \<lparr>cg_wallet = a, cg_display_name = b\<rparr>))"

definition new_token :: "settings \<Rightarrow> string \<Rightarrow> int \<Rightarrow> token_register \<Rightarrow> project_token" where
  "new_token cfg uid now p =
     \<lparr>pt_id = uid, pt_mint = tr_mint p, pt_creator_wallet = tr_creator_wallet p, pt_symbol = tr_symbol p,
      pt_name = tr_name p, pt_decimals = tr_decimals p, pt_metadata_uri = tr_metadata_uri p,
      pt_is_vault_token = (vault_token_mint cfg \<noteq> [] \<and> tr_mint p = vault_token_mint cfg),
      pt_bags_metadata = None, pt_registered_at = now\<rparr>"

definition mint_taken :: "string \<Rightarrow> string \<Rightarrow> exn" where
  "mint_taken mint creator = Domain ConflictError ''Mint already registered to a different creator.''
     [(''mint'', JStr mint), (''registered_creator'', JStr creator)]"

definition tokens_register :: "'w token_service \<Rightarrow> string \<Rightarrow> int \<Rightarrow> token_register \<Rightarrow> (project_token, 'w) io" where
  "tokens_register s uid now p =
     andthen (find_one (tk_db s) ''tokens'' (by_mint (tr_mint p))) (\<lambda>existing_doc.
       let fresh =
         (let token = new_token (tk_settings s) uid now p in
          andthen (insert_one (tk_db s) ''tokens'' (token_to_doc token)) (\<lambda>_.
          andthen (link_creator s now p) (\<lambda>_. ret token)))
       in case existing_doc of
            None \<Rightarrow> fresh
          | Some d \<Rightarrow>
              if d = [] then fresh
              else andthen (pure (token_of_doc (tk_pydantic s) (tk_to_bool s) uid now d)) (\<lambda>existing.
                     if pt_creator_wallet existing \<noteq> tr_creator_wallet p
                     then throw (mint_taken (tr_mint p) (pt_creator_wallet existing))
                     else ret existing))"

definition token_get :: "'w token_service \<Rightarrow> string \<Rightarrow> int \<Rightarrow> string \<Rightarrow> (project_token, 'w) io" where
  "token_get s uid now mint =
     (let missing = Domain NotFoundError (''No token registered with mint '' @ mint @ ''.'') [(''mint'', JStr mint)] in
      andthen (find_one (tk_db s) ''tokens'' (by_mint mint)) (\<lambda>found.
        case found of
          None \<Rightarrow> throw missing
        | Some d \<Rightarrow> if d = [] then throw missing
                    else pure (token_of_doc (tk_pydantic s) (tk_to_bool s) uid now d)))"

definition token_get_vault :: "'w token_service \<Rightarrow> string \<Rightarrow> int \<Rightarrow> (project_token, 'w) io" where
  "token_get_vault s uid now =
     (if vault_token_mint (tk_settings s) = []
      then throw (Domain NotFoundError
             ''VAULT_TOKEN_MINT is not set. Run scripts/launch_vault_token.py and set the resulting mint pubkey in your .env file.''
             [(''missing_env'', JStr ''VAULT_TOKEN_MINT'')])
      else token_get s uid now (vault_token_mint (tk_settings s)))"

text \<open>\<open>find().skip(offset).limit(limit)\<close>, in the order of the collection.\<close>

definition list_tokens :: "'w token_service \<Rightarrow> string \<Rightarrow> int \<Rightarrow> nat \<Rightarrow> nat \<Rightarrow> (project_token list, 'w) io" where
  "list_tokens s uid now limit offset =
     andthen (find_all (tk_db s) ''tokens'' (\<lambda>_. True)) (\<lambda>ds.
       pure (all_res (token_of_doc (tk_pydantic s) (tk_to_bool s) uid now) (take limit (drop offset ds))))"

section \<open>The metadata cache\<close>

type_synonym metadata_cache = "string \<Rightarrow> (rat \<times> dict) option"

definition METADATA_TTL :: rat where
  "METADATA_TTL = 60"

text \<open>\<open>clock\<close> is \<open>time.monotonic()\<close>. The result is the data, or none and the error's text.\<close>

definition fetch_live_metadata ::
  "'w token_service \<Rightarrow> rat \<Rightarrow> string \<Rightarrow> (dict option \<times> string option, metadata_cache \<times> 'w) io" where
  "fetch_live_metadata s clock mint p =
     (let fetch = (case tk_metadata s mint (snd p) of
             (Inl e, w) \<Rightarrow> (Inr (None, Some (exn_str e)), fst p, w)
           | (Inr d, w) \<Rightarrow> (Inr (Some d, None), (fst p)(mint \<mapsto> (clock, d)), w))
      in case fst p mint of
           None \<Rightarrow> fetch
         | Some (t, d) \<Rightarrow> if clock - t < METADATA_TTL then (Inr (Some d, None), p) else fetch)"

definition get_with_metadata ::
  "'w token_service \<Rightarrow> string \<Rightarrow> int \<Rightarrow> rat \<Rightarrow> string \<Rightarrow> (dict, metadata_cache \<times> 'w) io" where
  "get_with_metadata s uid now clock mint =
     andthen (on_snd (token_get s uid now mint)) (\<lambda>token.
     andthen (fetch_live_metadata s clock mint) (\<lambda>(live, err).
       ret (set_field ''bags_metadata'' (json_opt JObj live) (token_to_doc token) @
            (case err of None \<Rightarrow> [] | Some e \<Rightarrow> if e = [] then [] else [(''metadata_error'', JStr e)]))))"

section \<open>The router\<close>

text \<open>\<open>register_token\<close>: only the signed wallet registers its own token.\<close>

definition register_token ::
  "auth_lib \<Rightarrow> 'w token_service \<Rightarrow> (string \<Rightarrow> string option) \<Rightarrow> int \<Rightarrow> string \<Rightarrow> int \<Rightarrow> token_register \<Rightarrow> (project_token, 'w) io" where
  "register_token lib s headers now_us uid now p =
     andthen (pure (require_wallet lib (tk_settings s) now_us headers)) (\<lambda>wallet.
       if wallet \<noteq> tr_creator_wallet p
       then throw (Domain AuthError ''Signed wallet does not match creator_wallet in request body.''
              [(''signed'', JStr wallet), (''requested'', JStr (tr_creator_wallet p))])
       else tokens_register s uid now p)"

definition list_tokens_endpoint :: "'w token_service \<Rightarrow> string \<Rightarrow> int \<Rightarrow> nat \<Rightarrow> nat \<Rightarrow> (dict, 'w) io" where
  "list_tokens_endpoint s uid now limit offset =
     andthen (list_tokens s uid now limit offset) (\<lambda>items.
       ret [(''items'', JList (map (\<lambda>t. JObj (token_to_doc t)) items)), (''limit'', JInt (int limit)),
            (''offset'', JInt (int offset)), (''count'', JInt (int (length items)))])"

section \<open>Lemmas\<close>

lemma token_doc_fields [simp]:
  "jget (token_to_doc t) ''mint'' = JStr (pt_mint t)" "token_to_doc t \<noteq> []"
  "strip_id (token_to_doc t) = token_to_doc t"
  by (simp_all add: token_to_doc_def jget_def strip_id_def del_field_def)

lemma by_mint_token [simp]: "by_mint m (token_to_doc t) \<longleftrightarrow> pt_mint t = m"
  by (simp add: by_mint_def field_is_def)

lemma new_token_fields [simp]:
  "pt_mint (new_token cfg uid now p) = tr_mint p"
  "pt_creator_wallet (new_token cfg uid now p) = tr_creator_wallet p"
  by (simp_all add: new_token_def)

text \<open>A registry in which every document was written by this service, with at most one per mint.\<close>

definition tokens_ok :: "doc list \<Rightarrow> bool" where
  "tokens_ok ds \<longleftrightarrow> (\<forall>d \<in> set ds. \<exists>t. d = token_to_doc t) \<and> distinct (map (\<lambda>d. jget d ''mint'') ds)"

lemma tokens_ok_unique:
  assumes "tokens_ok ds" "token_to_doc t \<in> set ds" "d \<in> set ds" "by_mint (pt_mint t) d"
  shows "d = token_to_doc t"
proof -
  have "inj_on (\<lambda>d. jget d ''mint'') (set ds)" using assms(1) by (simp add: tokens_ok_def distinct_map)
  moreover have "jget d ''mint'' = jget (token_to_doc t) ''mint''" using assms(4) by (simp add: by_mint_def field_is_def)
  ultimately show ?thesis using assms(2,3) by (blast dest: inj_onD)
qed

context pydantic_laws
begin

lemma token_roundtrip:
  assumes "\<And>b. to_bool (JBool b) = Some b"
  shows "token_of_doc py to_bool uid now (token_to_doc t) = Inr t"
proof -
  have "nullable obj_conv (json_opt JObj x) = Some x" for x
    by (cases x) (simp_all add: nullable_def json_opt_def obj_conv_def)
  moreover have "parse_date_field py ''registered_at'' (token_to_doc t) = Inr (token_to_doc t)"
    by (simp add: parse_date_field_def jget_def token_to_doc_def)
  ultimately show ?thesis
    using assms by (simp add: token_of_doc_def) (simp add: token_to_doc_def field_req_def field_dflt_def)
qed

end

lemma link_creator_tokens:
  assumes m: "mongo (tk_db s) docs le" and link: "link_creator s now p w = (r, w')"
  shows "docs w' ''tokens'' = docs w ''tokens''"
proof -
  let ?P = "field_is ''wallet'' (JStr (tr_creator_wallet p))"
  let ?U = "Some [(''wallet'', JStr (tr_creator_wallet p)), (''created_at'', JDate now),
                 (''tokens'', JList [JStr (tr_mint p)]), (''updated_at'', JDate now)]"
  obtain r' where "update_one (tk_db s) ''creators'' ?P (add_mint (tr_mint p) now) ?U w = (r', w')"
    using link unfolding link_creator_def catching_def by (auto split: prod.splits sum.splits)
  then show ?thesis using mongo.update_frame [OF m, where c = "''creators''" and c' = "''tokens''"] by simp
qed

lemma link_creator_Inr: "link_creator s now p w = (r, w') \<Longrightarrow> r = Inr ()"
  unfolding link_creator_def by (auto simp: catching_def split: prod.splits sum.splits)

text \<open>A registration that returns leaves its token in the registry and keeps the registry in order.\<close>

lemma register_stores:
  assumes m: "mongo (tk_db s) docs le" and py: "pydantic_laws (tk_pydantic s)" "\<And>b. tk_to_bool s (JBool b) = Some b"
    and ok: "tokens_ok (docs w ''tokens'')" and reg: "tokens_register s uid now p w = (Inr t, w1)"
  shows "tokens_ok (docs w1 ''tokens'') \<and> token_to_doc t \<in> set (docs w1 ''tokens'')
    \<and> pt_mint t = tr_mint p \<and> pt_creator_wallet t = tr_creator_wallet p
    \<and> set (docs w ''tokens'') \<subseteq> set (docs w1 ''tokens'')"
proof -
  let ?P = "by_mint (tr_mint p)" and ?t = "new_token (tk_settings s) uid now p"
  obtain found wa where f: "find_one (tk_db s) ''tokens'' ?P w = (Inr found, wa)"
    using reg by (auto simp: tokens_register_def andthen_def split: prod.splits sum.splits)
  note law = mongo.find_one_law [OF m f]
  show ?thesis
  proof (cases found)
    case None
    with reg f have "andthen (insert_one (tk_db s) ''tokens'' (token_to_doc ?t)) (\<lambda>_.
        andthen (link_creator s now p) (\<lambda>_. ret ?t)) wa = (Inr t, w1)"
      by (simp add: tokens_register_def andthen_def Let_def)
    then obtain wb where ins: "insert_one (tk_db s) ''tokens'' (token_to_doc ?t) wa = (Inr (), wb)"
      and link: "link_creator s now p wb = (Inr (), w1)" and t: "t = ?t"
      by (auto elim!: andthen_InrE)
    have "docs w1 ''tokens'' = docs w ''tokens'' @ [token_to_doc ?t]"
      using mongo.insert_law [OF m ins] link_creator_tokens [OF m link] law by simp
    moreover have "\<forall>d \<in> set (docs w ''tokens''). jget d ''mint'' \<noteq> JStr (tr_mint p)"
      using law None by (simp add: by_mint_def field_is_def)
    ultimately show ?thesis using ok t by (auto simp: tokens_ok_def)
  next
    case (Some d)
    with law have d: "d \<in> set (docs w ''tokens'')" "?P d" "docs wa = docs w" by simp_all
    with ok obtain u where u: "d = token_to_doc u" by (auto simp: tokens_ok_def)
    have "token_of_doc (tk_pydantic s) (tk_to_bool s) uid now d = Inr u"
      unfolding u by (rule pydantic_laws.token_roundtrip [OF py])
    with reg f Some u d show ?thesis
      using ok by (auto simp: tokens_register_def andthen_def split: if_splits)
  qed
qed

section \<open>Properties\<close>

text \<open>C36. Registration is idempotent and first come, first served. After a registration returned, registering the same mint
  again changes nothing in the registry: the same creator gets the token of the first
  registration, with its identity and time, and any other creator \<open>ConflictError\<close> (409), unless the
  lookup itself fails. The registry keeps one document per mint, and nothing registered before is lost.\<close>

theorem register_first_come:
  assumes m: "mongo (tk_db s) docs le" and py: "pydantic_laws (tk_pydantic s)" "\<And>b. tk_to_bool s (JBool b) = Some b"
    and ok: "tokens_ok (docs w ''tokens'')" and reg: "tokens_register s uid now p w = (Inr t, w1)"
    and again: "tr_mint p2 = tr_mint p" "tokens_register s uid2 now2 p2 w1 = (r, w2)"
  shows "docs w2 = docs w1 \<and> tokens_ok (docs w1 ''tokens'') \<and> set (docs w ''tokens'') \<subseteq> set (docs w1 ''tokens'')
    \<and> pt_mint t = tr_mint p \<and> pt_creator_wallet t = tr_creator_wallet p
    \<and> (r = (if tr_creator_wallet p2 = tr_creator_wallet p then Inr t
            else Inl (mint_taken (tr_mint p) (tr_creator_wallet p)))
       \<or> (\<exists>e. r = Inl e \<and> find_one (tk_db s) ''tokens'' (by_mint (tr_mint p)) w1 = (Inl e, w2)))"
proof -
  from register_stores [OF m py ok reg] have st: "tokens_ok (docs w1 ''tokens'')" "token_to_doc t \<in> set (docs w1 ''tokens'')"
    "pt_mint t = tr_mint p" "pt_creator_wallet t = tr_creator_wallet p" "set (docs w ''tokens'') \<subseteq> set (docs w1 ''tokens'')"
    by blast+
  obtain res wc where f: "find_one (tk_db s) ''tokens'' (by_mint (tr_mint p)) w1 = (res, wc)" by (rule prod.exhaust)
  have reads: "docs wc = docs w1" using mongo.find_one_reads [OF m f] .
  have "w2 = wc \<and> (r = (if tr_creator_wallet p2 = tr_creator_wallet p then Inr t
            else Inl (mint_taken (tr_mint p) (tr_creator_wallet p))) \<or> (\<exists>e. r = Inl e \<and> res = Inl e))"
  proof (cases res)
    case (Inl e)
    with f again show ?thesis by (auto simp: tokens_register_def andthen_def)
  next
    case (Inr found)
    have "found = Some (token_to_doc t)"
    proof (cases found)
      case None
      with mongo.find_one_law [OF m f [unfolded Inr]] st(2,3) show ?thesis by auto
    next
      case (Some d)
      with mongo.find_one_law [OF m f [unfolded Inr]] have "d \<in> set (docs w1 ''tokens'')" "by_mint (pt_mint t) d"
        using st(3) by simp_all
      with tokens_ok_unique [OF st(1,2)] Some show ?thesis by blast
    qed
    with f again Inr pydantic_laws.token_roundtrip [OF py] st(3,4) show ?thesis
      by (simp add: tokens_register_def andthen_def split: if_splits)
  qed
  with reads f st show ?thesis by blast
qed

text \<open>A token service over the store of lists whose metadata source numbers its answers.\<close>

definition demo_tokens :: "store token_service" where
  "demo_tokens = \<lparr>tk_db = list_store, tk_metadata = (\<lambda>m w. (Inr [(''n'', JInt (length (w ''calls'')))], w(''calls'' := [] # w ''calls''))),
     tk_settings = default_settings, tk_pydantic = strict_pydantic, tk_to_bool = (\<lambda>j. case j of JBool b \<Rightarrow> Some b | _ \<Rightarrow> None)\<rparr>"

definition demo_register :: "string \<Rightarrow> token_register" where
  "demo_register wallet = \<lparr>tr_mint = ''M'', tr_creator_wallet = wallet, tr_symbol = ''S'', tr_name = ''N'', tr_decimals = 9,
     tr_metadata_uri = None\<rparr>"

lemma demo_tokens_laws:
  "mongo (tk_db demo_tokens) (\<lambda>s. s) json_le" "pydantic_laws (tk_pydantic demo_tokens)"
  "tk_to_bool demo_tokens (JBool b) = Some b"
  using lists.mongo_axioms strict.pydantic_laws_axioms by (simp_all add: demo_tokens_def)

lemma demo_tokens_first:
  "\<exists>t w1. tokens_register demo_tokens ''u'' 7 (demo_register ''alice'') (\<lambda>_. []) = (Inr t, w1)"
  by (simp add: tokens_register_def demo_tokens_def demo_register_def andthen_def list_store_def ls_insert_def link_creator_def
      catching_def ls_update_def Let_def)

theorem register_first_come_witness:
  "\<exists>t w1. tokens_register demo_tokens ''u'' 7 (demo_register ''alice'') (\<lambda>_. []) = (Inr t, w1)
     \<and> fst (tokens_register demo_tokens ''v'' 9 (demo_register ''alice'') w1) = Inr t
     \<and> fst (tokens_register demo_tokens ''v'' 9 (demo_register ''bob'') w1) = Inl (mint_taken ''M'' ''alice'')"
proof -
  from demo_tokens_first obtain t w1 where
    reg: "tokens_register demo_tokens ''u'' 7 (demo_register ''alice'') (\<lambda>_. []) = (Inr t, w1)" by blast
  have ok: "tokens_ok ((\<lambda>_. []) ''tokens'')" by (simp add: tokens_ok_def)
  have "fst (tokens_register demo_tokens ''v'' 9 (demo_register x) w1) =
      (if x = ''alice'' then Inr t else Inl (mint_taken ''M'' ''alice''))" for x
  proof -
    obtain r w2 where r: "tokens_register demo_tokens ''v'' 9 (demo_register x) w1 = (r, w2)" by (rule prod.exhaust)
    from register_first_come [OF demo_tokens_laws ok reg _ r] show ?thesis
      using r by (auto simp: demo_register_def demo_tokens_def list_store_def)
  qed
  with reg show ?thesis by auto
qed

text \<open>The state of cache and world after a sequence of requests, each with its time and mint.\<close>

definition after_fetches ::
  "'w token_service \<Rightarrow> (rat \<times> string) list \<Rightarrow> metadata_cache \<times> 'w \<Rightarrow> metadata_cache \<times> 'w" where
  "after_fetches s reqs p = fold (\<lambda>(clock, mint) q. snd (fetch_live_metadata s clock mint q)) reqs p"

lemma after_fetches_Suc:
  assumes "i < length reqs"
  shows "after_fetches s (take (Suc i) reqs) p
    = snd (fetch_live_metadata s (fst (reqs ! i)) (snd (reqs ! i)) (after_fetches s (take i reqs) p))"
  using assms by (simp add: after_fetches_def take_Suc_conv_app_nth split: prod.splits)

lemma fetch_cases:
  obtains (hit) t d where "fst p mint = Some (t, d)" "clock - t < METADATA_TTL"
      "fetch_live_metadata s clock mint p = (Inr (Some d, None), p)"
    | (stored) d w' where "tk_metadata s mint (snd p) = (Inr d, w')"
      "fetch_live_metadata s clock mint p = (Inr (Some d, None), (fst p)(mint \<mapsto> (clock, d)), w')"
    | (failed) e w' where "tk_metadata s mint (snd p) = (Inl e, w')"
      "fetch_live_metadata s clock mint p = (Inr (None, Some (exn_str e)), fst p, w')"
proof (cases "\<exists>t d. fst p mint = Some (t, d) \<and> clock - t < METADATA_TTL")
  case True
  with hit show ?thesis by (auto simp: fetch_live_metadata_def Let_def)
next
  case False
  then have "fetch_live_metadata s clock mint p = (case tk_metadata s mint (snd p) of
      (Inl e, w) \<Rightarrow> (Inr (None, Some (exn_str e)), fst p, w)
    | (Inr d, w) \<Rightarrow> (Inr (Some d, None), (fst p)(mint \<mapsto> (clock, d)), w))"
    by (auto simp: fetch_live_metadata_def Let_def split: option.splits)
  with stored failed show ?thesis by (cases "tk_metadata s mint (snd p)"; cases "fst (tk_metadata s mint (snd p))") auto
qed

text \<open>Every entry of the cache was answered by the upstream at one of the requests so far, at its time.\<close>

lemma cache_entries:
  "i \<le> length reqs \<Longrightarrow> fst (after_fetches s (take i reqs) (Map.empty, w)) mint = Some (t, d) \<Longrightarrow>
     \<exists>j < i. reqs ! j = (t, mint)
       \<and> fst (tk_metadata s mint (snd (after_fetches s (take j reqs) (Map.empty, w)))) = Inr d"
proof (induction i arbitrary: t d mint)
  case 0
  then show ?case by (simp add: after_fetches_def)
next
  case (Suc i)
  let ?p = "after_fetches s (take i reqs) (Map.empty, w)"
  obtain clock m where rq: "reqs ! i = (clock, m)" by (rule prod.exhaust)
  from Suc.prems rq have next_state: "fst (snd (fetch_live_metadata s clock m ?p)) mint = Some (t, d)"
    by (simp add: after_fetches_Suc)
  have old: "fst ?p mint = Some (t, d) \<Longrightarrow> ?case" using Suc by (meson Suc_leD less_Suc_eq)
  show ?case
  proof (cases rule: fetch_cases [where s = s and clock = clock and mint = m and p = ?p])
    case (stored d' w')
    show ?thesis
    proof (cases "mint = m")
      case True
      with stored next_state rq show ?thesis by auto
    next
      case False
      with stored next_state old show ?thesis by simp
    qed
  qed (use next_state old in simp_all)
qed

text \<open>C37. Live metadata is never stale and never fatal. Whatever sequence of requests a process has served since it
  started, a lookup does not raise; the data it shows is what the upstream answered either now or
  at an earlier request for the same mint, and then less than 60 seconds ago; a failing upstream is
  reported as the error's text and stored nowhere, so the next lookup asks again.\<close>

theorem metadata_fresh:
  assumes "i < length reqs" and rq: "reqs ! i = (clock, mint)"
    and p: "p = (\<lambda>k. after_fetches s (take k reqs) (Map.empty, w))"
  shows "(\<exists>d j t. fst (fetch_live_metadata s clock mint (p i)) = Inr (Some d, None) \<and> j \<le> i \<and> reqs ! j = (t, mint)
           \<and> (j = i \<or> clock - t < 60) \<and> fst (tk_metadata s mint (snd (p j))) = Inr d)
    \<or> (\<exists>e w'. tk_metadata s mint (snd (p i)) = (Inl e, w')
           \<and> fetch_live_metadata s clock mint (p i) = (Inr (None, Some (exn_str e)), fst (p i), w'))"
proof (cases rule: fetch_cases [where s = s and clock = clock and mint = mint and p = "p i"])
  case (hit t d)
  with cache_entries [of i reqs s w mint t d] assms
  obtain j where "j < i" "reqs ! j = (t, mint)" "fst (tk_metadata s mint (snd (p j))) = Inr d" by auto
  with hit show ?thesis by (intro disjI1 exI [of _ d] exI [of _ j] exI [of _ t]) (simp add: METADATA_TTL_def)
next
  case (stored d w')
  with rq show ?thesis by (intro disjI1 exI [of _ d] exI [of _ i] exI [of _ clock]) simp
qed blast

text \<open>The third request, 70 seconds after the first, is answered anew.\<close>

theorem metadata_fresh_witness:
  "\<exists>d j t. fst (fetch_live_metadata demo_tokens 70 ''M''
        (after_fetches demo_tokens (take 2 [(0 :: rat, ''M''), (50, ''M''), (70, ''M'')]) (Map.empty, \<lambda>_. []))) = Inr (Some d, None)
     \<and> j \<le> 2 \<and> [(0 :: rat, ''M''), (50, ''M''), (70, ''M'')] ! j = (t, ''M'') \<and> (j = 2 \<or> 70 - t < 60)
     \<and> d = [(''n'', JInt 1)]"
proof -
  have "fst (fetch_live_metadata demo_tokens 70 ''M''
        (after_fetches demo_tokens (take 2 [(0 :: rat, ''M''), (50, ''M''), (70, ''M'')]) (Map.empty, \<lambda>_. [])))
      = Inr (Some [(''n'', JInt 1)], None)"
    by (simp add: after_fetches_def fetch_live_metadata_def demo_tokens_def METADATA_TTL_def eval_nat_numeral)
  moreover from metadata_fresh [of 2 "[(0 :: rat, ''M''), (50, ''M''), (70, ''M'')]" 70 "''M''" _ demo_tokens "\<lambda>_. []", OF _ _ refl]
  have "\<exists>d j t. fst (fetch_live_metadata demo_tokens 70 ''M''
        (after_fetches demo_tokens (take 2 [(0 :: rat, ''M''), (50, ''M''), (70, ''M'')]) (Map.empty, \<lambda>_. []))) = Inr (Some d, None)
     \<and> j \<le> 2 \<and> [(0 :: rat, ''M''), (50, ''M''), (70, ''M'')] ! j = (t, ''M'') \<and> (j = 2 \<or> 70 - t < 60)"
    by (auto simp: demo_tokens_def)
  ultimately show ?thesis by auto
qed

end
