(* ===== verification/SolanaWs.thy ===== *)
theory SolanaWs
  imports Indexer
begin

text \<open>
  \<open>backend/app/clients/solana_ws.py\<close>: the subscription client and its reconnect loop. The loop is an
  asynchronous generator that never returns; it is modelled by what it does, yield or
  sleep, in answer to what the connections deliver, an event at a time, and as a step
  relation over its state. The notification objects are those of \<open>solders\<close>, a type parameter.
\<close>

section \<open>Messages\<close>

definition RECONNECT_INITIAL_BACKOFF :: rat where
  "RECONNECT_INITIAL_BACKOFF = 1"

definition RECONNECT_MAX_BACKOFF :: rat where
  "RECONNECT_MAX_BACKOFF = 30"

text \<open>
  What is known of a notification object: \<open>to_json\<close> is its method of that name, if it has a callable one, which
  returns a value or raises; \<open>ws_repr\<close> is \<open>repr\<close>, and \<open>is_true\<close> the truth value of a bare object.
\<close>

record 'o ws_objects =
  to_json :: "'o \<Rightarrow> (unit \<Rightarrow> json res) option"
  ws_loads :: "string \<Rightarrow> json res"
  ws_repr :: "'o \<Rightarrow> string"
  is_true :: "'o \<Rightarrow> bool"

text \<open>What a connection delivers at once: a list of objects or one object.\<close>

datatype 'o ws_payload = Batch "'o list" | Single 'o

fun payload_true :: "'o ws_objects \<Rightarrow> 'o ws_payload \<Rightarrow> bool" where
  "payload_true L (Batch xs) = (xs \<noteq> [])"
| "payload_true L (Single x) = is_true L x"

fun normalize_msg :: "'o ws_payload \<Rightarrow> 'o list" where
  "normalize_msg (Batch xs) = xs"
| "normalize_msg (Single x) = [x]"

text \<open>\<open>json.JSONDecodeError\<close> and \<open>UnicodeError\<close> are subclasses of \<open>ValueError\<close>.\<close>

definition value_or_type_error :: "exn \<Rightarrow> bool" where
  "value_or_type_error e =
     (case e of Other t m \<Rightarrow> t \<in> {''ValueError'', ''TypeError'', ''JSONDecodeError'', ''UnicodeDecodeError'', ''UnicodeEncodeError''}
      | Domain _ _ _ \<Rightarrow> False)"

definition to_dict :: "'o ws_objects \<Rightarrow> 'o \<Rightarrow> dict res" where
  "to_dict L message =
     (let raw = [(''raw'', JStr (ws_repr L message))] in
      case to_json L message of
        None \<Rightarrow> Inr raw
      | Some f \<Rightarrow>
          (case rbind (f ()) (\<lambda>payload. case payload of JStr s \<Rightarrow> ws_loads L s | _ \<Rightarrow> Inr payload) of
             Inr (JObj parsed) \<Rightarrow> Inr parsed
           | Inr _ \<Rightarrow> Inr raw
           | Inl e \<Rightarrow> if value_or_type_error e then Inr raw else Inl e))"

text \<open>The items of a message up to the first conversion that raises.\<close>

fun convert_items :: "'o ws_objects \<Rightarrow> 'o list \<Rightarrow> dict list \<times> exn option" where
  "convert_items L [] = ([], None)"
| "convert_items L (x # xs) =
     (case to_dict L x of
        Inl e \<Rightarrow> ([], Some e)
      | Inr d \<Rightarrow> (case convert_items L xs of (ds, e) \<Rightarrow> (d # ds, e)))"

definition delivered :: "'o ws_objects \<Rightarrow> 'o ws_payload \<Rightarrow> dict list \<times> exn option" where
  "delivered L m = (if payload_true L m then convert_items L (normalize_msg m) else ([], None))"

section \<open>The reconnect loop\<close>

text \<open>
  What happens to the loop: a message on the open connection; the connection, or the attempt to open or subscribe it,
  ends cleanly or with an exception; the task is cancelled.
\<close>

datatype 'o ws_event = Message "'o ws_payload" | Closed | Dropped exn | Cancel

datatype ws_action = Yield dict | Sleep rat | Raise_cancelled

definition next_backoff :: "rat \<Rightarrow> rat" where
  "next_backoff backoff = min (backoff * 2) RECONNECT_MAX_BACKOFF"

fun reconnect_loop :: "'o ws_objects \<Rightarrow> rat \<Rightarrow> 'o ws_event list \<Rightarrow> ws_action list" where
  "reconnect_loop L backoff [] = []"
| "reconnect_loop L backoff (Message m # es) =
     (case delivered L m of
        (ds, failed) \<Rightarrow>
          let b = (if ds = [] then backoff else RECONNECT_INITIAL_BACKOFF) in
          map Yield ds @
            (case failed of
               None \<Rightarrow> reconnect_loop L b es
             | Some e \<Rightarrow> Sleep b # reconnect_loop L (next_backoff b) es))"
| "reconnect_loop L backoff (Closed # es) = Sleep backoff # reconnect_loop L (next_backoff backoff) es"
| "reconnect_loop L backoff (Dropped e # es) = Sleep backoff # reconnect_loop L (next_backoff backoff) es"
| "reconnect_loop L backoff (Cancel # es) = [Raise_cancelled]"

section \<open>The client\<close>

definition new_ws_client :: "string \<Rightarrow> string res" where
  "new_ws_client ws_url =
     (if ws_url = [] \<or> \<not> (startswith ws_url ''ws://'' \<or> startswith ws_url ''wss://'')
      then Inl (Domain ServiceUnavailableError ''Solana WebSocket URL is not configured.'' [(''ws_url'', JStr ws_url)])
      else Inr ws_url)"

datatype logs_filter = All_logs | All_with_votes | Mentions pubkey

definition select_filter :: "solders \<Rightarrow> string \<Rightarrow> string option \<Rightarrow> logs_filter res" where
  "select_filter sol kind v =
     (let normalized = lower kind in
      if normalized = ''all'' then Inr All_logs
      else if normalized = ''allwithvotes'' \<or> normalized = ''all_with_votes'' then Inr All_with_votes
      else if normalized = ''mentions''
      then (case v of
              None \<Rightarrow> Inl (Domain ServiceUnavailableError
                 (''logs_subscribe filter='' @ CHR 0x27 # ''mentions'' @ CHR 0x27 # '' requires a pubkey value.'')
                 [(''filter_kind'', JStr kind)])
            | Some s \<Rightarrow>
                if s = []
                then Inl (Domain ServiceUnavailableError
                 (''logs_subscribe filter='' @ CHR 0x27 # ''mentions'' @ CHR 0x27 # '' requires a pubkey value.'')
                 [(''filter_kind'', JStr kind)])
                else case pubkey_from_string sol s of
                       Inr p \<Rightarrow> Inr (Mentions p)
                     | Inl err \<Rightarrow> Inl (Domain ServiceUnavailableError
                         ''logs_subscribe mentions filter received an invalid pubkey.''
                         [(''pubkey'', JStr s), (''error'', JStr err)]))
      else Inl (Domain ServiceUnavailableError ''Unknown logs filter kind.''
             [(''filter_kind'', JStr kind),
              (''supported'', JList [JStr ''all'', JStr ''allWithVotes'', JStr ''mentions''])]))"

text \<open>\<open>events p\<close> are those of the connections subscribed to \<open>p\<close>.\<close>

definition subscribe_account ::
  "solders \<Rightarrow> 'o ws_objects \<Rightarrow> (pubkey \<Rightarrow> 'o ws_event list) \<Rightarrow> string \<Rightarrow> ws_action list res" where
  "subscribe_account sol L events pubkey_b58 =
     (case pubkey_from_string sol pubkey_b58 of
        Inl err \<Rightarrow> Inl (Domain ServiceUnavailableError ''Invalid pubkey supplied to subscribe_account.''
          [(''pubkey'', JStr pubkey_b58), (''error'', JStr err)])
      | Inr p \<Rightarrow> Inr (reconnect_loop L RECONNECT_INITIAL_BACKOFF (events p)))"

definition subscribe_logs ::
  "solders \<Rightarrow> 'o ws_objects \<Rightarrow> (logs_filter \<Rightarrow> 'o ws_event list) \<Rightarrow> string \<Rightarrow> string option \<Rightarrow> ws_action list res" where
  "subscribe_logs sol L events filter_kind filter_value =
     rbind (select_filter sol filter_kind filter_value) (\<lambda>f.
       Inr (reconnect_loop L RECONNECT_INITIAL_BACKOFF (events f)))"

section \<open>Lemmas\<close>

fun yields :: "ws_action list \<Rightarrow> dict list" where
  "yields [] = []"
| "yields (Yield d # as) = d # yields as"
| "yields (a # as) = yields as"

fun sleeps :: "ws_action list \<Rightarrow> rat list" where
  "sleeps [] = []"
| "sleeps (Sleep b # as) = b # sleeps as"
| "sleeps (a # as) = sleeps as"

lemma yields_append [simp]: "yields (as @ bs) = yields as @ yields bs"
  by (induction as rule: yields.induct) simp_all

lemma sleeps_append [simp]: "sleeps (as @ bs) = sleeps as @ sleeps bs"
  by (induction as rule: sleeps.induct) simp_all

lemma actions_of_yields [simp]: "yields (map Yield ds) = ds" "sleeps (map Yield ds) = []"
  by (induction ds) simp_all

text \<open>What an event delivers, and whether it ends a connection.\<close>

fun event_items :: "'o ws_objects \<Rightarrow> 'o ws_event \<Rightarrow> dict list" where
  "event_items L (Message m) = fst (delivered L m)"
| "event_items L e = []"

lemma reconnect_yields:
  "Cancel \<notin> set es \<Longrightarrow> yields (reconnect_loop L b es) = concat (map (event_items L) es)"
  by (induction L b es rule: reconnect_loop.induct) (auto simp: Let_def split: prod.splits option.splits)

text \<open>The backoff of the state: powers of two up to the maximum.\<close>

definition backoff_at :: "nat \<Rightarrow> rat" where
  "backoff_at k = min (2 ^ k) RECONNECT_MAX_BACKOFF"

lemma next_backoff_at: "next_backoff (backoff_at k) = backoff_at (Suc k)"
  by (simp add: next_backoff_def backoff_at_def RECONNECT_MAX_BACKOFF_def min_def)

lemma backoff_at_0: "backoff_at 0 = RECONNECT_INITIAL_BACKOFF"
  by (simp add: backoff_at_def RECONNECT_INITIAL_BACKOFF_def RECONNECT_MAX_BACKOFF_def)

text \<open>The state of the loop after a sequence of events without a cancellation.\<close>

fun backoff_after :: "'o ws_objects \<Rightarrow> rat \<Rightarrow> 'o ws_event list \<Rightarrow> rat" where
  "backoff_after L b [] = b"
| "backoff_after L b (Message m # es) =
     (case delivered L m of
        (ds, failed) \<Rightarrow>
          let c = (if ds = [] then b else RECONNECT_INITIAL_BACKOFF) in
          backoff_after L (case failed of None \<Rightarrow> c | Some e \<Rightarrow> next_backoff c) es)"
| "backoff_after L b (e # es) = backoff_after L (next_backoff b) es"

lemma reconnect_append:
  "Cancel \<notin> set es \<Longrightarrow>
     reconnect_loop L b (es @ fs) = reconnect_loop L b es @ reconnect_loop L (backoff_after L b es) fs"
  by (induction L b es rule: reconnect_loop.induct) (auto simp: Let_def split: prod.splits option.splits)

definition ends_connection :: "'o ws_event \<Rightarrow> bool" where
  "ends_connection e = (case e of Closed \<Rightarrow> True | Dropped x \<Rightarrow> True | _ \<Rightarrow> False)"

lemma reconnect_drops:
  "list_all ends_connection es \<Longrightarrow>
     reconnect_loop L (backoff_at k) (es @ fs)
       = map (\<lambda>i. Sleep (backoff_at i)) [k..<k + length es] @ reconnect_loop L (backoff_at (k + length es)) fs"
proof (induction es arbitrary: k)
  case (Cons e es)
  then have "reconnect_loop L (backoff_at k) ((e # es) @ fs)
      = Sleep (backoff_at k) # reconnect_loop L (backoff_at (Suc k)) (es @ fs)"
    by (cases e) (simp_all add: ends_connection_def next_backoff_at)
  moreover have "[k..<k + length (e # es)] = k # [Suc k..<Suc k + length es]" by (simp add: upt_conv_Cons del: upt_Suc)
  moreover have "reconnect_loop L (backoff_at (Suc k)) (es @ fs)
      = map (\<lambda>i. Sleep (backoff_at i)) [Suc k..<Suc k + length es] @ reconnect_loop L (backoff_at (Suc k + length es)) fs"
    using Cons by simp
  ultimately show ?case by (simp del: upt_Suc)
qed simp

lemma sleep_values: "k < 5 \<Longrightarrow> backoff_at k = 2 ^ k" "5 \<le> k \<Longrightarrow> backoff_at k = 30"
proof -
  assume "5 \<le> k"
  then have "(2::rat) ^ 5 \<le> 2 ^ k" by (intro power_increasing) simp_all
  then show "backoff_at k = 30" by (simp add: backoff_at_def RECONNECT_MAX_BACKOFF_def min_def)
next
  assume "k < 5"
  then have "k \<in> {0, 1, 2, 3, 4}" by auto
  then show "backoff_at k = 2 ^ k" by (auto simp: backoff_at_def RECONNECT_MAX_BACKOFF_def)
qed

section \<open>Properties\<close>

text \<open>C38. The subscription outlives its connections. As long as the task is not cancelled, every notification received is
  yielded, in order, whatever connections closed or failed before it. After a message that was
  converted, any number of failures in a row is answered by exactly as many sleeps, of 1, 2, 4, 8, 16 and then always
  30 seconds, and the loop goes on with what comes next; the next message starts the sequence anew.\<close>

theorem reconnect_exact:
  assumes "Cancel \<notin> set es" and m: "delivered L m = (ds, None)" "ds \<noteq> []" and drops: "list_all ends_connection drops"
    and "Cancel \<notin> set later"
  shows "reconnect_loop L b (es @ Message m # drops @ later)
      = reconnect_loop L b es @ map Yield ds
        @ map (\<lambda>k. Sleep (if k < 5 then 2 ^ k else 30)) [0..<length drops]
        @ reconnect_loop L (backoff_at (length drops)) later
    \<and> yields (reconnect_loop L b (es @ Message m # drops @ later))
      = concat (map (event_items L) es) @ ds @ concat (map (event_items L) later)"
proof -
  have tail: "reconnect_loop L c (Message m # drops @ later)
      = map Yield ds @ map (\<lambda>k. Sleep (if k < 5 then 2 ^ k else 30)) [0..<length drops]
        @ reconnect_loop L (backoff_at (length drops)) later" for c
    using reconnect_drops [OF drops, of L 0 later] m sleep_values
    by (simp add: backoff_at_0 [symmetric] Let_def)
  have none: "event_items L e = []" if "ends_connection e" for e using that by (cases e) (simp_all add: ends_connection_def)
  have "concat (map (event_items L) drops) = []" using drops none by (auto simp: list_all_iff)
  moreover have "Cancel \<notin> set drops" using drops by (auto simp: list_all_iff ends_connection_def)
  ultimately have "yields (reconnect_loop L b (es @ Message m # drops @ later))
      = concat (map (event_items L) es) @ ds @ concat (map (event_items L) later)"
    using reconnect_yields [of "es @ Message m # drops @ later" L b] assms(1,5) m by simp
  with reconnect_append [OF assms(1), of L b "Message m # drops @ later"] tail show ?thesis by simp
qed

text \<open>Notifications that are JSON text; the connection fails seven times after the first.\<close>

definition demo_objects :: "string ws_objects" where
  "demo_objects = \<lparr>to_json = (\<lambda>s. Some (\<lambda>_. Inr (JStr s))), ws_loads = (\<lambda>s. Inr (JObj [(''n'', JStr s)])), ws_repr = (\<lambda>s. s),
     is_true = (\<lambda>s. s \<noteq> [])\<rparr>"

theorem reconnect_exact_witness:
  "reconnect_loop demo_objects 16 (Dropped (Other ''OSError'' []) # Message (Batch [''a'']) # replicate 7 Closed @ [Message (Single ''b'')])
     = [Sleep 16, Yield [(''n'', JStr ''a'')], Sleep 1, Sleep 2, Sleep 4, Sleep 8, Sleep 16, Sleep 30, Sleep 30,
        Yield [(''n'', JStr ''b'')]]"
proof -
  let ?es = "[Dropped (Other ''OSError'' [])] :: string ws_event list" and ?later = "[Message (Single ''b'')]"
  have m: "delivered demo_objects (Batch [''a'']) = ([[(''n'', JStr ''a'')]], None)"
    "delivered demo_objects (Single ''b'') = ([[(''n'', JStr ''b'')]], None)"
    by (simp_all add: delivered_def to_dict_def demo_objects_def Let_def)
  have "reconnect_loop demo_objects 16 (?es @ Message (Batch [''a'']) # replicate 7 Closed @ ?later)
      = reconnect_loop demo_objects 16 ?es @ map Yield [[(''n'', JStr ''a'')]]
        @ map (\<lambda>k. Sleep (if k < 5 then 2 ^ k else 30)) [0..<length (replicate 7 Closed)]
        @ reconnect_loop demo_objects (backoff_at (length (replicate 7 Closed))) ?later"
    using reconnect_exact [where b = 16, OF _ m(1), of ?es "replicate 7 Closed" ?later]
    by (simp add: ends_connection_def list_all_iff)
  then show ?thesis by (simp add: m(2) upt_rec Let_def)
qed

end
