(* ===== verification/Routers.thy ===== *)
theory Routers
  imports Tokens Compliance DepositBuilder Deposit Withdrawal Idempotency
begin

text \<open>
  The routes of \<open>backend/app/routers\<close> that are more than a call (\<open>bags\<close>, \<open>deposits\<close>, \<open>compliance\<close>,
  \<open>health\<close>, \<open>relayers\<close>, \<open>status\<close>, \<open>withdrawals\<close>), the request log, the rate limit's answer, and the
  start and end of the application in \<open>main.py\<close>. A handler gets its payload after the framework has
  checked it against the request model; the checks are the predicates ending in \<open>_ok\<close>. \<open>headers\<close>
  and \<open>now_us\<close> are the request's headers and the clock, which only \<open>require_wallet\<close> looks at.
\<close>

section \<open>Owner-gated routes\<close>

text \<open>
  \<open>wallet: str = Depends(require_wallet)\<close> followed by \<open>if wallet != payload.field: raise AuthError\<close>,
  which four routes share.
\<close>

definition owner_mismatch :: "string \<Rightarrow> string \<Rightarrow> string \<Rightarrow> exn" where
  "owner_mismatch field wallet requested =
     Domain AuthError (''Signed wallet does not match '' @ field @ '' in request body.'')
       [(''signed'', JStr wallet), (''requested'', JStr requested)]"

definition owner_only ::
  "auth_lib \<Rightarrow> settings \<Rightarrow> (string \<Rightarrow> string option) \<Rightarrow> int \<Rightarrow> string \<Rightarrow> string \<Rightarrow> ('a, 'w) io \<Rightarrow> ('a, 'w) io" where
  "owner_only lib cfg headers now_us field requested handler =
     andthen (pure (require_wallet lib cfg now_us headers)) (\<lambda>wallet.
       if wallet \<noteq> requested then throw (owner_mismatch field wallet requested) else handler)"

definition any_wallet ::
  "auth_lib \<Rightarrow> settings \<Rightarrow> (string \<Rightarrow> string option) \<Rightarrow> int \<Rightarrow> ('a, 'w) io \<Rightarrow> ('a, 'w) io" where
  "any_wallet lib cfg headers now_us handler = andthen (pure (require_wallet lib cfg now_us headers)) (\<lambda>_. handler)"

definition len_between :: "nat \<Rightarrow> nat \<Rightarrow> string \<Rightarrow> bool" where
  "len_between lo hi s \<longleftrightarrow> lo \<le> length s \<and> length s \<le> hi"

section \<open>Bags\<close>

record claim_fees_request =
  cf_creator_wallet :: string
  cf_token_mint :: "string option"

definition claim_fees_request_ok :: "claim_fees_request \<Rightarrow> bool" where
  "claim_fees_request_ok p \<longleftrightarrow> len_between 20 64 (cf_creator_wallet p)
     \<and> (case cf_token_mint p of None \<Rightarrow> True | Some m \<Rightarrow> len_between 20 64 m)"

record swap_quote_request =
  sq_input_mint :: string
  sq_output_mint :: string
  sq_amount :: int
  sq_slippage_bps :: int

definition swap_quote_request_ok :: "swap_quote_request \<Rightarrow> bool" where
  "swap_quote_request_ok p \<longleftrightarrow> len_between 20 64 (sq_input_mint p) \<and> len_between 20 64 (sq_output_mint p)
     \<and> 0 < sq_amount p \<and> 0 \<le> sq_slippage_bps p \<and> sq_slippage_bps p \<le> 10000"

record swap_to_deposit_request = swap_quote_request +
  sd_depositor_pubkey :: string
  sd_commitment_hex :: string

definition swap_to_deposit_request_ok :: "swap_to_deposit_request \<Rightarrow> bool" where
  "swap_to_deposit_request_ok p \<longleftrightarrow> len_between 20 64 (sq_input_mint p) \<and> len_between 20 64 (sq_output_mint p)
     \<and> 0 < sq_amount p \<and> 0 \<le> sq_slippage_bps p \<and> sq_slippage_bps p \<le> 10000
     \<and> len_between 20 64 (sd_depositor_pubkey p) \<and> len_between 2 66 (sd_commitment_hex p)"

record claim_to_deposit_request =
  cd_creator_wallet :: string
  cd_token_mint :: string
  cd_commitment_hex :: string

definition claim_to_deposit_request_ok :: "claim_to_deposit_request \<Rightarrow> bool" where
  "claim_to_deposit_request_ok p \<longleftrightarrow> len_between 20 64 (cd_creator_wallet p) \<and> len_between 20 64 (cd_token_mint p)
     \<and> len_between 2 66 (cd_commitment_hex p)"

definition claim_fees_endpoint ::
  "auth_lib \<Rightarrow> settings \<Rightarrow> (json \<Rightarrow> string) \<Rightarrow> 'w bags_api \<Rightarrow> (string \<Rightarrow> string option) \<Rightarrow> int \<Rightarrow> claim_fees_request
     \<Rightarrow> (claim_response, 'w) io" where
  "claim_fees_endpoint lib cfg fmt bags headers now_us p =
     owner_only lib cfg headers now_us ''creator_wallet'' (cf_creator_wallet p)
       (claim_fees fmt bags (cf_creator_wallet p) (cf_token_mint p))"

definition swap_quote_endpoint ::
  "auth_lib \<Rightarrow> settings \<Rightarrow> 'w bags_api \<Rightarrow> (string \<Rightarrow> string option) \<Rightarrow> int \<Rightarrow> swap_quote_request \<Rightarrow> (dict, 'w) io" where
  "swap_quote_endpoint lib cfg bags headers now_us p =
     any_wallet lib cfg headers now_us
       (swap_quote bags (sq_input_mint p) (sq_output_mint p) (sq_amount p) (sq_slippage_bps p))"

definition swap_to_deposit_endpoint ::
  "auth_lib \<Rightarrow> settings \<Rightarrow> solders \<Rightarrow> 'w bags_api \<Rightarrow> (string \<Rightarrow> string option) \<Rightarrow> int \<Rightarrow> swap_to_deposit_request
     \<Rightarrow> (swap_chain, 'w) io" where
  "swap_to_deposit_endpoint lib cfg sol bags headers now_us p =
     owner_only lib cfg headers now_us ''depositor_pubkey'' (sd_depositor_pubkey p)
       (build_swap_chain sol cfg bags (sq_input_mint p) (sq_output_mint p) (sq_amount p) (sq_slippage_bps p)
         (sd_depositor_pubkey p) (sd_commitment_hex p))"

definition claim_to_deposit_endpoint ::
  "auth_lib \<Rightarrow> settings \<Rightarrow> (json \<Rightarrow> string) \<Rightarrow> solders \<Rightarrow> 'w bags_api \<Rightarrow> (string \<Rightarrow> string option) \<Rightarrow> int
     \<Rightarrow> claim_to_deposit_request \<Rightarrow> (claim_chain, 'w) io" where
  "claim_to_deposit_endpoint lib cfg fmt sol bags headers now_us p =
     owner_only lib cfg headers now_us ''creator_wallet'' (cd_creator_wallet p)
       (build_claim_chain fmt sol cfg bags (cd_creator_wallet p) (cd_token_mint p) (cd_commitment_hex p))"

definition bags_health_endpoint :: "'w bags_api \<Rightarrow> (dict, 'w) io" where
  "bags_health_endpoint bags =
     andthen (bags_health bags) (\<lambda>(status, details). ret [(''status'', JStr status), (''details'', JObj details)])"

section \<open>Deposits\<close>

record deposit_build_request =
  db_commitment :: string
  db_amount :: int
  db_token :: string
  db_depositor_pubkey :: string

definition deposit_build_request_ok :: "deposit_build_request \<Rightarrow> bool" where
  "deposit_build_request_ok p \<longleftrightarrow> db_commitment p \<noteq> [] \<and> 1 \<le> db_amount p \<and> 32 \<le> length (db_depositor_pubkey p)"

text \<open>The gate of a registration wants a wallet, not that of the payload.\<close>

definition register_deposit ::
  "auth_lib \<Rightarrow> settings \<Rightarrow> 'w deposit_service \<Rightarrow> (string \<Rightarrow> string option) \<Rightarrow> int \<Rightarrow> string \<Rightarrow> int \<Rightarrow> commitment_create
     \<Rightarrow> (commitment, 'w) io" where
  "register_deposit lib cfg s headers now_us uid now p = any_wallet lib cfg headers now_us (Deposit.register s uid now p)"

definition build_deposit_tx ::
  "solders \<Rightarrow> settings \<Rightarrow> 'w rpc \<Rightarrow> deposit_build_request \<Rightarrow> (deposit_tx, 'w) io" where
  "build_deposit_tx sol cfg rpc p =
     build_unsigned_tx sol cfg rpc (db_commitment p) (db_amount p) (Inr (db_depositor_pubkey p)) (db_token p)"

section \<open>Compliance\<close>

definition scan_request_ok :: "string \<Rightarrow> bool" where
  "scan_request_ok address \<longleftrightarrow> len_between 20 64 address"

section \<open>Health\<close>

definition check_mongo :: "(unit, 'w) io \<Rightarrow> (dict, 'w) io" where
  "check_mongo ping =
     catching (andthen ping (\<lambda>_. ret [(''status'', JStr ''up'')]))
       (\<lambda>e. ret [(''status'', JStr ''down''), (''error'', JStr (exn_str e))])"

definition is_http_error :: "exn \<Rightarrow> bool" where
  "is_http_error e = (case e of Other t m \<Rightarrow> t \<in> set http_errors | Domain _ _ _ \<Rightarrow> False)"

definition degraded :: "dict \<Rightarrow> settings \<Rightarrow> dict" where
  "degraded what cfg = (''status'', JStr ''degraded'') # what @ [(''rpc_url'', JStr (solana_rpc_url cfg))]"

definition rpc_health_of :: "settings \<Rightarrow> http_response \<Rightarrow> dict" where
  "rpc_health_of cfg response =
     (if http_status response \<noteq> 200 then degraded [(''http_status'', JInt (http_status response))] cfg
      else case http_json response of
             None \<Rightarrow> degraded [(''error'', JStr ''non-json'')] cfg
           | Some body \<Rightarrow>
               let result = (case body of JObj d \<Rightarrow> jget d ''result'' | _ \<Rightarrow> JNull) in
               if result = JStr ''ok'' then [(''status'', JStr ''up''), (''rpc_url'', JStr (solana_rpc_url cfg))]
               else degraded [(''result'', result)] cfg)"

definition check_solana_rpc :: "settings \<Rightarrow> 'w transport \<Rightarrow> (dict, 'w) io" where
  "check_solana_rpc cfg post =
     catching
       (andthen (post (solana_rpc_url cfg)
                  (JObj [(''jsonrpc'', JStr ''2.0''), (''id'', JInt 1), (''method'', JStr ''getHealth'')]))
         (\<lambda>response. ret (rpc_health_of cfg response)))
       (\<lambda>e. if is_http_error e
            then ret [(''status'', JStr ''down''), (''error'', JStr (exn_str e)), (''rpc_url'', JStr (solana_rpc_url cfg))]
            else throw e)"

definition health :: "settings \<Rightarrow> (unit, 'w) io \<Rightarrow> 'w transport \<Rightarrow> (dict, 'w) io" where
  "health cfg ping post =
     andthen (check_mongo ping) (\<lambda>mongo_check.
     andthen (check_solana_rpc cfg post) (\<lambda>solana_check.
       let overall = (if jget mongo_check ''status'' \<noteq> JStr ''up'' \<or> jget solana_check ''status'' \<noteq> JStr ''up''
                      then ''degraded'' else ''ok'') in
       ret [(''status'', JStr overall),
            (''checks'', JObj [(''mongo'', JObj mongo_check), (''solana_rpc'', JObj solana_check)])]))"

section \<open>Relayers and withdrawals\<close>

definition list_relayers :: "pydantic \<Rightarrow> 'w mongo \<Rightarrow> string \<Rightarrow> int \<Rightarrow> string \<Rightarrow> nat \<Rightarrow> (dict, 'w) io" where
  "list_relayers py db uid now srt limit =
     andthen (list_active py db uid now srt limit) (\<lambda>rs.
       ret [(''items'', JList (map (\<lambda>r. JObj (relayer_to_doc r)) rs)), (''sort'', JStr srt), (''limit'', JInt (int limit)),
            (''count'', JInt (int (length rs)))])"

definition relayer_stats_endpoint ::
  "pydantic \<Rightarrow> 'w mongo \<Rightarrow> (string \<Rightarrow> int \<Rightarrow> (doc list, 'w) io) \<Rightarrow> string \<Rightarrow> int \<Rightarrow> string \<Rightarrow> (relayer_stats, 'w) io" where
  "relayer_stats_endpoint py db matching uid now relayer_id =
     andthen (relayer_get py db uid now relayer_id) (\<lambda>found.
       case found of
         None \<Rightarrow> throw (Domain NotFoundError (''No relayer registered with id '' @ relayer_id @ ''.'')
                   [(''relayer_id'', JStr relayer_id)])
       | Some r \<Rightarrow> relayer_stats_for py db matching uid now relayer_id)"

definition recent_withdrawals :: "'w withdrawal_service \<Rightarrow> int \<Rightarrow> nat \<Rightarrow> (recent_item list \<times> nat \<times> nat, 'w) io" where
  "recent_withdrawals s now limit =
     andthen (Withdrawal.list_recent s now limit) (\<lambda>items. ret (items, limit, length items))"

section \<open>Status checks\<close>

record status_check =
  sx_id :: string
  sx_client_name :: string
  sx_timestamp :: int

definition create_status_check ::
  "'w mongo \<Rightarrow> (int \<Rightarrow> string) \<Rightarrow> string \<Rightarrow> int \<Rightarrow> string \<Rightarrow> (status_check, 'w) io" where
  "create_status_check db iso_text uid now client_name =
     (let c = \<lparr>sx_id = uid, sx_client_name = client_name, sx_timestamp = now\<rparr> in
      andthen (insert_one db ''status_checks''
                 [(''id'', JStr (sx_id c)), (''client_name'', JStr (sx_client_name c)),
                  (''timestamp'', JStr (iso_text (sx_timestamp c)))]) (\<lambda>_. ret c))"

definition status_of_doc :: "pydantic \<Rightarrow> string \<Rightarrow> int \<Rightarrow> doc \<Rightarrow> status_check res" where
  "status_of_doc py uid now d =
     rbind (parse_date_field py ''timestamp'' (strip_id d)) (\<lambda>d.
     rbind (field_dflt (to_str py) uid d ''id'') (\<lambda>a.
     rbind (field_req (to_str py) d ''client_name'') (\<lambda>b.
     rbind (field_dflt (to_date py) now d ''timestamp'') (\<lambda>c.
     Inr \<lparr>sx_id = a, sx_client_name = b, sx_timestamp = c\<rparr>))))"

definition list_status_checks :: "pydantic \<Rightarrow> 'w mongo \<Rightarrow> string \<Rightarrow> int \<Rightarrow> (status_check list, 'w) io" where
  "list_status_checks py db uid now =
     andthen (find_all db ''status_checks'' (\<lambda>_. True)) (\<lambda>ds.
       pure (all_res (status_of_doc py uid now) (take 1000 ds)))"

section \<open>Request log and rate limit\<close>

text \<open>The log is the first component of the world: identifier and status of each request, 500 when the application raised.\<close>

definition log_dispatch ::
  "string \<Rightarrow> string option \<Rightarrow> string \<Rightarrow> (http_reply, 'w) io \<Rightarrow> (http_reply, (string \<times> int) list \<times> 'w) io" where
  "log_dispatch header_name given fresh call_next p =
     (let request_id = (case given of Some s \<Rightarrow> if s = [] then fresh else s | None \<Rightarrow> fresh) in
      case call_next (snd p) of
        (Inl e, w) \<Rightarrow> (Inl e, fst p @ [(request_id, 500)], w)
      | (Inr response, w) \<Rightarrow>
          (Inr (response\<lparr>rs_headers := put header_name request_id (rs_headers response)\<rparr>),
           fst p @ [(request_id, rs_status response)], w))"

definition default_limit_string :: "settings \<Rightarrow> string" where
  "default_limit_string cfg = int_str (rate_limit_per_minute cfg) @ ''/minute''"

definition rate_limit_exceeded :: "string \<Rightarrow> nat \<times> json" where
  "rate_limit_exceeded detail =
     (429, JObj [(''error'', JObj [(''code'', JStr ''rate_limited''), (''message'', JStr ''Too many requests.''),
        (''details'', JObj [(''limit'', JStr detail)])])])"

section \<open>Start and end of the application\<close>

text \<open>
  \<open>lifespan\<close>. The worker is the singleton, if there is one already; whatever keeps it from starting
  is logged and dropped.
\<close>

definition lifespan_start :: "settings \<Rightarrow> (unit, 'w) io \<Rightarrow> worker option \<Rightarrow> (worker option, 'w) io" where
  "lifespan_start cfg ensure_indexes cached =
     andthen ensure_indexes (\<lambda>_.
       ret (if indexer_enabled cfg \<and> bagsvault_program_id cfg \<noteq> []
            then (case get_indexer_worker cfg cached None of Inl e \<Rightarrow> None | Inr k \<Rightarrow> Some (start k))
            else None))"

definition lifespan_end :: "(unit, 'w) io \<Rightarrow> worker option \<Rightarrow> (worker option, 'w) io" where
  "lifespan_end close_db worker = andthen close_db (\<lambda>_. ret (map_option stop worker))"

section \<open>Lemmas\<close>

text \<open>A wallet has signed the request: its address and a message with its signature are in the headers.\<close>

definition wallet_signed :: "auth_lib \<Rightarrow> (string \<Rightarrow> string option) \<Rightarrow> string \<Rightarrow> bool" where
  "wallet_signed lib headers a \<longleftrightarrow>
     (\<exists>msg sg. headers ''X-Wallet-Address'' = Some a \<and> headers ''X-Wallet-Message'' = Some msg
        \<and> headers ''X-Wallet-Signature'' = Some sg \<and> signed_by lib a msg sg)"

text \<open>A request refused with 401 before anything was called.\<close>

definition turned_away :: "'a res \<times> 'w \<Rightarrow> 'w \<Rightarrow> bool" where
  "turned_away r w \<longleftrightarrow> (\<exists>m d. r = (Inl (Domain AuthError m d), w))"

lemma wallet_signedI:
  assumes "require_wallet lib cfg now_us headers = Inr a"
  shows "wallet_signed lib headers a"
  using require_wallet_signed [OF assms] unfolding wallet_signed_def by metis

lemma owner_only_cases:
  assumes "\<And>x e. b58decode lib x = Inl e \<Longrightarrow> decode_caught e"
  shows "(wallet_signed lib headers requested \<and> owner_only lib cfg headers now_us field requested handler w = handler w)
    \<or> turned_away (owner_only lib cfg headers now_us field requested handler w) w"
proof (cases "require_wallet lib cfg now_us headers")
  case (Inl e)
  then obtain m d where "e = Domain AuthError m d" by (rule require_wallet_refusal [rotated]) (use assms in blast)+
  with Inl show ?thesis by (simp add: owner_only_def turned_away_def)
next
  case (Inr wallet)
  show ?thesis
  proof (cases "wallet = requested")
    case True
    with Inr wallet_signedI [OF Inr] show ?thesis by (simp add: owner_only_def)
  next
    case False
    with Inr show ?thesis by (simp add: owner_only_def turned_away_def owner_mismatch_def)
  qed
qed

lemma any_wallet_cases:
  assumes "\<And>x e. b58decode lib x = Inl e \<Longrightarrow> decode_caught e"
  shows "((\<exists>a. wallet_signed lib headers a) \<and> any_wallet lib cfg headers now_us handler w = handler w)
    \<or> turned_away (any_wallet lib cfg headers now_us handler w) w"
proof (cases "require_wallet lib cfg now_us headers")
  case (Inl e)
  then obtain m d where "e = Domain AuthError m d" by (rule require_wallet_refusal [rotated]) (use assms in blast)+
  with Inl show ?thesis by (simp add: any_wallet_def turned_away_def)
next
  case (Inr a)
  with wallet_signedI [OF Inr] show ?thesis by (auto simp: any_wallet_def)
qed

lemma register_token_owner:
  "register_token lib s headers now_us uid now p
     = owner_only lib (tk_settings s) headers now_us ''creator_wallet'' (tr_creator_wallet p) (tokens_register s uid now p)"
  by (simp add: register_token_def owner_only_def owner_mismatch_def cong: if_cong)

lemma check_mongo_result:
  "ping w = (r, w1) \<Longrightarrow> \<exists>d. check_mongo ping w = (Inr d, w1) \<and> (jget d ''status'' = JStr ''up'' \<longleftrightarrow> r = Inr ())"
  by (cases r) (auto simp: check_mongo_def catching_def andthen_def jget_def)

lemma rpc_health_up:
  "jget (rpc_health_of cfg r) ''status'' = JStr ''up'' \<longleftrightarrow>
     http_status r = 200 \<and> (\<exists>b. http_json r = Some (JObj b) \<and> jget b ''result'' = JStr ''ok'')"
  by (auto simp: rpc_health_of_def degraded_def jget_def [of "_ # _"] Let_def split: option.splits json.splits)

section \<open>Properties\<close>

text \<open>Nothing is built or registered for a wallet that has not signed. On the claim, swap-to-deposit, claim-to-deposit and
  token routes, either the wallet that the body names has signed the request, and the route is the service call, or the
  request is refused with 401 and neither upstream, database nor node is touched. A swap quote and the
  registration of a deposit take the signature of any wallet: the creator named in a deposit is not compared.\<close>

theorem owner_gated_routes:
  assumes lib: "\<forall>x e. b58decode lib x = Inl e \<longrightarrow> decode_caught e"
  shows "((wallet_signed lib headers (cf_creator_wallet p1)
             \<and> claim_fees_endpoint lib cfg fmt bags headers now_us p1 w
               = claim_fees fmt bags (cf_creator_wallet p1) (cf_token_mint p1) w)
          \<or> turned_away (claim_fees_endpoint lib cfg fmt bags headers now_us p1 w) w)
    \<and> ((wallet_signed lib headers (sd_depositor_pubkey p2)
             \<and> swap_to_deposit_endpoint lib cfg sol bags headers now_us p2 w
               = build_swap_chain sol cfg bags (sq_input_mint p2) (sq_output_mint p2) (sq_amount p2) (sq_slippage_bps p2)
                   (sd_depositor_pubkey p2) (sd_commitment_hex p2) w)
          \<or> turned_away (swap_to_deposit_endpoint lib cfg sol bags headers now_us p2 w) w)
    \<and> ((wallet_signed lib headers (cd_creator_wallet p3)
             \<and> claim_to_deposit_endpoint lib cfg fmt sol bags headers now_us p3 w
               = build_claim_chain fmt sol cfg bags (cd_creator_wallet p3) (cd_token_mint p3) (cd_commitment_hex p3) w)
          \<or> turned_away (claim_to_deposit_endpoint lib cfg fmt sol bags headers now_us p3 w) w)
    \<and> ((wallet_signed lib headers (tr_creator_wallet p4)
             \<and> register_token lib ts headers now_us uid now p4 w4 = tokens_register ts uid now p4 w4)
          \<or> turned_away (register_token lib ts headers now_us uid now p4 w4) w4)
    \<and> (((\<exists>a. wallet_signed lib headers a)
             \<and> register_deposit lib cfg ds headers now_us uid now p5 w5 = Deposit.register ds uid now p5 w5)
          \<or> turned_away (register_deposit lib cfg ds headers now_us uid now p5 w5) w5)"
  unfolding claim_fees_endpoint_def swap_to_deposit_endpoint_def claim_to_deposit_endpoint_def register_token_owner register_deposit_def
  by (intro conjI owner_only_cases any_wallet_cases) (use lib in blast)+

theorem owner_gated_routes_witness:
  "\<forall>(bags :: unit bags_api) w.
     turned_away (claim_fees_endpoint demo_auth_lib default_settings (\<lambda>_. []) bags (demo_headers demo_line) (unix_us demo_issued)
        \<lparr>cf_creator_wallet = ''mallory'', cf_token_mint = None\<rparr> w) w"
proof (intro allI)
  fix bags :: "unit bags_api" and w
  have lib: "\<forall>x e. b58decode demo_auth_lib x = Inl e \<longrightarrow> decode_caught e"
    by (auto simp: demo_auth_lib_def decode_caught_def split: if_splits)
  have "\<not> wallet_signed demo_auth_lib (demo_headers demo_line) ''mallory''"
    by (simp add: wallet_signed_def demo_wallet_def eval_nat_numeral)
  moreover note owner_gated_routes [where headers = "demo_headers demo_line" and cfg = default_settings
      and ?p1.0 = "\<lparr>cf_creator_wallet = ''mallory'', cf_token_mint = None\<rparr>" and bags = bags and w = w
      and fmt = "\<lambda>_. []" and now_us = "unix_us demo_issued" and lib = demo_auth_lib, OF lib, THEN conjunct1]
  ultimately show "turned_away (claim_fees_endpoint demo_auth_lib default_settings (\<lambda>_. []) bags (demo_headers demo_line) (unix_us demo_issued)
        \<lparr>cf_creator_wallet = ''mallory'', cf_token_mint = None\<rparr> w) w" by simp
qed

text \<open>What the health route says. It is \<open>ok\<close> exactly when the database answers the ping and the node answers with
  status 200 and the JSON result \<open>ok\<close>; any other answer, and any error of the HTTP client's own family, makes it
  degraded and is not raised. But an exception outside that family, such as the one for a malformed URL, is raised
  through the route, which means never to throw.\<close>

theorem health_exact:
  assumes ping: "ping w = (pr, w1)"
    and post: "post (solana_rpc_url cfg) (JObj [(''jsonrpc'', JStr ''2.0''), (''id'', JInt 1), (''method'', JStr ''getHealth'')]) w1 = (rr, w2)"
  shows "(case rr of
      Inl e \<Rightarrow> if is_http_error e then \<exists>d. health cfg ping post w = (Inr d, w2) \<and> jget d ''status'' = JStr ''degraded''
               else health cfg ping post w = (Inl e, w2)
    | Inr r \<Rightarrow> \<exists>d. health cfg ping post w = (Inr d, w2) \<and>
        jget d ''status'' = JStr (if pr = Inr () \<and> http_status r = 200 \<and>
            (\<exists>b. http_json r = Some (JObj b) \<and> jget b ''result'' = JStr ''ok'') then ''ok'' else ''degraded''))"
proof -
  obtain m where m: "check_mongo ping w = (Inr m, w1)" "jget m ''status'' = JStr ''up'' \<longleftrightarrow> pr = Inr ()"
    using check_mongo_result [of ping w pr w1] ping by blast
  show ?thesis
  proof (cases rr)
    case (Inl e)
    with post m show ?thesis
      by (auto simp: health_def andthen_def check_solana_rpc_def catching_def Let_def jget_def)
  next
    case (Inr r)
    with post have "check_solana_rpc cfg post w1 = (Inr (rpc_health_of cfg r), w2)"
      by (simp add: check_solana_rpc_def catching_def andthen_def)
    with Inr m rpc_health_up [of cfg r] show ?thesis
      by (auto simp: health_def andthen_def Let_def jget_def [of "_ # _"])
  qed
qed

theorem health_exact_witness:
  "health default_settings (ret ()) (\<lambda>url body. throw (Other ''InvalidURL'' url)) () =
     (Inl (Other ''InvalidURL'' ''https://api.devnet.solana.com''), ())
   \<and> (\<exists>d. health default_settings (ret ())
        (\<lambda>url body. ret \<lparr>http_status = 200, http_text = [], http_json = Some (JObj [(''result'', JStr ''ok'')])\<rparr>) () = (Inr d, ())
        \<and> jget d ''status'' = JStr ''ok'')"
proof -
  have p: "ret () () = (Inr (), ())" by simp
  have bad: "throw (Other ''InvalidURL'' (solana_rpc_url default_settings)) () =
      (Inl (Other ''InvalidURL'' ''https://api.devnet.solana.com''), ())" by (simp add: default_settings_def)
  have good: "ret \<lparr>http_status = 200, http_text = [], http_json = Some (JObj [(''result'', JStr ''ok'')])\<rparr> () =
      (Inr \<lparr>http_status = 200, http_text = [], http_json = Some (JObj [(''result'', JStr ''ok'')])\<rparr>, ())" by simp
  from health_exact [where ping = "ret ()" and post = "\<lambda>url body. throw (Other ''InvalidURL'' url)", OF p bad]
    health_exact [where ping = "ret ()" and post = "\<lambda>url body. ret \<lparr>http_status = 200, http_text = [],
      http_json = Some (JObj [(''result'', JStr ''ok'')])\<rparr>" and cfg = default_settings, OF p good]
  show ?thesis by (simp add: is_http_error_def http_errors_def jget_def [of "[(''result'', JStr ''ok'')]"])
qed

end
