(* ===== verification/Spec2Isabelle.thy ===== *)
theory Spec2Isabelle
  imports Circuit Entry Anonymity RelayRace Anchor DepositBuilder Deposit ZkProof Auth Idempotency Compliance Tokens BuildVk Scripts SolanaWs Routers
begin

text \<open>
  BagsVault is a shielded pool on Solana. Depositors publish a commitment with an
  on-chain deposit; later a proof of knowledge of one of the commitments pays the
  pool's denomination out to a fresh address, through a relayer that signs and pays for
  the transaction. This development models the Python backend under
  \<open>src/backend/app\<close>: the services, their clients and the records they exchange, and the Rust
  program under \<open>src/programs/bagsvault\<close> that the backend's instructions run on, and the
  circuit under \<open>src/circuits\<close> that a withdrawal proof is about.

  \<^bold>\<open>How the parts interact.\<close> A deposit is prepared by \<open>deposit_builder\<close> (or
  the swap and claim chains), sent by the wallet, and registered by \<open>deposit_service\<close>, which
  asks the node for the transaction, gives the commitment the next Merkle index and kicks
  \<open>merkle_indexer\<close>; the worker polls the indexer. A withdrawer asks
  \<open>routers/anonymity\<close> for a Merkle path and \<open>zk_proof_service\<close> for a proof, and
  posts both to \<open>withdrawal_service\<close>, which guards the nullifier, picks a relayer from
  \<open>relayer_service\<close>, builds the instruction, signs with \<open>solana_signer\<close> and sends
  through \<open>tx_executor\<close> or straight to \<open>solana_rpc\<close>. \<open>auth\<close> and the
  idempotency middleware stand in front of the writing routes; \<open>compliance_service\<close> screens wallets.

  \<^bold>\<open>How code is modelled.\<close> A coroutine is a function of a world (\<open>Effects\<close>): it
  returns an exception or a value, and the world it leaves. The world is a type variable
  that stands for the database, the node, the clock and the files; a call into them is
  a field of a record of functions, an argument of the definitions. The program's own mutable
  objects (RPC and REST clients, signer, decoder, worker) are explicit records. A domain
  error of \<open>exceptions.py\<close> is \<open>Domain\<close> with its class, message and details,
  any other Python exception \<open>Other\<close> with type name and text (\<open>Errors\<close>). JSON
  values and documents are a datatype (\<open>Prelude\<close>), strings are HOL strings with one
  character per code point below 256.

  \<^bold>\<open>Theories, from the bottom up.\<close>
  \<^item> \<open>Prelude\<close>, \<open>Errors\<close>, \<open>Effects\<close>: values, exceptions and their HTTP shape, sequencing,
    catching, and invariants of computations (\<open>keeps\<close>).
  \<^item> \<open>PyBytes\<close>, \<open>Base64\<close>, \<open>Sha256\<close>: the byte operations of the standard library and the locale
    \<open>codec\<close>, of which every field encoding of the instruction data is an interpretation.
  \<^item> \<open>Config\<close>: \<open>config.py\<close>.
  \<^item> \<open>MerklePath\<close>, \<open>MerkleTree\<close>: \<open>get_merkle_path\<close> of \<open>routers/anonymity.py\<close>
    and its correctness against the tree over the leaves: the cached left siblings are exact, a
    path folds to the root, and the siblings the endpoint returns for right children do not.
  \<^item> \<open>Instructions\<close>: the withdraw instruction builders and request decoding of
    \<open>withdrawal_service.py\<close>; solders is a parameter.
  \<^item> \<open>Signer\<close>, \<open>SolanaRpc\<close>, \<open>TxExecutor\<close>: the clients of those names; the locale
    \<open>rpc_contract\<close> is what the executor relies on, interpreted by the client.
  \<^item> \<open>Store\<close>, \<open>Models\<close>: indexes of \<open>database.py\<close>, the locale \<open>mongo\<close> with the documented behaviour
    of the driver and its interpretation by a store of lists, and the pydantic models with the locale
    \<open>pydantic_laws\<close>.
  \<^item> \<open>Relayers\<close>, \<open>Withdrawal\<close>, \<open>Deposit\<close>, \<open>Indexer\<close>, \<open>Anchor\<close>, \<open>SolanaWs\<close>: the services, the worker, the
    account decoder and the subscription client with its reconnect loop. Deposits are also a step relation of interleaved registrations with
    an invariant by rule induction and a refinement of an append-only log.
  \<^item> \<open>Anonymity\<close>: the routes of \<open>routers/anonymity.py\<close> over the database, with the locale \<open>sorted_query\<close>, and
    the path endpoint over the log that interleaved registrations leave.
  \<^item> \<open>RelayRace\<close>: the relay cut at its awaits, the pieces run alone (\<open>relay_is_run\<close>) and interleaved.
  \<^item> \<open>DepositBuilder\<close>: both deposit builders, the swap and claim chains and \<open>bags_service\<close>.
  \<^item> \<open>ZkProof\<close>: \<open>zk_proof_service.py\<close> and \<open>routers/proofs.py\<close>.
  \<^item> \<open>ChainTree\<close>: \<open>merkle.rs\<close> and the root window of \<open>state.rs\<close>, with the tree they implement and
    the path endpoint compared with it.
  \<^item> \<open>Chain\<close>: every instruction of the on-chain program over a ledger, and runs of them
    interleaved with what other programs do, as an inductive relation.
  \<^item> \<open>ChainLog\<close>: the pools along such a run, as logs of the deposits.
  \<^item> \<open>Entry\<close>: how instruction data and account list become an instruction of the program, and what becomes of
    the instructions that the backend builds.
  \<^item> \<open>ProofChain\<close>: the public inputs of a proof as the service writes and the program rebuilds them.
  \<^item> \<open>Circuit\<close>: \<open>main.nr\<close>, the service's inputs against it, what a proof shows about the tree, and what the
    free leaf index allows.
  \<^item> \<open>Auth\<close>, \<open>Idempotency\<close>: \<open>auth.py\<close> and \<open>middleware/idempotency.py\<close>.
  \<^item> \<open>RestClients\<close>, \<open>Compliance\<close>: the Bags and Range clients with the locale \<open>bags_contract\<close>, the
    risk-scan model and its cached service.
  \<^item> \<open>Tokens\<close>: the project-token registry of \<open>token_service.py\<close>, its metadata cache and router.
  \<^item> \<open>Routers\<close>: the remaining routes with their wallet gates, request log, rate-limit answer and \<open>main.py\<close>'s
    start and end.
  \<^item> \<open>BuildVk\<close>: \<open>scripts/build_vk.py\<close>, from the ceremony's JSON key to the Rust constants, with the
    line wrapping of the generated file and a reader for it.
  \<^item> \<open>Scripts\<close>: the pool initialiser, the relayer seeder, the faucet client, the token launcher and the
    proof smoke test under \<open>scripts\<close>.

  \<^bold>\<open>What the theorems show.\<close> Each property stands after a numbered text. In groups: the
  encodings decode to what was encoded; the retry, polling and replay loops end within
  their bounds and keep their tables exact; a spent nullifier is refused, a relay that fails
  stores nothing and one that succeeds stores its record; registration is an append-only log
  under every interleaving; interleaved relays store one record per nullifier, though two may be
  sent; a generated proof is one the relay accepts and its root is that of the tree; the on-chain
  tree is the padded tree over all deposits and knows its last ten roots; on chain a nullifier pays once and
  an SPL withdrawal moves exactly the denomination, while SOL cannot leave its vault, a caller may bring
  its own verifier, and the two sides encode large keys differently; the circuit is satisfied by what the service
  proves and ties a proof to a leaf, but not the nullifier hash to its position, so that one deposit can be
  withdrawn twice; of the backend's instructions the program takes the SOL deposit, and refuses the SPL
  withdrawal and the initialisation;
  the wallet check lets in exactly the signed and timely messages; a keyed
  request is executed once while its record lives; clients without a key send nothing; scans are cached as answered;
  a mint belongs to its first creator and shown metadata is at most a minute old; the generated key
  file reads back to the key; the scripts' guards and the reconnect schedule are exact; the writing
  routes serve the wallet that signed.
  Where the code does not do what it says, the theorem states what it does.

  \<^bold>\<open>Loops and fuel.\<close> Loops over data are structural recursion. The retry loop runs on the configured
  number of attempts. The polling loops are \<open>partial_function (option)\<close>, so that not returning is a
  value of its own, and are proved to return when the clock advances. SHA-256 recurses on
  the length of the padded message. Nothing is evaluated with made-up fuel.

  \<^bold>\<open>Assumptions.\<close> The laws of \<open>mongo\<close> (reads change nothing, unique indexes, an insertion that
  raised \<open>DuplicateKeyError\<close> stored nothing; documents are seen without the \<open>_id\<close> that the driver adds) and of \<open>pydantic_laws\<close> (a value of the declared type is taken
  as it is), each with an interpretation. The on-chain program runs on the record \<open>vm\<close>: the system program's
  transfer takes from its payer only (\<open>transfer_law\<close>), the token program moves what the source holds when its
  owner signs (\<open>token_law\<close>), the runtime refuses a program that lowers the lamports of an account it does not
  own (\<open>runtime_law\<close>), a wallet that holds lamports can transfer them (\<open>lamport_law\<close>), derived addresses differ (\<open>addresses_apart\<close>), a call of a verifier changes no account of the
  pool, and the Poseidon hash is total on the inputs it accepts (\<open>hash_is\<close>, which leaves open which those are; the tests of the
  program deposit values above the modulus, light-poseidon documents that it refuses them); one machine in \<open>Chain\<close> satisfies all. Where the
  circuit meets the program, both compute the same Poseidon (\<open>same_poseidon\<close>) and what the circuit accepts has
  a proof (\<open>groth16_complete\<close>), and the inputs it accepts are the canonical elements. No property takes a hash to be injective:
  that a path does not lead to a root is stated up to a collision between the particular pairs that two walks hash
  (\<open>walks_collide\<close>), membership for a proof whose walk does not collide with the tree (\<open>no_collision\<close>). The dispatcher that the framework generates is a parameter of \<open>Entry\<close>
  that knows a function by the hash of its name (\<open>routes\<close>). Where a property needs the clock to advance, exact
  integers among doubles, or a parser that inverts its printer, it says so in a hypothesis and a witness
  satisfies it.

  \<^bold>\<open>Not modelled.\<close> FastAPI, Starlette, slowapi and pydantic themselves, the construction of the
  application object, log lines of the services, terminal output, the frontend, and on chain the pairing check
  with its key, compute limits and rent beyond the funding of new accounts. The expiry of documents is not a step of the
  database: what is said of a stored record is said for the states in which it is still there
  (\<open>replay_exact\<close>, \<open>expired_key_executes\<close>). The number of attempts that \<open>send\<close> notes for its report is that of one
  execution; in the source concurrent sends share it.
\<close>

end
